(* ===== verification/Prelude.thy ===== *)
theory Prelude
  imports Complex_Main "HOL-Library.Word" "HOL-Library.AList" "HOL-Library.Monad_Syntax"
begin

text \<open>
  Shared vocabulary of the development: the machine integers of the Go code, Go maps as
  association lists, and the lemmas on them that every component uses.

  \<^item> \<open>byte\<close>, \<open>u32\<close>, \<open>u64\<close> are Go's \<open>byte\<close>, \<open>uint32\<close> and \<open>uint64\<close>; their \<open>+\<close> and \<open>-\<close>
    wrap around as in Go.
  \<^item> Go's \<open>int\<close> (64 bits on the platforms the relay runs on) is HOL's \<open>int\<close>.
    Where the code guards against overflow (the reserve computations) the guards are
    modelled with \<open>MaxInt\<close> and the results are proved to stay within it.
  \<^item> A Go map that is iterated or whose \<open>len\<close> is taken is an association list with distinct
    keys; a map that is only looked up and written is a HOL map.
  \<^item> A Go panic is \<open>None\<close> in the \<open>option\<close> monad; an error return is a value.
\<close>

type_synonym byte = "8 word"
type_synonym u32 = "32 word"
type_synonym u64 = "64 word"

abbreviation MaxInt :: int where "MaxInt \<equiv> 9223372036854775807"
abbreviation MaxUint32 :: int where "MaxUint32 \<equiv> 4294967295"

text \<open>Go's \<open>len\<close> of a slice or a string.\<close>

abbreviation len :: "'a list \<Rightarrow> int" where "len xs \<equiv> int (length xs)"

named_theorems outcome_simps \<open>evaluation of the outcome (panic or result) of an operation\<close>
named_theorems frame_rules \<open>fields an operation leaves unchanged\<close>
named_theorems inv_defs \<open>definitions of the invariants' parts\<close>

subsection \<open>Association lists as Go maps\<close>

type_synonym ('k, 'v) assoc = "('k \<times> 'v) list"

definition keys :: "('k, 'v) assoc \<Rightarrow> 'k set" where
  "keys al = fst ` set al"

definition distinct_keys :: "('k, 'v) assoc \<Rightarrow> bool" where
  "distinct_keys al \<longleftrightarrow> distinct (map fst al)"

lemma keys_Nil [simp]: "keys [] = {}"
  by (simp add: keys_def)

lemma keys_Cons [simp]: "keys ((k, v) # al) = insert k (keys al)"
  by (simp add: keys_def)

lemma distinct_keys_Nil [simp]: "distinct_keys []"
  by (simp add: distinct_keys_def)

lemma distinct_keys_Cons [simp]:
  "distinct_keys ((k, v) # al) \<longleftrightarrow> k \<notin> keys al \<and> distinct_keys al"
  by (simp add: distinct_keys_def keys_def)

lemma finite_keys [simp]: "finite (keys al)"
  by (simp add: keys_def)

lemma keys_iff_map_of: "k \<in> keys al \<longleftrightarrow> map_of al k \<noteq> None"
  by (simp add: keys_def map_of_eq_None_iff)

lemma map_of_keys: "map_of al k = Some v \<Longrightarrow> k \<in> keys al"
  by (simp add: keys_iff_map_of)

lemma map_of_None_keys: "map_of al k = None \<longleftrightarrow> k \<notin> keys al"
  by (simp add: keys_iff_map_of)

lemma keys_update [simp]: "keys (AList.update k v al) = insert k (keys al)"
proof -
  have "set (map fst (AList.update k v al)) = insert k (set (map fst al))"
    by (auto simp: update_keys)
  then show ?thesis by (simp add: keys_def)
qed

lemma distinct_keys_update [simp]: "distinct_keys al \<Longrightarrow> distinct_keys (AList.update k v al)"
  by (simp add: distinct_keys_def distinct_update)

lemma keys_delete [simp]: "keys (AList.delete k al) = keys al - {k}"
  by (force simp: keys_def AList.delete_eq)

lemma distinct_keys_delete [simp]: "distinct_keys al \<Longrightarrow> distinct_keys (AList.delete k al)"
  by (simp add: distinct_keys_def distinct_delete)

lemma map_of_update [simp]: "map_of (AList.update k v al) = (map_of al)(k \<mapsto> v)"
  by (rule update_conv')

lemma map_of_delete [simp]: "map_of (AList.delete k al) = (map_of al)(k := None)"
  by (rule delete_conv')

lemma delete_idem_iff: "k \<notin> keys al \<Longrightarrow> AList.delete k al = al"
  by (induction al) auto

lemma card_keys: "distinct_keys al \<Longrightarrow> card (keys al) = length al"
  using distinct_card [of "map fst al"] by (simp add: distinct_keys_def keys_def)

text \<open>The total of a measure over a Go map, and how writes and deletes change it.\<close>

definition sum_vals :: "('v \<Rightarrow> int) \<Rightarrow> ('k, 'v) assoc \<Rightarrow> int" where
  "sum_vals f al = (\<Sum>(k, v) \<leftarrow> al. f v)"

lemma sum_vals_Nil [simp]: "sum_vals f [] = 0"
  by (simp add: sum_vals_def)

lemma sum_vals_Cons [simp]: "sum_vals f ((k, v) # al) = f v + sum_vals f al"
  by (simp add: sum_vals_def)

lemma sum_vals_append [simp]: "sum_vals f (al @ bl) = sum_vals f al + sum_vals f bl"
  by (simp add: sum_vals_def)

lemma sum_vals_update:
  "sum_vals f (AList.update k v al) =
     sum_vals f al + f v - (case map_of al k of None \<Rightarrow> 0 | Some w \<Rightarrow> f w)"
  by (induction al) (auto split: option.splits)

lemma sum_vals_update_Some:
  "map_of al k = Some w \<Longrightarrow> sum_vals f (AList.update k v al) = sum_vals f al + f v - f w"
  by (simp add: sum_vals_update)

lemma sum_vals_update_None:
  "k \<notin> keys al \<Longrightarrow> sum_vals f (AList.update k v al) = sum_vals f al + f v"
  by (simp add: sum_vals_update flip: map_of_None_keys)

lemma sum_vals_delete:
  "distinct_keys al \<Longrightarrow> map_of al k = Some w \<Longrightarrow> sum_vals f (AList.delete k al) = sum_vals f al - f w"
proof (induction al)
  case Nil
  then show ?case by simp
next
  case (Cons p al)
  obtain k' v where p: "p = (k', v)" by (cases p)
  show ?case
    using Cons p by (auto simp: delete_idem_iff dest: map_of_keys)
qed

lemma sum_vals_nonneg: "(\<And>k v. (k, v) \<in> set al \<Longrightarrow> 0 \<le> f v) \<Longrightarrow> 0 \<le> sum_vals f al"
  by (induction al) fastforce+

lemma sum_vals_ge_member:
  "(\<And>k v. (k, v) \<in> set al \<Longrightarrow> 0 \<le> f v) \<Longrightarrow> (k, v) \<in> set al \<Longrightarrow> f v \<le> sum_vals f al"
proof (induction al)
  case (Cons p al)
  obtain k' w where p: "p = (k', w)" by (cases p)
  have rest: "0 \<le> sum_vals f al" by (rule sum_vals_nonneg) (use Cons.prems(1) in auto)
  show ?case
  proof (cases "(k, v) = p")
    case True
    with rest p show ?thesis by simp
  next
    case False
    with Cons.prems(2) have "(k, v) \<in> set al" by auto
    with Cons have "f v \<le> sum_vals f al" by (meson list.set_intros(2))
    moreover have "0 \<le> f w" using Cons.prems(1) [of k' w] p by simp
    ultimately show ?thesis using p by simp
  qed
qed simp

lemma sum_vals_cong: "(\<And>k v. (k, v) \<in> set al \<Longrightarrow> f v = g v) \<Longrightarrow> sum_vals f al = sum_vals g al"
  by (induction al) fastforce+

lemma length_update_None: "k \<notin> keys al \<Longrightarrow> length (AList.update k v al) = Suc (length al)"
  by (induction al) auto

lemma length_update_Some: "k \<in> keys al \<Longrightarrow> length (AList.update k v al) = length al"
  by (induction al) auto

lemma set_update_subset: "set (AList.update k v al) \<subseteq> insert (k, v) (set al)"
  by (induction al) auto

lemma map_of_in_set: "map_of al k = Some v \<Longrightarrow> (k, v) \<in> set al"
  by (rule map_of_SomeD)

lemma in_set_map_of: "distinct_keys al \<Longrightarrow> (k, v) \<in> set al \<longleftrightarrow> map_of al k = Some v"
  by (simp add: distinct_keys_def)

text \<open>
  A property of all values of a map, over the keys: the form in which the invariants state
  what holds of every stream and of every lane.
\<close>

definition all_vals :: "('k \<Rightarrow> 'v \<Rightarrow> bool) \<Rightarrow> ('k, 'v) assoc \<Rightarrow> bool" where
  "all_vals P al \<longleftrightarrow> list_all (\<lambda>(k, v). P k v) al"

lemma all_valsD: "all_vals P al \<Longrightarrow> map_of al k = Some v \<Longrightarrow> P k v"
  by (auto simp: all_vals_def list_all_iff dest: map_of_SomeD)

lemma all_vals_Nil [simp]: "all_vals P []"
  by (simp add: all_vals_def)

lemma all_vals_update [intro]: "all_vals P al \<Longrightarrow> P k v \<Longrightarrow> all_vals P (AList.update k v al)"
  using set_update_subset [of k v al] by (fastforce simp: all_vals_def list_all_iff)

lemma all_vals_delete [intro]: "all_vals P al \<Longrightarrow> all_vals P (AList.delete k al)"
  by (auto simp: all_vals_def list_all_iff AList.delete_eq)

lemma all_vals_mono: "all_vals P al \<Longrightarrow> (\<And>k v. P k v \<Longrightarrow> Q k v) \<Longrightarrow> all_vals Q al"
  by (auto simp: all_vals_def list_all_iff)

lemma sum_vals_nonneg_vals: "all_vals (\<lambda>k v. 0 \<le> f v) al \<Longrightarrow> 0 \<le> sum_vals f al"
  by (rule sum_vals_nonneg) (auto simp: all_vals_def list_all_iff)

lemma sum_vals_ge_val:
  "all_vals (\<lambda>k v. 0 \<le> f v) al \<Longrightarrow> map_of al k = Some v \<Longrightarrow> f v \<le> sum_vals f al"
  by (rule sum_vals_ge_member [of al f k]) (auto simp: all_vals_def list_all_iff dest: map_of_SomeD)

subsection \<open>Sums over lists\<close>

lemma sum_list_nonneg_int: "(\<And>x. x \<in> set xs \<Longrightarrow> 0 \<le> f x) \<Longrightarrow> 0 \<le> (\<Sum>x \<leftarrow> xs. f x :: int)"
  by (rule sum_list_nonneg) auto

lemma concat_append_last:
  "xs \<noteq> [] \<Longrightarrow> concat (butlast xs @ [last xs @ p]) = concat xs @ p"
  by (induction xs) auto

lemma concat_butlast_last: "xs \<noteq> [] \<Longrightarrow> concat (butlast xs) @ last xs = concat xs"
  by (induction xs) auto

subsection \<open>Words\<close>

lemma unat_sub_le: "(a :: 'a::len word) \<le> b \<Longrightarrow> unat (b - a) = unat b - unat a"
  by (rule unat_sub)

lemma uint_word_of_nat_u32: "n \<le> 4294967295 \<Longrightarrow> uint (word_of_nat n :: u32) = int n"
  by (simp add: unsigned_of_nat take_bit_nat_eq_self flip: nat_eq_iff2)

lemma uint_word_of_int_u32: "0 \<le> n \<Longrightarrow> n \<le> 4294967295 \<Longrightarrow> uint (word_of_int n :: u32) = n"
  by (simp add: unsigned_of_int take_bit_int_eq_self)

lemma uint_word_of_int_u64:
  "0 \<le> n \<Longrightarrow> n \<le> 18446744073709551615 \<Longrightarrow> uint (word_of_int n :: u64) = n"
  by (simp add: unsigned_of_int take_bit_int_eq_self)

subsection \<open>Operations that must not panic\<close>

text \<open>
  \<open>ok_with m P\<close>: the operation \<open>m\<close> does not panic and its result satisfies \<open>P\<close>. The rules
  in \<open>wp_rules\<close> push it through the option monad.
\<close>

definition ok_with :: "'a option \<Rightarrow> ('a \<Rightarrow> bool) \<Rightarrow> bool" where
  "ok_with m P \<longleftrightarrow> (case m of None \<Rightarrow> False | Some r \<Rightarrow> P r)"

named_theorems wp_rules \<open>\<open>ok_with\<close> of the monad's combinators\<close>

lemma ok_with_simps [simp]: "ok_with (Some r) P \<longleftrightarrow> P r" "\<not> ok_with None P"
  by (simp_all add: ok_with_def)

lemma ok_with_bind [wp_rules]: "ok_with (m \<bind> f) P \<longleftrightarrow> ok_with m (\<lambda>r. ok_with (f r) P)"
  by (cases m) simp_all

lemma ok_with_map [wp_rules]: "ok_with (map_option f m) P \<longleftrightarrow> ok_with m (\<lambda>r. P (f r))"
  by (cases m) simp_all

lemma ok_with_Ex: "ok_with m P \<longleftrightarrow> (\<exists>r. m = Some r \<and> P r)"
  by (cases m) simp_all

lemma ok_with_mono: "ok_with m P \<Longrightarrow> (\<And>r. m = Some r \<Longrightarrow> P r \<Longrightarrow> Q r) \<Longrightarrow> ok_with m Q"
  by (cases m) simp_all

lemma ok_with_mono2:
  "ok_with m (\<lambda>(a, b). P a b) \<Longrightarrow> (\<And>a b. m = Some (a, b) \<Longrightarrow> P a b \<Longrightarrow> Q a b) \<Longrightarrow>
     ok_with m (\<lambda>(a, b). Q a b)"
  by (cases m) auto

lemma ok_with_mono3:
  "ok_with m (\<lambda>(a, b, c). P a b c) \<Longrightarrow>
     (\<And>a b c. m = Some (a, b, c) \<Longrightarrow> P a b c \<Longrightarrow> Q a b c) \<Longrightarrow>
     ok_with m (\<lambda>(a, b, c). Q a b c)"
  by (cases m) auto

lemma ok_with_ifI:
  "(c \<Longrightarrow> ok_with x P) \<Longrightarrow> (\<not> c \<Longrightarrow> ok_with y P) \<Longrightarrow> ok_with (if c then x else y) P"
  by simp

lemma ok_withD: "ok_with m P \<Longrightarrow> m = Some r \<Longrightarrow> P r"
  by simp

end
