(* ===== verification/Config.thy ===== *)
theory Config
  imports Prelude
begin

text \<open>
  The configuration the relay runs under, from \<open>internal/config/config.go\<close>: the resource
  limits and their defaults, the per-profile limits and how they are resolved against the
  global ones, the numeric part of the validation, the carrier modes and the base path.
  Decoding JSON, reading files and parsing network addresses are not modelled here.
\<close>

subsection \<open>Carrier modes\<close>

type_synonym CarrierMode = string

abbreviation CarrierHTTPS :: CarrierMode where "CarrierHTTPS \<equiv> ''https''"
abbreviation CarrierHTTPSLanes :: CarrierMode where "CarrierHTTPSLanes \<equiv> ''https-lanes''"
abbreviation CarrierWebSocket :: CarrierMode where "CarrierWebSocket \<equiv> ''websocket''"
abbreviation CarrierWebSocketLanes :: CarrierMode where
  "CarrierWebSocketLanes \<equiv> ''websocket-lanes''"

definition Valid :: "CarrierMode \<Rightarrow> bool" where
  "Valid m \<longleftrightarrow> m = CarrierHTTPS \<or> m = CarrierHTTPSLanes \<or> m = CarrierWebSocket \<or>
     m = CarrierWebSocketLanes"

definition WithDefault :: "CarrierMode \<Rightarrow> CarrierMode" where
  "WithDefault m = (if m = '''' then CarrierHTTPS else m)"

subsection \<open>Limits, timeouts and profiles\<close>

record Limits =
  MaxHeaderBytes :: int
  MaxBodyBytes :: int
  MaxFramePayload :: int
  CarrierBatchBytes :: int
  MaxStreamsPerSession :: int
  MaxClosedStreamIDs :: int
  MaxPendingPerSession :: int
  MaxPendingGlobal :: int
  MaxPendingItemsPerSession :: int
  MaxPendingItemsGlobal :: int
  MaxSessionsPerIP :: int
  MaxSessionsGlobal :: int
  MaxStreamsGlobal :: int
  MaxBackendDialsInFlight :: int
  NewSessionsPerMinute :: int
  NewSessionsBurst :: int
  NewStreamsPerMinute :: int
  NewStreamsBurst :: int
  MaxBootstrapsPerIP :: int
  MaxBootstrapsGlobal :: int
  NewBootstrapsPerMinute :: int
  NewBootstrapsBurst :: int
  MaxProfiles :: int

text \<open>A \<open>time.Duration\<close> is a number of nanoseconds.\<close>

record Timeouts =
  BackendDial :: int
  LongPoll :: int
  ReconnectGrace :: int
  BootstrapLifetime :: int
  ReadHeader :: int
  Idle :: int
  Shutdown :: int

text \<open>Go's \<open>ProfileLimits\<close>; the fields it shares with \<open>Limits\<close> carry the suffix \<open>_p\<close>.\<close>

record ProfileLimits =
  MaxSessions_p :: int
  MaxStreams_p :: int
  MaxBackendDialsInFlight_p :: int
  NewSessionsPerMinute_p :: int
  NewSessionsBurst_p :: int
  NewStreamsPerMinute_p :: int
  NewStreamsBurst_p :: int
  MaxStreamsPerSession_p :: int
  MaxPendingPerSession_p :: int

record Profile =
  Name :: string
  Backend :: string
  Carrier_Mode :: CarrierMode
  Capability :: "byte list"
  Profile_Limits :: ProfileLimits

definition Second :: int where "Second = 1000000000"

definition Default_Limits :: Limits where
  "Default_Limits = \<lparr>
     MaxHeaderBytes = 16 * 1024,
     MaxBodyBytes = 2 * 1024 * 1024,
     MaxFramePayload = 1024 * 1024,
     CarrierBatchBytes = 2 * 1024 * 1024,
     MaxStreamsPerSession = 128,
     MaxClosedStreamIDs = 4096,
     MaxPendingPerSession = 32 * 1024 * 1024,
     MaxPendingGlobal = 512 * 1024 * 1024,
     MaxPendingItemsPerSession = 16 * 1024,
     MaxPendingItemsGlobal = 256 * 1024,
     MaxSessionsPerIP = 0,
     MaxSessionsGlobal = 128,
     MaxStreamsGlobal = 4096,
     MaxBackendDialsInFlight = 256,
     NewSessionsPerMinute = 600,
     NewSessionsBurst = 128,
     NewStreamsPerMinute = 6000,
     NewStreamsBurst = 512,
     MaxBootstrapsPerIP = 0,
     MaxBootstrapsGlobal = 512,
     NewBootstrapsPerMinute = 1200,
     NewBootstrapsBurst = 256,
     MaxProfiles = 32\<rparr>"

definition Default_Timeouts :: Timeouts where
  "Default_Timeouts = \<lparr>
     BackendDial = 5 * Second,
     LongPoll = 25 * Second,
     ReconnectGrace = 2 * 60 * Second,
     BootstrapLifetime = 2 * 60 * Second,
     ReadHeader = 10 * Second,
     Idle = 75 * Second,
     Shutdown = 15 * Second\<rparr>"

subsection \<open>Resolving a profile's limits against the global ones\<close>

definition minInt :: "int \<Rightarrow> int \<Rightarrow> int" where
  "minInt x y = (if x < y then x else y)"

definition default_to :: "int \<Rightarrow> int \<Rightarrow> int" where
  "default_to v d = (if v = 0 then d else v)"

definition WithDefaults :: "ProfileLimits \<Rightarrow> Limits \<Rightarrow> ProfileLimits" where
  "WithDefaults result global =
     (let sessions = default_to (MaxSessions_p result) (MaxSessionsGlobal global);
          streams = default_to (MaxStreams_p result) (MaxStreamsGlobal global);
          dials = default_to (MaxBackendDialsInFlight_p result)
                    (minInt (MaxBackendDialsInFlight global) streams)
      in \<lparr>MaxSessions_p = sessions,
          MaxStreams_p = streams,
          MaxBackendDialsInFlight_p = dials,
          NewSessionsPerMinute_p =
            default_to (NewSessionsPerMinute_p result) (NewSessionsPerMinute global),
          NewSessionsBurst_p = default_to (NewSessionsBurst_p result) (NewSessionsBurst global),
          NewStreamsPerMinute_p =
            default_to (NewStreamsPerMinute_p result) (NewStreamsPerMinute global),
          NewStreamsBurst_p = default_to (NewStreamsBurst_p result) (NewStreamsBurst global),
          MaxStreamsPerSession_p =
            default_to (MaxStreamsPerSession_p result)
              (minInt (MaxStreamsPerSession global) streams),
          MaxPendingPerSession_p =
            default_to (MaxPendingPerSession_p result) (MaxPendingPerSession global)\<rparr>)"

datatype config_error =
    NotBetween string int
  | StreamsPerSessionExceedsStreams
  | DialsExceedStreams
  | InvalidHTTPOrFrameLimits
  | CarrierBatchTooLarge
  | NonpositiveLimit
  | NegativePerIPLimit
  | GlobalBelowPerSession
  | NonpositiveTimeout
  | BasePathTooLong
  | BasePathSlash
  | BasePathEmptySegment
  | BasePathSegment

fun first_violation :: "(string \<times> int \<times> int) list \<Rightarrow> config_error option" where
  "first_violation [] = None"
| "first_violation ((name, value, limit) # checks) =
     (if value < 0 \<or> value > limit then Some (NotBetween name limit)
      else first_violation checks)"

definition validateProfileLimits :: "ProfileLimits \<Rightarrow> Limits \<Rightarrow> config_error option" where
  "validateProfileLimits value global =
     (case first_violation
        [(''max_sessions'', MaxSessions_p value, MaxSessionsGlobal global),
         (''max_streams'', MaxStreams_p value, MaxStreamsGlobal global),
         (''max_backend_dials_in_flight'', MaxBackendDialsInFlight_p value,
            MaxBackendDialsInFlight global),
         (''new_sessions_per_minute'', NewSessionsPerMinute_p value, NewSessionsPerMinute global),
         (''new_sessions_burst'', NewSessionsBurst_p value, NewSessionsBurst global),
         (''new_streams_per_minute'', NewStreamsPerMinute_p value, NewStreamsPerMinute global),
         (''new_streams_burst'', NewStreamsBurst_p value, NewStreamsBurst global),
         (''max_streams_per_session'', MaxStreamsPerSession_p value, MaxStreamsPerSession global),
         (''max_pending_per_session'', MaxPendingPerSession_p value, MaxPendingPerSession global)]
      of Some e \<Rightarrow> Some e
       | None \<Rightarrow>
          let resolved = WithDefaults value global in
          if MaxStreamsPerSession_p resolved > MaxStreams_p resolved
          then Some StreamsPerSessionExceedsStreams
          else if MaxBackendDialsInFlight_p resolved > MaxStreams_p resolved
          then Some DialsExceedStreams
          else None)"

subsection \<open>Validation of the global limits and timeouts\<close>

abbreviation MaxCarrierBatchBytes :: int where "MaxCarrierBatchBytes \<equiv> 2097152"

definition validate_limits :: "Limits \<Rightarrow> Timeouts \<Rightarrow> config_error option" where
  "validate_limits c t =
     (if MaxHeaderBytes c < 4096 \<or> MaxBodyBytes c < 1024 \<or> MaxFramePayload c \<le> 0 \<or>
         MaxFramePayload c > 1024 * 1024 \<or> CarrierBatchBytes c < 256 * 1024 \<or>
         CarrierBatchBytes c > MaxBodyBytes c
      then Some InvalidHTTPOrFrameLimits
      else if CarrierBatchBytes c > MaxCarrierBatchBytes then Some CarrierBatchTooLarge
      else if list_ex (\<lambda>value. value \<le> 0)
        [MaxStreamsPerSession c, MaxClosedStreamIDs c, MaxPendingPerSession c,
         MaxPendingGlobal c, MaxPendingItemsPerSession c, MaxPendingItemsGlobal c,
         MaxSessionsGlobal c, MaxStreamsGlobal c, MaxBackendDialsInFlight c,
         NewSessionsPerMinute c, NewSessionsBurst c, NewStreamsPerMinute c, NewStreamsBurst c,
         MaxBootstrapsGlobal c, NewBootstrapsPerMinute c, NewBootstrapsBurst c, MaxProfiles c]
      then Some NonpositiveLimit
      else if MaxSessionsPerIP c < 0 \<or> MaxBootstrapsPerIP c < 0 then Some NegativePerIPLimit
      else if MaxPendingGlobal c < MaxPendingPerSession c \<or>
         MaxPendingItemsGlobal c < MaxPendingItemsPerSession c \<or>
         MaxSessionsGlobal c < MaxSessionsPerIP c \<or>
         MaxStreamsGlobal c < MaxStreamsPerSession c \<or>
         MaxStreamsGlobal c < MaxBackendDialsInFlight c \<or>
         MaxBootstrapsGlobal c < MaxBootstrapsPerIP c
      then Some GlobalBelowPerSession
      else if list_ex (\<lambda>value. value \<le> 0)
        [BackendDial t, LongPoll t, ReconnectGrace t, BootstrapLifetime t, ReadHeader t, Idle t,
         Shutdown t]
      then Some NonpositiveTimeout
      else None)"

subsection \<open>Base path\<close>

text \<open>Go's \<open>strings.Split\<close> on a single separator byte: always at least one piece.\<close>

fun split_on :: "char \<Rightarrow> string \<Rightarrow> string list" where
  "split_on c [] = [[]]"
| "split_on c (x # xs) =
     (if x = c then [] # split_on c xs
      else case split_on c xs of [] \<Rightarrow> [[x]] | s # ss \<Rightarrow> (x # s) # ss)"

abbreviation is_lower :: "char \<Rightarrow> bool" where
  "is_lower ch \<equiv> 97 \<le> (of_char ch :: nat) \<and> (of_char ch :: nat) \<le> 122"
abbreviation is_upper :: "char \<Rightarrow> bool" where
  "is_upper ch \<equiv> 65 \<le> (of_char ch :: nat) \<and> (of_char ch :: nat) \<le> 90"
abbreviation is_digit :: "char \<Rightarrow> bool" where
  "is_digit ch \<equiv> 48 \<le> (of_char ch :: nat) \<and> (of_char ch :: nat) \<le> 57"

definition alnum :: "char \<Rightarrow> bool" where
  "alnum ch \<longleftrightarrow> is_lower ch \<or> is_upper ch \<or> is_digit ch"

fun segment_from :: "nat \<Rightarrow> string \<Rightarrow> bool" where
  "segment_from i [] = True"
| "segment_from i (ch # rest) =
     ((alnum ch \<or> ((ch = CHR ''-'' \<or> ch = CHR ''_'') \<and> i > 0)) \<and> segment_from (Suc i) rest)"

fun segments_error :: "string list \<Rightarrow> config_error option" where
  "segments_error [] = None"
| "segments_error (segment # rest) =
     (if segment = '''' then Some BasePathEmptySegment
      else if \<not> segment_from 0 segment then Some BasePathSegment
      else segments_error rest)"

abbreviation MaxBasePathLength :: int where "MaxBasePathLength \<equiv> 128"

definition ValidateBasePath :: "string \<Rightarrow> config_error option" where
  "ValidateBasePath path =
     (if path = '''' then None
      else if len path > MaxBasePathLength then Some BasePathTooLong
      else if hd path = CHR ''/'' \<or> last path = CHR ''/'' then Some BasePathSlash
      else segments_error (split_on CHR ''/'' path))"

definition Base :: "string \<Rightarrow> string" where
  "Base basePath = (if basePath = '''' then ''/'' else ''/'' @ basePath @ ''/'')"

subsection \<open>Facts about accepted configurations\<close>

lemma first_violation_None:
  "first_violation checks = None \<longleftrightarrow> list_all (\<lambda>(name, v, l). 0 \<le> v \<and> v \<le> l) checks"
  by (induction checks rule: first_violation.induct) auto

text \<open>What the rest of the program relies on in an accepted set of global limits.\<close>

definition limits_ok :: "Limits \<Rightarrow> bool" where
  "limits_ok c \<longleftrightarrow>
     1024 \<le> MaxBodyBytes c \<and> 0 < MaxFramePayload c \<and> MaxFramePayload c \<le> 1048576 \<and>
     0 < CarrierBatchBytes c \<and> CarrierBatchBytes c \<le> MaxBodyBytes c \<and>
     0 < MaxStreamsPerSession c \<and> 0 < MaxClosedStreamIDs c \<and>
     0 < MaxPendingPerSession c \<and> MaxPendingPerSession c \<le> MaxPendingGlobal c \<and>
     0 < MaxPendingItemsPerSession c \<and> MaxPendingItemsPerSession c \<le> MaxPendingItemsGlobal c \<and>
     0 < MaxSessionsGlobal c \<and> 0 < MaxStreamsGlobal c \<and>
     MaxStreamsPerSession c \<le> MaxStreamsGlobal c \<and>
     0 < MaxBackendDialsInFlight c \<and> MaxBackendDialsInFlight c \<le> MaxStreamsGlobal c \<and>
     0 < NewSessionsPerMinute c \<and> 0 < NewSessionsBurst c \<and>
     0 < NewStreamsPerMinute c \<and> 0 < NewStreamsBurst c \<and>
     0 < MaxBootstrapsGlobal c \<and> 0 < NewBootstrapsPerMinute c \<and> 0 < NewBootstrapsBurst c"

lemma validate_limits_ok: "validate_limits c t = None \<Longrightarrow> limits_ok c"
  unfolding validate_limits_def limits_ok_def
  by (simp split: if_split_asm)

lemma Default_Limits_ok: "limits_ok Default_Limits"
  by (rule validate_limits_ok [where t = Default_Timeouts])
     (simp add: validate_limits_def Default_Limits_def Default_Timeouts_def Second_def)

definition profile_limits_ok :: "ProfileLimits \<Rightarrow> Limits \<Rightarrow> bool" where
  "profile_limits_ok p g \<longleftrightarrow>
     0 < MaxSessions_p p \<and> MaxSessions_p p \<le> MaxSessionsGlobal g \<and>
     0 < MaxStreams_p p \<and> MaxStreams_p p \<le> MaxStreamsGlobal g \<and>
     0 < MaxBackendDialsInFlight_p p \<and>
     MaxBackendDialsInFlight_p p \<le> MaxBackendDialsInFlight g \<and>
     MaxBackendDialsInFlight_p p \<le> MaxStreams_p p \<and>
     0 < NewSessionsPerMinute_p p \<and> NewSessionsPerMinute_p p \<le> NewSessionsPerMinute g \<and>
     0 < NewSessionsBurst_p p \<and> NewSessionsBurst_p p \<le> NewSessionsBurst g \<and>
     0 < NewStreamsPerMinute_p p \<and> NewStreamsPerMinute_p p \<le> NewStreamsPerMinute g \<and>
     0 < NewStreamsBurst_p p \<and> NewStreamsBurst_p p \<le> NewStreamsBurst g \<and>
     0 < MaxStreamsPerSession_p p \<and> MaxStreamsPerSession_p p \<le> MaxStreamsPerSession g \<and>
     MaxStreamsPerSession_p p \<le> MaxStreams_p p \<and>
     0 < MaxPendingPerSession_p p \<and> MaxPendingPerSession_p p \<le> MaxPendingPerSession g"

lemma WithDefaults_ok:
  assumes "validate_limits g t = None" and "validateProfileLimits v g = None"
  shows "profile_limits_ok (WithDefaults v g) g"
proof -
  have g: "limits_ok g" by (rule validate_limits_ok [OF assms(1)])
  have v: "first_violation
        [(''max_sessions'', MaxSessions_p v, MaxSessionsGlobal g),
         (''max_streams'', MaxStreams_p v, MaxStreamsGlobal g),
         (''max_backend_dials_in_flight'', MaxBackendDialsInFlight_p v, MaxBackendDialsInFlight g),
         (''new_sessions_per_minute'', NewSessionsPerMinute_p v, NewSessionsPerMinute g),
         (''new_sessions_burst'', NewSessionsBurst_p v, NewSessionsBurst g),
         (''new_streams_per_minute'', NewStreamsPerMinute_p v, NewStreamsPerMinute g),
         (''new_streams_burst'', NewStreamsBurst_p v, NewStreamsBurst g),
         (''max_streams_per_session'', MaxStreamsPerSession_p v, MaxStreamsPerSession g),
         (''max_pending_per_session'', MaxPendingPerSession_p v, MaxPendingPerSession g)] = None"
    and s: "\<not> MaxStreamsPerSession_p (WithDefaults v g) > MaxStreams_p (WithDefaults v g)"
    and d: "\<not> MaxBackendDialsInFlight_p (WithDefaults v g) > MaxStreams_p (WithDefaults v g)"
    using assms(2) unfolding validateProfileLimits_def Let_def
    by (simp_all only: option.case_eq_if split: if_splits) simp_all
  show ?thesis
    using g v s d unfolding first_violation_None
    by (simp add: profile_limits_ok_def limits_ok_def WithDefaults_def Let_def default_to_def
        minInt_def split: if_split_asm)
qed

text \<open>
  Resolving a profile never widens the global limits. When the global limits and a
  profile's limits are accepted by the validation, every limit the profile ends up with is
  positive, at most the global one, and the per-session stream and in-flight dial limits do
  not exceed the profile's own stream limit.
\<close>
theorem WithDefaults_within_global:
  assumes "validate_limits g t = None" and "validateProfileLimits v g = None"
  shows "profile_limits_ok (WithDefaults v g) g"
  by (rule WithDefaults_ok [OF assms])

theorem WithDefaults_within_global_witness:
  "profile_limits_ok
     (WithDefaults \<lparr>MaxSessions_p = 4, MaxStreams_p = 16, MaxBackendDialsInFlight_p = 0,
        NewSessionsPerMinute_p = 0, NewSessionsBurst_p = 0, NewStreamsPerMinute_p = 0,
        NewStreamsBurst_p = 0, MaxStreamsPerSession_p = 8, MaxPendingPerSession_p = 0\<rparr>
      Default_Limits) Default_Limits"
  by (rule WithDefaults_within_global [where t = Default_Timeouts])
     (simp_all add: validate_limits_def Default_Limits_def Default_Timeouts_def Second_def
        validateProfileLimits_def WithDefaults_def default_to_def minInt_def)

text \<open>One segment of a base path: \<open>[A-Za-z0-9][A-Za-z0-9_-]*\<close>.\<close>

definition segment_ok :: "string \<Rightarrow> bool" where
  "segment_ok s \<longleftrightarrow> s \<noteq> [] \<and> alnum (hd s) \<and>
     list_all (\<lambda>ch. alnum ch \<or> ch = CHR ''-'' \<or> ch = CHR ''_'') (tl s)"

lemma segment_from_tail:
  "segment_from (Suc i) s = list_all (\<lambda>ch. alnum ch \<or> ch = CHR ''-'' \<or> ch = CHR ''_'') s"
  by (induction s arbitrary: i) auto

lemma segments_error_None:
  "segments_error ss = None \<longleftrightarrow> list_all segment_ok ss"
  by (induction ss rule: segments_error.induct)
     (auto simp: segment_ok_def segment_from_tail neq_Nil_conv)

lemma split_on_nonempty [simp]: "split_on c s \<noteq> []"
  by (induction s) (auto split: list.splits)

lemma split_on_head: "s \<noteq> [] \<Longrightarrow> hd s = c \<Longrightarrow> hd (split_on c s) = []"
  by (cases s) auto

lemma split_on_single: "split_on c s = [t] \<Longrightarrow> t = s"
  by (induction s arbitrary: t) (auto split: list.splits if_splits)

lemma split_on_last: "s \<noteq> [] \<Longrightarrow> last s = c \<Longrightarrow> last (split_on c s) = []"
  by (induction s) (auto split: list.splits if_splits dest: split_on_single)

text \<open>
  The base path alphabet. A base path is accepted exactly when it is empty or at most
  128 bytes long with every \<open>/\<close>-separated segment starting with an ASCII letter or digit
  and continuing with those, \<open>-\<close> or \<open>_\<close>; so no empty, dot or dot-dot segment and no
  leading or trailing slash can occur.
\<close>
theorem ValidateBasePath_exact:
  "ValidateBasePath path = None \<longleftrightarrow>
     path = '''' \<or> (len path \<le> MaxBasePathLength \<and> list_all segment_ok (split_on CHR ''/'' path))"
proof -
  have "\<not> list_all segment_ok (split_on CHR ''/'' path)"
    if "path \<noteq> ''''" "hd path = CHR ''/'' \<or> last path = CHR ''/''"
  proof -
    have "[] \<in> set (split_on CHR ''/'' path)"
      using that split_on_head [of path] split_on_last [of path]
      by (metis hd_in_set last_in_set split_on_nonempty)
    then show ?thesis by (auto simp: list_all_iff segment_ok_def)
  qed
  then show ?thesis
    by (auto simp: ValidateBasePath_def segments_error_None)
qed

end
