(* ===== verification/Frame.thy ===== *)
theory Frame
  imports Prelude
begin

text \<open>
  The shared wire frame of \<open>internal/frame/frame.go\<close>: an 8-byte header
  (\<open>type:u8 | stream_id:u24 | payload_length:u32\<close>, big-endian) and a payload. The
  theory models the encoder, the batch parser with its error branches, the HELLO and
  WINDOW payload checks and the client-side shape check, and proves that parser and
  encoder are inverse to each other on exactly the batches the protocol allows.
\<close>

unbundle bit_operations_syntax

subsection \<open>Constants and data\<close>

abbreviation HeaderSize :: int where "HeaderSize \<equiv> 8"
abbreviation MaxPayload :: int where "MaxPayload \<equiv> 1048576"
abbreviation InitialStreamWindow :: int where "InitialStreamWindow \<equiv> 4194304"
abbreviation DataChunk :: int where "DataChunk \<equiv> 65536"
abbreviation MaxStreamID :: u32 where "MaxStreamID \<equiv> 0xFFFFFF"
abbreviation MaxBatchFrames :: nat where "MaxBatchFrames \<equiv> 4096"

text \<open>Go's \<open>type Type byte\<close>: any byte can occur, nine of them have a name.\<close>

abbreviation Open :: byte where "Open \<equiv> 0x01"
abbreviation Data :: byte where "Data \<equiv> 0x02"
abbreviation Close :: byte where "Close \<equiv> 0x03"
abbreviation Window :: byte where "Window \<equiv> 0x04"
abbreviation Ping :: byte where "Ping \<equiv> 0x05"
abbreviation Pong :: byte where "Pong \<equiv> 0x06"
abbreviation Hello :: byte where "Hello \<equiv> 0x10"
abbreviation Welcome :: byte where "Welcome \<equiv> 0x11"
abbreviation Bye :: byte where "Bye \<equiv> 0x1F"

record frame =
  Type :: byte
  StreamID :: u32
  Payload :: "byte list"

datatype frame_error =
    ErrIncomplete
  | ErrPayload
  | ErrTooManyFrames
  | ErrEmptyBatch
  | ErrHelloNotAlone
  | ErrInvalidHello
  | ErrWindowLength
  | ErrWindowZero
  | ErrStreamZero byte
  | ErrNonemptyPayload byte
  | ErrEmptyData
  | ErrDirection byte

subsection \<open>Big-endian integers (\<open>encoding/binary\<close>)\<close>

definition PutUint32 :: "u32 \<Rightarrow> byte list" where
  "PutUint32 v = [ucast (drop_bit 24 v), ucast (drop_bit 16 v), ucast (drop_bit 8 v), ucast v]"

definition Uint32 :: "byte list \<Rightarrow> u32" where
  "Uint32 b = ucast (b ! 3) OR push_bit 8 (ucast (b ! 2)) OR
     push_bit 16 (ucast (b ! 1)) OR push_bit 24 (ucast (b ! 0))"

subsection \<open>Encoder\<close>

definition Encode :: "byte \<Rightarrow> u32 \<Rightarrow> byte list \<Rightarrow> byte list option" where
  "Encode t streamID payload =
     (if streamID > MaxStreamID then None
      else Some ([t, ucast (drop_bit 16 streamID), ucast (drop_bit 8 streamID), ucast streamID]
        @ PutUint32 (word_of_int (len payload)) @ payload))"

subsection \<open>Parser\<close>

text \<open>
  The loop of \<open>ParseAll\<close>: \<open>input\<close> is what is left of the batch, \<open>frames\<close> what has been
  parsed; every iteration consumes at least the header.
\<close>

function parse_loop :: "int \<Rightarrow> byte list \<Rightarrow> frame list \<Rightarrow> frame_error + frame list" where
  "parse_loop maxPayload input frames =
     (if input = [] then (if frames = [] then Inl ErrEmptyBatch else Inr frames)
      else if length frames = MaxBatchFrames then Inl ErrTooManyFrames
      else if len input < HeaderSize then Inl ErrIncomplete
      else
        let n = uint (Uint32 (take 4 (drop 4 input))) in
        if n > maxPayload then Inl ErrPayload
        else
          let full = HeaderSize + n in
          if full > len input then Inl ErrIncomplete
          else
            let streamID = push_bit 16 (ucast (input ! 1)) OR push_bit 8 (ucast (input ! 2))
                  OR ucast (input ! 3)
            in parse_loop maxPayload (drop (nat full) input)
                 (frames @ [\<lparr>Type = input ! 0, StreamID = streamID,
                             Payload = take (nat n) (drop 8 input)\<rparr>]))"
  by pat_completeness auto
termination
proof (relation "measure (\<lambda>(m, input, fs). length input)", goal_cases)
  case (2 maxPayload input frames n full)
  then have "0 < nat full" by (simp add: add_pos_nonneg)
  with 2(1) show ?case by simp
qed simp

declare parse_loop.simps [simp del]

definition ParseAll :: "byte list \<Rightarrow> int \<Rightarrow> frame_error + frame list" where
  "ParseAll input maxPayload =
     parse_loop (if maxPayload \<le> 0 \<or> maxPayload > MaxPayload then MaxPayload else maxPayload)
       input []"

definition ParseHello :: "byte list \<Rightarrow> frame_error option" where
  "ParseHello input =
     (case ParseAll input MaxPayload of
        Inl e \<Rightarrow> Some e
      | Inr frames \<Rightarrow>
          if length frames \<noteq> 1 then Some ErrHelloNotAlone
          else
            let value = frames ! 0 in
            if Type value \<noteq> Hello \<or> StreamID value \<noteq> 0 \<or> length (Payload value) \<noteq> 1
              \<or> Payload value ! 0 \<noteq> 1
            then Some ErrInvalidHello else None)"

subsection \<open>WINDOW payloads and the client-to-relay shape\<close>

definition WindowAmount :: "byte list \<Rightarrow> frame_error + u32" where
  "WindowAmount payload =
     (if length payload \<noteq> 4 then Inl ErrWindowLength
      else let value = Uint32 payload in if value = 0 then Inl ErrWindowZero else Inr value)"

definition WindowPayload :: "u32 \<Rightarrow> byte list" where
  "WindowPayload amount = PutUint32 amount"

definition ValidateClientShape :: "frame \<Rightarrow> frame_error option" where
  "ValidateClientShape value =
     (if StreamID value = 0 then
        (if Type value \<noteq> Pong \<or> length (Payload value) > 64
         then Some (ErrStreamZero (Type value)) else None)
      else if Type value = Open \<or> Type value = Close then
        (if length (Payload value) \<noteq> 0 then Some (ErrNonemptyPayload (Type value)) else None)
      else if Type value = Data then
        (if length (Payload value) = 0 then Some ErrEmptyData else None)
      else if Type value = Window then
        (case WindowAmount (Payload value) of Inl e \<Rightarrow> Some e | Inr _ \<Rightarrow> None)
      else Some (ErrDirection (Type value)))"

subsection \<open>Integers and headers round trip\<close>

lemma length_PutUint32 [simp]: "length (PutUint32 v) = 4"
  by (simp add: PutUint32_def)

lemma frame_eta [simp]: "\<lparr>Type = Type f, StreamID = StreamID f, Payload = Payload f\<rparr> = f"
  by (cases f) simp

lemma Uint32_PutUint32 [simp]: "Uint32 (PutUint32 v) = v"
proof (rule bit_word_eqI)
  fix n assume "n < LENGTH(32)"
  then show "bit (Uint32 (PutUint32 v)) n = bit v n"
    by (cases "n < 8"; cases "n < 16"; cases "n < 24") (auto simp: Uint32_def PutUint32_def bit_simps)
qed
lemma PutUint32_Uint32: "length b = 4 \<Longrightarrow> PutUint32 (Uint32 b) = b"
proof -
  have "PutUint32 (Uint32 [a, b, c, d]) = [a, b, c, d]" for a b c d
    by (auto simp: Uint32_def PutUint32_def intro!: bit_word_eqI)
       (auto simp: bit_simps dest: bit_imp_le_length)
  then show "length b = 4 \<Longrightarrow> PutUint32 (Uint32 b) = b"
    by (auto simp: numeral_eq_Suc length_Suc_conv)
qed
lemma stream_id_le: "(s :: u32) \<le> MaxStreamID \<Longrightarrow> bit s n \<Longrightarrow> n < 24"
proof (rule ccontr)
  assume s: "s \<le> MaxStreamID" and b: "bit s n" and n: "\<not> n < 24"
  have "uint s < 2 ^ 24" using s by (simp add: word_le_def)
  then have "take_bit 24 (uint s) = uint s" by (simp add: take_bit_int_eq_self)
  moreover have "bit (uint s) n" using b bit_imp_le_length [OF b] by (simp add: bit_uint_iff)
  ultimately show False using n by (metis bit_take_bit_iff)
qed
lemma stream_id_bytes:
  "(s :: u32) \<le> MaxStreamID \<Longrightarrow>
     (push_bit 16 (ucast (ucast (drop_bit 16 s) :: byte)) OR
     push_bit 8 (ucast (ucast (drop_bit 8 s) :: byte)) OR ucast (ucast s :: byte) :: u32) = s"
proof (rule bit_word_eqI)
  fix n assume s: "s \<le> MaxStreamID" and "n < LENGTH(32)"
  then show "bit (push_bit 16 (ucast (ucast (drop_bit 16 s) :: byte)) OR
     push_bit 8 (ucast (ucast (drop_bit 8 s) :: byte)) OR ucast (ucast s :: byte) :: u32) n = bit s n"
    using stream_id_le [OF s, of n]
    by (cases "n < 8"; cases "n < 16"; cases "n < 24") (auto simp: bit_simps)
qed
lemma bytes_stream_id:
  fixes a b c :: byte
  defines "s \<equiv> (push_bit 16 (ucast a) OR push_bit 8 (ucast b) OR ucast c :: u32)"
  shows "s \<le> MaxStreamID" and "ucast (drop_bit 16 s) = a" and "ucast (drop_bit 8 s) = b" and "ucast s = c"
proof -
  have "take_bit 24 s = s"
    by (rule bit_word_eqI) (auto simp: s_def bit_simps dest: bit_imp_le_length)
  then have "s = s AND MaxStreamID" by (simp add: take_bit_eq_mask mask_eq_exp_minus_1)
  then show "s \<le> MaxStreamID" by (metis word_and_le1)
qed (auto simp: s_def bit_simps intro!: bit_word_eqI, auto dest: bit_imp_le_length)

subsection \<open>Frames as bytes\<close>

definition frame_header :: "frame \<Rightarrow> byte list" where
  "frame_header f = [Type f, ucast (drop_bit 16 (StreamID f)), ucast (drop_bit 8 (StreamID f)),
     ucast (StreamID f)] @ PutUint32 (word_of_int (len (Payload f)))"

definition frame_bytes :: "frame \<Rightarrow> byte list" where
  "frame_bytes f = frame_header f @ Payload f"

definition encode_batch :: "frame list \<Rightarrow> byte list option" where
  "encode_batch fs = map_option concat (those (map (\<lambda>f. Encode (Type f) (StreamID f) (Payload f)) fs))"

lemma length_frame_header [simp]: "length (frame_header f) = 8"
  by (simp add: frame_header_def)

lemma length_frame_bytes: "len (frame_bytes f) = HeaderSize + len (Payload f)"
  by (simp add: frame_bytes_def)

lemma Encode_eq:
  "Encode t i p = (if i > MaxStreamID then None
     else Some (frame_bytes \<lparr>Type = t, StreamID = i, Payload = p\<rparr>))"
  by (simp add: Encode_def frame_bytes_def frame_header_def)

lemma encode_batch_eq:
  "encode_batch fs = (if list_all (\<lambda>f. StreamID f \<le> MaxStreamID) fs
     then Some (concat (map frame_bytes fs)) else None)"
  by (induction fs) (auto simp: encode_batch_def Encode_eq not_le split: option.splits if_splits)

lemma header_fields:
  assumes "StreamID f \<le> MaxStreamID" and "len (Payload f) \<le> MaxPayload"
  shows "uint (Uint32 (take 4 (drop 4 (frame_bytes f @ rest)))) = len (Payload f)"
    and "(push_bit 16 (ucast ((frame_bytes f @ rest) ! 1)) OR
          push_bit 8 (ucast ((frame_bytes f @ rest) ! 2)) OR
          ucast ((frame_bytes f @ rest) ! 3) :: u32) = StreamID f"
    and "(frame_bytes f @ rest) ! 0 = Type f"
proof -
  have "take 4 (drop 4 (frame_bytes f @ rest)) = PutUint32 (word_of_int (len (Payload f)))"
    by (simp add: frame_bytes_def frame_header_def)
  then show "uint (Uint32 (take 4 (drop 4 (frame_bytes f @ rest)))) = len (Payload f)"
    using assms(2) by (simp add: uint_word_of_nat_u32)
  show "(frame_bytes f @ rest) ! 0 = Type f"
    by (simp add: frame_bytes_def frame_header_def)
  show "(push_bit 16 (ucast ((frame_bytes f @ rest) ! 1)) OR
          push_bit 8 (ucast ((frame_bytes f @ rest) ! 2)) OR
          ucast ((frame_bytes f @ rest) ! 3) :: u32) = StreamID f"
    using stream_id_bytes [OF assms(1)]
    by (simp add: frame_bytes_def frame_header_def numeral_2_eq_2 numeral_3_eq_3)
qed

subsection \<open>The parser inverts the encoder\<close>

lemma parse_loop_frame:
  assumes "StreamID f \<le> MaxStreamID" and "len (Payload f) \<le> m" and "m \<le> MaxPayload"
    and "length acc \<noteq> MaxBatchFrames"
  shows "parse_loop m (frame_bytes f @ rest) acc = parse_loop m rest (acc @ [f])"
proof -
  have hf: "len (Payload f) \<le> MaxPayload" using assms by simp
  have ne: "frame_bytes f \<noteq> []" by (simp add: frame_bytes_def frame_header_def)
  have "take (length (Payload f)) (drop 8 (frame_bytes f @ rest)) = Payload f"
    by (simp add: frame_bytes_def)
  moreover have "drop (nat (HeaderSize + len (Payload f))) (frame_bytes f @ rest) = rest"
    by (simp add: frame_bytes_def nat_add_distrib)
  ultimately show ?thesis
    using assms ne header_fields [OF assms(1) hf, of rest] length_frame_bytes [of f]
    by (subst parse_loop.simps) (simp add: Let_def)
qed

definition payload_limit :: "int \<Rightarrow> int" where
  "payload_limit maxPayload =
     (if maxPayload \<le> 0 \<or> maxPayload > MaxPayload then MaxPayload else maxPayload)"

lemma payload_limit_bounds [simp]: "payload_limit m \<le> MaxPayload" "0 < payload_limit m"
  by (auto simp: payload_limit_def)

definition frame_ok :: "int \<Rightarrow> frame \<Rightarrow> bool" where
  "frame_ok m f \<longleftrightarrow> StreamID f \<le> MaxStreamID \<and> len (Payload f) \<le> m"

lemma parse_loop_encoded:
  assumes "list_all (frame_ok m) fs" and "m \<le> MaxPayload"
    and "acc @ fs \<noteq> []" and "length (acc @ fs) \<le> MaxBatchFrames"
  shows "parse_loop m (concat (map frame_bytes fs)) acc = Inr (acc @ fs)"
  using assms
proof (induction fs arbitrary: acc)
  case Nil
  then show ?case by (subst parse_loop.simps) simp
next
  case (Cons f fs)
  have "parse_loop m (frame_bytes f @ concat (map frame_bytes fs)) acc =
      parse_loop m (concat (map frame_bytes fs)) (acc @ [f])"
    using Cons.prems by (intro parse_loop_frame) (auto simp: frame_ok_def)
  also have "\<dots> = Inr ((acc @ [f]) @ fs)"
    using Cons.prems by (intro Cons.IH) auto
  finally show ?case by simp
qed

text \<open>The bytes of one step of the loop are the encoding of the frame it appends.\<close>

lemma parse_step_bytes:
  assumes "8 + n \<le> length input" and "int n = uint (Uint32 (take 4 (drop 4 input)))"
    and f: "f = \<lparr>Type = input ! 0, StreamID = push_bit 16 (ucast (input ! 1)) OR
        push_bit 8 (ucast (input ! 2)) OR ucast (input ! 3), Payload = take n (drop 8 input)\<rparr>"
  shows "input = frame_bytes f @ drop (8 + n) input" and "StreamID f \<le> MaxStreamID"
    and "length (Payload f) = n"
proof -
  show lp: "length (Payload f) = n" using assms by simp
  show "StreamID f \<le> MaxStreamID" using bytes_stream_id(1) f by simp
  have 4: "length (take 4 (drop 4 input)) = 4" using assms(1) by simp
  have "PutUint32 (word_of_int (len (Payload f))) = take 4 (drop 4 input)"
    using PutUint32_Uint32 [OF 4] assms(2) lp by simp
  moreover have "take 4 input = [input ! 0, input ! 1, input ! 2, input ! 3]"
    using assms(1) by (auto simp: numeral_eq_Suc Suc_le_length_iff)
  ultimately have "frame_header f = take 4 input @ take 4 (drop 4 input)"
    using f bytes_stream_id(2-4) by (simp add: frame_header_def)
  then have "frame_header f = take 8 input" by (simp add: take_add [symmetric])
  then have "frame_bytes f = take (8 + n) input"
    using f by (simp add: frame_bytes_def take_add)
  then show "input = frame_bytes f @ drop (8 + n) input" by simp
qed

lemma parse_loop_sound:
  assumes "parse_loop m input acc = Inr fs" and "length acc \<le> MaxBatchFrames"
  shows "\<exists>gs. fs = acc @ gs \<and> fs \<noteq> [] \<and> length fs \<le> MaxBatchFrames \<and>
     list_all (frame_ok m) gs \<and> input = concat (map frame_bytes gs)"
  using assms
proof (induction m input acc rule: parse_loop.induct)
  case (1 m input acc)
  let ?n = "uint (Uint32 (take 4 (drop 4 input)))"
  let ?f = "\<lparr>Type = input ! 0, StreamID = push_bit 16 (ucast (input ! 1)) OR
     push_bit 8 (ucast (input ! 2)) OR ucast (input ! 3), Payload = take (nat ?n) (drop 8 input)\<rparr>"
  show ?case
  proof (cases "input = []")
    case True
    with "1.prems" show ?thesis
      by (subst (asm) parse_loop.simps) (auto split: if_splits)
  next
    case False
    with "1.prems"(1) have guards: "length acc \<noteq> MaxBatchFrames" "\<not> len input < 8"
        "\<not> m < ?n" "\<not> len input < 8 + ?n"
      and rec: "parse_loop m (drop (nat (8 + ?n)) input) (acc @ [?f]) = Inr fs"
      by (subst (asm) parse_loop.simps, simp add: Let_def split: if_splits)+
    have n8: "nat (8 + ?n) = 8 + nat ?n" by (simp add: nat_add_distrib)
    have "int (8 + nat ?n) \<le> len input" using guards(4) by simp
    then have le: "8 + nat ?n \<le> length input" by (simp only: of_nat_le_iff)
    have step: "input = frame_bytes ?f @ drop (8 + nat ?n) input" "StreamID ?f \<le> MaxStreamID"
        "length (Payload ?f) = nat ?n"
      using parse_step_bytes [OF le _ refl] by simp_all
    have "length (acc @ [?f]) \<le> MaxBatchFrames" using guards(1) "1.prems"(2) by simp
    then obtain gs where gs: "fs = (acc @ [?f]) @ gs" "fs \<noteq> []" "length fs \<le> MaxBatchFrames"
        "list_all (frame_ok m) gs" "drop (8 + nat ?n) input = concat (map frame_bytes gs)"
      using "1.IH" [OF False guards(1,2) refl guards(3) refl guards(4) refl rec] n8 by auto
    moreover have "frame_ok m ?f" using step(2,3) guards(3) by (simp add: frame_ok_def)
    ultimately show ?thesis
      using step(1) by (intro exI [of _ "?f # gs"]) auto
  qed
qed

lemma ParseAll_eq: "ParseAll input m = parse_loop (payload_limit m) input []"
  by (simp add: ParseAll_def payload_limit_def)

lemma parse_all_iff:
  "ParseAll input maxPayload = Inr fs \<longleftrightarrow>
     fs \<noteq> [] \<and> length fs \<le> MaxBatchFrames \<and>
     list_all (\<lambda>f. len (Payload f) \<le> payload_limit maxPayload) fs \<and>
     encode_batch fs = Some input"
  (is "?L \<longleftrightarrow> ?R")
proof
  assume ?L
  then show ?R
    using parse_loop_sound [of "payload_limit maxPayload" input "[]" fs]
    by (auto simp: ParseAll_def payload_limit_def encode_batch_eq frame_ok_def list_all_iff)
next
  assume R: ?R
  then have "input = concat (map frame_bytes fs)" "list_all (frame_ok (payload_limit maxPayload)) fs"
    by (auto simp: encode_batch_eq frame_ok_def list_all_iff split: if_splits)
  with R show ?L
    using parse_loop_encoded [of "payload_limit maxPayload" fs "[]"]
    by (simp add: ParseAll_def flip: payload_limit_def)
qed
subsection \<open>WINDOW payloads\<close>

lemma WindowAmount_PutUint32:
  "WindowAmount (PutUint32 v) = (if v = 0 then Inl ErrWindowZero else Inr v)"
  by (simp add: WindowAmount_def)

lemma WindowAmount_Inr: "WindowAmount p = Inr v \<longleftrightarrow> p = WindowPayload v \<and> v \<noteq> 0"
  using PutUint32_Uint32 [of p]
  by (auto simp: WindowAmount_def WindowPayload_def Let_def)

lemma window_check:
  "(case WindowAmount p of Inl e \<Rightarrow> Some e | Inr _ \<Rightarrow> None) = None \<longleftrightarrow>
     (\<exists>v. v \<noteq> 0 \<and> p = WindowPayload v)"
  by (cases "WindowAmount p") (auto simp: WindowAmount_Inr, auto simp: WindowAmount_def WindowPayload_def)

lemma ValidateClientShape_None:
  "ValidateClientShape f = None \<longleftrightarrow>
     (StreamID f = 0 \<and> Type f = Pong \<and> length (Payload f) \<le> 64) \<or>
     (StreamID f \<noteq> 0 \<and>
       ((Type f = Open \<or> Type f = Close) \<and> Payload f = [] \<or>
        Type f = Data \<and> Payload f \<noteq> [] \<or>
        Type f = Window \<and> (\<exists>v. v \<noteq> 0 \<and> Payload f = WindowPayload v)))"
  by (simp add: ValidateClientShape_def window_check)

text \<open>
  C37: the batch parser is exact. A byte string parses to a list of frames if and only if
  the list is nonempty, has at most 4096 frames, none with a payload over the limit (a
  limit that is not positive or above 1 MiB means 1 MiB), and encoding the frames one
  after the other, which fails on a stream id over 24 bits, gives exactly those bytes.
\<close>
theorem ParseAll_exact:
  "ParseAll input maxPayload = Inr fs \<longleftrightarrow>
     fs \<noteq> [] \<and> length fs \<le> MaxBatchFrames \<and>
     list_all (\<lambda>f. len (Payload f) \<le> payload_limit maxPayload) fs \<and>
     encode_batch fs = Some input"
  by (rule parse_all_iff)

text \<open>
  A truncated frame is reported as incomplete. Whatever nonempty strict prefix of a
  well-formed frame arrives, the parser answers \<open>ErrIncomplete\<close>, never a frame.
\<close>
theorem ParseAll_truncated:
  assumes "Encode t i p = Some bytes" and "len p \<le> payload_limit m"
    and "0 < k" and "k < length bytes"
  shows "ParseAll (take k bytes) m = Inl ErrIncomplete"
proof -
  define f where "f = \<lparr>Type = t, StreamID = i, Payload = p\<rparr>"
  have i: "i \<le> MaxStreamID" and bytes: "bytes = frame_bytes f"
    using assms(1) by (auto simp: Encode_eq f_def split: if_splits)
  have ne: "take k bytes \<noteq> []" using assms(3,4) by auto
  show ?thesis
  proof (cases "k < 8")
    case True
    with ne assms(4) show ?thesis
      unfolding ParseAll_eq by (subst parse_loop.simps) simp
  next
    case False
    then have "take 4 (drop 4 (take k bytes)) = take 4 (drop 4 (frame_bytes f @ []))"
      by (simp add: bytes drop_take)
    moreover have "len p \<le> MaxPayload" using assms(2) payload_limit_bounds(1) [of m] by linarith
    ultimately have "uint (Uint32 (take 4 (drop 4 (take k bytes)))) = len p"
      using header_fields(1) [of f "[]"] i by (simp add: f_def)
    moreover have "len bytes = 8 + len p" by (simp add: bytes length_frame_bytes f_def)
    ultimately show ?thesis
      using ne False assms(2,4)
      unfolding ParseAll_eq by (subst parse_loop.simps) (simp add: Let_def)
  qed
qed

theorem ParseAll_truncated_witness:
  "ParseAll (take 9 [2, 0, 0, 7, 0, 0, 0, 2, 65, 66]) 1024 = Inl ErrIncomplete"
  by (rule ParseAll_truncated [of 2 7 "[65, 66]"])
     (simp_all add: Encode_def PutUint32_def payload_limit_def)

text \<open>
  Exactly one byte string opens a session. \<open>ParseHello\<close> accepts the HELLO frame
  of stream zero with the single payload byte 1 and nothing else.
\<close>
theorem ParseHello_exact:
  "ParseHello input = None \<longleftrightarrow> input = [0x10, 0, 0, 0, 0, 0, 0, 1, 1]"
proof
  assume "ParseHello input = None"
  then obtain fs where fs: "ParseAll input MaxPayload = Inr fs" "length fs = 1"
      "Type (fs ! 0) = Hello" "StreamID (fs ! 0) = 0" "length (Payload (fs ! 0)) = 1"
      "Payload (fs ! 0) ! 0 = 1"
    by (auto simp: ParseHello_def Let_def split: sum.splits if_splits)
  then obtain f where f: "fs = [f]" by (auto simp: length_Suc_conv)
  have p: "Payload f = [1]" using fs f by (auto simp: length_Suc_conv)
  have "encode_batch [f] = Some input" using fs(1) f by (simp add: parse_all_iff)
  then show "input = [0x10, 0, 0, 0, 0, 0, 0, 1, 1]"
    using fs f p by (simp add: encode_batch_eq frame_bytes_def frame_header_def PutUint32_def)
next
  assume input: "input = [0x10, 0, 0, 0, 0, 0, 0, 1, 1]"
  have "ParseAll input MaxPayload = Inr [\<lparr>Type = Hello, StreamID = 0, Payload = [1]\<rparr>]"
    by (simp add: parse_all_iff input encode_batch_eq frame_bytes_def frame_header_def
        PutUint32_def payload_limit_def)
  then show "ParseHello input = None" by (simp add: ParseHello_def)
qed

end
