(* ===== verification/Budget.thy ===== *)
theory Budget
  imports Config Frame "HOL-Library.Signed_Division"
begin

text \<open>
  How a session's pending budget is partitioned (\<open>internal/session/session.go\<close>): a reserve
  for control frames, on top of it a reserve for one maximum uplink batch, and the limits
  that are left for the uplink and the downlink DATA class. Go's \<open>/\<close> truncates towards
  zero, which is \<open>sdiv\<close> here; the overflow guards against \<open>math.MaxInt\<close> are kept.
\<close>

abbreviation queueItemCost :: int where "queueItemCost \<equiv> 256"
abbreviation controlReserveExtraItems :: int where "controlReserveExtraItems \<equiv> 16"
abbreviation controlReserveItemsPerStream :: int where "controlReserveItemsPerStream \<equiv> 3"

datatype pendingClass = PendingUplink | PendingDownlink | PendingControl

definition pendingControlReserve :: "Limits \<Rightarrow> int \<times> int" where
  "pendingControlReserve limits =
     (let items = controlReserveExtraItems in
      if MaxStreamsPerSession limits > (MaxInt - items) sdiv controlReserveItemsPerStream
      then (MaxPendingPerSession limits, MaxPendingItemsPerSession limits)
      else
        let items = items + MaxStreamsPerSession limits * controlReserveItemsPerStream;
            costPerItem = queueItemCost + HeaderSize + 4
        in if items > MaxInt sdiv costPerItem
           then (MaxPendingPerSession limits, MaxPendingItemsPerSession limits)
           else (items * costPerItem, items))"

definition pendingUplinkReserve :: "Limits \<Rightarrow> int \<times> int" where
  "pendingUplinkReserve limits =
     (let items = MaxBodyBytes limits sdiv HeaderSize;
          items = (if items > int MaxBatchFrames then int MaxBatchFrames else items)
      in if items > (MaxInt - MaxBodyBytes limits) sdiv queueItemCost
         then (MaxPendingPerSession limits, MaxPendingItemsPerSession limits)
         else (MaxBodyBytes limits + items * queueItemCost, items))"

definition subtractPendingReserve :: "int \<Rightarrow> int \<Rightarrow> int \<Rightarrow> int \<Rightarrow> int \<times> int" where
  "subtractPendingReserve cost items reserveCost reserveItems =
     (if reserveCost \<ge> cost then 0 else cost - reserveCost,
      if reserveItems \<ge> items then 0 else items - reserveItems)"

definition uplinkPendingLimits :: "Limits \<Rightarrow> int \<times> int" where
  "uplinkPendingLimits limits =
     (case pendingControlReserve limits of (reserveCost, reserveItems) \<Rightarrow>
        subtractPendingReserve (MaxPendingPerSession limits) (MaxPendingItemsPerSession limits)
          reserveCost reserveItems)"

definition downlinkPendingLimits :: "Limits \<Rightarrow> int \<times> int" where
  "downlinkPendingLimits limits =
     (case uplinkPendingLimits limits of (cost, items) \<Rightarrow>
      case pendingUplinkReserve limits of (reserveCost, reserveItems) \<Rightarrow>
        subtractPendingReserve cost items reserveCost reserveItems)"

datatype budget_error = ReserveExhaustsBytes | ReserveExhaustsItems

text \<open>\<open>ValidateBudget\<close>; the integer division by zero sessions would panic.\<close>

definition ValidateBudget :: "Limits \<Rightarrow> budget_error option option" where
  "ValidateBudget cfg =
     (case pendingControlReserve cfg of (reserveCost, reserveItems) \<Rightarrow>
      let sessions = MaxSessionsGlobal cfg in
      if sessions = 0 then None
      else if reserveCost > MaxPendingGlobal cfg sdiv sessions then Some (Some ReserveExhaustsBytes)
      else if reserveItems > MaxPendingItemsGlobal cfg sdiv sessions
      then Some (Some ReserveExhaustsItems)
      else Some None)"

subsection \<open>Facts about the partition\<close>

lemma sdiv_pos: "0 < b \<Longrightarrow> 0 \<le> a \<Longrightarrow> (a :: int) sdiv b = a div b"
  by (simp add: signed_divide_int_def sgn_if)

lemma control_reserve_nonneg:
  assumes "limits_ok l"
  shows "0 \<le> fst (pendingControlReserve l)" and "0 \<le> snd (pendingControlReserve l)"
  using assms by (auto simp: pendingControlReserve_def limits_ok_def Let_def)

lemma uplink_reserve_nonneg:
  assumes "limits_ok l"
  shows "0 \<le> fst (pendingUplinkReserve l)" and "0 \<le> snd (pendingUplinkReserve l)"
  using assms by (auto simp: pendingUplinkReserve_def limits_ok_def Let_def sdiv_pos)

lemma subtract_bounds:
  assumes "0 \<le> c" "0 \<le> i" "0 \<le> rc" "0 \<le> ri" "subtractPendingReserve c i rc ri = (c', i')"
  shows "0 \<le> c' \<and> c' \<le> c \<and> 0 \<le> i' \<and> i' \<le> i \<and> (c' = 0 \<or> c' + rc \<le> c) \<and> (i' = 0 \<or> i' + ri \<le> i)"
  using assms by (auto simp: subtractPendingReserve_def split: if_splits)

lemma uplink_limits_bounds:
  assumes "limits_ok l" and "uplinkPendingLimits l = (c, i)"
  shows "0 \<le> c" "c \<le> MaxPendingPerSession l" "0 \<le> i" "i \<le> MaxPendingItemsPerSession l"
  using assms control_reserve_nonneg [OF assms(1)]
    subtract_bounds [of "MaxPendingPerSession l" "MaxPendingItemsPerSession l"
      "fst (pendingControlReserve l)" "snd (pendingControlReserve l)" c i]
  by (auto simp: uplinkPendingLimits_def limits_ok_def split: prod.splits)

lemma downlink_limits_bounds:
  assumes "limits_ok l" and "downlinkPendingLimits l = (c, i)"
  shows "0 \<le> c" "c \<le> fst (uplinkPendingLimits l)" "0 \<le> i" "i \<le> snd (uplinkPendingLimits l)"
    "c = 0 \<or> c + fst (pendingUplinkReserve l) \<le> fst (uplinkPendingLimits l)"
    "i = 0 \<or> i + snd (pendingUplinkReserve l) \<le> snd (uplinkPendingLimits l)"
  using assms uplink_reserve_nonneg [OF assms(1)]
    uplink_limits_bounds [OF assms(1), of "fst (uplinkPendingLimits l)" "snd (uplinkPendingLimits l)"]
    subtract_bounds [of "fst (uplinkPendingLimits l)" "snd (uplinkPendingLimits l)"
      "fst (pendingUplinkReserve l)" "snd (pendingUplinkReserve l)" c i]
  by (auto simp: downlinkPendingLimits_def split: prod.splits)

text \<open>
  The reserve arithmetic stays inside a 64-bit \<open>int\<close>. For accepted limits within the
  range of \<open>int\<close>, the guards of the two reserve computations are enough: the products and
  sums they form and the values they return are nonnegative and at most \<open>math.MaxInt\<close>, so
  the unbounded integers of the model never differ from Go's.
\<close>
theorem reserve_arithmetic_in_range:
  assumes "limits_ok l" and "MaxBodyBytes l \<le> MaxInt"
    and "MaxPendingPerSession l \<le> MaxInt" and "MaxPendingItemsPerSession l \<le> MaxInt"
  shows "fst (pendingControlReserve l) \<in> {0..MaxInt} \<and>
     snd (pendingControlReserve l) \<in> {0..MaxInt} \<and>
     fst (pendingUplinkReserve l) \<in> {0..MaxInt} \<and>
     snd (pendingUplinkReserve l) \<in> {0..MaxInt} \<and>
     fst (downlinkPendingLimits l) \<le> fst (uplinkPendingLimits l) \<and>
     fst (uplinkPendingLimits l) \<le> MaxPendingPerSession l"
proof -
  have c: "fst (pendingControlReserve l) \<le> MaxInt" "snd (pendingControlReserve l) \<le> MaxInt"
    using assms by (auto simp: pendingControlReserve_def Let_def sdiv_pos)
  have u: "fst (pendingUplinkReserve l) \<le> MaxInt" "snd (pendingUplinkReserve l) \<le> MaxInt"
    using assms by (auto simp: pendingUplinkReserve_def Let_def sdiv_pos limits_ok_def)
  show ?thesis
    using c u control_reserve_nonneg [OF assms(1)] uplink_reserve_nonneg [OF assms(1)]
      downlink_limits_bounds(2) [OF assms(1)] uplink_limits_bounds(2) [OF assms(1)]
    by (metis atLeastAtMost_iff prod.collapse)
qed

theorem reserve_arithmetic_in_range_witness:
  "fst (pendingControlReserve Default_Limits) \<in> {0..MaxInt} \<and>
   fst (pendingUplinkReserve Default_Limits) \<in> {0..MaxInt} \<and>
   0 < fst (downlinkPendingLimits Default_Limits)"
  using reserve_arithmetic_in_range [OF Default_Limits_ok]
  by (simp add: Default_Limits_def downlinkPendingLimits_def uplinkPendingLimits_def
      pendingControlReserve_def pendingUplinkReserve_def subtractPendingReserve_def sdiv_pos)

end
