(* ===== verification/Lane.thy ===== *)
theory Lane
  imports Budget Sha256
begin

text \<open>
  The downlink queue and the carrier state of a session (\<open>internal/session/session.go\<close>):
  queued frames with their budget cost, the index of the pending WINDOW frame per stream,
  and the one unacknowledged batch. A lane carrier has one \<open>carrierLane\<close> per lane; the
  multiplexed carriers keep the same fields in \<open>Session\<close> itself. The code writes the queue
  operations twice, once for each place; they are modelled once, on the record.

  The abstract view of a queue is, per stream, the DATA bytes and the WINDOW credit it
  holds. Queueing, coalescing and batching are shown to keep it.
\<close>

subsection \<open>Data\<close>

record queuedFrame =
  encoded :: "byte list"
  typeCode :: byte
  streamID :: u32
  cost :: int

text \<open>
  \<open>superseded\<close> holds the identity of the channel the parked poll made: a number no other
  poll of the session has, with the cursor of that poll, which it keeps while it waits.
  \<open>notify\<close> tells whether the one-slot channel holds a signal. \<open>laneRef\<close> is the identity of the lane object, which a
  parked poll compares with the one in the map.
\<close>

datatype poll_id = PollId (poll_number: nat) (poll_cursor: u64)

record carrierLane =
  laneRef :: nat
  lastUpSequence :: u64
  lastUpDigest :: "byte list"
  upActive :: bool
  websocketActive :: bool
  pendingFrames :: "queuedFrame list"
  pendingWindows :: "u32 \<rightharpoonup> int"
  unacked :: "byte list"
  unackedCost :: int
  unackedItems :: int
  unackedBase :: u64
  downCursor :: u64
  downActive :: bool
  superseded :: "poll_id option"
  notify :: bool

definition newCarrierLane :: "nat \<Rightarrow> carrierLane" where
  "newCarrierLane ref = \<lparr>
     laneRef = ref, lastUpSequence = 0, lastUpDigest = replicate 32 0,
     upActive = False, websocketActive = False,
     pendingFrames = [], pendingWindows = Map.empty,
     unacked = [], unackedCost = 0, unackedItems = 0, unackedBase = 0,
     downCursor = 0, downActive = False, superseded = None, notify = False\<rparr>"

subsection \<open>Queueing a frame\<close>

text \<open>
  What \<open>queueFrameLocked\<close> wants to do with a frame: nothing more than raise the amount of
  the pending WINDOW frame, append the payload to the last DATA frame, or append a frame.
  The last two need budget, of the given cost, items and class. Go panics on an index
  outside the queue and on a stream sid over 24 bits.
\<close>

datatype queue_plan =
    Grown carrierLane
  | Charged carrierLane int int pendingClass

definition amount_or_zero :: "byte list \<Rightarrow> u32" where
  "amount_or_zero p = (case WindowAmount p of Inl _ \<Rightarrow> 0 | Inr v \<Rightarrow> v)"

definition put_at :: "nat \<Rightarrow> byte list \<Rightarrow> byte list \<Rightarrow> byte list" where
  "put_at n bytes b = take n b @ bytes @ drop (n + length bytes) b"

text \<open>The WINDOW branch: the pending frame's index and its new bytes, if the total fits.\<close>

definition grow_window :: "u32 \<Rightarrow> byte list \<Rightarrow> carrierLane \<Rightarrow> carrierLane option option" where
  "grow_window sid payload lane =
     (case pendingWindows lane sid of
        None \<Rightarrow> Some None
      | Some index \<Rightarrow>
          if index < 0 \<or> index \<ge> len (pendingFrames lane) then None
          else
            let queued = pendingFrames lane ! nat index;
                previous = amount_or_zero (drop 8 (encoded queued));
                amount = amount_or_zero payload;
                total = uint previous + uint amount
            in if total \<le> MaxUint32 then
                 (if length (encoded queued) < 12 then None
                  else Some (Some (lane\<lparr>
                    pendingFrames := (pendingFrames lane)
                      [nat index := queued\<lparr>encoded :=
                         put_at 8 (PutUint32 (word_of_int total)) (encoded queued)\<rparr>],
                    notify := True\<rparr>)))
               else Some None)"

definition extend_last :: "int \<Rightarrow> byte \<Rightarrow> u32 \<Rightarrow> byte list \<Rightarrow> carrierLane \<Rightarrow> carrierLane option" where
  "extend_last maxPayload t sid payload lane =
     (if pendingFrames lane = [] then None
      else
        let q = last (pendingFrames lane) in
        if typeCode q = Data \<and> t = Data \<and> streamID q = sid \<and>
           len (encoded q) - HeaderSize + len payload \<le> maxPayload
        then
          let bytes = encoded q @ payload;
              bytes = put_at 4 (PutUint32 (word_of_int (len bytes - HeaderSize))) bytes
          in Some (lane\<lparr>
               pendingFrames := butlast (pendingFrames lane)
                 @ [q\<lparr>encoded := bytes, cost := cost q + len payload\<rparr>],
               notify := True\<rparr>)
        else None)"

definition append_frame :: "byte \<Rightarrow> u32 \<Rightarrow> byte list \<Rightarrow> carrierLane \<Rightarrow> carrierLane" where
  "append_frame t sid bytes lane =
     lane\<lparr>
       pendingFrames := pendingFrames lane
         @ [\<lparr>encoded = bytes, typeCode = t, streamID = sid, cost = len bytes + queueItemCost\<rparr>],
       pendingWindows :=
         (if t = Window then (pendingWindows lane)(sid \<mapsto> len (pendingFrames lane))
          else pendingWindows lane),
       notify := True\<rparr>"

definition plan_frame :: "int \<Rightarrow> byte \<Rightarrow> u32 \<Rightarrow> byte list \<Rightarrow> carrierLane \<Rightarrow> queue_plan option" where
  "plan_frame maxPayload t sid payload lane =
     do {
       grown \<leftarrow> (if t = Window then grow_window sid payload lane else Some None);
       (case grown of
          Some lane' \<Rightarrow> Some (Grown lane')
        | None \<Rightarrow>
            (case extend_last maxPayload t sid payload lane of
               Some lane' \<Rightarrow> Some (Charged lane' (len payload) 0 PendingDownlink)
             | None \<Rightarrow>
                 do {
                   bytes \<leftarrow> Encode t sid payload;
                   Some (Charged (append_frame t sid bytes lane) (len bytes + queueItemCost) 1
                     (if t = Data then PendingDownlink else PendingControl))
                 }))
     }"

subsection \<open>Taking the next batch\<close>

text \<open>The first loop of \<open>takeDownBatchLocked\<close>: how many frames fit, and their cost.\<close>

fun batch_scan :: "int \<Rightarrow> queuedFrame list \<Rightarrow> int \<Rightarrow> int \<Rightarrow> nat \<Rightarrow> int \<times> nat" where
  "batch_scan limit [] sz c count = (c, count)"
| "batch_scan limit (q # qs) sz c count =
     (if count \<ge> MaxBatchFrames then (c, count)
      else if count \<noteq> 0 \<and> sz + len (encoded q) > limit then (c, count)
      else batch_scan limit qs (sz + len (encoded q)) (c + cost q) (Suc count))"

text \<open>The second loop drops the WINDOW index entries of the frames that leave.\<close>

fun drop_windows :: "int \<Rightarrow> queuedFrame list \<Rightarrow> (u32 \<rightharpoonup> int) \<Rightarrow> (u32 \<rightharpoonup> int)" where
  "drop_windows index [] pw = pw"
| "drop_windows index (q # qs) pw =
     drop_windows (index + 1) qs
       (if typeCode q = Window \<and> (case pw (streamID q) of None \<Rightarrow> 0 | Some i \<Rightarrow> i) = index
        then pw(streamID q := None) else pw)"

record downBatch =
  body :: "byte list"
  batch_cost :: int
  batch_items :: int

definition takeDownBatch :: "int \<Rightarrow> carrierLane \<Rightarrow> downBatch \<times> carrierLane" where
  "takeDownBatch carrierBatchBytes lane =
     (case batch_scan carrierBatchBytes (pendingFrames lane) 0 0 0 of (c, count) \<Rightarrow>
      let taken = take count (pendingFrames lane);
          pw = drop_windows 0 taken (pendingWindows lane)
      in (\<lparr>body = concat (map encoded taken), batch_cost = c, batch_items = int count\<rparr>,
          lane\<lparr>pendingFrames := drop count (pendingFrames lane),
               pendingWindows := (\<lambda>sid. map_option (\<lambda>index. index - int count) (pw sid))\<rparr>))"

subsection \<open>Well-formed queues\<close>

definition frame_of :: "queuedFrame \<Rightarrow> frame" where
  "frame_of q = \<lparr>Type = typeCode q, StreamID = streamID q, Payload = drop 8 (encoded q)\<rparr>"

text \<open>The bytes are the encoding of the frame, the cost is what was charged for it.\<close>

definition queued_ok :: "queuedFrame \<Rightarrow> bool" where
  "queued_ok q \<longleftrightarrow> frame_bytes (frame_of q) = encoded q \<and> streamID q \<le> MaxStreamID \<and>
     len (encoded q) \<le> HeaderSize + MaxPayload \<and>
     cost q = len (encoded q) + queueItemCost \<and>
     (typeCode q = Window \<longrightarrow> (\<exists>v. v \<noteq> 0 \<and> drop 8 (encoded q) = WindowPayload v))"

text \<open>Every index entry points to a pending WINDOW frame of its stream.\<close>

definition windows_ok :: "queuedFrame list \<Rightarrow> (u32 \<rightharpoonup> int) \<Rightarrow> bool" where
  "windows_ok qs pw \<longleftrightarrow> (\<forall>sid i. pw sid = Some i \<longrightarrow>
     0 \<le> i \<and> i < len qs \<and> typeCode (qs ! nat i) = Window \<and> streamID (qs ! nat i) = sid)"

definition queue_ok :: "carrierLane \<Rightarrow> bool" where
  "queue_ok lane \<longleftrightarrow> list_all queued_ok (pendingFrames lane) \<and>
     windows_ok (pendingFrames lane) (pendingWindows lane)"

text \<open>What a lane holds of the session's budget.\<close>

definition queue_cost :: "queuedFrame list \<Rightarrow> int" where
  "queue_cost qs = (\<Sum>q \<leftarrow> qs. cost q)"

definition lane_cost :: "carrierLane \<Rightarrow> int" where
  "lane_cost lane = unackedCost lane + queue_cost (pendingFrames lane)"

definition lane_items :: "carrierLane \<Rightarrow> int" where
  "lane_items lane = unackedItems lane + len (pendingFrames lane)"

text \<open>The contents of a queue for one stream: its DATA bytes, with \<open>None\<close> where a CLOSE
  stands, and its total WINDOW credit.\<close>

definition frame_view :: "u32 \<Rightarrow> frame \<Rightarrow> byte option list" where
  "frame_view sid f =
     (if StreamID f \<noteq> sid then []
      else if Type f = Data then map Some (Payload f)
      else if Type f = Close then [None] else [])"

definition frame_credit :: "u32 \<Rightarrow> frame \<Rightarrow> int" where
  "frame_credit sid f =
     (if StreamID f = sid \<and> Type f = Window then uint (amount_or_zero (Payload f)) else 0)"

definition queue_view :: "u32 \<Rightarrow> queuedFrame list \<Rightarrow> byte option list" where
  "queue_view sid qs = concat (map (frame_view sid \<circ> frame_of) qs)"

definition queue_credit :: "u32 \<Rightarrow> queuedFrame list \<Rightarrow> int" where
  "queue_credit sid qs = (\<Sum>q \<leftarrow> qs. frame_credit sid (frame_of q))"

lemma queue_append [simp]:
  "queue_cost (qs @ rs) = queue_cost qs + queue_cost rs"
  "queue_view sid (qs @ rs) = queue_view sid qs @ queue_view sid rs"
  "queue_credit sid (qs @ rs) = queue_credit sid qs + queue_credit sid rs"
  by (simp_all add: queue_cost_def queue_view_def queue_credit_def)

lemma queue_simps [simp]:
  "queue_cost [] = 0" "queue_cost (q # qs) = cost q + queue_cost qs"
  "queue_view sid [] = []" "queue_view sid (q # qs) = frame_view sid (frame_of q) @ queue_view sid qs"
  "queue_credit sid [] = 0"
  "queue_credit sid (q # qs) = frame_credit sid (frame_of q) + queue_credit sid qs"
  by (simp_all add: queue_cost_def queue_view_def queue_credit_def)

lemma frame_of_fields [simp]:
  "Type (frame_of q) = typeCode q" "StreamID (frame_of q) = streamID q"
  "Payload (frame_of q) = drop 8 (encoded q)"
  by (simp_all add: frame_of_def)

lemma queued_ok_length: "queued_ok q \<Longrightarrow> len (encoded q) = HeaderSize + len (drop 8 (encoded q))"
  using length_frame_bytes [of "frame_of q"] by (metis queued_ok_def frame_of_fields(3))

lemma queued_ok_cost: "queued_ok q \<Longrightarrow> 264 \<le> cost q"
proof -
  assume q: "queued_ok q"
  then have "cost q = len (encoded q) + queueItemCost" by (simp only: queued_ok_def)
  with queued_ok_length [OF q] show ?thesis by linarith
qed

lemma queue_cost_nonneg: "list_all queued_ok qs \<Longrightarrow> 264 * len qs \<le> queue_cost qs"
  by (induction qs) (auto dest: queued_ok_cost)

lemma encode_batch_queued:
  assumes "list_all queued_ok qs"
  shows "encode_batch (map frame_of qs) = Some (concat (map encoded qs))"
proof -
  have m: "map frame_bytes (map frame_of qs) = map encoded qs"
    using assms by (simp add: list_all_iff queued_ok_def)
  have "list_all (\<lambda>f. StreamID f \<le> MaxStreamID) (map frame_of qs)"
    using assms by (simp add: list_all_iff queued_ok_def)
  then show ?thesis by (simp only: encode_batch_eq m if_True)
qed

lemma list_update_split:
  "i < length xs \<Longrightarrow> xs[i := y] = take i xs @ [y] @ drop (Suc i) xs \<and>
     xs = take i xs @ [xs ! i] @ drop (Suc i) xs"
  by (simp add: upd_conv_take_nth_drop id_take_nth_drop [symmetric])

subsection \<open>Changing a queued frame in place\<close>

lemma put_at_window:
  assumes "length (Payload f) = 4"
  shows "put_at 8 (PutUint32 v) (frame_bytes f) = frame_bytes (f\<lparr>Payload := PutUint32 v\<rparr>)"
  using assms by (simp add: put_at_def frame_bytes_def frame_header_def PutUint32_def)

lemma put_at_extend:
  "put_at 4 (PutUint32 (word_of_int (len (frame_bytes f @ p) - HeaderSize))) (frame_bytes f @ p) =
     frame_bytes (f\<lparr>Payload := Payload f @ p\<rparr>)"
  by (simp add: put_at_def frame_bytes_def frame_header_def)

lemma grown_window_frame:
  assumes "queued_ok q" and "typeCode q = Window" and "v \<noteq> 0"
    and q': "q' = q\<lparr>encoded := put_at 8 (PutUint32 v) (encoded q)\<rparr>"
  shows "queued_ok q'" and "cost q' = cost q" and "typeCode q' = Window" and "streamID q' = streamID q"
    and "frame_view sid (frame_of q') = frame_view sid (frame_of q)"
    and "drop 8 (encoded q') = WindowPayload v" and "12 \<le> length (encoded q)"
proof -
  have e: "encoded q = frame_bytes (frame_of q)" using assms by (simp add: queued_ok_def)
  have p: "length (drop 8 (encoded q)) = 4"
    using assms by (auto simp: queued_ok_def WindowPayload_def simp del: length_drop)
  have e': "encoded q' = frame_bytes ((frame_of q)\<lparr>Payload := PutUint32 v\<rparr>)"
    using put_at_window [of "frame_of q" v] p e unfolding q' by simp
  then have d: "drop 8 (encoded q') = PutUint32 v" by (simp add: frame_bytes_def)
  have f: "frame_of q' = (frame_of q)\<lparr>Payload := PutUint32 v\<rparr>"
    using d by (simp add: frame_of_def q')
  have "length (encoded q) = 12" using p by simp
  have "length (encoded q') = 12" using length_frame_bytes [of "frame_of q'"] e' f by simp
  show "12 \<le> length (encoded q)" using \<open>length (encoded q) = 12\<close> by simp
  show fields: "cost q' = cost q" "typeCode q' = Window" "streamID q' = streamID q"
    "drop 8 (encoded q') = WindowPayload v"
    using d assms(2) by (simp_all add: q' WindowPayload_def)
  have "frame_bytes (frame_of q') = encoded q'" by (simp only: e' f)
  moreover have "streamID q \<le> MaxStreamID" "cost q = len (encoded q) + queueItemCost"
    using assms(1) by (simp_all only: queued_ok_def)
  ultimately show "queued_ok q'"
    using fields assms(3) \<open>length (encoded q) = 12\<close> \<open>length (encoded q') = 12\<close>
    unfolding queued_ok_def by auto
  show "frame_view sid (frame_of q') = frame_view sid (frame_of q)"
    using f assms(2) by (simp add: frame_view_def)
qed

lemma extended_data_frame:
  assumes "queued_ok q" and "typeCode q = Data"
    and "len (encoded q) - HeaderSize + len p \<le> MaxPayload"
    and b: "b = encoded q @ p"
    and q': "q' = q\<lparr>encoded := put_at 4 (PutUint32 (word_of_int (len b - HeaderSize))) b,
                  cost := cost q + len p\<rparr>"
  shows "queued_ok q'" and "typeCode q' = Data" and "streamID q' = streamID q"
    and "drop 8 (encoded q') = drop 8 (encoded q) @ p"
proof -
  have e: "encoded q = frame_bytes (frame_of q)" using assms by (simp add: queued_ok_def)
  have e': "encoded q' = frame_bytes ((frame_of q)\<lparr>Payload := drop 8 (encoded q) @ p\<rparr>)"
    using put_at_extend [of "frame_of q" p] e unfolding q' b by simp
  then have d: "drop 8 (encoded q') = drop 8 (encoded q) @ p" by (simp add: frame_bytes_def)
  have f: "frame_of q' = (frame_of q)\<lparr>Payload := drop 8 (encoded q) @ p\<rparr>"
    using d by (simp add: frame_of_def q')
  have "len (encoded q') = HeaderSize + len (drop 8 (encoded q) @ p)"
    by (simp only: e' length_frame_bytes) simp
  then have l: "len (encoded q') = len (encoded q) + len p"
    using queued_ok_length [OF assms(1)] by (simp only: length_append of_nat_add)
  show fields: "typeCode q' = Data" "streamID q' = streamID q"
    "drop 8 (encoded q') = drop 8 (encoded q) @ p"
    using d assms(2) by (simp_all add: q')
  have "frame_bytes (frame_of q') = encoded q'" by (simp only: e' f)
  moreover have "streamID q' \<le> MaxStreamID"
    using assms(1) by (simp only: queued_ok_def fields)
  moreover have "len (encoded q') \<le> HeaderSize + MaxPayload"
    using l assms(3) by linarith
  moreover have "cost q' = len (encoded q') + queueItemCost"
  proof -
    have "cost q = len (encoded q) + queueItemCost" using assms(1) by (simp only: queued_ok_def)
    moreover have "cost q' = cost q + len p" by (simp add: q')
    ultimately show ?thesis using l by linarith
  qed
  moreover have "typeCode q' \<noteq> Window" using fields(1) by simp
  ultimately show "queued_ok q'" unfolding queued_ok_def by blast
qed

end
