(* ===== verification/Queue.thy ===== *)
theory Queue
  imports Lane
begin

text \<open>
  What the downlink queue operations of \<open>Lane\<close> do to a well-formed queue. Queueing a
  frame never panics and adds to the queue's contents exactly the frame, whether it is
  appended or coalesced into a frame that is already waiting; the cost charged is the cost
  the queue gains. Taking a batch removes a prefix of the queue, and its body parses back
  to the frames removed.
\<close>

subsection \<open>Queueing\<close>

definition queued_more ::
  "byte \<Rightarrow> u32 \<Rightarrow> byte list \<Rightarrow> carrierLane \<Rightarrow> carrierLane \<Rightarrow> int \<Rightarrow> int \<Rightarrow> bool" where
  "queued_more t sid p lane lane' c i \<longleftrightarrow>
     queue_ok lane' \<and>
     lane' = lane\<lparr>pendingFrames := pendingFrames lane', pendingWindows := pendingWindows lane',
                  notify := True\<rparr> \<and>
     pendingFrames lane' \<noteq> [] \<and>
     queue_cost (pendingFrames lane') = queue_cost (pendingFrames lane) + c \<and>
     len (pendingFrames lane') = len (pendingFrames lane) + i \<and>
     (\<forall>s. queue_view s (pendingFrames lane') =
            queue_view s (pendingFrames lane) @ frame_view s \<lparr>Type = t, StreamID = sid, Payload = p\<rparr>) \<and>
     (\<forall>s. queue_credit s (pendingFrames lane') =
            queue_credit s (pendingFrames lane) + frame_credit s \<lparr>Type = t, StreamID = sid, Payload = p\<rparr>)"

lemma queue_update:
  assumes "i < length qs"
  shows "queue_cost (qs[i := q]) = queue_cost qs + cost q - cost (qs ! i)"
    and "queue_credit s (qs[i := q]) =
      queue_credit s qs + frame_credit s (frame_of q) - frame_credit s (frame_of (qs ! i))"
    and "frame_view s (frame_of q) = frame_view s (frame_of (qs ! i)) \<Longrightarrow>
      queue_view s (qs[i := q]) = queue_view s qs"
proof -
  have u: "qs[i := q] = take i qs @ [q] @ drop (Suc i) qs"
    and v: "qs = take i qs @ [qs ! i] @ drop (Suc i) qs"
    using list_update_split [OF assms] by blast+
  have "queue_cost qs = queue_cost (take i qs @ [qs ! i] @ drop (Suc i) qs)" using v by metis
  then show "queue_cost (qs[i := q]) = queue_cost qs + cost q - cost (qs ! i)"
    unfolding u by simp
  have "queue_credit s qs = queue_credit s (take i qs @ [qs ! i] @ drop (Suc i) qs)" using v by metis
  then show "queue_credit s (qs[i := q]) =
      queue_credit s qs + frame_credit s (frame_of q) - frame_credit s (frame_of (qs ! i))"
    unfolding u by simp
  have "queue_view s qs = queue_view s (take i qs @ [qs ! i] @ drop (Suc i) qs)" using v by metis
  then show "queue_view s (qs[i := q]) = queue_view s qs"
    if "frame_view s (frame_of q) = frame_view s (frame_of (qs ! i))"
    unfolding u using that by simp
qed

lemma windows_ok_update:
  assumes "windows_ok qs pw" and "typeCode q = typeCode (qs ! i)" and "streamID q = streamID (qs ! i)"
  shows "windows_ok (qs[i := q]) pw"
proof -
  have "typeCode (qs[i := q] ! n) = typeCode (qs ! n) \<and> streamID (qs[i := q] ! n) = streamID (qs ! n)"
    for n
    using assms(2,3) by (cases "n = i"; cases "i < length qs") (simp_all add: list_update_beyond)
  then show ?thesis using assms(1) by (simp add: windows_ok_def)
qed

lemma windows_ok_append:
  assumes "windows_ok qs pw"
  shows "windows_ok (qs @ [q]) (if typeCode q = Window then pw(streamID q \<mapsto> len qs) else pw)"
proof -
  have old: "0 \<le> i \<and> i < len (qs @ [q]) \<and> typeCode ((qs @ [q]) ! nat i) = Window \<and>
      streamID ((qs @ [q]) ! nat i) = sid" if "pw sid = Some i" for sid i
  proof -
    have "0 \<le> i" "i < len qs" "typeCode (qs ! nat i) = Window" "streamID (qs ! nat i) = sid"
      using that assms by (auto simp: windows_ok_def)
    then show ?thesis by (simp add: nth_append nat_less_iff)
  qed
  show ?thesis
    using old by (simp add: windows_ok_def)
qed

lemma amount_or_zero_payload [simp]: "amount_or_zero (WindowPayload v) = v"
  by (simp add: amount_or_zero_def WindowPayload_def WindowAmount_PutUint32)

lemma amount_or_zero_put [simp]: "amount_or_zero (PutUint32 v) = v"
  using amount_or_zero_payload [of v] by (simp add: WindowPayload_def)

lemma grow_window_ok:
  assumes ok: "queue_ok lane" and p: "p = WindowPayload v" and v: "v \<noteq> 0"
  shows "\<exists>r. grow_window sid p lane = Some r \<and>
     (\<forall>lane'. r = Some lane' \<longrightarrow> queued_more Window sid p lane lane' 0 0)"
proof (cases "pendingWindows lane sid")
  case None
  then show ?thesis by (simp add: grow_window_def)
next
  case (Some index)
  let ?qs = "pendingFrames lane" and ?i = "nat index"
  let ?q = "?qs ! ?i"
  have i: "0 \<le> index" "index < len ?qs" "typeCode ?q = Window" "streamID ?q = sid"
    using ok Some by (auto simp: queue_ok_def windows_ok_def)
  have il: "?i < length ?qs" using i by simp
  have q: "queued_ok ?q" using ok il by (auto simp: queue_ok_def list_all_length)
  then obtain w where w: "w \<noteq> 0" "drop 8 (encoded ?q) = WindowPayload w"
    using i(3) by (auto simp: queued_ok_def)
  show ?thesis
  proof (cases "uint w + uint v \<le> MaxUint32")
    case False
    then show ?thesis
      using Some i w by (simp add: grow_window_def p Let_def)
  next
    case True
    define total where "total = (word_of_int (uint w + uint v) :: u32)"
    let ?q' = "?q\<lparr>encoded := put_at 8 (PutUint32 total) (encoded ?q)\<rparr>"
    have pos: "0 < uint w" "0 < uint v" using w(1) v by (simp_all add: less_le) (metis uint_0_iff)+
    have u: "uint total = uint w + uint v"
      unfolding total_def using True by (intro uint_word_of_int_u32) auto
    then have "total \<noteq> 0" using pos by auto
    note g = grown_window_frame [OF q i(3) this refl]
    let ?lane = "lane\<lparr>pendingFrames := ?qs[?i := ?q'], notify := True\<rparr>"
    have r: "grow_window sid p lane = Some (Some ?lane)"
      using Some i w g(7) True by (simp add: grow_window_def p Let_def total_def)
    have credit: "frame_credit s (frame_of ?q') = frame_credit s (frame_of ?q) +
        frame_credit s \<lparr>Type = Window, StreamID = sid, Payload = p\<rparr>" for s
      using i g(4,6) w u p unfolding frame_credit_def by simp
    have "list_all queued_ok (?qs[?i := ?q'])"
      using ok g(1) by (auto simp: queue_ok_def list_all_iff dest!: set_update_subset_insert [THEN subsetD])
    moreover have "windows_ok (?qs[?i := ?q']) (pendingWindows lane)"
      by (rule windows_ok_update) (use ok i g in \<open>auto simp: queue_ok_def\<close>)
    ultimately have "queue_ok ?lane" by (simp add: queue_ok_def)
    moreover have "queue_view s (?qs[?i := ?q']) = queue_view s ?qs" for s
      by (rule queue_update(3) [OF il g(5)])
    ultimately have "queued_more Window sid p lane ?lane 0 0"
      unfolding queued_more_def using il
      by (auto simp: queue_update(1,2) [OF il] credit frame_view_def simp del: frame_of_fields)
    then show ?thesis using r by simp
  qed
qed

lemma last_update: "xs \<noteq> [] \<Longrightarrow> butlast xs @ [y] = xs[length xs - 1 := y]"
  by (simp add: list_update_append1 upd_conv_take_nth_drop butlast_conv_take)

lemma extend_last_ok:
  assumes ok: "queue_ok lane" and m: "maxPayload \<le> MaxPayload"
    and e: "extend_last maxPayload t sid p lane = Some lane'"
  shows "queued_more t sid p lane lane' (len p) 0 \<and> t = Data"
proof -
  let ?qs = "pendingFrames lane"
  let ?q = "last ?qs" and ?i = "length ?qs - 1"
  define b where "b = encoded ?q @ p"
  define q' where "q' = ?q\<lparr>encoded := put_at 4 (PutUint32 (word_of_int (len b - HeaderSize))) b,
    cost := cost ?q + len p\<rparr>"
  have ne: "?qs \<noteq> []" and t: "typeCode ?q = Data" "t = Data" "streamID ?q = sid"
    and fits: "len (encoded ?q) - HeaderSize + len p \<le> MaxPayload"
    and lane': "lane' = lane\<lparr>pendingFrames := butlast ?qs @ [q'], notify := True\<rparr>"
    using e m by (auto simp: extend_last_def Let_def b_def q'_def split: if_splits)
  have il: "?i < length ?qs" and qi: "?qs ! ?i = ?q" using ne by (simp_all add: last_conv_nth)
  have q: "queued_ok ?q" using ok ne by (auto simp: queue_ok_def list_all_iff)
  note x = extended_data_frame [OF q t(1) fits b_def q'_def]
  have b1: "butlast ?qs @ [q'] = ?qs[?i := q']" using ne by (rule last_update)
  have "list_all queued_ok (butlast ?qs @ [q'])"
    using ok x(1) by (auto simp: queue_ok_def list_all_iff dest: in_set_butlastD)
  moreover have "windows_ok (butlast ?qs @ [q']) (pendingWindows lane)"
    unfolding b1 by (rule windows_ok_update) (use ok x t qi in \<open>auto simp: queue_ok_def\<close>)
  ultimately have "queue_ok lane'" by (simp add: queue_ok_def lane')
  moreover have "queue_cost (butlast ?qs @ [q']) = queue_cost ?qs + len p"
    unfolding b1 queue_update(1) [OF il] qi by (simp add: q'_def)
  moreover have "queue_credit s (butlast ?qs @ [q']) = queue_credit s ?qs" for s
    unfolding b1 queue_update(2) [OF il] qi using x t by (simp add: frame_credit_def)
  moreover have "queue_view s (butlast ?qs @ [q']) =
      queue_view s ?qs @ frame_view s \<lparr>Type = t, StreamID = sid, Payload = p\<rparr>" for s
  proof -
    have "queue_view s ?qs = queue_view s (butlast ?qs) @ frame_view s (frame_of ?q)"
      by (subst append_butlast_last_id [OF ne, symmetric]) (simp only: queue_append queue_simps append_Nil2)
    then show ?thesis using x(2-4) t by (simp add: frame_view_def)
  qed
  ultimately show ?thesis
    using ne t by (simp add: queued_more_def lane' frame_credit_def)
qed

lemma append_frame_ok:
  assumes ok: "queue_ok lane" and sid: "sid \<le> MaxStreamID" and p: "len p \<le> MaxPayload"
    and w: "t = Window \<longrightarrow> (\<exists>v. v \<noteq> 0 \<and> p = WindowPayload v)"
    and e: "Encode t sid p = Some bytes"
  shows "queued_more t sid p lane (append_frame t sid bytes lane) (len bytes + queueItemCost) 1"
proof -
  define f where "f = \<lparr>Type = t, StreamID = sid, Payload = p\<rparr>"
  define q where "q = \<lparr>encoded = bytes, typeCode = t, streamID = sid, cost = len bytes + queueItemCost\<rparr>"
  have bytes: "bytes = frame_bytes f" using e sid by (simp add: Encode_eq f_def split: if_splits)
  then have d: "drop 8 bytes = p" by (simp add: frame_bytes_def f_def)
  have f: "frame_of q = f" using d by (simp add: frame_of_def q_def f_def)
  have l: "len bytes \<le> HeaderSize + MaxPayload"
    using p length_frame_bytes [of f] bytes by (simp add: f_def)
  have "queued_ok q"
    using sid l w d bytes f unfolding queued_ok_def by (auto simp: q_def)
  moreover have "windows_ok (pendingFrames lane @ [q])
      (if t = Window then (pendingWindows lane)(sid \<mapsto> len (pendingFrames lane))
       else pendingWindows lane)"
    using ok windows_ok_append [of "pendingFrames lane" "pendingWindows lane" q]
    by (simp only: queue_ok_def q_def queuedFrame.select_convs)
  ultimately have "queue_ok (append_frame t sid bytes lane)"
    using ok by (simp only: queue_ok_def append_frame_def q_def) simp
  then show ?thesis
    using f unfolding queued_more_def f_def by (auto simp: append_frame_def q_def)
qed

definition plan_ok :: "byte \<Rightarrow> u32 \<Rightarrow> byte list \<Rightarrow> carrierLane \<Rightarrow> queue_plan \<Rightarrow> bool" where
  "plan_ok t sid p lane plan \<longleftrightarrow>
     (case plan of
        Grown lane' \<Rightarrow> t = Window \<and> queued_more t sid p lane lane' 0 0
      | Charged lane' c i cls \<Rightarrow> queued_more t sid p lane lane' c i \<and> 0 \<le> c \<and> 0 \<le> i \<and>
          (p \<noteq> [] \<or> t \<noteq> Data \<longrightarrow> 0 < c) \<and>
          cls = (if t = Data then PendingDownlink else PendingControl) \<and>
          c \<le> len p + HeaderSize + queueItemCost \<and> i \<le> 1)"

lemma plan_frame_ok:
  assumes ok: "queue_ok lane" and sid: "sid \<le> MaxStreamID" and p: "len p \<le> MaxPayload"
    and w: "t = Window \<longrightarrow> (\<exists>v. v \<noteq> 0 \<and> p = WindowPayload v)" and m: "maxPayload \<le> MaxPayload"
  shows "\<exists>plan. plan_frame maxPayload t sid p lane = Some plan \<and> plan_ok t sid p lane plan"
proof -
  obtain r where r: "(if t = Window then grow_window sid p lane else Some None) = Some r"
      "\<forall>lane'. r = Some lane' \<longrightarrow> t = Window \<and> queued_more Window sid p lane lane' 0 0"
    using grow_window_ok [OF ok, of p _ sid] w by (cases "t = Window") fastforce+
  obtain bytes where e: "Encode t sid p = Some bytes"
    using sid by (simp add: Encode_eq flip: not_le)
  have l: "len bytes = HeaderSize + len p"
    using e length_frame_bytes [of "\<lparr>Type = t, StreamID = sid, Payload = p\<rparr>"]
    by (auto simp: Encode_eq split: if_splits)
  show ?thesis
  proof (cases r)
    case (Some lane')
    then show ?thesis using r by (simp add: plan_frame_def plan_ok_def)
  next
    case rN: None
    show ?thesis
    proof (cases "extend_last maxPayload t sid p lane")
      case (Some lane')
      then have "queued_more t sid p lane lane' (len p) 0 \<and> t = Data"
        by (rule extend_last_ok [OF ok m])
      then show ?thesis using r(1) rN Some by (auto simp: plan_frame_def plan_ok_def)
    next
      case None
      then show ?thesis
        using append_frame_ok [OF ok sid p w e] r rN e l by (simp add: plan_frame_def plan_ok_def)
    qed
  qed
qed

subsection \<open>Taking a batch\<close>

lemma batch_scan_bounds:
  assumes "batch_scan limit qs sz c count = (c', count')" and "count \<le> MaxBatchFrames"
  shows "count \<le> count'" and "count' \<le> count + length qs" and "count' \<le> MaxBatchFrames"
    and "c' = c + queue_cost (take (count' - count) qs)"
proof -
  have "count \<le> count' \<and> count' \<le> count + length qs \<and> count' \<le> MaxBatchFrames \<and>
      c' = c + queue_cost (take (count' - count) qs)"
    using assms
  proof (induction limit qs sz c count rule: batch_scan.induct)
    case (2 limit q qs sz c count)
    show ?case
    proof (cases "count \<ge> MaxBatchFrames \<or> (count \<noteq> 0 \<and> sz + len (encoded q) > limit)")
      case True
      then show ?thesis using 2 by (auto split: if_splits)
    next
      case False
      then have s: "batch_scan limit qs (sz + len (encoded q)) (c + cost q) (Suc count) = (c', count')"
        using 2(2) by (auto split: if_splits)
      have "Suc count \<le> count' \<and> count' \<le> Suc count + length qs \<and> count' \<le> MaxBatchFrames \<and>
          c' = c + cost q + queue_cost (take (count' - Suc count) qs)"
        using False by (intro 2(1) s) auto
      moreover from this have "take (count' - count) (q # qs) = q # take (count' - Suc count) qs"
        by (simp add: take_Cons' Suc_diff_le)
      ultimately show ?thesis by simp
    qed
  qed auto
  then show "count \<le> count'" "count' \<le> count + length qs" "count' \<le> MaxBatchFrames"
    "c' = c + queue_cost (take (count' - count) qs)" by blast+
qed

abbreviation queue_bytes :: "queuedFrame list \<Rightarrow> int" where
  "queue_bytes qs \<equiv> len (concat (map encoded qs))"

lemma batch_scan_size:
  assumes "batch_scan limit qs sz c count = (c', count')" and "sz \<le> limit \<or> count = 0"
    and "0 < count \<or> sz = 0"
  shows "sz + queue_bytes (take (count' - count) qs) \<le> limit \<or> count' = 0 \<or> (count = 0 \<and> count' = 1)
      \<or> (count = 1 \<and> count' = 1)"
  using assms
proof (induction limit qs sz c count rule: batch_scan.induct)
  case (2 limit q qs sz c count)
  show ?case
  proof (cases "count \<ge> MaxBatchFrames \<or> (count \<noteq> 0 \<and> sz + len (encoded q) > limit)")
    case True
    then show ?thesis using 2 by (auto split: if_splits)
  next
    case False
    then have s: "batch_scan limit qs (sz + len (encoded q)) (c + cost q) (Suc count) = (c', count')"
      using 2(2) by (auto split: if_splits)
    have ge: "Suc count \<le> count'" using batch_scan_bounds(1) [OF s] False by auto
    show ?thesis
    proof (cases "sz + len (encoded q) \<le> limit")
      case True
      have t: "take (count' - count) (q # qs) = q # take (count' - Suc count) qs"
        using ge by (simp add: take_Cons' Suc_diff_le)
      have "sz + len (encoded q) + queue_bytes (take (count' - Suc count) qs) \<le> limit \<or> count' = 0
          \<or> (Suc count = 0 \<and> count' = 1) \<or> (Suc count = 1 \<and> count' = 1)"
        using False True by (intro 2(1) s) auto
      then show ?thesis using t by auto
    next
      case over: False
      then have c0: "count = 0" using False by auto
      have "count' = 1"
        using s c0 over by (cases qs) (auto split: if_splits)
      then show ?thesis using c0 by simp
    qed
  qed
qed auto

lemma batch_scan_progress:
  "qs \<noteq> [] \<Longrightarrow> batch_scan limit qs 0 0 0 = (c, count) \<Longrightarrow> 0 < count"
proof (cases qs)
  case (Cons q qs')
  moreover assume "batch_scan limit qs 0 0 0 = (c, count)"
  ultimately have "batch_scan limit qs' (len (encoded q)) (cost q) (Suc 0) = (c, count)" by simp
  then have "Suc 0 \<le> count" by (rule batch_scan_bounds(1)) simp
  then show ?thesis by simp
qed simp

text \<open>The second loop forgets exactly the index entries of the WINDOW frames that leave.\<close>

lemma drop_windows_eq:
  "drop_windows index qs pw sid =
     (case pw sid of
        None \<Rightarrow> None
      | Some i \<Rightarrow>
          if index \<le> i \<and> i < index + len qs \<and> typeCode (qs ! nat (i - index)) = Window \<and>
             streamID (qs ! nat (i - index)) = sid
          then None else Some i)"
proof (induction index qs pw rule: drop_windows.induct)
  case (2 index q qs pw)
  show ?case
  proof (cases "pw sid")
    case None
    then show ?thesis unfolding drop_windows.simps 2 by simp
  next
    case (Some i)
    show ?thesis
    proof (cases "i = index")
      case True
      then show ?thesis using Some unfolding drop_windows.simps 2 by auto
    next
      case False
      have "nat (i - index) = Suc (nat (i - (index + 1)))" if "index \<le> i"
        using that False by (simp add: nat_diff_split flip: Suc_nat_eq_nat_zadd1)
      then show ?thesis
        using Some False unfolding drop_windows.simps 2 by auto
    qed
  qed
qed (auto split: option.splits)

definition batch_taken :: "int \<Rightarrow> carrierLane \<Rightarrow> queuedFrame list" where
  "batch_taken limit lane =
     take (snd (batch_scan limit (pendingFrames lane) 0 0 0)) (pendingFrames lane)"

lemma takeDownBatch_ok:
  assumes ok: "queue_ok lane" and t: "takeDownBatch limit lane = (b, lane')"
  defines "taken \<equiv> batch_taken limit lane"
  shows "queue_ok lane'"
    and "lane' = lane\<lparr>pendingFrames := pendingFrames lane', pendingWindows := pendingWindows lane'\<rparr>"
    and "pendingFrames lane = taken @ pendingFrames lane'"
    and "body b = concat (map encoded taken)"
    and "batch_cost b = queue_cost taken" and "batch_items b = len taken"
    and "length taken \<le> MaxBatchFrames"
    and "pendingFrames lane \<noteq> [] \<Longrightarrow> taken \<noteq> []"
    and "len (body b) \<le> limit \<or> length taken \<le> 1"
    and "list_all queued_ok taken"
proof -
  let ?qs = "pendingFrames lane"
  obtain c count where s: "batch_scan limit ?qs 0 0 0 = (c, count)" by fastforce
  note bd = batch_scan_bounds [OF s]
  have cl: "count \<le> length ?qs" using bd(2) by simp
  have tk: "taken = take count ?qs" by (simp add: taken_def batch_taken_def s)
  have lt: "length taken = count" using tk cl by simp
  have fr: "pendingFrames lane' = drop count ?qs"
    and b: "body b = concat (map encoded taken)" "batch_cost b = c" "batch_items b = int count"
    and pw: "pendingWindows lane' = (\<lambda>sid. map_option (\<lambda>index. index - int count)
        (drop_windows 0 taken (pendingWindows lane) sid))"
    using t by (auto simp: takeDownBatch_def s Let_def tk)
  show "pendingFrames lane = taken @ pendingFrames lane'" by (simp add: fr tk)
  show "body b = concat (map encoded taken)" by (rule b)
  show "batch_cost b = queue_cost taken" using b bd(4) tk by simp
  show "batch_items b = len taken" using b lt by simp
  show "length taken \<le> MaxBatchFrames" using bd(3) lt by simp
  show "taken \<noteq> []" if "pendingFrames lane \<noteq> []"
    using batch_scan_progress [OF that s] tk that by simp
  show "len (body b) \<le> limit \<or> length taken \<le> 1"
    using batch_scan_size [OF s] lt tk b(1) by auto
  show "list_all queued_ok taken"
    using ok by (auto simp: tk queue_ok_def list_all_iff dest: in_set_takeD)
  show "lane' = lane\<lparr>pendingFrames := pendingFrames lane', pendingWindows := pendingWindows lane'\<rparr>"
    using t by (auto simp: takeDownBatch_def s Let_def)
  have "windows_ok (drop count ?qs) (pendingWindows lane')"
    unfolding windows_ok_def
  proof (intro allI impI)
    fix sid i assume "pendingWindows lane' sid = Some i"
    then obtain j where j: "pendingWindows lane sid = Some j" "i = j - int count"
        "\<not> (0 \<le> j \<and> j < int count \<and> typeCode (taken ! nat j) = Window \<and> streamID (taken ! nat j) = sid)"
      by (auto simp: pw drop_windows_eq lt split: option.splits if_splits)
    have w: "0 \<le> j" "j < len ?qs" "typeCode (?qs ! nat j) = Window" "streamID (?qs ! nat j) = sid"
      using ok j(1) by (auto simp: queue_ok_def windows_ok_def)
    have ge: "int count \<le> j"
    proof (rule ccontr)
      assume "\<not> int count \<le> j"
      then show False using j(3) w tk by simp
    qed
    then have "count + nat i = nat j" using j(2) by (simp add: nat_diff_distrib)
    then show "0 \<le> i \<and> i < len (drop count ?qs) \<and> typeCode (drop count ?qs ! nat i) = Window \<and>
        streamID (drop count ?qs ! nat i) = sid"
      using w ge cl j(2) by simp
  qed
  then show "queue_ok lane'"
    using ok by (auto simp: queue_ok_def fr list_all_iff dest: in_set_dropD)
qed

lemma batch_parses:
  assumes "list_all queued_ok qs" and "qs \<noteq> []" and "length qs \<le> MaxBatchFrames"
  shows "ParseAll (concat (map encoded qs)) MaxPayload = Inr (map frame_of qs)"
proof -
  have "list_all (\<lambda>f. len (Payload f) \<le> payload_limit MaxPayload) (map frame_of qs)"
    using assms(1) by (auto simp: list_all_iff payload_limit_def queued_ok_def)
  then show ?thesis
    using assms encode_batch_queued [OF assms(1)] by (simp add: parse_all_iff)
qed

end
