(* ===== verification/Callbacks.thy ===== *)
theory Callbacks
  imports Budget
begin

text \<open>
  The interface between a session and whoever owns it: the callbacks of \<open>sessionOptions\<close>
  in \<open>internal/session/session.go\<close>. A callback acts on the owner's state \<open>'e\<close> (for the
  relay, the manager), which the session never looks into. A callback that is \<open>nil\<close> in
  the code behaves as one that allows everything and changes nothing.

  The locale \<open>session_owner\<close> states the laws a session relies on: there is a global pool of
  pending cost and items, \<open>budget\<close> with a positive amount either adds it to the pool or
  refuses and leaves the pool alone, a negative amount that is in the pool is always taken
  back, and no other callback touches the pool. The manager's model is an instance.
\<close>

record 'e callbacks =
  budget :: "int \<Rightarrow> int \<Rightarrow> pendingClass \<Rightarrow> 'e \<Rightarrow> (bool \<times> 'e) option"
  acquireStream :: "'e \<Rightarrow> bool \<times> 'e"
  onStreamRejected :: "'e \<Rightarrow> 'e"
  onUp :: "int \<Rightarrow> 'e \<Rightarrow> 'e"
  onDown :: "int \<Rightarrow> 'e \<Rightarrow> 'e"

locale session_owner =
  fixes cb :: "'e callbacks"
    and owner_ok :: "'e \<Rightarrow> bool"
    and pool_cost :: "'e \<Rightarrow> int"
    and pool_items :: "'e \<Rightarrow> int"
  assumes budget_reserve:
    "owner_ok e \<Longrightarrow> 0 < cost \<Longrightarrow> 0 \<le> items \<Longrightarrow>
     \<exists>granted e'. budget cb cost items class e = Some (granted, e') \<and> owner_ok e' \<and>
       pool_cost e' = pool_cost e + (if granted then cost else 0) \<and>
       pool_items e' = pool_items e + (if granted then items else 0)"
  and budget_release:
    "owner_ok e \<Longrightarrow> 0 \<le> cost \<Longrightarrow> 0 \<le> items \<Longrightarrow> cost \<le> pool_cost e \<Longrightarrow> items \<le> pool_items e \<Longrightarrow>
     \<exists>e'. budget cb (- cost) (- items) class e = Some (True, e') \<and> owner_ok e' \<and>
       pool_cost e' = pool_cost e - cost \<and> pool_items e' = pool_items e - items"
  and acquire_pool:
    "owner_ok e \<Longrightarrow> acquireStream cb e = (acquired, e') \<Longrightarrow>
     owner_ok e' \<and> pool_cost e' = pool_cost e \<and> pool_items e' = pool_items e"
  and rejected_pool:
    "owner_ok e \<Longrightarrow> owner_ok (onStreamRejected cb e) \<and>
       pool_cost (onStreamRejected cb e) = pool_cost e \<and>
       pool_items (onStreamRejected cb e) = pool_items e"
  and up_pool:
    "owner_ok e \<Longrightarrow> owner_ok (onUp cb n e) \<and>
       pool_cost (onUp cb n e) = pool_cost e \<and> pool_items (onUp cb n e) = pool_items e"
  and down_pool:
    "owner_ok e \<Longrightarrow> owner_ok (onDown cb n e) \<and>
       pool_cost (onDown cb n e) = pool_cost e \<and> pool_items (onDown cb n e) = pool_items e"

end
