(* ===== verification/Session.thy ===== *)
theory Session
  imports Queue Callbacks
begin

text \<open>
  The session object of \<open>internal/session/session.go\<close>: its state and the operations that
  run while its mutex is held. An operation takes the session and the state of its owner,
  which the callbacks act on, and returns both; \<open>None\<close> is a Go panic. Backend streams are
  handles; closing one is an effect the operations return to their caller.
\<close>

subsection \<open>State\<close>

record streamState =
  backend :: nat
  receiveWindow :: u32
  sendCredit :: u64
  pendingWriteBytes :: int
  pendingWriteCost :: int
  pendingWriteItems :: int
  creditNotify :: bool
  writes :: "byte list list"
  writeNotify :: bool

text \<open>
  \<open>mux\<close> holds the session's own queue, uplink and downlink fields, the ones a
  \<open>carrierLane\<close> has too. \<open>budgetNotify\<close> counts the channels made for that field (each
  release closes one). \<open>detached\<close> are the lane objects no longer in \<open>carrierLanes\<close> that
  a parked poll can still hold; \<open>next_ref\<close> numbers new objects. \<open>finished\<close> records that
  \<open>onFinished\<close> has been started.
\<close>

record session =
  profile :: Profile
  clientIP :: string
  limits :: Limits
  carrier :: CarrierMode
  streams :: "(u32, streamState) assoc"
  closedStreams :: "u32 set"
  closedOrder :: "u32 list"
  closedStart :: nat
  mux :: carrierLane
  pendingCost :: int
  pendingItems :: int
  closed :: bool
  lastActivity :: int
  budgetNotify :: nat
  carrierLanes :: "(u32, carrierLane) assoc"
  detached :: "(nat, carrierLane) assoc"
  next_ref :: nat
  finished :: bool

definition newSession :: "Profile \<Rightarrow> string \<Rightarrow> Limits \<Rightarrow> int \<Rightarrow> session" where
  "newSession prof ip lims now =
     (let mode = WithDefault (Carrier_Mode prof) in
      \<lparr>profile = prof, clientIP = ip, limits = lims, carrier = mode,
       streams = [], closedStreams = {}, closedOrder = [], closedStart = 0,
       mux = newCarrierLane 0, pendingCost = 0, pendingItems = 0,
       closed = False, lastActivity = now, budgetNotify = 0,
       carrierLanes = (if mode = CarrierHTTPSLanes then [(0, newCarrierLane 1)] else []),
       detached = [], next_ref = 2, finished = False\<rparr>)"

definition usesCarrierLanes :: "session \<Rightarrow> bool" where
  "usesCarrierLanes s \<longleftrightarrow> carrier s = CarrierHTTPSLanes \<or> carrier s = CarrierWebSocketLanes"

subsection \<open>Budget\<close>

definition reservePending ::
  "'e callbacks \<Rightarrow> int \<Rightarrow> int \<Rightarrow> pendingClass \<Rightarrow> session \<Rightarrow> 'e \<Rightarrow> (bool \<times> session \<times> 'e) option" where
  "reservePending cb c i cls s e =
     (case (if cls = PendingUplink then uplinkPendingLimits (limits s)
            else if cls = PendingDownlink then downlinkPendingLimits (limits s)
            else (MaxPendingPerSession (limits s), MaxPendingItemsPerSession (limits s)))
      of (costLimit, itemLimit) \<Rightarrow>
        if c \<le> 0 \<or> i < 0 \<or> c > costLimit \<or> i > itemLimit \<or>
           pendingCost s > costLimit - c \<or> pendingItems s > itemLimit - i
        then Some (False, s, e)
        else do {
          (granted, e) \<leftarrow> budget cb c i cls e;
          if \<not> granted then Some (False, s, e)
          else Some (True, s\<lparr>pendingCost := pendingCost s + c, pendingItems := pendingItems s + i\<rparr>, e)
        })"

definition releasePending ::
  "'e callbacks \<Rightarrow> int \<Rightarrow> int \<Rightarrow> session \<Rightarrow> 'e \<Rightarrow> (session \<times> 'e) option" where
  "releasePending cb c i s e =
     (if c = 0 \<and> i = 0 then Some (s, e)
      else if c < 0 \<or> i < 0 \<or> c > pendingCost s \<or> i > pendingItems s then None
      else do {
        (_, e) \<leftarrow> budget cb (- c) (- i) PendingUplink e;
        Some (s\<lparr>pendingCost := pendingCost s - c, pendingItems := pendingItems s - i,
                budgetNotify := budgetNotify s + 1\<rparr>, e)
      })"

subsection \<open>Queueing a frame\<close>

text \<open>A frame of a stream goes to the session's own queue or to the lane of the stream.\<close>

definition lane_for :: "u32 \<Rightarrow> session \<Rightarrow> carrierLane option" where
  "lane_for sid s =
     (if usesCarrierLanes s then map_of (carrierLanes s) sid else Some (mux s))"

definition put_lane :: "u32 \<Rightarrow> carrierLane \<Rightarrow> session \<Rightarrow> session" where
  "put_lane sid lane s =
     (if usesCarrierLanes s then s\<lparr>carrierLanes := AList.update sid lane (carrierLanes s)\<rparr>
      else s\<lparr>mux := lane\<rparr>)"

definition queueFrame ::
  "'e callbacks \<Rightarrow> byte \<Rightarrow> u32 \<Rightarrow> byte list \<Rightarrow> session \<Rightarrow> 'e \<Rightarrow> (bool \<times> session \<times> 'e) option" where
  "queueFrame cb t sid payload s e =
     (case lane_for sid s of
        None \<Rightarrow> Some (False, s, e)
      | Some lane \<Rightarrow> do {
          plan \<leftarrow> plan_frame (MaxFramePayload (limits s)) t sid payload lane;
          (case plan of
             Grown lane \<Rightarrow> Some (True, put_lane sid lane s, e)
           | Charged lane c i cls \<Rightarrow> do {
               (ok, s, e) \<leftarrow> reservePending cb c i cls s e;
               Some (if ok then (True, put_lane sid lane s, e) else (False, s, e))
             })
        })"

subsection \<open>Releasing streams, lanes and tombstones\<close>

definition releaseStreamWrites ::
  "'e callbacks \<Rightarrow> streamState \<Rightarrow> session \<Rightarrow> 'e \<Rightarrow> (session \<times> 'e) option" where
  "releaseStreamWrites cb st s e =
     (if pendingWriteCost st \<noteq> 0 \<or> pendingWriteItems st \<noteq> 0
      then releasePending cb (pendingWriteCost st) (pendingWriteItems st) s e
      else Some (s, e))"

definition clear_lane :: "carrierLane \<Rightarrow> carrierLane" where
  "clear_lane lane = lane\<lparr>pendingFrames := [], pendingWindows := Map.empty, unacked := [],
     unackedCost := 0, unackedItems := 0, notify := True\<rparr>"

text \<open>\<open>releaseLaneLocked\<close> with the deletion from \<open>carrierLanes\<close> that follows every call.\<close>

definition releaseLane ::
  "'e callbacks \<Rightarrow> u32 \<Rightarrow> carrierLane \<Rightarrow> session \<Rightarrow> 'e \<Rightarrow> (session \<times> 'e) option" where
  "releaseLane cb laneID lane s e =
     do {
       let c = unackedCost lane + (\<Sum>q \<leftarrow> pendingFrames lane. cost q);
       let i = unackedItems lane + len (pendingFrames lane);
       (s, e) \<leftarrow> (if c \<noteq> 0 \<or> i \<noteq> 0 then releasePending cb c i s e else Some (s, e));
       Some (s\<lparr>carrierLanes := AList.delete laneID (carrierLanes s),
               detached := AList.update (laneRef lane) (clear_lane lane) (detached s)\<rparr>, e)
     }"

definition signal_lane :: "u32 \<Rightarrow> session \<Rightarrow> session" where
  "signal_lane sid s =
     (case map_of (carrierLanes s) sid of
        None \<Rightarrow> s
      | Some lane \<Rightarrow> s\<lparr>carrierLanes := AList.update sid (lane\<lparr>notify := True\<rparr>) (carrierLanes s)\<rparr>)"

text \<open>The full ring overwrites its oldest tombstone and evicts that stream's lane.\<close>

definition evict_oldest :: "'e callbacks \<Rightarrow> u32 \<Rightarrow> session \<Rightarrow> 'e \<Rightarrow> (session \<times> 'e) option" where
  "evict_oldest cb sid s e =
     (if closedStart s \<ge> length (closedOrder s) then None
      else do {
        let old = closedOrder s ! closedStart s;
        let s = s\<lparr>closedStreams := closedStreams s - {old}\<rparr>;
        (s, e) \<leftarrow> (case map_of (carrierLanes s) old of
                    None \<Rightarrow> Some (s, e)
                  | Some lane \<Rightarrow> releaseLane cb old lane s e);
        Some (s\<lparr>closedOrder := (closedOrder s)[closedStart s := sid],
                closedStart := (closedStart s + 1) mod length (closedOrder s)\<rparr>, e)
      })"

definition rememberClosed :: "'e callbacks \<Rightarrow> u32 \<Rightarrow> session \<Rightarrow> 'e \<Rightarrow> (session \<times> 'e) option" where
  "rememberClosed cb sid s e =
     (if sid \<in> closedStreams s then Some (s, e)
      else do {
        let s = s\<lparr>closedStreams := insert sid (closedStreams s)\<rparr>;
        (s, e) \<leftarrow> (if len (closedOrder s) < MaxClosedStreamIDs (limits s)
                   then Some (s\<lparr>closedOrder := closedOrder s @ [sid]\<rparr>, e)
                   else evict_oldest cb sid s e);
        Some (signal_lane sid s, e)
      })"

subsection \<open>Closing the session\<close>

definition closeLocked ::
  "'e callbacks \<Rightarrow> session \<Rightarrow> 'e \<Rightarrow> (nat list \<times> session \<times> 'e) option" where
  "closeLocked cb s e =
     (if closed s then Some ([], s, e)
      else do {
        let backends = map (\<lambda>(_, st). backend st) (streams s);
        e \<leftarrow> (if pendingCost s \<noteq> 0 \<or> pendingItems s \<noteq> 0
              then map_option snd (budget cb (- pendingCost s) (- pendingItems s) PendingUplink e)
              else Some e);
        Some (backends,
          s\<lparr>closed := True,
            carrierLanes := map (\<lambda>(k, lane). (k, clear_lane lane)) (carrierLanes s),
            streams := [], pendingCost := 0, pendingItems := 0,
            mux := clear_lane (mux s), finished := True\<rparr>, e)
      })"

subsection \<open>Web socket ownership\<close>

definition AcquireWebSocket :: "session \<Rightarrow> bool \<times> session" where
  "AcquireWebSocket s =
     (if closed s \<or> carrier s \<noteq> CarrierWebSocket \<or> websocketActive (mux s) then (False, s)
      else (True, s\<lparr>mux := (mux s)\<lparr>websocketActive := True\<rparr>\<rparr>))"

definition add_lane :: "u32 \<Rightarrow> session \<Rightarrow> carrierLane \<times> session" where
  "add_lane laneID s =
     (let lane = newCarrierLane (next_ref s) in
      (lane, s\<lparr>carrierLanes := AList.update laneID lane (carrierLanes s),
               next_ref := next_ref s + 1\<rparr>))"

definition AcquireWebSocketLane :: "u32 \<Rightarrow> int \<Rightarrow> session \<Rightarrow> bool \<times> session" where
  "AcquireWebSocketLane laneID now s =
     (if closed s \<or> carrier s \<noteq> CarrierWebSocketLanes \<or> laneID = 0 \<or> laneID > MaxStreamID
      then (False, s)
      else if laneID \<in> closedStreams s then (False, s)
      else if map_of (carrierLanes s) laneID = None \<and>
              len (carrierLanes s) \<ge> MaxStreamsPerSession (limits s) then (False, s)
      else
        case (case map_of (carrierLanes s) laneID of
                None \<Rightarrow> add_lane laneID s | Some lane \<Rightarrow> (lane, s)) of
          (lane, s) \<Rightarrow>
            if websocketActive lane then (False, s)
            else (True, s\<lparr>carrierLanes := AList.update laneID (lane\<lparr>websocketActive := True\<rparr>)
                            (carrierLanes s), lastActivity := now\<rparr>))"

text \<open>The result is the backend to close, if the lane had a live stream.\<close>

definition ReleaseWebSocketLane ::
  "'e callbacks \<Rightarrow> u32 \<Rightarrow> int \<Rightarrow> session \<Rightarrow> 'e \<Rightarrow> (nat option \<times> session \<times> 'e) option" where
  "ReleaseWebSocketLane cb laneID now s e =
     (if carrier s \<noteq> CarrierWebSocketLanes then Some (None, s, e)
      else
        case map_of (carrierLanes s) laneID of
          None \<Rightarrow> Some (None, s, e)
        | Some lane \<Rightarrow> do {
            let s = s\<lparr>carrierLanes :=
              AList.update laneID (lane\<lparr>websocketActive := False\<rparr>) (carrierLanes s)\<rparr>;
            (b, s, e) \<leftarrow>
              (case map_of (streams s) laneID of
                 None \<Rightarrow> Some (None, s, e)
               | Some st \<Rightarrow> do {
                   (s, e) \<leftarrow> releaseStreamWrites cb st s e;
                   let s = s\<lparr>streams := AList.delete laneID (streams s)\<rparr>;
                   (s, e) \<leftarrow> rememberClosed cb laneID s e;
                   Some (Some (backend st), s, e)
                 });
            (s, e) \<leftarrow> (case map_of (carrierLanes s) laneID of
                        None \<Rightarrow> Some (s, e)
                      | Some lane \<Rightarrow> releaseLane cb laneID lane s e);
            Some (b, s\<lparr>lastActivity := now\<rparr>, e)
          })"

text \<open>Both failures return the backends to close.\<close>

definition protocolFailure ::
  "'e callbacks \<Rightarrow> session \<Rightarrow> 'e \<Rightarrow> (nat list \<times> session \<times> 'e) option" where
  "protocolFailure cb s e = closeLocked cb s e"

definition laneProtocolFailure ::
  "'e callbacks \<Rightarrow> u32 \<Rightarrow> int \<Rightarrow> session \<Rightarrow> 'e \<Rightarrow> (nat list \<times> session \<times> 'e) option" where
  "laneProtocolFailure cb laneID now s e =
     (if carrier s = CarrierWebSocketLanes then do {
        (b, s, e) \<leftarrow> ReleaseWebSocketLane cb laneID now s e;
        Some ((case b of None \<Rightarrow> [] | Some b \<Rightarrow> [b]), s, e)
      } else protocolFailure cb s e)"

end
