(* ===== verification/Session_Inv.thy ===== *)
theory Session_Inv
  imports Session
begin

text \<open>
  The invariant of a session and the proof that the operations of \<open>Session\<close> keep it. The
  session's budget counters are exactly what its streams and queues hold; \<open>session_inv rc ri\<close>
  allows a difference of \<open>rc\<close> and \<open>ri\<close>, which is what an operation has reserved and not yet
  used. The proofs are in the context of \<open>session_owner\<close>, so they use only the laws of the
  owner's interface: no operation panics, and the owner's pool changes by exactly what the
  session's counters change by.
\<close>

subsection \<open>The invariant\<close>

definition stream_ok :: "u32 \<Rightarrow> streamState \<Rightarrow> bool" where
  "stream_ok sid st \<longleftrightarrow>
     sid \<noteq> 0 \<and> sid \<le> MaxStreamID \<and> 0 \<le> pendingWriteBytes st \<and> 0 \<le> pendingWriteItems st \<and>
     pendingWriteCost st = pendingWriteBytes st + queueItemCost * pendingWriteItems st \<and>
     uint (receiveWindow st) + pendingWriteBytes st = InitialStreamWindow \<and>
     uint (sendCredit st) \<le> MaxUint32"

text \<open>
  A lane holds at most one unacknowledged batch, the one before its cursor; a poll is parked
  on it only when there is none and its cursor is the lane's, and then queued frames come
  with a pending signal.
\<close>

definition lane_ok :: "carrierLane \<Rightarrow> bool" where
  "lane_ok lane \<longleftrightarrow> queue_ok lane \<and> 0 \<le> unackedCost lane \<and> 0 \<le> unackedItems lane \<and>
     (unacked lane = [] \<longrightarrow> unackedCost lane = 0 \<and> unackedItems lane = 0) \<and>
     (unacked lane \<noteq> [] \<longrightarrow> downCursor lane = unackedBase lane + 1) \<and>
     (superseded lane \<noteq> None \<longrightarrow> unacked lane = [] \<and> poll_cursor (the (superseded lane)) = downCursor lane \<and>
        (pendingFrames lane \<noteq> [] \<longrightarrow> notify lane))"

text \<open>The ring of tombstones: \<open>closedOrder\<close> lists the closed ids once each.\<close>

definition ring_ok :: "session \<Rightarrow> bool" where
  "ring_ok s \<longleftrightarrow> distinct (closedOrder s) \<and> set (closedOrder s) = closedStreams s \<and>
     len (closedOrder s) \<le> MaxClosedStreamIDs (limits s) \<and>
     (len (closedOrder s) < MaxClosedStreamIDs (limits s) \<longrightarrow> closedStart s = 0) \<and>
     (closedOrder s \<noteq> [] \<longrightarrow> closedStart s < length (closedOrder s))"

definition streams_ok :: "session \<Rightarrow> bool" where
  "streams_ok s \<longleftrightarrow> distinct_keys (streams s) \<and> all_vals stream_ok (streams s) \<and>
     keys (streams s) \<inter> closedStreams s = {} \<and> (closed s \<longrightarrow> streams s = []) \<and>
     (usesCarrierLanes s \<longrightarrow> keys (streams s) \<subseteq> keys (carrierLanes s))"

text \<open>A lane object that has left the map is empty.\<close>

definition lane_emptied :: "nat \<Rightarrow> carrierLane \<Rightarrow> bool" where
  "lane_emptied ref lane \<longleftrightarrow> lane_ok lane \<and> laneRef lane = ref \<and> lane_cost lane = 0 \<and> lane_items lane = 0"

definition lanes_ok :: "session \<Rightarrow> bool" where
  "lanes_ok s \<longleftrightarrow> distinct_keys (carrierLanes s) \<and> all_vals (\<lambda>_. lane_ok) (carrierLanes s) \<and>
     lane_ok (mux s) \<and> all_vals lane_emptied (detached s)"

definition held_cost :: "session \<Rightarrow> int" where
  "held_cost s = sum_vals pendingWriteCost (streams s) + lane_cost (mux s) +
     sum_vals lane_cost (carrierLanes s)"

definition held_items :: "session \<Rightarrow> int" where
  "held_items s = sum_vals pendingWriteItems (streams s) + lane_items (mux s) +
     sum_vals lane_items (carrierLanes s)"

definition session_inv :: "int \<Rightarrow> int \<Rightarrow> session \<Rightarrow> bool" where
  "session_inv rc ri s \<longleftrightarrow> limits_ok (limits s) \<and> ring_ok s \<and> streams_ok s \<and> lanes_ok s \<and>
     pendingCost s = held_cost s + rc \<and> pendingItems s = held_items s + ri"

text \<open>A closed session holds nothing, and a poll parked on it has a pending signal.\<close>

definition session_ok :: "session \<Rightarrow> bool" where
  "session_ok s \<longleftrightarrow> session_inv 0 0 s \<and> finished s = closed s \<and>
     (closed s \<longrightarrow> pendingCost s = 0 \<and> pendingItems s = 0 \<and> (superseded (mux s) \<noteq> None \<longrightarrow> notify (mux s)))"

lemma newCarrierLane_totals [simp]:
  "lane_cost (newCarrierLane r) = 0" "lane_items (newCarrierLane r) = 0"
  by (simp_all add: lane_cost_def lane_items_def newCarrierLane_def)

lemma stream_ok_nonneg: "stream_ok sid st \<Longrightarrow> 0 \<le> pendingWriteCost st \<and> 0 \<le> pendingWriteItems st"
  by (simp add: stream_ok_def)

lemma lane_ok_nonneg: "lane_ok lane \<Longrightarrow> 0 \<le> lane_cost lane \<and> 0 \<le> lane_items lane"
  using queue_cost_nonneg [of "pendingFrames lane"]
  by (simp add: lane_ok_def queue_ok_def lane_cost_def lane_items_def)

lemma lane_ok_clear [simp]: "lane_ok lane \<Longrightarrow> lane_ok (clear_lane lane)"
  by (simp add: lane_ok_def clear_lane_def queue_ok_def windows_ok_def)

lemma lane_ok_new [simp]: "lane_ok (newCarrierLane r)"
  by (simp add: lane_ok_def newCarrierLane_def queue_ok_def windows_ok_def)

lemma lane_totals_simps [simp]:
  "lane_cost (clear_lane lane) = 0" "lane_items (clear_lane lane) = 0"
  by (simp_all add: lane_cost_def lane_items_def clear_lane_def)

lemma lane_emptied_clear [simp]: "lane_ok lane \<Longrightarrow> lane_emptied (laneRef lane) (clear_lane lane)"
  by (simp add: lane_emptied_def) (simp add: clear_lane_def)

text \<open>The fields of a lane outside its queue and batch carry no budget.\<close>

lemma lane_frame [simp]:
  "lane_cost (lane\<lparr>notify := b\<rparr>) = lane_cost lane"
  "lane_items (lane\<lparr>notify := b\<rparr>) = lane_items lane"
  "lane_ok (lane\<lparr>websocketActive := b\<rparr>) = lane_ok lane"
  "lane_cost (lane\<lparr>websocketActive := b\<rparr>) = lane_cost lane"
  "lane_items (lane\<lparr>websocketActive := b\<rparr>) = lane_items lane"
  "lane_ok (lane\<lparr>upActive := b\<rparr>) = lane_ok lane" "lane_cost (lane\<lparr>upActive := b\<rparr>) = lane_cost lane"
  "lane_items (lane\<lparr>upActive := b\<rparr>) = lane_items lane"
  "lane_ok (lane\<lparr>downActive := b\<rparr>) = lane_ok lane"
  "lane_cost (lane\<lparr>downActive := b\<rparr>) = lane_cost lane"
  "lane_items (lane\<lparr>downActive := b\<rparr>) = lane_items lane"
  "lane_cost (lane\<lparr>superseded := r\<rparr>) = lane_cost lane"
  "lane_items (lane\<lparr>superseded := r\<rparr>) = lane_items lane"
  "lane_ok (lane\<lparr>lastUpSequence := q\<rparr>) = lane_ok lane"
  "lane_cost (lane\<lparr>lastUpSequence := q\<rparr>) = lane_cost lane"
  "lane_items (lane\<lparr>lastUpSequence := q\<rparr>) = lane_items lane"
  "lane_ok (lane\<lparr>lastUpDigest := d\<rparr>) = lane_ok lane"
  "lane_cost (lane\<lparr>lastUpDigest := d\<rparr>) = lane_cost lane"
  "lane_items (lane\<lparr>lastUpDigest := d\<rparr>) = lane_items lane"
  by (simp_all add: lane_ok_def lane_cost_def lane_items_def queue_ok_def)

lemma lane_ok_signal [simp]: "lane_ok lane \<Longrightarrow> lane_ok (lane\<lparr>notify := True\<rparr>)"
  by (simp add: lane_ok_def queue_ok_def)

lemma lane_ok_idle [simp]:
  "lane_ok lane \<Longrightarrow> lane_ok (lane\<lparr>downActive := b, superseded := None\<rparr>)"
  "lane_cost (lane\<lparr>downActive := b, superseded := None\<rparr>) = lane_cost lane"
  "lane_items (lane\<lparr>downActive := b, superseded := None\<rparr>) = lane_items lane"
  by (simp_all add: lane_ok_def queue_ok_def lane_cost_def lane_items_def)

lemma newSession_ok: "limits_ok lims \<Longrightarrow> session_ok (newSession prof ip lims now)"
  by (simp add: session_ok_def session_inv_def newSession_def Let_def ring_ok_def streams_ok_def
      lanes_ok_def held_cost_def held_items_def limits_ok_def all_vals_def)

lemma totals_nonneg:
  assumes "streams_ok s" and "lanes_ok s"
  shows "0 \<le> sum_vals pendingWriteCost (streams s)" "0 \<le> sum_vals pendingWriteItems (streams s)"
    "0 \<le> sum_vals lane_cost (carrierLanes s)" "0 \<le> sum_vals lane_items (carrierLanes s)"
    "0 \<le> lane_cost (mux s)" "0 \<le> lane_items (mux s)"
  using assms lane_ok_nonneg stream_ok_nonneg
  by (auto simp: streams_ok_def lanes_ok_def intro!: sum_vals_nonneg_vals elim!: all_vals_mono)

lemma stream_total_le:
  assumes "streams_ok s" and "map_of (streams s) sid = Some st"
  shows "pendingWriteCost st \<le> sum_vals pendingWriteCost (streams s)"
    "pendingWriteItems st \<le> sum_vals pendingWriteItems (streams s)"
  using assms stream_ok_nonneg
  by (auto simp: streams_ok_def intro!: sum_vals_ge_val elim!: all_vals_mono)

lemma lane_total_le:
  assumes "lanes_ok s" and "map_of (carrierLanes s) sid = Some lane"
  shows "lane_cost lane \<le> sum_vals lane_cost (carrierLanes s)"
    "lane_items lane \<le> sum_vals lane_items (carrierLanes s)"
  using assms lane_ok_nonneg
  by (auto simp: lanes_ok_def intro!: sum_vals_ge_val elim!: all_vals_mono)

lemma stream_of_ok:
  "session_inv rc ri s \<Longrightarrow> map_of (streams s) sid = Some st \<Longrightarrow> stream_ok sid st"
  by (auto simp: session_inv_def streams_ok_def dest: all_valsD)

lemma lane_of_ok:
  "session_inv rc ri s \<Longrightarrow> map_of (carrierLanes s) sid = Some lane \<Longrightarrow> lane_ok lane"
  by (auto simp: session_inv_def lanes_ok_def dest: all_valsD)

lemma lane_for_ok: "session_inv rc ri s \<Longrightarrow> lane_for sid s = Some lane \<Longrightarrow> lane_ok lane"
  by (auto simp: lane_for_def session_inv_def lanes_ok_def dest: all_valsD split: if_splits)

subsection \<open>Elementary updates\<close>

lemma session_inv_irrelevant [simp]:
  "session_inv rc ri (s\<lparr>lastActivity := n\<rparr>) = session_inv rc ri s"
  "session_inv rc ri (s\<lparr>budgetNotify := k\<rparr>) = session_inv rc ri s"
  "session_inv rc ri (s\<lparr>next_ref := k\<rparr>) = session_inv rc ri s"
  "session_inv rc ri (s\<lparr>finished := b\<rparr>) = session_inv rc ri s"
  by (simp_all add: session_inv_def ring_ok_def streams_ok_def lanes_ok_def held_cost_def
      held_items_def usesCarrierLanes_def)

lemma session_inv_detach:
  "session_inv rc ri s \<Longrightarrow> lane_emptied ref lane \<Longrightarrow>
     session_inv rc ri (s\<lparr>detached := AList.update ref lane (detached s)\<rparr>)"
  by (auto simp: session_inv_def ring_ok_def streams_ok_def lanes_ok_def held_cost_def
      held_items_def usesCarrierLanes_def)

lemma session_inv_pending:
  "session_inv rc ri s \<Longrightarrow>
   session_inv (rc + c) (ri + i) (s\<lparr>pendingCost := pendingCost s + c, pendingItems := pendingItems s + i\<rparr>)"
  by (simp add: session_inv_def ring_ok_def streams_ok_def lanes_ok_def held_cost_def
      held_items_def usesCarrierLanes_def)

lemma session_inv_put_lane:
  assumes "session_inv rc ri s" and "lane_for sid s = Some lane" and "lane_ok lane'"
  shows "session_inv (rc + lane_cost lane - lane_cost lane') (ri + lane_items lane - lane_items lane')
    (put_lane sid lane' s)"
  using assms
  by (auto simp: session_inv_def put_lane_def lane_for_def ring_ok_def streams_ok_def lanes_ok_def
      held_cost_def held_items_def usesCarrierLanes_def sum_vals_update_Some split: if_splits)

lemma session_inv_update_lane:
  assumes "session_inv rc ri s" and "map_of (carrierLanes s) sid = Some lane" and "lane_ok lane'"
  shows "session_inv (rc + lane_cost lane - lane_cost lane') (ri + lane_items lane - lane_items lane')
    (s\<lparr>carrierLanes := AList.update sid lane' (carrierLanes s)\<rparr>)"
  using assms
  by (auto simp: session_inv_def ring_ok_def streams_ok_def lanes_ok_def
      held_cost_def held_items_def usesCarrierLanes_def sum_vals_update_Some)

lemma session_inv_new_lane:
  assumes "session_inv rc ri s" and "map_of (carrierLanes s) sid = None"
  shows "session_inv rc ri (s\<lparr>carrierLanes := AList.update sid (newCarrierLane r) (carrierLanes s)\<rparr>)"
  using assms
  by (auto simp: session_inv_def ring_ok_def streams_ok_def lanes_ok_def map_of_None_keys
      held_cost_def held_items_def usesCarrierLanes_def sum_vals_update_None)

lemma session_inv_delete_lane:
  assumes "session_inv rc ri s" and "map_of (carrierLanes s) sid = Some lane"
    and "sid \<notin> keys (streams s) \<or> \<not> usesCarrierLanes s"
  shows "session_inv (rc + lane_cost lane) (ri + lane_items lane)
    (s\<lparr>carrierLanes := AList.delete sid (carrierLanes s)\<rparr>)"
  using assms
  by (auto simp: session_inv_def ring_ok_def streams_ok_def lanes_ok_def
      held_cost_def held_items_def usesCarrierLanes_def sum_vals_delete)

lemma session_inv_update_stream:
  assumes "session_inv rc ri s" and "map_of (streams s) sid = Some st" and "stream_ok sid st'"
  shows "session_inv (rc + pendingWriteCost st - pendingWriteCost st')
    (ri + pendingWriteItems st - pendingWriteItems st')
    (s\<lparr>streams := AList.update sid st' (streams s)\<rparr>)"
proof -
  have "sid \<in> keys (streams s)" using assms(2) by (rule map_of_keys)
  then show ?thesis
    using assms
    by (auto simp: session_inv_def ring_ok_def streams_ok_def lanes_ok_def
        held_cost_def held_items_def usesCarrierLanes_def sum_vals_update_Some)
qed

lemma session_inv_delete_stream:
  assumes "session_inv rc ri s" and "map_of (streams s) sid = Some st"
  shows "session_inv (rc + pendingWriteCost st) (ri + pendingWriteItems st)
    (s\<lparr>streams := AList.delete sid (streams s)\<rparr>)"
  using assms
  by (auto simp: session_inv_def ring_ok_def streams_ok_def lanes_ok_def
      held_cost_def held_items_def usesCarrierLanes_def sum_vals_delete)

lemma session_inv_new_stream:
  assumes "session_inv rc ri s" and "sid \<notin> keys (streams s)" and "sid \<notin> closedStreams s"
    and "stream_ok sid st" and "pendingWriteCost st = 0" and "pendingWriteItems st = 0"
    and "\<not> closed s" and "usesCarrierLanes s \<longrightarrow> sid \<in> keys (carrierLanes s)"
  shows "session_inv rc ri (s\<lparr>streams := AList.update sid st (streams s)\<rparr>)"
  using assms
  by (auto simp: session_inv_def ring_ok_def streams_ok_def lanes_ok_def
      held_cost_def held_items_def usesCarrierLanes_def sum_vals_update_None)

subsection \<open>The operations, against any owner\<close>

definition same_session :: "session \<Rightarrow> session \<Rightarrow> bool" where
  "same_session s s' \<longleftrightarrow> profile s' = profile s \<and> clientIP s' = clientIP s \<and>
     limits s' = limits s \<and> carrier s' = carrier s"

lemma same_session_refl [simp]: "same_session s s"
  by (simp add: same_session_def)

lemma same_session_trans: "same_session s s' \<Longrightarrow> same_session s' s'' \<Longrightarrow> same_session s s''"
  by (simp add: same_session_def)

lemma same_session_lanes: "same_session s s' \<Longrightarrow> usesCarrierLanes s' = usesCarrierLanes s"
  by (simp add: same_session_def usesCarrierLanes_def)

text \<open>
  The session and the owner move together: the pool, less what this session has in it, is
  unchanged, and so are the session's fixed fields.
\<close>

definition moved_with ::
  "('e \<Rightarrow> bool) \<Rightarrow> ('e \<Rightarrow> int) \<Rightarrow> ('e \<Rightarrow> int) \<Rightarrow> session \<Rightarrow> 'e \<Rightarrow> session \<Rightarrow> 'e \<Rightarrow> bool" where
  "moved_with ok pc pit s e s' e' \<longleftrightarrow> ok e' \<and> same_session s s' \<and>
     pc e' - pendingCost s' = pc e - pendingCost s \<and>
     pit e' - pendingItems s' = pit e - pendingItems s"

definition in_pool :: "('e \<Rightarrow> bool) \<Rightarrow> ('e \<Rightarrow> int) \<Rightarrow> ('e \<Rightarrow> int) \<Rightarrow> session \<Rightarrow> 'e \<Rightarrow> bool" where
  "in_pool ok pc pit s e \<longleftrightarrow> ok e \<and> pendingCost s \<le> pc e \<and> pendingItems s \<le> pit e"

text \<open>Writes to fields other than the counters and the fixed ones.\<close>

definition same_counts :: "session \<Rightarrow> session \<Rightarrow> bool" where
  "same_counts s s' \<longleftrightarrow> same_session s s' \<and> pendingCost s' = pendingCost s \<and>
     pendingItems s' = pendingItems s"

lemma put_lane_fields [simp]:
  "pendingCost (put_lane sid lane s) = pendingCost s" "pendingItems (put_lane sid lane s) = pendingItems s"
  "streams (put_lane sid lane s) = streams s" "closed (put_lane sid lane s) = closed s"
  "closedStreams (put_lane sid lane s) = closedStreams s" "closedOrder (put_lane sid lane s) = closedOrder s"
  "closedStart (put_lane sid lane s) = closedStart s"
  "limits (put_lane sid lane s) = limits s" "same_session s (put_lane sid lane s)"
  "same_counts s (put_lane sid lane s)"
  by (simp_all add: put_lane_def same_session_def same_counts_def)

lemma queued_more_lane_ok:
  assumes "queued_more t sid p lane lane' c i" and "lane_ok lane"
  shows "lane_ok lane' \<and> lane_cost lane' = lane_cost lane + c \<and> lane_items lane' = lane_items lane + i"
proof -
  have q: "queue_ok lane'" and l: "lane' = lane\<lparr>pendingFrames := pendingFrames lane',
      pendingWindows := pendingWindows lane', notify := True\<rparr>"
    and t: "queue_cost (pendingFrames lane') = queue_cost (pendingFrames lane) + c"
      "len (pendingFrames lane') = len (pendingFrames lane) + i"
    using assms(1) by (simp_all add: queued_more_def)
  have u: "unackedCost lane' = unackedCost lane" "unackedItems lane' = unackedItems lane"
      "unacked lane' = unacked lane" "notify lane'" "superseded lane' = superseded lane"
      "downCursor lane' = downCursor lane" "unackedBase lane' = unackedBase lane"
    by (subst l, simp)+
  show ?thesis using q t u assms(2) by (simp add: lane_ok_def lane_cost_def lane_items_def)
qed

context session_owner
begin

abbreviation "moved \<equiv> moved_with owner_ok pool_cost pool_items"
abbreviation "acc \<equiv> in_pool owner_ok pool_cost pool_items"

lemma moved_refl: "acc s e \<Longrightarrow> moved s e s e"
  by (simp add: moved_with_def in_pool_def)

lemma moved_trans: "moved s e s' e' \<Longrightarrow> moved s' e' s'' e'' \<Longrightarrow> moved s e s'' e''"
  by (auto simp: moved_with_def dest: same_session_trans)

lemma acc_moved: "acc s e \<Longrightarrow> moved s e s' e' \<Longrightarrow> acc s' e'"
  by (simp add: moved_with_def in_pool_def)

lemma moved_counts: "acc s e \<Longrightarrow> same_counts s s' \<Longrightarrow> moved s e s' e"
  by (simp add: moved_with_def in_pool_def same_counts_def)

lemma moved_counts_trans: "moved s e s' e' \<Longrightarrow> same_counts s' s'' \<Longrightarrow> moved s e s'' e'"
  by (auto simp: moved_with_def same_counts_def dest: same_session_trans)

lemma acc_counts: "acc s e \<Longrightarrow> same_counts s s' \<Longrightarrow> acc s' e"
  by (simp add: in_pool_def same_counts_def)

lemma reservePending_ok:
  assumes "acc s e"
  shows "ok_with (reservePending cb c i cls s e) (\<lambda>(ok, s', e'). moved s e s' e' \<and>
     s' = (if ok then s\<lparr>pendingCost := pendingCost s + c, pendingItems := pendingItems s + i\<rparr> else s) \<and>
     (ok \<longrightarrow> 0 < c \<and> 0 \<le> i))"
proof (cases "c \<le> 0 \<or> i < 0")
  case True
  then show ?thesis using moved_refl [OF assms] by (auto simp: reservePending_def split: prod.splits)
next
  case False
  then obtain granted e' where b: "budget cb c i cls e = Some (granted, e')" "owner_ok e'"
      "pool_cost e' = pool_cost e + (if granted then c else 0)"
      "pool_items e' = pool_items e + (if granted then i else 0)"
    using budget_reserve [of e c i cls] assms by (auto simp: in_pool_def)
  have "moved s e (if granted
      then s\<lparr>pendingCost := pendingCost s + c, pendingItems := pendingItems s + i\<rparr> else s) e'"
    using b by (simp add: moved_with_def same_session_def)
  then show ?thesis
    using False b(1) moved_refl [OF assms]
    by (cases granted) (auto simp: reservePending_def split: prod.splits)
qed

lemma releasePending_ok:
  assumes "acc s e" and "0 \<le> c" "c \<le> pendingCost s" "0 \<le> i" "i \<le> pendingItems s"
  shows "ok_with (releasePending cb c i s e) (\<lambda>(s', e'). moved s e s' e' \<and>
     s' = s\<lparr>pendingCost := pendingCost s - c, pendingItems := pendingItems s - i,
            budgetNotify := budgetNotify s'\<rparr>)"
proof (cases "c = 0 \<and> i = 0")
  case True
  then show ?thesis using moved_refl [OF assms(1)] by (auto simp: releasePending_def)
next
  case False
  obtain e' where b: "budget cb (- c) (- i) PendingUplink e = Some (True, e')" "owner_ok e'"
      "pool_cost e' = pool_cost e - c" "pool_items e' = pool_items e - i"
    using budget_release [of e c i PendingUplink] assms by (auto simp: in_pool_def)
  then show ?thesis
    using False assms by (auto simp: releasePending_def moved_with_def same_session_def)
qed

lemma release_inv:
  assumes "session_inv rc ri s" and "acc s e" and "0 \<le> c" "0 \<le> i"
    and "c \<le> pendingCost s" "i \<le> pendingItems s"
  shows "ok_with (releasePending cb c i s e) (\<lambda>(s', e'). moved s e s' e' \<and>
     session_inv (rc - c) (ri - i) s' \<and>
     s' = s\<lparr>pendingCost := pendingCost s - c, pendingItems := pendingItems s - i,
            budgetNotify := budgetNotify s'\<rparr>)"
proof (rule ok_with_mono2 [OF releasePending_ok [OF assms(2,3,5,4,6)]])
  fix s' e'
  assume h: "moved s e s' e' \<and> s' = s\<lparr>pendingCost := pendingCost s - c,
      pendingItems := pendingItems s - i, budgetNotify := budgetNotify s'\<rparr>"
  then have s': "s' = s\<lparr>pendingCost := pendingCost s - c,
      pendingItems := pendingItems s - i, budgetNotify := budgetNotify s'\<rparr>" by blast
  have "session_inv (rc + - c) (ri + - i)
      (s\<lparr>pendingCost := pendingCost s + - c, pendingItems := pendingItems s + - i\<rparr>
        \<lparr>budgetNotify := budgetNotify s'\<rparr>)"
    unfolding session_inv_irrelevant by (rule session_inv_pending [OF assms(1)])
  then have "session_inv (rc - c) (ri - i) s'"
    by (subst s') simp
  then show "moved s e s' e' \<and> session_inv (rc - c) (ri - i) s' \<and>
      s' = s\<lparr>pendingCost := pendingCost s - c, pendingItems := pendingItems s - i,
             budgetNotify := budgetNotify s'\<rparr>"
    using h by blast
qed

text \<open>
  \<open>queueFrame\<close> on a well-formed session does not panic; when it answers false it changed
  nothing but the owner's counters, when it answers true the frame is in the queue of its
  stream and has been paid for.
\<close>

lemma queueFrame_ok:
  assumes inv: "session_inv rc ri s" and acc: "acc s e" and sid: "sid \<le> MaxStreamID"
    and p: "len p \<le> MaxPayload" and w: "t = Window \<longrightarrow> (\<exists>v. v \<noteq> 0 \<and> p = WindowPayload v)"
  shows "ok_with (queueFrame cb t sid p s e) (\<lambda>(ok, s', e'). session_inv rc ri s' \<and> moved s e s' e' \<and>
     (if ok then \<exists>lane lane' c i. lane_for sid s = Some lane \<and> queued_more t sid p lane lane' c i \<and>
        s' = put_lane sid lane'
          (s\<lparr>pendingCost := pendingCost s + c, pendingItems := pendingItems s + i\<rparr>)
      else s' = s))"
proof (cases "lane_for sid s")
  case None
  then show ?thesis using inv moved_refl [OF acc] by (simp add: queueFrame_def)
next
  case (Some lane)
  have lane: "lane_ok lane" by (rule lane_for_ok [OF inv Some])
  have m: "MaxFramePayload (limits s) \<le> MaxPayload"
    using inv by (simp add: session_inv_def limits_ok_def)
  obtain plan where plan: "plan_frame (MaxFramePayload (limits s)) t sid p lane = Some plan"
      "plan_ok t sid p lane plan"
    using plan_frame_ok [OF _ sid p w m] lane by (auto simp: lane_ok_def)
  show ?thesis
  proof (cases plan)
    case (Grown lane')
    then have q: "queued_more t sid p lane lane' 0 0" using plan(2) by (auto simp: plan_ok_def)
    then have "session_inv rc ri (put_lane sid lane' s)"
      using session_inv_put_lane [OF inv Some, of lane'] queued_more_lane_ok [OF q lane] by simp
    moreover have "moved s e (put_lane sid lane' s) e" by (rule moved_counts [OF acc]) simp
    ultimately show ?thesis
      using q Some plan(1) Grown
      by (auto simp: queueFrame_def put_lane_def intro!: exI [of _ lane'] exI [of _ 0])
  next
    case (Charged lane' c i cls)
    then have q: "queued_more t sid p lane lane' c i" using plan(2) by (simp add: plan_ok_def)
    note l = queued_more_lane_ok [OF q lane]
    have r: "session_inv rc ri (put_lane sid lane'
        (s\<lparr>pendingCost := pendingCost s + c, pendingItems := pendingItems s + i\<rparr>))"
    proof -
      let ?s = "s\<lparr>pendingCost := pendingCost s + c, pendingItems := pendingItems s + i\<rparr>"
      have "lane_for sid ?s = Some lane" using Some by (auto simp: lane_for_def usesCarrierLanes_def split: if_splits)
      from session_inv_put_lane [OF session_inv_pending [OF inv] this, of lane']
      show ?thesis using l by simp
    qed
    have eq: "queueFrame cb t sid p s e = reservePending cb c i cls s e \<bind>
        (\<lambda>(ok, s, e). Some (if ok then (True, put_lane sid lane' s, e) else (False, s, e)))"
      using Some plan(1) Charged by (simp add: queueFrame_def)
    show ?thesis
      unfolding eq wp_rules
    proof (rule ok_with_mono [OF reservePending_ok [OF acc]], goal_cases)
      case (1 x)
      obtain ok s' e' where x: "x = (ok, s', e')" by (cases x)
      show ?case
      proof (cases ok)
        case False
        then show ?thesis using 1 x inv by auto
      next
        case True
        then have m: "moved s e s' e'" and s': "s' = s\<lparr>pendingCost := pendingCost s + c,
            pendingItems := pendingItems s + i\<rparr>" using 1 x by auto
        have "moved s e (put_lane sid lane' s') e'" by (rule moved_counts_trans [OF m]) simp
        then show ?thesis using r x True s' Some q by auto
      qed
    qed
  qed
qed

end

end
