(* ===== verification/Session_Ops.thy ===== *)
theory Session_Ops
  imports Session_Inv
begin

text \<open>
  The rules of the session operations that drop state: releasing a stream's writes, a lane
  and a tombstone, remembering a closed stream, closing the session, and the acquisition and
  release of web sockets. Each keeps the invariant, moves the owner's pool with the
  session's counters and does not panic.
\<close>

text \<open>The tombstone that remembering \<open>sid\<close> pushes out of a full ring.\<close>

definition evicted_by :: "u32 \<Rightarrow> session \<Rightarrow> u32 set" where
  "evicted_by sid s =
     (if sid \<in> closedStreams s \<or> len (closedOrder s) < MaxClosedStreamIDs (limits s) then {}
      else {closedOrder s ! closedStart s})"

text \<open>The tombstones from the oldest to the newest: the ring read as a queue.\<close>

definition remembered :: "session \<Rightarrow> u32 list" where
  "remembered s = rotate (closedStart s) (closedOrder s)"

lemma rotate_overwrite:
  assumes "k < length xs"
  shows "rotate ((k + 1) mod length xs) (xs[k := y]) = tl (rotate k xs) @ [y]"
proof -
  have "rotate ((k + 1) mod length xs) (xs[k := y]) = rotate1 (rotate k (xs[k := y]))"
    using rotate_conv_mod [of "k + 1" "xs[k := y]"] by simp
  also have "rotate k (xs[k := y]) = y # drop (Suc k) xs @ take k xs"
    using assms by (simp add: rotate_drop_take upd_conv_take_nth_drop)
  also have "rotate1 \<dots> = tl (rotate k xs) @ [y]"
    using assms by (simp add: rotate_drop_take Cons_nth_drop_Suc [symmetric])
  finally show ?thesis .
qed

lemma hd_rotate: "k < length xs \<Longrightarrow> hd (rotate k xs) = xs ! k"
  by (simp add: rotate_drop_take hd_drop_conv_nth)

definition remember_push :: "int \<Rightarrow> u32 \<Rightarrow> u32 list \<Rightarrow> u32 list" where
  "remember_push n sid ids =
     (if sid \<in> set ids then ids else if len ids < n then ids @ [sid] else tl ids @ [sid])"

lemma remembered_set: "ring_ok s \<Longrightarrow> set (remembered s) = closedStreams s"
  by (simp add: remembered_def ring_ok_def)

lemma session_inv_remember:
  assumes inv: "session_inv rc ri s" and n: "sid \<notin> keys (streams s)" "sid \<notin> closedStreams s"
    and l: "len (closedOrder s) < MaxClosedStreamIDs (limits s)"
  shows "session_inv rc ri (s\<lparr>closedStreams := insert sid (closedStreams s),
      closedOrder := closedOrder s @ [sid]\<rparr>)"
  using assms
  by (auto simp: session_inv_def ring_ok_def streams_ok_def lanes_ok_def held_cost_def
      held_items_def usesCarrierLanes_def)

lemma session_inv_overwrite:
  assumes inv: "session_inv rc ri s" and n: "sid \<notin> keys (streams s)" "sid \<notin> closedStreams s"
    and k: "closedStart s < length (closedOrder s)"
    and l: "\<not> len (closedOrder s) < MaxClosedStreamIDs (limits s)"
  shows "session_inv rc ri (s\<lparr>
      closedStreams := insert sid (closedStreams s) - {closedOrder s ! closedStart s},
      closedOrder := (closedOrder s)[closedStart s := sid],
      closedStart := (closedStart s + 1) mod length (closedOrder s)\<rparr>)"
proof -
  have d: "distinct (closedOrder s)" "set (closedOrder s) = closedStreams s"
    using inv by (simp_all add: session_inv_def ring_ok_def)
  have "set ((closedOrder s)[closedStart s := sid]) =
      insert sid (closedStreams s) - {closedOrder s ! closedStart s}"
    using d k n by (auto simp: set_update_distinct)
  moreover have "distinct ((closedOrder s)[closedStart s := sid])"
    using d n by (simp add: distinct_list_update)
  ultimately show ?thesis
    using assms
    by (auto simp: session_inv_def ring_ok_def streams_ok_def lanes_ok_def held_cost_def
        held_items_def usesCarrierLanes_def)
qed

lemma releaseLane_closedStreams:
  "releaseLane cb l lane (s\<lparr>closedStreams := C\<rparr>) e =
     map_option (\<lambda>(s', e'). (s'\<lparr>closedStreams := C\<rparr>, e')) (releaseLane cb l lane s e)"
  by (simp add: releaseLane_def releasePending_def Let_def split: option.splits prod.splits bind_splits)

text \<open>What remembering \<open>sid\<close> as closed does to the session.\<close>

definition remembered_in :: "u32 \<Rightarrow> session \<Rightarrow> session \<Rightarrow> bool" where
  "remembered_in sid s s' \<longleftrightarrow>
     streams s' = streams s \<and> closed s' = closed s \<and> mux s' = mux s \<and>
     finished s' = finished s \<and> pendingCost s' \<le> pendingCost s \<and> pendingItems s' \<le> pendingItems s \<and>
     sid \<in> closedStreams s' \<and>
     closedStreams s' = insert sid (closedStreams s) - evicted_by sid s \<and>
     keys (carrierLanes s') = keys (carrierLanes s) - evicted_by sid s \<and>
     remembered s' = remember_push (MaxClosedStreamIDs (limits s)) sid (remembered s)"

context session_owner
begin

lemma stream_le_pending:
  assumes "session_inv rc ri s" and "0 \<le> rc" and "0 \<le> ri" and "map_of (streams s) sid = Some st"
  shows "0 \<le> pendingWriteCost st" "pendingWriteCost st \<le> pendingCost s"
    "0 \<le> pendingWriteItems st" "pendingWriteItems st \<le> pendingItems s"
  using assms stream_total_le [of s sid st] totals_nonneg [of s]
    stream_ok_nonneg [OF stream_of_ok [OF assms(1,4)]]
  by (auto simp: session_inv_def held_cost_def held_items_def)

lemma lane_le_pending:
  assumes "session_inv rc ri s" and "0 \<le> rc" and "0 \<le> ri" and "map_of (carrierLanes s) sid = Some lane"
  shows "0 \<le> lane_cost lane" "lane_cost lane \<le> pendingCost s"
    "0 \<le> lane_items lane" "lane_items lane \<le> pendingItems s"
  using assms lane_total_le [of s sid lane] totals_nonneg [of s]
    lane_ok_nonneg [OF lane_of_ok [OF assms(1,4)]]
  by (auto simp: session_inv_def held_cost_def held_items_def)

text \<open>Releasing a stream's writes and forgetting the stream.\<close>

lemma releaseStreamWrites_ok:
  assumes inv: "session_inv rc ri s" and acc: "acc s e" and r: "0 \<le> rc" "0 \<le> ri"
    and st: "map_of (streams s) sid = Some st"
  shows "ok_with (releaseStreamWrites cb st s e) (\<lambda>(s', e'). moved s e s' e' \<and>
     session_inv rc ri (s'\<lparr>streams := AList.delete sid (streams s')\<rparr>) \<and>
     (\<exists>n. s' = s\<lparr>pendingCost := pendingCost s - pendingWriteCost st,
            pendingItems := pendingItems s - pendingWriteItems st, budgetNotify := n\<rparr>))"
proof (cases "pendingWriteCost st \<noteq> 0 \<or> pendingWriteItems st \<noteq> 0")
  case True
  note le = stream_le_pending [OF inv r st]
  have eq: "releaseStreamWrites cb st s e =
      releasePending cb (pendingWriteCost st) (pendingWriteItems st) s e"
    using True by (simp only: releaseStreamWrites_def if_True)
  show ?thesis
    unfolding eq
  proof (rule ok_with_mono2 [OF release_inv [OF inv acc le(1,3,2,4)]])
    fix s' e'
    assume h: "moved s e s' e' \<and> session_inv (rc - pendingWriteCost st) (ri - pendingWriteItems st) s' \<and>
       s' = s\<lparr>pendingCost := pendingCost s - pendingWriteCost st,
              pendingItems := pendingItems s - pendingWriteItems st, budgetNotify := budgetNotify s'\<rparr>"
    then have s': "s' = s\<lparr>pendingCost := pendingCost s - pendingWriteCost st,
              pendingItems := pendingItems s - pendingWriteItems st, budgetNotify := budgetNotify s'\<rparr>"
      by blast
    have "map_of (streams s') sid = Some st" by (subst s') (simp add: st)
    from session_inv_delete_stream [OF _ this] h
    have "session_inv rc ri (s'\<lparr>streams := AList.delete sid (streams s')\<rparr>)" by force
    then show "moved s e s' e' \<and> session_inv rc ri (s'\<lparr>streams := AList.delete sid (streams s')\<rparr>) \<and>
       (\<exists>n. s' = s\<lparr>pendingCost := pendingCost s - pendingWriteCost st,
            pendingItems := pendingItems s - pendingWriteItems st, budgetNotify := n\<rparr>)"
      using h s' by blast
  qed
next
  case False
  then show ?thesis
    using session_inv_delete_stream [OF inv st] moved_refl [OF acc]
    by (auto simp: releaseStreamWrites_def intro!: exI [of _ "budgetNotify s"])
qed

lemma releaseLane_ok:
  assumes inv: "session_inv rc ri s" and acc: "acc s e" and r: "0 \<le> rc" "0 \<le> ri"
    and l: "map_of (carrierLanes s) sid = Some lane"
    and n: "sid \<notin> keys (streams s) \<or> \<not> usesCarrierLanes s"
  shows "ok_with (releaseLane cb sid lane s e) (\<lambda>(s', e'). moved s e s' e' \<and> session_inv rc ri s' \<and>
     (\<exists>k. s' = s\<lparr>pendingCost := pendingCost s - lane_cost lane,
            pendingItems := pendingItems s - lane_items lane, budgetNotify := k,
            carrierLanes := AList.delete sid (carrierLanes s),
            detached := AList.update (laneRef lane) (clear_lane lane) (detached s)\<rparr>))"
proof -
  note le = lane_le_pending [OF inv r l]
  have eq: "releaseLane cb sid lane s e = do {
      (s, e) \<leftarrow> releasePending cb (lane_cost lane) (lane_items lane) s e;
      Some (s\<lparr>carrierLanes := AList.delete sid (carrierLanes s),
              detached := AList.update (laneRef lane) (clear_lane lane) (detached s)\<rparr>, e) }"
    by (simp add: releaseLane_def lane_cost_def lane_items_def queue_cost_def releasePending_def Let_def)
  show ?thesis
    unfolding eq wp_rules
  proof (rule ok_with_mono [OF release_inv [OF inv acc le(1,3,2,4)]], goal_cases)
    case (1 x)
    obtain s' e' where x: "x = (s', e')" by (cases x)
    have m: "moved s e s' e'" and i: "session_inv (rc - lane_cost lane) (ri - lane_items lane) s'"
      and s': "s' = s\<lparr>pendingCost := pendingCost s - lane_cost lane,
         pendingItems := pendingItems s - lane_items lane, budgetNotify := budgetNotify s'\<rparr>"
      using 1(2) by (simp_all only: x case_prod_conv)
    from s' obtain k where k: "s' = s\<lparr>pendingCost := pendingCost s - lane_cost lane,
         pendingItems := pendingItems s - lane_items lane, budgetNotify := k\<rparr>" by blast
    let ?t = "s'\<lparr>carrierLanes := AList.delete sid (carrierLanes s'),
        detached := AList.update (laneRef lane) (clear_lane lane) (detached s')\<rparr>"
    have "session_inv rc ri (s'\<lparr>carrierLanes := AList.delete sid (carrierLanes s')\<rparr>)"
      using session_inv_delete_lane [OF i, of sid lane] l n by (simp add: k usesCarrierLanes_def)
    then have inv': "session_inv rc ri ?t"
      by (rule session_inv_detach [where s = "s'\<lparr>carrierLanes := AList.delete sid (carrierLanes s')\<rparr>", simplified])
        (simp add: lane_of_ok [OF inv l])
    have "same_counts s' ?t" by (simp add: same_counts_def same_session_def)
    then have "moved s e ?t e'" by (rule moved_counts_trans [OF m])
    moreover have "?t = s\<lparr>pendingCost := pendingCost s - lane_cost lane,
           pendingItems := pendingItems s - lane_items lane, budgetNotify := k,
           carrierLanes := AList.delete sid (carrierLanes s),
           detached := AList.update (laneRef lane) (clear_lane lane) (detached s)\<rparr>"
      by (simp add: k)
    ultimately show ?case
      using inv' unfolding x case_prod_conv ok_with_simps by blast
  qed
qed

lemma evict_oldest_ok:
  assumes inv: "session_inv rc ri s" and acc: "acc s e" and r: "0 \<le> rc" "0 \<le> ri"
    and n: "sid \<notin> keys (streams s)" "sid \<notin> closedStreams s"
    and l: "\<not> len (closedOrder s) < MaxClosedStreamIDs (limits s)"
  shows "ok_with (evict_oldest cb sid (s\<lparr>closedStreams := insert sid (closedStreams s)\<rparr>) e)
     (\<lambda>(s', e'). moved s e s' e' \<and> session_inv rc ri s' \<and> remembered_in sid s s')"
proof -
  have ring: "ring_ok s" and lim: "0 < MaxClosedStreamIDs (limits s)" "streams_ok s"
    using inv by (simp_all add: session_inv_def limits_ok_def)
  then have ne: "closedOrder s \<noteq> []" using l by auto
  then have k: "closedStart s < length (closedOrder s)" using ring by (simp add: ring_ok_def)
  let ?old = "closedOrder s ! closedStart s"
  define C where "C = insert sid (closedStreams s) - {?old}"
  define fin where "fin = (\<lambda>s' :: session. s'\<lparr>closedStreams := C, closedOrder := (closedOrder s')
      [closedStart s' := sid], closedStart := (closedStart s' + 1) mod length (closedOrder s')\<rparr>)"
  have "set (closedOrder s) = closedStreams s" using ring by (simp add: ring_ok_def)
  then have old: "?old \<in> closedStreams s" using nth_mem [OF k] by simp
  then have oldk: "?old \<notin> keys (streams s)" using lim(2) by (auto simp: streams_ok_def)
  have ev: "evicted_by sid s = {?old}" using n l by (simp add: evicted_by_def)
  have rem: "remembered (fin s') = remember_push (MaxClosedStreamIDs (limits s)) sid (remembered s)"
    if "closedOrder s' = closedOrder s" "closedStart s' = closedStart s" for s'
  proof -
    have "remembered (fin s') = tl (remembered s) @ [sid]"
      unfolding remembered_def fin_def by (simp add: that rotate_overwrite [OF k, simplified])
    moreover have "sid \<notin> set (remembered s)" using n remembered_set [OF ring] by simp
    moreover have "len (remembered s) = len (closedOrder s)" by (simp add: remembered_def)
    ultimately show ?thesis using l by (simp add: remember_push_def)
  qed
  have fin: "moved s e (fin s') e' \<and> session_inv rc ri (fin s') \<and> remembered_in sid s (fin s')"
    if "moved s e s' e'" "session_inv rc ri s'" "streams s' = streams s" "closed s' = closed s"
      "mux s' = mux s" "closedStreams s' = closedStreams s" "closedOrder s' = closedOrder s"
      "closedStart s' = closedStart s" "limits s' = limits s"
      "keys (carrierLanes s') = keys (carrierLanes s) - {?old}" "finished s' = finished s"
      "pendingCost s' \<le> pendingCost s" "pendingItems s' \<le> pendingItems s" for s' e'
  proof -
    have "session_inv rc ri (fin s')"
      using session_inv_overwrite [OF that(2), of sid] n k l that by (simp add: fin_def C_def)
    moreover have "same_counts s' (fin s')"
      by (simp add: same_counts_def same_session_def fin_def)
    ultimately show ?thesis
      using moved_counts_trans [OF that(1)] rem [OF that(7,8)] that(3-)
      old n by (simp add: remembered_in_def ev) (auto simp add: fin_def C_def)
  qed
  show ?thesis
  proof (cases "map_of (carrierLanes s) ?old")
    case None
    then have "keys (carrierLanes s) = keys (carrierLanes s) - {?old}" by (simp add: map_of_None_keys)
    then have "moved s e (fin s) e \<and> session_inv rc ri (fin s) \<and> remembered_in sid s (fin s)"
      by (intro fin moved_refl acc inv) simp_all
    then show ?thesis
      using None k by (simp add: evict_oldest_def Let_def fin_def C_def)
  next
    case (Some lane)
    have eq: "evict_oldest cb sid (s\<lparr>closedStreams := insert sid (closedStreams s)\<rparr>) e =
        map_option (\<lambda>(s', e'). (fin s', e')) (releaseLane cb ?old lane s e)"
      using Some k releaseLane_closedStreams [of cb ?old lane C s e]
      by (cases "releaseLane cb ?old lane s e")
        (auto simp: evict_oldest_def Let_def fin_def C_def)
    show ?thesis
      unfolding eq wp_rules
    proof (rule ok_with_mono [OF releaseLane_ok [OF inv acc r Some]], goal_cases)
      case 1
      show ?case using oldk by simp
    next
      case (2 x)
      obtain s' e' where x: "x = (s', e')" by (cases x)
      from 2(2) obtain k' where m: "moved s e s' e'" "session_inv rc ri s'"
          and s': "s' = s\<lparr>pendingCost := pendingCost s - lane_cost lane,
            pendingItems := pendingItems s - lane_items lane, budgetNotify := k',
            carrierLanes := AList.delete ?old (carrierLanes s),
            detached := AList.update (laneRef lane) (clear_lane lane) (detached s)\<rparr>"
        by (auto simp: x)
      have "moved s e (fin s') e' \<and> session_inv rc ri (fin s') \<and> remembered_in sid s (fin s')"
        using lane_le_pending [OF inv r Some] by (intro fin [OF m]) (simp_all add: s')
      then show ?case by (simp add: x)
    qed
  qed
qed

lemma signal_lane_ok:
  assumes "session_inv rc ri s"
  shows "session_inv rc ri (signal_lane sid s)" and "same_counts s (signal_lane sid s)"
    and "keys (carrierLanes (signal_lane sid s)) = keys (carrierLanes s)"
    and "remembered_in i s0 (signal_lane sid s) = remembered_in i s0 s"
proof -
  show "session_inv rc ri (signal_lane sid s)"
  proof (cases "map_of (carrierLanes s) sid")
    case (Some lane)
    then show ?thesis
      using session_inv_update_lane [OF assms Some, of "lane\<lparr>notify := True\<rparr>"] lane_of_ok [OF assms Some]
      by (simp add: signal_lane_def)
  qed (simp add: signal_lane_def assms)
  show "same_counts s (signal_lane sid s)"
    by (simp add: signal_lane_def same_counts_def same_session_def split: option.split)
  show k: "keys (carrierLanes (signal_lane sid s)) = keys (carrierLanes s)"
    by (auto simp: signal_lane_def dest: map_of_keys split: option.split)
  show "remembered_in i s0 (signal_lane sid s) = remembered_in i s0 s"
    using k by (auto simp: remembered_in_def remembered_def signal_lane_def split: option.split)
qed

lemma rememberClosed_ok:
  assumes inv: "session_inv rc ri s" and acc: "acc s e" and r: "0 \<le> rc" "0 \<le> ri"
    and n: "sid \<notin> keys (streams s)"
  shows "ok_with (rememberClosed cb sid s e) (\<lambda>(s', e'). moved s e s' e' \<and> session_inv rc ri s' \<and>
     remembered_in sid s s')"
proof -
  have ring: "ring_ok s" using inv by (simp add: session_inv_def)
  consider "sid \<in> closedStreams s"
    | "sid \<notin> closedStreams s" "len (closedOrder s) < MaxClosedStreamIDs (limits s)"
    | "sid \<notin> closedStreams s" "\<not> len (closedOrder s) < MaxClosedStreamIDs (limits s)" by blast
  then show ?thesis
  proof cases
    case 1
    then show ?thesis
      using inv moved_refl [OF acc] remembered_set [OF ring]
      by (auto simp: rememberClosed_def remembered_in_def evicted_by_def remember_push_def)
  next
    case 2
    let ?s = "s\<lparr>closedStreams := insert sid (closedStreams s), closedOrder := closedOrder s @ [sid]\<rparr>"
    have i: "session_inv rc ri ?s" by (rule session_inv_remember [OF inv n 2])
    have "remembered_in sid s ?s"
      using 2 ring by (simp add: remembered_in_def evicted_by_def remembered_def remember_push_def ring_ok_def)
    moreover have "same_counts s ?s" by (simp add: same_counts_def same_session_def)
    ultimately show ?thesis
      using 2 signal_lane_ok [OF i, of sid] moved_counts_trans [OF moved_counts [OF acc]]
      by (auto simp: rememberClosed_def Let_def)
  next
    case 3
    show ?thesis
      using 3 unfolding rememberClosed_def Let_def
    proof (simp add: wp_rules, intro ok_with_mono [OF evict_oldest_ok [OF inv acc r n 3]], goal_cases)
      case (1 x)
      then show ?case
        using signal_lane_ok(1,2,4) moved_counts_trans by (cases x) fastforce
    qed
  qed
qed

subsection \<open>Closing\<close>

lemma cleared_lanes:
  "keys (map (\<lambda>(k, lane). (k, clear_lane lane)) al) = keys al"
  "distinct_keys (map (\<lambda>(k, lane). (k, clear_lane lane)) al) = distinct_keys al"
  "all_vals (\<lambda>_. lane_ok) al \<Longrightarrow> all_vals (\<lambda>_. lane_ok) (map (\<lambda>(k, lane). (k, clear_lane lane)) al)"
  "sum_vals lane_cost (map (\<lambda>(k, lane). (k, clear_lane lane)) al) = 0"
  "sum_vals lane_items (map (\<lambda>(k, lane). (k, clear_lane lane)) al) = 0"
proof -
  have m: "map fst (map (\<lambda>(k, lane). (k, clear_lane lane)) al) = map fst al" by auto
  then show "keys (map (\<lambda>(k, lane). (k, clear_lane lane)) al) = keys al"
    by (metis keys_def list.set_map)
  show "distinct_keys (map (\<lambda>(k, lane). (k, clear_lane lane)) al) = distinct_keys al"
    unfolding distinct_keys_def m by (rule refl)
qed (induction al; auto simp: all_vals_def)+

lemma pending_nonneg:
  assumes "session_inv rc ri s" and "0 \<le> rc" and "0 \<le> ri"
  shows "0 \<le> pendingCost s" and "0 \<le> pendingItems s"
  using assms totals_nonneg [of s] by (auto simp: session_inv_def held_cost_def held_items_def)

lemma closeLocked_ok:
  assumes inv: "session_inv rc ri s" and acc: "acc s e" and r: "0 \<le> rc" "0 \<le> ri"
    and o: "closed s \<Longrightarrow> session_ok s"
  shows "ok_with (closeLocked cb s e) (\<lambda>(bs, s', e'). moved s e s' e' \<and> session_ok s' \<and> closed s' \<and>
     bs = map (\<lambda>(_, st). backend st) (streams s))"
proof (cases "closed s")
  case True
  then have "streams s = []" using inv by (simp add: session_inv_def streams_ok_def)
  then show ?thesis using True o moved_refl [OF acc] by (simp add: closeLocked_def)
next
  case False
  let ?s = "s\<lparr>closed := True, carrierLanes := map (\<lambda>(k, lane). (k, clear_lane lane)) (carrierLanes s),
    streams := [], pendingCost := 0, pendingItems := 0, mux := clear_lane (mux s), finished := True\<rparr>"
  have ok: "session_ok ?s"
    using inv by (simp add: session_ok_def session_inv_def ring_ok_def streams_ok_def lanes_ok_def
        held_cost_def held_items_def usesCarrierLanes_def cleared_lanes)
      (simp add: clear_lane_def)
  have m: "moved s e ?s e'" if "owner_ok e'" "pool_cost e' = pool_cost e - pendingCost s"
    "pool_items e' = pool_items e - pendingItems s" for e'
    using that by (simp add: moved_with_def same_session_def)
  show ?thesis
  proof (cases "pendingCost s \<noteq> 0 \<or> pendingItems s \<noteq> 0")
    case True
    obtain e' where b: "budget cb (- pendingCost s) (- pendingItems s) PendingUplink e = Some (True, e')"
        "owner_ok e'" "pool_cost e' = pool_cost e - pendingCost s"
        "pool_items e' = pool_items e - pendingItems s"
      using budget_release [of e "pendingCost s" "pendingItems s"] acc pending_nonneg [OF inv r]
      by (auto simp: in_pool_def)
    show ?thesis using False True b(1) ok m [OF b(2-4)] by (auto simp: closeLocked_def Let_def)
  next
    case none: False
    then have "moved s e ?s e" using acc by (intro m) (simp_all add: in_pool_def)
    then show ?thesis using False none ok by (simp add: closeLocked_def Let_def)
  qed
qed

lemma protocolFailure_ok:
  assumes "session_ok s" and "acc s e"
  shows "ok_with (protocolFailure cb s e) (\<lambda>(bs, s', e'). moved s e s' e' \<and> session_ok s' \<and> closed s' \<and>
     bs = map (\<lambda>(_, st). backend st) (streams s))"
  unfolding protocolFailure_def
  by (rule closeLocked_ok [where rc = 0 and ri = 0])
    (use assms in \<open>simp_all add: session_ok_def\<close>)

end

subsection \<open>Web sockets\<close>

lemma session_ok_lanes:
  assumes "session_ok s" and "map_of (carrierLanes s) sid = Some lane" and "lane_ok lane'"
    and "lane_cost lane' = lane_cost lane" and "lane_items lane' = lane_items lane"
  shows "session_ok (s\<lparr>carrierLanes := AList.update sid lane' (carrierLanes s)\<rparr>)"
  using assms session_inv_update_lane [of 0 0 s sid lane lane'] by (simp add: session_ok_def)

lemma session_ok_irrelevant [simp]:
  "session_ok (s\<lparr>lastActivity := n\<rparr>) = session_ok s"
  "session_ok (s\<lparr>budgetNotify := k\<rparr>) = session_ok s"
  "session_ok (s\<lparr>next_ref := k\<rparr>) = session_ok s"
  by (simp_all add: session_ok_def)

lemma session_ok_mux:
  assumes "session_ok s" and "lane_ok l" and "lane_cost l = lane_cost (mux s)"
    and "lane_items l = lane_items (mux s)"
    and "closed s \<Longrightarrow> superseded (mux s) \<noteq> None \<longrightarrow> notify (mux s) \<Longrightarrow> superseded l \<noteq> None \<Longrightarrow> notify l"
  shows "session_ok (s\<lparr>mux := l\<rparr>)"
proof -
  have "session_inv 0 0 (s\<lparr>mux := l\<rparr>)"
    using assms by (simp add: session_ok_def session_inv_def ring_ok_def streams_ok_def lanes_ok_def
        held_cost_def held_items_def usesCarrierLanes_def)
  then show ?thesis using assms(1,5) by (auto simp: session_ok_def)
qed

lemma session_ok_new_lane:
  assumes "session_ok s" and "map_of (carrierLanes s) sid = None"
  shows "session_ok (s\<lparr>carrierLanes := AList.update sid (newCarrierLane r) (carrierLanes s)\<rparr>)"
  using assms session_inv_new_lane [of 0 0 s sid r] by (simp add: session_ok_def)

lemma add_lane_ok:
  assumes ok: "session_ok s" and n: "map_of (carrierLanes s) sid = None"
    and a: "add_lane sid s = (lane, s')"
  shows "session_ok s'" "map_of (carrierLanes s') sid = Some lane" "lane = newCarrierLane (next_ref s)"
    "same_counts s s'" "streams s' = streams s" "closed s' = closed s" "closedStreams s' = closedStreams s"
proof -
  have s': "s' = s\<lparr>carrierLanes := AList.update sid (newCarrierLane (next_ref s)) (carrierLanes s)\<rparr>
      \<lparr>next_ref := next_ref s + 1\<rparr>" and l: "lane = newCarrierLane (next_ref s)"
    using a by (auto simp: add_lane_def Let_def)
  show "session_ok s'"
    unfolding s' session_ok_irrelevant by (rule session_ok_new_lane [OF ok n])
  show "map_of (carrierLanes s') sid = Some lane" "lane = newCarrierLane (next_ref s)"
    "streams s' = streams s" "closed s' = closed s" "closedStreams s' = closedStreams s"
    by (simp_all add: s' l)
  show "same_counts s s'" by (simp add: s' same_counts_def same_session_def)
qed

lemma AcquireWebSocket_ok: "session_ok s \<Longrightarrow> session_ok (snd (AcquireWebSocket s))"
proof -
  assume ok: "session_ok s"
  then have "lane_ok (mux s)" by (simp add: session_ok_def session_inv_def lanes_ok_def)
  then have "session_ok (s\<lparr>mux := (mux s)\<lparr>websocketActive := True\<rparr>\<rparr>)"
    by (intro session_ok_mux [OF ok]) simp_all
  then show ?thesis using ok by (simp add: AcquireWebSocket_def)
qed

lemma AcquireWebSocketLane_ok:
  assumes ok: "session_ok s"
  shows "session_ok (snd (AcquireWebSocketLane laneID now s))"
proof -
  obtain lane s1 where c: "(case map_of (carrierLanes s) laneID of
      None \<Rightarrow> add_lane laneID s | Some lane \<Rightarrow> (lane, s)) = (lane, s1)" by fastforce
  have "session_ok s1" and m: "map_of (carrierLanes s1) laneID = Some lane"
    using c ok add_lane_ok(1,2) [OF ok, of laneID lane s1] by (auto split: option.splits)
  moreover from this have "lane_ok lane" by (auto simp: session_ok_def dest: lane_of_ok)
  ultimately have "session_ok (s1\<lparr>carrierLanes := AList.update laneID (lane\<lparr>websocketActive := True\<rparr>)
      (carrierLanes s1)\<rparr>)"
    by (intro session_ok_lanes [OF _ m]) simp_all
  then have "session_ok (s1\<lparr>carrierLanes := AList.update laneID (lane\<lparr>websocketActive := True\<rparr>)
      (carrierLanes s1)\<rparr>\<lparr>lastActivity := now\<rparr>)"
    by (simp only: session_ok_irrelevant)
  then show ?thesis
    using ok \<open>session_ok s1\<close> unfolding AcquireWebSocketLane_def c by simp
qed

context session_owner
begin

lemma drop_lane_ok:
  assumes inv: "session_inv 0 0 s" and acc: "acc s e" and n: "sid \<notin> keys (streams s)"
  shows "ok_with (case map_of (carrierLanes s) sid of None \<Rightarrow> Some (s, e)
       | Some lane \<Rightarrow> releaseLane cb sid lane s e)
     (\<lambda>(s', e'). moved s e s' e' \<and> session_inv 0 0 s' \<and> streams s' = streams s \<and> closed s' = closed s \<and>
        finished s' = finished s \<and> mux s' = mux s \<and> closedStreams s' = closedStreams s \<and> sid \<notin> keys (carrierLanes s') \<and>
        pendingCost s' \<le> pendingCost s \<and> pendingItems s' \<le> pendingItems s)"
proof (cases "map_of (carrierLanes s) sid")
  case None
  then have "sid \<notin> keys (carrierLanes s)" by (simp add: map_of_None_keys)
  then show ?thesis using None inv moved_refl [OF acc] by simp
next
  case (Some lane)
  have "ok_with (releaseLane cb sid lane s e) (\<lambda>(s', e'). moved s e s' e' \<and> session_inv 0 0 s' \<and>
     streams s' = streams s \<and> closed s' = closed s \<and> finished s' = finished s \<and>
     mux s' = mux s \<and> closedStreams s' = closedStreams s \<and> sid \<notin> keys (carrierLanes s') \<and>
        pendingCost s' \<le> pendingCost s \<and> pendingItems s' \<le> pendingItems s)"
    using releaseLane_ok [OF inv acc _ _ Some] n lane_le_pending [OF inv _ _ Some]
    by (auto elim!: ok_with_mono2)
  then show ?thesis using Some by simp
qed

text \<open>
  Dropping a live stream and remembering it: what CLOSE, a broken backend and a lost lane
  have in common.
\<close>

lemma drop_stream_ok:
  assumes inv: "session_inv rc ri s" and acc: "acc s e" and r: "0 \<le> rc" "0 \<le> ri"
    and st: "map_of (streams s) sid = Some st"
  shows "ok_with (do {
       (s, e) \<leftarrow> releaseStreamWrites cb st s e;
       rememberClosed cb sid (s\<lparr>streams := AList.delete sid (streams s)\<rparr>) e })
     (\<lambda>(s', e'). moved s e s' e' \<and> session_inv rc ri s' \<and>
        remembered_in sid (s\<lparr>streams := AList.delete sid (streams s)\<rparr>) s' \<and> finished s' = finished s)"
  unfolding wp_rules
proof (rule ok_with_mono [OF releaseStreamWrites_ok [OF inv acc r st]], goal_cases)
  case (1 x)
  obtain s1 e1 where x: "x = (s1, e1)" by (cases x)
  let ?s1 = "s1\<lparr>streams := AList.delete sid (streams s1)\<rparr>"
  from 1(2) obtain n where m: "moved s e s1 e1" and inv1: "session_inv rc ri ?s1"
    and s1: "s1 = s\<lparr>pendingCost := pendingCost s - pendingWriteCost st,
            pendingItems := pendingItems s - pendingWriteItems st, budgetNotify := n\<rparr>"
    by (auto simp: x)
  have m1: "moved s e ?s1 e1"
    by (rule moved_counts_trans [OF m]) (simp add: same_counts_def same_session_def)
  have "ok_with (rememberClosed cb sid ?s1 e1) (\<lambda>(s', e'). moved ?s1 e1 s' e' \<and>
      session_inv rc ri s' \<and> remembered_in sid ?s1 s')"
    by (rule rememberClosed_ok [OF inv1 acc_moved [OF acc m1] r]) simp
  then have "ok_with (rememberClosed cb sid ?s1 e1) (\<lambda>(s', e'). moved s e s' e' \<and>
      session_inv rc ri s' \<and> remembered_in sid (s\<lparr>streams := AList.delete sid (streams s)\<rparr>) s' \<and>
      finished s' = finished s)"
  proof (rule ok_with_mono2)
    fix s' e'
    assume e: "rememberClosed cb sid ?s1 e1 = Some (s', e')"
      and h: "moved ?s1 e1 s' e' \<and> session_inv rc ri s' \<and> remembered_in sid ?s1 s'"
    have "finished s' = finished s" using h by (simp add: s1 remembered_in_def)
    moreover have "remembered_in sid (s\<lparr>streams := AList.delete sid (streams s)\<rparr>) s'"
    proof -
      have "evicted_by sid ?s1 = evicted_by sid (s\<lparr>streams := AList.delete sid (streams s)\<rparr>)"
        by (auto simp: evicted_by_def s1)
      moreover have "remembered ?s1 = remembered (s\<lparr>streams := AList.delete sid (streams s)\<rparr>)"
        by (simp add: remembered_def s1)
      ultimately show ?thesis
        using h stream_le_pending [OF inv r st] unfolding remembered_in_def by (simp add: s1, blast)
    qed
    ultimately show "moved s e s' e' \<and> session_inv rc ri s' \<and>
        remembered_in sid (s\<lparr>streams := AList.delete sid (streams s)\<rparr>) s' \<and> finished s' = finished s"
      using h moved_trans [OF m1] by blast
  qed
  then show ?case by (simp add: x)
qed

lemma ReleaseWebSocketLane_ok:
  assumes ok: "session_ok s" and acc: "acc s e"
  shows "ok_with (ReleaseWebSocketLane cb laneID now s e) (\<lambda>(b, s', e'). moved s e s' e' \<and>
     session_ok s' \<and> closed s' = closed s \<and>
     (carrier s = CarrierWebSocketLanes \<longrightarrow>
        laneID \<notin> keys (carrierLanes s') \<and>
        (if laneID \<in> keys (carrierLanes s) then
           b = map_option backend (map_of (streams s) laneID) \<and>
           streams s' = AList.delete laneID (streams s) \<and>
           (laneID \<in> keys (streams s) \<longrightarrow> laneID \<in> closedStreams s')
         else b = None \<and> streams s' = streams s)))"
proof (cases "carrier s = CarrierWebSocketLanes \<and> laneID \<in> keys (carrierLanes s)")
  case False
  then show ?thesis
    using ok moved_refl [OF acc]
    by (auto simp: ReleaseWebSocketLane_def keys_iff_map_of split: option.splits)
next
  case True
  then obtain lane where lane: "map_of (carrierLanes s) laneID = Some lane"
    by (auto simp: keys_iff_map_of)
  let ?s0 = "s\<lparr>carrierLanes := AList.update laneID (lane\<lparr>websocketActive := False\<rparr>) (carrierLanes s)\<rparr>"
  have "lane_ok lane" using ok by (auto simp: session_ok_def intro: lane_of_ok [OF _ lane])
  then have ok0: "session_ok ?s0" by (intro session_ok_lanes [OF ok lane]) simp_all
  then have inv0: "session_inv 0 0 ?s0" by (simp add: session_ok_def)
  have c0: "same_counts s ?s0" by (simp add: same_counts_def same_session_def)
  have m0: "moved s e ?s0 e" by (rule moved_counts [OF acc c0])
  have acc0: "acc ?s0 e" by (rule acc_moved [OF acc m0])
  define middle where "middle = (case map_of (streams ?s0) laneID of
                 None \<Rightarrow> Some (None, ?s0, e)
               | Some st \<Rightarrow> do {
                   (s, e) \<leftarrow> releaseStreamWrites cb st ?s0 e;
                   (s, e) \<leftarrow> rememberClosed cb laneID (s\<lparr>streams := AList.delete laneID (streams s)\<rparr>) e;
                   Some (Some (backend st), s, e)
                 })"
  have mid: "ok_with middle (\<lambda>(b, s1, e1). moved s e s1 e1 \<and> session_inv 0 0 s1 \<and>
      b = map_option backend (map_of (streams s) laneID) \<and> finished s1 = finished s \<and>
      streams s1 = AList.delete laneID (streams s) \<and> closed s1 = closed s \<and>
      pendingCost s1 \<le> pendingCost s \<and> pendingItems s1 \<le> pendingItems s \<and> mux s1 = mux s \<and>
      (laneID \<in> keys (streams s) \<longrightarrow> laneID \<in> closedStreams s1))"
  proof (cases "map_of (streams s) laneID")
    case None
    then have "AList.delete laneID (streams s) = streams s"
      by (intro delete_idem_iff) (simp add: map_of_None_keys)
    then show ?thesis using None m0 inv0 map_of_None_keys [of "streams s" laneID]
      by (simp add: middle_def)
  next
    case (Some st)
    then have st: "map_of (streams ?s0) laneID = Some st" by simp
    have eq: "middle = map_option (\<lambda>(s, e). (Some (backend st), s, e)) (do {
       (s, e) \<leftarrow> releaseStreamWrites cb st ?s0 e;
       rememberClosed cb laneID (s\<lparr>streams := AList.delete laneID (streams s)\<rparr>) e })"
      using st by (simp add: middle_def map_option_bind case_prod_unfold map_conv_bind_option comp_def)
    show ?thesis
      unfolding eq ok_with_map
    proof (rule ok_with_mono [OF drop_stream_ok [OF inv0 acc0 _ _ st]], goal_cases)
      case (3 x)
      then show ?case
        using moved_trans [OF m0] Some by (cases x) (simp add: remembered_in_def, blast)
    qed simp_all
  qed
  have eq: "ReleaseWebSocketLane cb laneID now s e = do {
      (b, s, e) \<leftarrow> middle;
      (s, e) \<leftarrow> (case map_of (carrierLanes s) laneID of
                        None \<Rightarrow> Some (s, e)
                      | Some lane \<Rightarrow> releaseLane cb laneID lane s e);
      Some (b, s\<lparr>lastActivity := now\<rparr>, e) }"
    using True lane unfolding ReleaseWebSocketLane_def middle_def Let_def by simp
  show ?thesis
    unfolding eq wp_rules
  proof (rule ok_with_mono [OF mid], goal_cases)
    case (1 x)
    obtain b s1 e1 where x: "x = (b, s1, e1)" by (cases x)
    have m1: "moved s e s1 e1" and inv1: "session_inv 0 0 s1"
      and f: "b = map_option backend (map_of (streams s) laneID)" "finished s1 = finished s"
      "streams s1 = AList.delete laneID (streams s)" "closed s1 = closed s"
      "laneID \<in> keys (streams s) \<longrightarrow> laneID \<in> closedStreams s1"
      "pendingCost s1 \<le> pendingCost s" "pendingItems s1 \<le> pendingItems s" "mux s1 = mux s"
      using 1(2) by (auto simp: x)
    have n: "laneID \<notin> keys (streams s1)" by (simp add: f)
    show ?case
      unfolding x case_prod_conv wp_rules
    proof (rule ok_with_mono [OF drop_lane_ok [OF inv1 acc_moved [OF acc m1] n]], goal_cases)
      case (1 y)
      obtain s2 e2 where y: "y = (s2, e2)" by (cases y)
      have m2: "moved s1 e1 s2 e2" and i2: "session_inv 0 0 s2" and f2: "streams s2 = streams s1"
        "closed s2 = closed s1" "finished s2 = finished s1" "closedStreams s2 = closedStreams s1"
        "laneID \<notin> keys (carrierLanes s2)"
        "pendingCost s2 \<le> pendingCost s1" "pendingItems s2 \<le> pendingItems s1" "mux s2 = mux s1"
        using 1(2) by (auto simp: y)
      have fin: "moved s e (s2\<lparr>lastActivity := now\<rparr>) e2"
        by (rule moved_counts_trans [OF moved_trans [OF m1 m2]])
          (simp add: same_counts_def same_session_def)
      have "closed s2 \<longrightarrow> pendingCost s2 = 0 \<and> pendingItems s2 = 0 \<and>
          (superseded (mux s2) \<noteq> None \<longrightarrow> notify (mux s2))"
        using f f2 ok pending_nonneg [OF i2] by (auto simp: session_ok_def)
      then have "session_ok s2" using i2 f f2 ok by (simp add: session_ok_def)
      then show ?case using True f f2 fin by (simp add: y)
    qed
  qed
qed

end

end
