(* ===== verification/Uplink.thy ===== *)
theory Uplink
  imports Session_Ops
begin

text \<open>
  The uplink of a session: \<open>ProcessUp\<close> and \<open>ProcessUpLane\<close> of
  \<open>internal/session/session.go\<close> with the batch validation, the budget reservation for the
  writes to the backends and the application of a batch. A critical section of the code is
  one definition; a Go panic, which includes the use of a nil stream, is \<open>None\<close>.
\<close>

subsection \<open>Validation\<close>

record streamSnapshot =
  snap_window :: u32
  snap_credit :: u64

definition snapshot :: "streamState \<Rightarrow> streamSnapshot" where
  "snapshot st = \<lparr>snap_window = receiveWindow st, snap_credit = sendCredit st\<rparr>"

definition initial_window :: u32 where "initial_window = 4194304"
definition initial_credit :: u64 where "initial_credit = 4194304"

text \<open>\<open>amount\<close> more credit, capped at \<open>math.MaxUint32\<close>.\<close>

definition add_credit :: "u64 \<Rightarrow> byte list \<Rightarrow> u64" where
  "add_credit credit payload =
     (let c = credit + ucast (amount_or_zero payload) in if c > 0xFFFFFFFF then 0xFFFFFFFF else c)"

text \<open>The loop's state: the streams that would be live, and those the batch has closed.\<close>

fun validate_loop ::
  "u32 set \<Rightarrow> frame list \<Rightarrow> (u32 \<rightharpoonup> streamSnapshot) \<Rightarrow> u32 set \<Rightarrow> bool" where
  "validate_loop before [] live done = True"
| "validate_loop before (v # vs) live done =
     (let sid = StreamID v; wasClosed = (sid \<in> before \<or> sid \<in> done) in
      if sid = 0 then (if Type v \<noteq> Pong then False else validate_loop before vs live done)
      else if Type v = Open then
        (if live sid \<noteq> None \<or> wasClosed then False
         else validate_loop before vs
           (live(sid \<mapsto> \<lparr>snap_window = initial_window, snap_credit = initial_credit\<rparr>)) done)
      else if Type v = Data then
        (if wasClosed then validate_loop before vs live done
         else case live sid of
           None \<Rightarrow> False
         | Some st \<Rightarrow>
             if word_of_int (len (Payload v)) > snap_window st then False
             else validate_loop before vs
               (live(sid \<mapsto> st\<lparr>snap_window := snap_window st - word_of_int (len (Payload v))\<rparr>)) done)
      else if Type v = Window then
        (if wasClosed then validate_loop before vs live done
         else case live sid of
           None \<Rightarrow> False
         | Some st \<Rightarrow>
             validate_loop before vs
               (live(sid \<mapsto> st\<lparr>snap_credit := add_credit (snap_credit st) (Payload v)\<rparr>)) done)
      else if Type v = Close then
        (if wasClosed then validate_loop before vs live done
         else if live sid = None then False
         else validate_loop before vs (live(sid := None)) (insert sid done))
      else False)"

definition validateBatch :: "session \<Rightarrow> frame list \<Rightarrow> bool" where
  "validateBatch s values =
     validate_loop (closedStreams s) values (\<lambda>sid. map_option snapshot (map_of (streams s) sid)) {}"

definition onlyLateFrames :: "frame list \<Rightarrow> bool" where
  "onlyLateFrames values \<longleftrightarrow>
     list_all (\<lambda>v. Type v = Data \<or> Type v = Window \<or> Type v = Close) values \<and> values \<noteq> []"

subsection \<open>Reservation\<close>

fun reservation_loop :: "u32 set \<Rightarrow> frame list \<Rightarrow> int \<Rightarrow> int \<Rightarrow> int \<times> int" where
  "reservation_loop live [] c i = (c, i)"
| "reservation_loop live (v # vs) c i =
     (let sid = StreamID v in
      if sid = 0 then reservation_loop live vs c i
      else if Type v = Open then reservation_loop (insert sid live) vs c i
      else if Type v = Data then
        (if sid \<in> live then reservation_loop live vs (c + (len (Payload v) + queueItemCost)) (i + 1)
         else reservation_loop live vs c i)
      else if Type v = Close then reservation_loop (live - {sid}) vs c i
      else reservation_loop live vs c i)"

definition backendWriteReservation :: "session \<Rightarrow> frame list \<Rightarrow> int \<times> int" where
  "backendWriteReservation s values = reservation_loop (set (map fst (streams s))) values 0 0"

subsection \<open>Application\<close>

record backendStream =
  backendRef :: nat
  backend_id :: u32
  address :: string

record application =
  opened :: "backendStream list"
  closing :: "nat list"
  reservedCost :: int
  reservedItems :: int
  applied :: bool

definition appendBackendWrite :: "streamState \<Rightarrow> byte list \<Rightarrow> streamState \<times> int \<times> int" where
  "appendBackendWrite st payload =
     (let coalesce = (writes st \<noteq> [] \<and> len (last (writes st)) + len payload \<le> DataChunk);
          c = (if coalesce then len payload else len payload + queueItemCost);
          i = (if coalesce then 0 else 1);
          ws = (if coalesce then butlast (writes st) @ [last (writes st) @ payload]
                else writes st @ [payload])
      in (st\<lparr>writes := ws, pendingWriteBytes := pendingWriteBytes st + len payload,
             pendingWriteCost := pendingWriteCost st + c,
             pendingWriteItems := pendingWriteItems st + i\<rparr>, c, i))"

definition new_stream :: "nat \<Rightarrow> streamState" where
  "new_stream ref = \<lparr>backend = ref, receiveWindow = initial_window, sendCredit = initial_credit,
     pendingWriteBytes = 0, pendingWriteCost = 0, pendingWriteItems = 0,
     creditNotify = False, writes = [], writeNotify = False\<rparr>"

definition put_stream :: "u32 \<Rightarrow> streamState \<Rightarrow> session \<Rightarrow> session" where
  "put_stream sid st s = s\<lparr>streams := AList.update sid st (streams s)\<rparr>"

definition apply_open ::
  "'e callbacks \<Rightarrow> u32 \<Rightarrow> application \<Rightarrow> session \<Rightarrow> 'e \<Rightarrow> (application \<times> session \<times> 'e) option" where
  "apply_open cb sid a s e =
     (case (if len (streams s) \<ge> MaxStreamsPerSession (limits s) then (False, e)
            else acquireStream cb e) of
        (acquired, e) \<Rightarrow>
          if \<not> acquired then do {
            (s, e) \<leftarrow> rememberClosed cb sid s e;
            let e = onStreamRejected cb e;
            (ok, s, e) \<leftarrow> queueFrame cb Close sid [] s e;
            Some (a\<lparr>applied := ok\<rparr>, s, e)
          }
          else
            Some (a\<lparr>opened := opened a @ [\<lparr>backendRef = next_ref s, backend_id = sid,
                                         address = Backend (profile s)\<rparr>]\<rparr>,
                  (put_stream sid (new_stream (next_ref s)) s)\<lparr>next_ref := next_ref s + 1\<rparr>, e))"

definition apply_data :: "frame \<Rightarrow> streamState \<Rightarrow> application \<Rightarrow> session \<Rightarrow> application \<times> session" where
  "apply_data v st a s =
     (case appendBackendWrite st (Payload v) of (st, c, i) \<Rightarrow>
        (a\<lparr>reservedCost := reservedCost a - c, reservedItems := reservedItems a - i\<rparr>,
         put_stream (StreamID v)
           (st\<lparr>receiveWindow := receiveWindow st - word_of_int (len (Payload v)),
               writeNotify := True\<rparr>) s))"

definition apply_window :: "frame \<Rightarrow> streamState \<Rightarrow> session \<Rightarrow> session" where
  "apply_window v st s =
     put_stream (StreamID v)
       (st\<lparr>sendCredit := add_credit (sendCredit st) (Payload v), creditNotify := True\<rparr>) s"

definition apply_close ::
  "'e callbacks \<Rightarrow> u32 \<Rightarrow> streamState \<Rightarrow> application \<Rightarrow> session \<Rightarrow> 'e
     \<Rightarrow> (application \<times> session \<times> 'e) option" where
  "apply_close cb sid st a s e =
     do {
       (s, e) \<leftarrow> releaseStreamWrites cb st s e;
       (s, e) \<leftarrow> rememberClosed cb sid (s\<lparr>streams := AList.delete sid (streams s)\<rparr>) e;
       Some (a\<lparr>closing := closing a @ [backend st]\<rparr>, s, e)
     }"

definition apply_frame ::
  "'e callbacks \<Rightarrow> frame \<Rightarrow> application \<Rightarrow> session \<Rightarrow> 'e \<Rightarrow> (application \<times> session \<times> 'e) option" where
  "apply_frame cb v a s e =
     (let sid = StreamID v; state = map_of (streams s) sid; wasClosed = (sid \<in> closedStreams s) in
      if sid = 0 then Some (a, s, e)
      else if Type v = Open then apply_open cb sid a s e
      else if Type v = Data then
        (if wasClosed then Some (a, s, e)
         else do { st \<leftarrow> state; case apply_data v st a s of (a, s) \<Rightarrow> Some (a, s, e) })
      else if Type v = Window then
        (if wasClosed then Some (a, s, e) else do { st \<leftarrow> state; Some (a, apply_window v st s, e) })
      else if Type v = Close then
        (if wasClosed then Some (a, s, e) else do { st \<leftarrow> state; apply_close cb sid st a s e })
      else Some (a, s, e))"

text \<open>The loop of \<open>applyBatchLocked\<close> stops when a CLOSE could not be queued.\<close>

fun apply_loop ::
  "'e callbacks \<Rightarrow> frame list \<Rightarrow> application \<Rightarrow> session \<Rightarrow> 'e \<Rightarrow> (application \<times> session \<times> 'e) option" where
  "apply_loop cb [] a s e = Some (a, s, e)"
| "apply_loop cb (v # vs) a s e =
     do { (a, s, e) \<leftarrow> apply_frame cb v a s e;
          if \<not> applied a then Some (a, s, e) else apply_loop cb vs a s e }"

definition applyBatch ::
  "'e callbacks \<Rightarrow> frame list \<Rightarrow> int \<Rightarrow> int \<Rightarrow> session \<Rightarrow> 'e \<Rightarrow> (application \<times> session \<times> 'e) option" where
  "applyBatch cb values c i s e =
     apply_loop cb values
       \<lparr>opened = [], closing = [], reservedCost = c, reservedItems = i, applied = True\<rparr> s e"

text \<open>
  The part \<open>ProcessUp\<close> and \<open>ProcessUpLane\<close> share: reserve, apply, give back what was not
  used. \<open>None\<close> inside the result is \<open>ErrBackpressure\<close>.
\<close>

definition reserve_and_apply ::
  "'e callbacks \<Rightarrow> frame list \<Rightarrow> session \<Rightarrow> 'e \<Rightarrow> (application option \<times> session \<times> 'e) option" where
  "reserve_and_apply cb frames s e =
     (case backendWriteReservation s frames of (c, i) \<Rightarrow> do {
        (granted, s, e) \<leftarrow>
          (if c \<noteq> 0 \<or> i \<noteq> 0 then reservePending cb c i PendingUplink s e else Some (True, s, e));
        if \<not> granted then Some (None, s, e)
        else do {
          (a, s, e) \<leftarrow> applyBatch cb frames c i s e;
          (s, e) \<leftarrow> (if reservedCost a \<noteq> 0 \<or> reservedItems a \<noteq> 0
                    then releasePending cb (reservedCost a) (reservedItems a) s e
                    else Some (s, e));
          Some (Some a, s, e)
        }
      })"

subsection \<open>The uplink handlers\<close>

datatype session_error = ErrProtocol | ErrClosed | ErrConcurrent | ErrBackpressure

text \<open>
  What a critical section ends in: an answer; the answer to a batch it applied; an answer of
  \<open>ErrProtocol\<close> after the protocol failure the caller then runs; an answer of \<open>ErrClosed\<close>
  after \<open>Close\<close>; going on with the next section.
\<close>

datatype 'r outcome = Answer "session_error + 'r" | Applied 'r | Protocol | CloseAfter | Continue

definition no_effects :: application where
  "no_effects = \<lparr>opened = [], closing = [], reservedCost = 0, reservedItems = 0, applied = True\<rparr>"

definition up_begin :: "u64 \<Rightarrow> byte list \<Rightarrow> int \<Rightarrow> session \<Rightarrow> u64 outcome \<times> session" where
  "up_begin sequence digest now s =
     (if closed s then (Answer (Inl ErrClosed), s)
      else
        let s = s\<lparr>lastActivity := now\<rparr> in
        if sequence = lastUpSequence (mux s) \<and> sequence \<noteq> 0 then
          (if digest \<noteq> lastUpDigest (mux s) then (Protocol, s) else (Answer (Inr sequence), s))
        else if sequence \<noteq> lastUpSequence (mux s) + 1 \<or> sequence = 0 then (Protocol, s)
        else if upActive (mux s) then (Answer (Inl ErrConcurrent), s)
        else (Continue, s\<lparr>mux := (mux s)\<lparr>upActive := True\<rparr>\<rparr>))"

text \<open>Outside the lock: the parsed batch, if every frame has a client's shape.\<close>

definition parse_client :: "int \<Rightarrow> byte list \<Rightarrow> frame list option" where
  "parse_client maxPayload bytes =
     (case ParseAll bytes maxPayload of
        Inl _ \<Rightarrow> None
      | Inr frames \<Rightarrow>
          if list_all (\<lambda>v. ValidateClientShape v = None) frames then Some frames else None)"

definition up_commit ::
  "'e callbacks \<Rightarrow> u64 \<Rightarrow> byte list \<Rightarrow> frame list option \<Rightarrow> session \<Rightarrow> 'e
     \<Rightarrow> (u64 outcome \<times> application \<times> session \<times> 'e) option" where
  "up_commit cb sequence digest parsed s e =
     (let s = s\<lparr>mux := (mux s)\<lparr>upActive := False\<rparr>\<rparr> in
      if closed s then Some (Answer (Inl ErrClosed), no_effects, s, e)
      else case parsed of
        None \<Rightarrow> Some (Protocol, no_effects, s, e)
      | Some frames \<Rightarrow>
          if \<not> validateBatch s frames then Some (Protocol, no_effects, s, e)
          else do {
            (r, s, e) \<leftarrow> reserve_and_apply cb frames s e;
            (case r of
               None \<Rightarrow> Some (Answer (Inl ErrBackpressure), no_effects, s, e)
             | Some a \<Rightarrow>
                 if applied a
                 then Some (Applied sequence, a,
                   s\<lparr>mux := (mux s)\<lparr>lastUpSequence := sequence, lastUpDigest := digest\<rparr>\<rparr>, e)
                 else Some (CloseAfter, a, s, e))
          })"

text \<open>The handler without interleaving: its sections, then the failure or the callback.\<close>

definition ProcessUp ::
  "'e callbacks \<Rightarrow> u64 \<Rightarrow> byte list \<Rightarrow> int \<Rightarrow> session \<Rightarrow> 'e
     \<Rightarrow> ((session_error + u64) \<times> application \<times> session \<times> 'e) option" where
  "ProcessUp cb sequence bytes now s e =
     (if usesCarrierLanes s then Some (Inl ErrProtocol, no_effects, s, e)
      else
        let digest = Sum256 bytes in
        case up_begin sequence digest now s of
          (Answer r, s) \<Rightarrow> Some (r, no_effects, s, e)
        | (Protocol, s) \<Rightarrow> do {
            (bs, s, e) \<leftarrow> protocolFailure cb s e;
            Some (Inl ErrProtocol, no_effects\<lparr>closing := bs\<rparr>, s, e) }
        | (_, s) \<Rightarrow> do {
            (r, a, s, e) \<leftarrow>
              up_commit cb sequence digest (parse_client (MaxFramePayload (limits s)) bytes) s e;
            (case r of
               Applied q \<Rightarrow> Some (Inr q, a, s, onUp cb (len bytes) e)
             | Answer r \<Rightarrow> Some (r, a, s, e)
             | CloseAfter \<Rightarrow> do {
                 (bs, s, e) \<leftarrow> closeLocked cb s e;
                 Some (Inl ErrClosed, a\<lparr>closing := closing a @ bs\<rparr>, s, e) }
             | _ \<Rightarrow> do {
                 (bs, s, e) \<leftarrow> protocolFailure cb s e;
                 Some (Inl ErrProtocol, a\<lparr>closing := closing a @ bs\<rparr>, s, e) })
          })"

text \<open>The lane handler's batch: every frame is of the lane's stream.\<close>

definition parse_lane :: "int \<Rightarrow> u32 \<Rightarrow> byte list \<Rightarrow> frame list option" where
  "parse_lane maxPayload laneID bytes =
     (case ParseAll bytes maxPayload of
        Inl _ \<Rightarrow> None
      | Inr frames \<Rightarrow>
          if list_all (\<lambda>v. ValidateClientShape v = None \<and> StreamID v = laneID) frames
          then Some frames else None)"

definition edit_lane :: "u32 \<Rightarrow> (carrierLane \<Rightarrow> carrierLane) \<Rightarrow> session \<Rightarrow> session" where
  "edit_lane laneID f s =
     (case map_of (carrierLanes s) laneID of
        None \<Rightarrow> s
      | Some lane \<Rightarrow> s\<lparr>carrierLanes := AList.update laneID (f lane) (carrierLanes s)\<rparr>)"

definition up_lane ::
  "'e callbacks \<Rightarrow> u32 \<Rightarrow> u64 \<Rightarrow> byte list \<Rightarrow> frame list \<Rightarrow> int \<Rightarrow> session \<Rightarrow> 'e
     \<Rightarrow> (u64 outcome \<times> application \<times> session \<times> 'e) option" where
  "up_lane cb laneID sequence digest frames now s e =
     (if closed s then Some (Answer (Inl ErrClosed), no_effects, s, e)
      else
        let missing = (map_of (carrierLanes s) laneID = None) in
        if missing \<and> laneID \<noteq> 0 \<and> frames \<noteq> [] \<and> Type (frames ! 0) \<noteq> Open \<and> onlyLateFrames frames
        then Some (Answer (Inr sequence), no_effects, s\<lparr>lastActivity := now\<rparr>, e)
        else if missing \<and> (laneID = 0 \<or> frames = [] \<or> Type (frames ! 0) \<noteq> Open)
        then Some (Protocol, no_effects, s, e)
        else
          case (case map_of (carrierLanes s) laneID of
                  None \<Rightarrow> add_lane laneID s | Some lane \<Rightarrow> (lane, s)) of
            (lane, s) \<Rightarrow>
              let s = s\<lparr>lastActivity := now\<rparr> in
              if sequence = lastUpSequence lane \<and> sequence \<noteq> 0 then
                (if digest \<noteq> lastUpDigest lane then Some (Protocol, no_effects, s, e)
                 else Some (Answer (Inr sequence), no_effects, s, e))
              else if sequence \<noteq> lastUpSequence lane + 1 \<or> sequence = 0
              then Some (Protocol, no_effects, s, e)
              else if upActive lane then Some (Answer (Inl ErrConcurrent), no_effects, s, e)
              else if \<not> validateBatch s frames then Some (Protocol, no_effects, s, e)
              else do {
                (r, s, e) \<leftarrow> reserve_and_apply cb frames s e;
                (case r of
                   None \<Rightarrow> Some (Answer (Inl ErrBackpressure), no_effects, s, e)
                 | Some a \<Rightarrow>
                     if applied a
                     then Some (Applied sequence, a,
                       edit_lane laneID
                         (\<lambda>lane. lane\<lparr>lastUpSequence := sequence, lastUpDigest := digest\<rparr>) s, e)
                     else Some (CloseAfter, a, s, e))
              })"

definition ProcessUpLane ::
  "'e callbacks \<Rightarrow> u32 \<Rightarrow> u64 \<Rightarrow> byte list \<Rightarrow> int \<Rightarrow> session \<Rightarrow> 'e
     \<Rightarrow> ((session_error + u64) \<times> application \<times> session \<times> 'e) option" where
  "ProcessUpLane cb laneID sequence bytes now s e =
     (if \<not> usesCarrierLanes s \<or> laneID > MaxStreamID then Some (Inl ErrProtocol, no_effects, s, e)
      else
        case parse_lane (MaxFramePayload (limits s)) laneID bytes of
          None \<Rightarrow> do {
            (bs, s, e) \<leftarrow> laneProtocolFailure cb laneID now s e;
            Some (Inl ErrProtocol, no_effects\<lparr>closing := bs\<rparr>, s, e) }
        | Some frames \<Rightarrow> do {
            (r, a, s, e) \<leftarrow> up_lane cb laneID sequence (Sum256 bytes) frames now s e;
            (case r of
               Applied q \<Rightarrow> Some (Inr q, a, s, onUp cb (len bytes) e)
             | Answer r \<Rightarrow> Some (r, a, s, e)
             | CloseAfter \<Rightarrow> do {
                 (bs, s, e) \<leftarrow> closeLocked cb s e;
                 Some (Inl ErrClosed, a\<lparr>closing := closing a @ bs\<rparr>, s, e) }
             | _ \<Rightarrow> do {
                 (bs, s, e) \<leftarrow> laneProtocolFailure cb laneID now s e;
                 Some (Inl ErrProtocol, a\<lparr>closing := closing a @ bs\<rparr>, s, e) })
          })"

end
