(* ===== verification/Uplink_Inv.thy ===== *)
theory Uplink_Inv
  imports Uplink
begin

text \<open>
  Applying a batch that the validation accepted. The validation runs on a snapshot of the
  session, the application on the session itself, where streams can be refused and
  tombstones can fall out of the ring. The simulation below shows that the application
  follows the validation, stays within the reserved budget and never uses a missing stream,
  as long as no tombstone of an id of the batch is evicted on the way.
\<close>

subsection \<open>Evictions during a batch\<close>

definition batch_ids :: "frame list \<Rightarrow> u32 set" where
  "batch_ids vs = set (map StreamID vs)"

text \<open>The ids a batch can turn into tombstones.\<close>

definition fresh_ids :: "frame list \<Rightarrow> u32 set \<Rightarrow> u32 set" where
  "fresh_ids vs C = set (map StreamID (filter (\<lambda>v. Type v = Open \<or> Type v = Close) vs)) - C"

text \<open>\<open>n\<close> more tombstones push out none of the ids in \<open>K\<close>.\<close>

definition evict_safe :: "nat \<Rightarrow> u32 set \<Rightarrow> session \<Rightarrow> bool" where
  "evict_safe n K s \<longleftrightarrow> int n \<le> MaxClosedStreamIDs (limits s) \<and>
     set (take (nat (len (remembered s) + int n - MaxClosedStreamIDs (limits s))) (remembered s)) \<inter> K = {}"

definition batch_safe :: "frame list \<Rightarrow> session \<Rightarrow> bool" where
  "batch_safe vs s \<longleftrightarrow> evict_safe (card (fresh_ids vs (closedStreams s))) (batch_ids vs) s"

lemma evict_safe_mono: "evict_safe m K s \<Longrightarrow> n \<le> m \<Longrightarrow> evict_safe n K s"
  unfolding evict_safe_def
  using set_take_subset_set_take [of "nat (len (remembered s) + int n - MaxClosedStreamIDs (limits s))"
      "nat (len (remembered s) + int m - MaxClosedStreamIDs (limits s))" "remembered s"]
  by (force simp: nat_mono)

lemma evict_safe_cong:
  "remembered s' = remembered s \<Longrightarrow> limits s' = limits s \<Longrightarrow> evict_safe n K s' = evict_safe n K s"
  by (simp add: evict_safe_def)

lemma evict_safe_push:
  assumes ring: "ring_ok s" and lim: "0 < MaxClosedStreamIDs (limits s)"
    and safe: "evict_safe (Suc n) K s" and new: "sid \<notin> closedStreams s"
    and rem: "remembered s' = remember_push (MaxClosedStreamIDs (limits s)) sid (remembered s)"
    and l: "limits s' = limits s"
  shows "evict_safe n K s'" and "evicted_by sid s \<inter> K = {}"
proof -
  let ?m = "MaxClosedStreamIDs (limits s)" and ?r = "remembered s"
  have len: "len ?r \<le> ?m" "length ?r = length (closedOrder s)"
    using ring by (simp_all add: remembered_def ring_ok_def)
  have nr: "sid \<notin> set ?r" using new remembered_set [OF ring] by simp
  show "evicted_by sid s \<inter> K = {}"
  proof (cases "len (closedOrder s) < ?m")
    case False
    then have ne: "closedOrder s \<noteq> []" using lim by auto
    then have hd: "closedOrder s ! closedStart s = hd ?r"
      using ring by (simp add: ring_ok_def remembered_def hd_rotate)
    have full: "len ?r = ?m" using False len by simp
    then have "nat (len ?r + int (Suc n) - ?m) = Suc n" by simp
    moreover have "hd ?r \<in> set (take (Suc n) ?r)" using ne len(2) by (cases ?r) auto
    ultimately have "hd ?r \<notin> K" using safe by (auto simp: evict_safe_def simp del: of_nat_Suc)
    then show ?thesis by (simp add: evicted_by_def hd)
  qed (simp add: evicted_by_def)
  show "evict_safe n K s'"
  proof (cases "len ?r < ?m")
    case True
    then have r': "remembered s' = ?r @ [sid]" using rem nr by (simp add: remember_push_def)
    have "nat (len (?r @ [sid]) + int n - ?m) = nat (len ?r + int (Suc n) - ?m)" by simp
    moreover have "nat (len ?r + int (Suc n) - ?m) \<le> length ?r"
      using safe by (simp add: evict_safe_def nat_le_iff)
    ultimately show ?thesis using safe by (simp add: evict_safe_def r' l)
  next
    case False
    then have full: "len ?r = ?m" using len by simp
    have r': "remembered s' = tl ?r @ [sid]" using rem nr False by (simp add: remember_push_def)
    have lt: "len (tl ?r @ [sid]) = ?m" using full lim by (cases ?r) auto
    have "int (Suc n) \<le> len ?r" using safe full by (simp add: evict_safe_def)
    then have n: "n \<le> length (tl ?r)" by simp
    have "set (take n (tl ?r)) \<subseteq> set (take (Suc n) ?r)" by (cases ?r) auto
    moreover have "set (take (Suc n) ?r) \<inter> K = {}"
      using safe full by (simp add: evict_safe_def nat_add_distrib)
    ultimately have "set (take n (tl ?r @ [sid])) \<inter> K = {}" using n by auto
    then show ?thesis using safe lt unfolding evict_safe_def r' l by simp
  qed
qed

lemma fresh_ids_finite [simp]: "finite (fresh_ids vs C)"
  by (simp add: fresh_ids_def)

lemma fresh_ids_Cons:
  "fresh_ids (v # vs) C = (if (Type v = Open \<or> Type v = Close) \<and> StreamID v \<notin> C
     then insert (StreamID v) (fresh_ids vs C) else fresh_ids vs C)"
  by (auto simp: fresh_ids_def)

lemma fresh_ids_sub: "fresh_ids vs C \<subseteq> batch_ids vs"
  by (auto simp: fresh_ids_def batch_ids_def)

text \<open>A push of a fresh id uses up one of the possible evictions.\<close>

lemma fresh_ids_push:
  assumes "card (fresh_ids (v # vs) C) \<le> Suc n" and "Type v = Open \<or> Type v = Close"
    and "StreamID v \<notin> C" and "C' = insert (StreamID v) C - E" and "E \<inter> batch_ids (v # vs) = {}"
  shows "card (fresh_ids vs C') \<le> n"
proof -
  have "fresh_ids vs C' \<subseteq> fresh_ids (v # vs) C - {StreamID v}"
    using assms(2-) fresh_ids_sub [of vs C] by (auto simp: fresh_ids_def batch_ids_def)
  then have "card (fresh_ids vs C') \<le> card (fresh_ids (v # vs) C - {StreamID v})"
    by (intro card_mono) auto
  also have "\<dots> = card (fresh_ids (v # vs) C) - 1"
    using assms(2,3) by (intro card_Diff_singleton) (simp add: fresh_ids_Cons)
  finally show ?thesis using assms(1) by linarith
qed

lemma fresh_ids_step: "card (fresh_ids (v # vs) C) \<le> n \<Longrightarrow> card (fresh_ids vs C) \<le> n"
proof -
  assume "card (fresh_ids (v # vs) C) \<le> n"
  moreover have "card (fresh_ids vs C) \<le> card (fresh_ids (v # vs) C)"
    by (intro card_mono) (auto simp: fresh_ids_Cons)
  ultimately show ?thesis by simp
qed

lemma evict_safe_step:
  "evict_safe (card (fresh_ids (v # vs) C)) K s \<Longrightarrow> evict_safe (card (fresh_ids vs C)) K s"
  by (erule evict_safe_mono) (rule fresh_ids_step [OF order_refl])

subsection \<open>The reservation\<close>

lemma reservation_acc:
  "reservation_loop L vs c i =
     (c + fst (reservation_loop L vs 0 0), i + snd (reservation_loop L vs 0 0))"
proof (induction vs arbitrary: L c i)
  case (Cons v vs)
  show ?case
    using Cons [of L c i] Cons [of "insert (StreamID v) L" c i] Cons [of "L - {StreamID v}" c i]
      Cons [of L "c + (len (Payload v) + queueItemCost)" "i + 1"]
      Cons [of L "len (Payload v) + queueItemCost" 1]
    by (simp add: Let_def)
qed simp

lemma reservation_nonneg: "0 \<le> fst (reservation_loop L vs 0 0) \<and> 0 \<le> snd (reservation_loop L vs 0 0)"
proof (induction vs arbitrary: L)
  case (Cons v vs)
  show ?case
    using Cons reservation_acc [of L vs "len (Payload v) + queueItemCost" 1]
    by (auto simp: Let_def)
qed simp

definition resv_next :: "frame \<Rightarrow> u32 set \<Rightarrow> u32 set" where
  "resv_next v L =
     (if StreamID v = 0 then L
      else if Type v = Open then insert (StreamID v) L
      else if Type v = Close then L - {StreamID v} else L)"

definition resv_cost :: "frame \<Rightarrow> u32 set \<Rightarrow> int" where
  "resv_cost v L =
     (if StreamID v \<noteq> 0 \<and> Type v = Data \<and> StreamID v \<in> L then len (Payload v) + queueItemCost else 0)"

definition resv_items :: "frame \<Rightarrow> u32 set \<Rightarrow> int" where
  "resv_items v L = (if StreamID v \<noteq> 0 \<and> Type v = Data \<and> StreamID v \<in> L then 1 else 0)"

lemma reservation_Cons:
  "reservation_loop L (v # vs) 0 0 =
     (resv_cost v L + fst (reservation_loop (resv_next v L) vs 0 0),
      resv_items v L + snd (reservation_loop (resv_next v L) vs 0 0))"
  using reservation_acc [of L vs "len (Payload v) + queueItemCost" 1]
  by (simp add: Let_def resv_cost_def resv_items_def resv_next_def)

declare reservation_loop.simps(2) [simp del] validate_loop.simps(2) [simp del]

subsection \<open>The simulation\<close>

text \<open>One frame of the validation.\<close>

definition validate_step ::
  "u32 set \<Rightarrow> frame \<Rightarrow> (u32 \<rightharpoonup> streamSnapshot) \<Rightarrow> u32 set \<Rightarrow> ((u32 \<rightharpoonup> streamSnapshot) \<times> u32 set) option" where
  "validate_step C v live done =
     (let sid = StreamID v in
      if sid = 0 then (if Type v = Pong then Some (live, done) else None)
      else if Type v = Open then
        (if live sid \<noteq> None \<or> sid \<in> C then None
         else Some (live(sid \<mapsto> \<lparr>snap_window = initial_window, snap_credit = initial_credit\<rparr>), done))
      else if Type v \<noteq> Data \<and> Type v \<noteq> Window \<and> Type v \<noteq> Close then None
      else if sid \<in> C then Some (live, done)
      else case live sid of
        None \<Rightarrow> None
      | Some st \<Rightarrow>
          if Type v = Data then
            (if word_of_int (len (Payload v)) > snap_window st then None
             else Some (live(sid \<mapsto> st\<lparr>snap_window := snap_window st - word_of_int (len (Payload v))\<rparr>), done))
          else if Type v = Window then
            Some (live(sid \<mapsto> st\<lparr>snap_credit := add_credit (snap_credit st) (Payload v)\<rparr>), done)
          else Some (live(sid := None), insert sid done))"

lemma validate_Cons:
  "validate_loop before (v # vs) live done \<longleftrightarrow>
     (case validate_step (before \<union> done) v live done of
        None \<Rightarrow> False
      | Some (live', done') \<Rightarrow> validate_loop before vs live' done')"
  by (simp add: validate_loop.simps(2) validate_step_def Let_def split: option.split)

definition client_frame :: "frame \<Rightarrow> bool" where
  "client_frame v \<longleftrightarrow> ValidateClientShape v = None \<and> StreamID v \<le> MaxStreamID \<and>
     len (Payload v) \<le> MaxPayload"

text \<open>The session follows the validation on the ids in \<open>K\<close>; \<open>C\<close> are the closed ids.\<close>

definition follows :: "u32 set \<Rightarrow> (u32 \<rightharpoonup> streamSnapshot) \<Rightarrow> u32 set \<Rightarrow> session \<Rightarrow> bool" where
  "follows K live C s \<longleftrightarrow> (\<forall>sid \<in> K.
     (sid \<in> C \<longrightarrow> sid \<in> closedStreams s) \<and>
     (sid \<in> closedStreams s \<longrightarrow> sid \<in> C \<or> live sid \<noteq> None) \<and>
     (sid \<notin> closedStreams s \<longrightarrow> live sid = map_option snapshot (map_of (streams s) sid)))"

definition upload_inv ::
  "u32 set \<Rightarrow> frame list \<Rightarrow> (u32 \<rightharpoonup> streamSnapshot) \<Rightarrow> u32 set \<Rightarrow> u32 set \<Rightarrow> application \<Rightarrow> session \<Rightarrow> bool" where
  "upload_inv K vs live C L a s \<longleftrightarrow>
     session_inv (reservedCost a) (reservedItems a) s \<and> \<not> closed s \<and> \<not> finished s \<and>
     follows K live C s \<and> evict_safe (card (fresh_ids vs (closedStreams s))) K s \<and>
     batch_ids vs \<subseteq> K \<and> list_all client_frame vs \<and>
     (usesCarrierLanes s \<longrightarrow> K - {0} \<subseteq> keys (carrierLanes s)) \<and> keys (streams s) \<subseteq> L \<and>
     fst (reservation_loop L vs 0 0) \<le> reservedCost a \<and>
     snd (reservation_loop L vs 0 0) \<le> reservedItems a"

lemma upload_inv_nonneg:
  "upload_inv K vs live C L a s \<Longrightarrow> 0 \<le> reservedCost a \<and> 0 \<le> reservedItems a"
  using reservation_nonneg [of L vs] by (auto simp: upload_inv_def)

text \<open>A frame that leaves the session alone.\<close>

lemma upload_skip:
  assumes u: "upload_inv K (v # vs) live C L a s" and f: "follows K live' C' s"
    and k: "keys (streams s) \<subseteq> resv_next v L"
  shows "upload_inv K vs live' C' (resv_next v L) a s"
proof -
  have n: "0 \<le> resv_cost v L" "0 \<le> resv_items v L" by (simp_all add: resv_cost_def resv_items_def)
  have "fst (reservation_loop (resv_next v L) vs 0 0) \<le> reservedCost a"
    "snd (reservation_loop (resv_next v L) vs 0 0) \<le> reservedItems a"
    using u n by (simp_all add: upload_inv_def reservation_Cons)
  moreover have "evict_safe (card (fresh_ids vs (closedStreams s))) K s"
    using u evict_safe_step [of v vs] by (simp add: upload_inv_def)
  ultimately show ?thesis
    using u f k by (simp add: upload_inv_def batch_ids_def)
qed

text \<open>A frame that rewrites one live stream.\<close>

lemma upload_put:
  assumes u: "upload_inv K (v # vs) live C L a s"
    and st: "map_of (streams s) (StreamID v) = Some st" and ok: "stream_ok (StreamID v) st'"
    and a': "reservedCost a' = reservedCost a - c" "reservedItems a' = reservedItems a - i"
    and c: "pendingWriteCost st' = pendingWriteCost st + c" "c \<le> resv_cost v L"
    and i: "pendingWriteItems st' = pendingWriteItems st + i" "i \<le> resv_items v L"
    and next': "resv_next v L = L"
  shows "upload_inv K vs (live(StreamID v \<mapsto> snapshot st')) C (resv_next v L) a'
     (put_stream (StreamID v) st' s)"
proof -
  let ?sid = "StreamID v" and ?s = "put_stream (StreamID v) st' s"
  have inv: "session_inv (reservedCost a) (reservedItems a) s" using u by (simp add: upload_inv_def)
  have inv': "session_inv (reservedCost a') (reservedItems a') ?s"
    using session_inv_update_stream [OF inv st ok] a' c i by (simp add: put_stream_def)
  have nc: "?sid \<notin> closedStreams s"
    using inv map_of_keys [OF st] by (auto simp: session_inv_def streams_ok_def)
  have "follows K live C s" using u by (simp add: upload_inv_def)
  then have "follows K (live(?sid \<mapsto> snapshot st')) C ?s"
    using nc by (simp add: follows_def put_stream_def)
  moreover have "evict_safe (card (fresh_ids vs (closedStreams s))) K s"
    using u evict_safe_step [of v vs] by (simp add: upload_inv_def)
  then have "evict_safe (card (fresh_ids vs (closedStreams ?s))) K ?s"
    by (simp add: put_stream_def evict_safe_def remembered_def)
  moreover have "keys (streams ?s) \<subseteq> L"
    using u map_of_keys [OF st] by (auto simp: upload_inv_def put_stream_def)
  moreover have "fst (reservation_loop L vs 0 0) \<le> reservedCost a'"
    "snd (reservation_loop L vs 0 0) \<le> reservedItems a'"
    using u a' c i next' by (simp_all add: upload_inv_def reservation_Cons)
  moreover have "\<not> closed ?s" "\<not> finished ?s" "batch_ids vs \<subseteq> K" "list_all client_frame vs"
    "usesCarrierLanes ?s \<longrightarrow> K - {0} \<subseteq> keys (carrierLanes ?s)"
    using u by (simp_all add: upload_inv_def put_stream_def batch_ids_def usesCarrierLanes_def)
  ultimately show ?thesis
    using inv' next' by (simp add: upload_inv_def)
qed

text \<open>A frame that turns its stream into a tombstone.\<close>

lemma upload_push:
  assumes u: "upload_inv K (v # vs) live C L a s"
    and t: "Type v = Open \<or> Type v = Close" and n: "StreamID v \<notin> closedStreams s"
    and inv': "session_inv (reservedCost a) (reservedItems a) s'" and ss: "same_session s s'"
    and cl: "closed s' = closed s" "finished s' = finished s"
    and cs: "closedStreams s' = insert (StreamID v) (closedStreams s) - evicted_by (StreamID v) s"
    and ks: "keys (carrierLanes s') = keys (carrierLanes s) - evicted_by (StreamID v) s"
    and rem: "remembered s' = remember_push (MaxClosedStreamIDs (limits s)) (StreamID v) (remembered s)"
    and str: "\<And>x. x \<noteq> StreamID v \<Longrightarrow> map_of (streams s') x = map_of (streams s) x"
    and k: "keys (streams s') \<subseteq> resv_next v L"
    and live': "\<And>x. x \<noteq> StreamID v \<Longrightarrow> live' x = live x" "StreamID v \<in> C' \<or> live' (StreamID v) \<noteq> None"
    and C': "C \<subseteq> C'" "C' \<subseteq> insert (StreamID v) C"
  shows "upload_inv K vs live' C' (resv_next v L) a s'"
proof -
  let ?sid = "StreamID v"
  have inv: "session_inv (reservedCost a) (reservedItems a) s" and b: "batch_ids (v # vs) \<subseteq> K"
    and f: "follows K live C s" using u by (simp_all add: upload_inv_def)
  have lim: "limits s' = limits s" "usesCarrierLanes s' = usesCarrierLanes s"
    using ss by (simp_all add: same_session_def usesCarrierLanes_def)
  have sidK: "?sid \<in> K" using b by (auto simp: batch_ids_def)
  have safe: "evict_safe (card (fresh_ids (v # vs) (closedStreams s))) K s"
    using u by (simp add: upload_inv_def)
  have fresh: "?sid \<in> fresh_ids (v # vs) (closedStreams s)" using t n by (simp add: fresh_ids_Cons)
  then obtain m where m: "card (fresh_ids (v # vs) (closedStreams s)) = Suc m"
    by (metis card_gt_0_iff empty_iff fresh_ids_finite gr0_conv_Suc)
  have ring: "ring_ok s" "0 < MaxClosedStreamIDs (limits s)"
    using inv by (simp_all add: session_inv_def limits_ok_def)
  note push = evict_safe_push [OF ring safe [unfolded m] n rem lim(1)]
  have ev: "evicted_by ?sid s \<inter> batch_ids (v # vs) = {}" using push(2) b by blast
  have "card (fresh_ids vs (closedStreams s')) \<le> m"
    by (rule fresh_ids_push [OF _ t n cs ev]) (simp add: m)
  then have safe': "evict_safe (card (fresh_ids vs (closedStreams s'))) K s'"
    by (rule evict_safe_mono [OF push(1)])
  have "follows K live' C' s'"
    unfolding follows_def
  proof
    fix x assume x: "x \<in> K"
    have xe: "x \<notin> evicted_by ?sid s" using push(2) x by blast
    show "(x \<in> C' \<longrightarrow> x \<in> closedStreams s') \<and>
      (x \<in> closedStreams s' \<longrightarrow> x \<in> C' \<or> live' x \<noteq> None) \<and>
      (x \<notin> closedStreams s' \<longrightarrow> live' x = map_option snapshot (map_of (streams s') x))"
    proof (cases "x = ?sid")
      case True
      then have "x \<in> closedStreams s'" using cs xe by blast
      then show ?thesis using True live'(2) by simp
    next
      case False
      then have "x \<in> closedStreams s' \<longleftrightarrow> x \<in> closedStreams s" "x \<in> C' \<longleftrightarrow> x \<in> C"
        using cs xe C' by blast+
      then show ?thesis using f x False live'(1) [OF False] str [OF False] by (simp add: follows_def)
    qed
  qed
  moreover have "fst (reservation_loop (resv_next v L) vs 0 0) \<le> reservedCost a"
    "snd (reservation_loop (resv_next v L) vs 0 0) \<le> reservedItems a"
    using u t by (auto simp: upload_inv_def reservation_Cons resv_cost_def resv_items_def split: if_splits)
  moreover have "usesCarrierLanes s' \<longrightarrow> K - {0} \<subseteq> keys (carrierLanes s')"
    using u push(2) ks lim(2) by (auto simp: upload_inv_def)
  moreover have "batch_ids vs \<subseteq> K" "list_all client_frame vs" "\<not> closed s'" "\<not> finished s'"
    using u cl by (simp_all add: upload_inv_def batch_ids_def)
  ultimately show ?thesis using inv' safe' k by (simp add: upload_inv_def)
qed

text \<open>A stream that is opened.\<close>

lemma upload_new:
  assumes u: "upload_inv K (v # vs) live C L a s"
    and t: "Type v = Open" "StreamID v \<noteq> 0" and n: "StreamID v \<notin> closedStreams s"
    and live: "live (StreamID v) = None"
    and ok: "stream_ok (StreamID v) st" "pendingWriteCost st = 0" "pendingWriteItems st = 0"
    and a': "reservedCost a' = reservedCost a" "reservedItems a' = reservedItems a"
  shows "upload_inv K vs (live(StreamID v \<mapsto> snapshot st)) C (resv_next v L) a'
     ((put_stream (StreamID v) st s)\<lparr>next_ref := r\<rparr>)"
proof -
  let ?sid = "StreamID v" and ?s = "put_stream (StreamID v) st s"
  have inv: "session_inv (reservedCost a) (reservedItems a) s" and f: "follows K live C s"
    and K: "?sid \<in> K" and o: "\<not> closed s" using u by (auto simp: upload_inv_def batch_ids_def)
  have nk: "?sid \<notin> keys (streams s)"
    using f K n live unfolding follows_def keys_iff_map_of by fastforce
  have lane: "usesCarrierLanes s \<longrightarrow> ?sid \<in> keys (carrierLanes s)"
    using u K t(2) by (auto simp: upload_inv_def)
  have inv': "session_inv (reservedCost a') (reservedItems a') ?s"
    using session_inv_new_stream [OF inv nk n ok o lane] a' by (simp add: put_stream_def)
  have "follows K (live(?sid \<mapsto> snapshot st)) C ?s"
    using f n by (simp add: follows_def put_stream_def)
  moreover have "evict_safe (card (fresh_ids vs (closedStreams s))) K s"
    using u evict_safe_step [of v vs] by (simp add: upload_inv_def)
  then have "evict_safe (card (fresh_ids vs (closedStreams ?s))) K ?s"
    by (simp add: put_stream_def evict_safe_def remembered_def)
  moreover have "fst (reservation_loop (resv_next v L) vs 0 0) \<le> reservedCost a'"
    "snd (reservation_loop (resv_next v L) vs 0 0) \<le> reservedItems a'"
    using u t a' by (simp_all add: upload_inv_def reservation_Cons resv_cost_def resv_items_def)
  moreover have "keys (streams ?s) \<subseteq> resv_next v L"
    using u t by (auto simp: upload_inv_def put_stream_def resv_next_def)
  moreover have "\<not> closed ?s" "\<not> finished ?s" "batch_ids vs \<subseteq> K" "list_all client_frame vs"
    "usesCarrierLanes ?s \<longrightarrow> K - {0} \<subseteq> keys (carrierLanes ?s)"
    using u by (simp_all add: upload_inv_def put_stream_def batch_ids_def usesCarrierLanes_def)
  ultimately have "upload_inv K vs (live(?sid \<mapsto> snapshot st)) C (resv_next v L) a' ?s"
    using inv' by (simp add: upload_inv_def)
  then show ?thesis
    by (simp add: upload_inv_def follows_def evict_safe_def remembered_def usesCarrierLanes_def)
qed

subsection \<open>The stream updates keep a stream well-formed\<close>

lemma uint_sub_le: "(x :: 'a::len word) \<le> y \<Longrightarrow> uint (y - x) = uint y - uint x"
  using uint_sub_lem [of x y] by (simp add: word_le_def)

lemma add_credit_bound: "uint (add_credit c p) \<le> MaxUint32"
proof -
  have "add_credit c p \<le> 0xFFFFFFFF" by (simp add: add_credit_def Let_def not_less)
  then show ?thesis by (simp add: word_le_def)
qed

lemma new_stream_ok: "sid \<noteq> 0 \<Longrightarrow> sid \<le> MaxStreamID \<Longrightarrow> stream_ok sid (new_stream r)"
  by (simp add: stream_ok_def new_stream_def initial_window_def initial_credit_def)

lemma credit_stream_ok:
  "stream_ok sid st \<Longrightarrow> stream_ok sid (st\<lparr>sendCredit := add_credit c p, creditNotify := True\<rparr>)"
  by (simp add: stream_ok_def add_credit_bound)

lemma data_stream_ok:
  assumes "stream_ok sid st" and "word_of_int (len p) \<le> receiveWindow st" and "len p \<le> MaxPayload"
    and a: "appendBackendWrite st p = (st', c, i)"
  shows "stream_ok sid (st'\<lparr>receiveWindow := receiveWindow st' - word_of_int (len p), writeNotify := True\<rparr>)"
    and "pendingWriteCost st' = pendingWriteCost st + c" "pendingWriteItems st' = pendingWriteItems st + i"
    and "c \<le> len p + queueItemCost" "i \<le> 1" "0 \<le> c" "0 \<le> i" "receiveWindow st' = receiveWindow st"
    and "sendCredit st' = sendCredit st"
proof -
  have w: "uint (word_of_int (len p) :: u32) = len p"
    using assms(3) by (intro uint_word_of_int_u32) simp_all
  then have s: "uint (receiveWindow st - word_of_int (len p)) = uint (receiveWindow st) - len p"
    using uint_sub_le [OF assms(2)] by simp
  have st': "st' = st\<lparr>writes := writes st', pendingWriteBytes := pendingWriteBytes st + len p,
      pendingWriteCost := pendingWriteCost st + c, pendingWriteItems := pendingWriteItems st + i\<rparr>"
    and c: "c = len p + (if i = 0 then 0 else queueItemCost)" "i = 0 \<or> i = 1"
    using a by (auto simp: appendBackendWrite_def Let_def split: if_splits)
  show "stream_ok sid (st'\<lparr>receiveWindow := receiveWindow st' - word_of_int (len p), writeNotify := True\<rparr>)"
    using assms(1) s c by (subst st', subst (2) st') (auto simp: stream_ok_def)
  show "pendingWriteCost st' = pendingWriteCost st + c" "pendingWriteItems st' = pendingWriteItems st + i"
    "receiveWindow st' = receiveWindow st" "sendCredit st' = sendCredit st"
    by (subst st', simp)+
  show "c \<le> len p + queueItemCost" "i \<le> 1" "0 \<le> c" "0 \<le> i" using c by auto
qed

subsection \<open>One frame\<close>

context session_owner
begin

definition frame_post ::
  "u32 set \<Rightarrow> frame list \<Rightarrow> (u32 \<rightharpoonup> streamSnapshot) \<Rightarrow> u32 set \<Rightarrow> u32 set \<Rightarrow> session \<Rightarrow> 'e
     \<Rightarrow> application \<times> session \<times> 'e \<Rightarrow> bool" where
  "frame_post K vs live' C' L' s e r \<longleftrightarrow> (case r of (a', s', e') \<Rightarrow>
     moved s e s' e' \<and> session_inv (reservedCost a') (reservedItems a') s' \<and>
     0 \<le> reservedCost a' \<and> 0 \<le> reservedItems a' \<and> \<not> closed s' \<and> \<not> finished s' \<and>
     (applied a' \<longrightarrow> upload_inv K vs live' C' L' a' s'))"

lemma frame_postI:
  assumes "moved s e s' e'" and "upload_inv K vs live' C' L' a' s'"
  shows "frame_post K vs live' C' L' s e (a', s', e')"
  using assms upload_inv_nonneg [OF assms(2)] by (simp add: frame_post_def upload_inv_def)

lemma apply_data_ok:
  assumes u: "upload_inv K (v # vs) live C L a s" and acc: "acc s e"
    and t: "Type v = Data" "StreamID v \<noteq> 0" and nc: "StreamID v \<notin> closedStreams s"
    and live: "live (StreamID v) = Some sn" and w: "word_of_int (len (Payload v)) \<le> snap_window sn"
  shows "ok_with (apply_frame cb v a s e) (frame_post K vs
     (live(StreamID v \<mapsto> sn\<lparr>snap_window := snap_window sn - word_of_int (len (Payload v))\<rparr>)) C
     (resv_next v L) s e)"
proof -
  have K: "StreamID v \<in> K" and f: "follows K live C s" and cf: "client_frame v" and kL: "keys (streams s) \<subseteq> L"
    and inv: "session_inv (reservedCost a) (reservedItems a) s"
    using u by (auto simp: upload_inv_def batch_ids_def)
  from f K nc live obtain st where st: "map_of (streams s) (StreamID v) = Some st" and sn: "sn = snapshot st"
    by (auto simp: follows_def)
  obtain st1 c i where ap: "appendBackendWrite st (Payload v) = (st1, c, i)" by (metis prod_cases3)
  let ?st' = "st1\<lparr>receiveWindow := receiveWindow st1 - word_of_int (len (Payload v)), writeNotify := True\<rparr>"
  let ?a = "a\<lparr>reservedCost := reservedCost a - c, reservedItems := reservedItems a - i\<rparr>"
  have p: "len (Payload v) \<le> MaxPayload" using cf by (simp add: client_frame_def)
  have w': "word_of_int (len (Payload v)) \<le> receiveWindow st" using w sn by (simp add: snapshot_def)
  note d = data_stream_ok [OF stream_of_ok [OF inv st] w' p ap]
  have inL: "StreamID v \<in> L" using map_of_keys [OF st] kL by blast
  have "upload_inv K vs (live(StreamID v \<mapsto> snapshot ?st')) C (resv_next v L) ?a
      (put_stream (StreamID v) ?st' s)"
    by (rule upload_put [OF u st d(1), where c = c and i = i])
      (use d inL t in \<open>simp_all add: resv_cost_def resv_items_def resv_next_def\<close>)
  moreover have "snapshot ?st' = sn\<lparr>snap_window := snap_window sn - word_of_int (len (Payload v))\<rparr>"
    using d by (simp add: sn snapshot_def)
  moreover have "moved s e (put_stream (StreamID v) ?st' s) e"
    by (rule moved_counts [OF acc]) (simp add: same_counts_def same_session_def put_stream_def)
  ultimately have "frame_post K vs
      (live(StreamID v \<mapsto> sn\<lparr>snap_window := snap_window sn - word_of_int (len (Payload v))\<rparr>)) C
      (resv_next v L) s e (?a, put_stream (StreamID v) ?st' s, e)"
    by (intro frame_postI) simp_all
  then show ?thesis
    using t nc st ap by (simp add: apply_frame_def Let_def apply_data_def)
qed

lemma apply_window_ok:
  assumes u: "upload_inv K (v # vs) live C L a s" and acc: "acc s e"
    and t: "Type v = Window" "StreamID v \<noteq> 0" and nc: "StreamID v \<notin> closedStreams s"
    and live: "live (StreamID v) = Some sn"
  shows "ok_with (apply_frame cb v a s e) (frame_post K vs
     (live(StreamID v \<mapsto> sn\<lparr>snap_credit := add_credit (snap_credit sn) (Payload v)\<rparr>)) C
     (resv_next v L) s e)"
proof -
  have K: "StreamID v \<in> K" and f: "follows K live C s"
    and inv: "session_inv (reservedCost a) (reservedItems a) s"
    using u by (auto simp: upload_inv_def batch_ids_def)
  from f K nc live obtain st where st: "map_of (streams s) (StreamID v) = Some st" and sn: "sn = snapshot st"
    by (auto simp: follows_def)
  let ?st' = "st\<lparr>sendCredit := add_credit (sendCredit st) (Payload v), creditNotify := True\<rparr>"
  have "upload_inv K vs (live(StreamID v \<mapsto> snapshot ?st')) C (resv_next v L) a
      (put_stream (StreamID v) ?st' s)"
    by (rule upload_put [OF u st credit_stream_ok [OF stream_of_ok [OF inv st]], where c = 0 and i = 0])
      (use t in \<open>simp_all add: resv_cost_def resv_items_def resv_next_def\<close>)
  moreover have "snapshot ?st' = sn\<lparr>snap_credit := add_credit (snap_credit sn) (Payload v)\<rparr>"
    by (simp add: sn snapshot_def)
  moreover have "moved s e (put_stream (StreamID v) ?st' s) e"
    by (rule moved_counts [OF acc]) (simp add: same_counts_def same_session_def put_stream_def)
  ultimately have "frame_post K vs
      (live(StreamID v \<mapsto> sn\<lparr>snap_credit := add_credit (snap_credit sn) (Payload v)\<rparr>)) C
      (resv_next v L) s e (a, put_stream (StreamID v) ?st' s, e)"
    by (intro frame_postI) simp_all
  then show ?thesis
    using t nc st by (simp add: apply_frame_def Let_def apply_window_def)
qed

lemma apply_close_ok:
  assumes u: "upload_inv K (v # vs) live C L a s" and acc: "acc s e"
    and t: "Type v = Close" "StreamID v \<noteq> 0" and nc: "StreamID v \<notin> closedStreams s"
    and live: "live (StreamID v) = Some sn"
  shows "ok_with (apply_frame cb v a s e) (frame_post K vs (live(StreamID v := None))
     (insert (StreamID v) C) (resv_next v L) s e)"
proof -
  let ?sid = "StreamID v"
  have K: "?sid \<in> K" and f: "follows K live C s" and kL: "keys (streams s) \<subseteq> L"
    and inv: "session_inv (reservedCost a) (reservedItems a) s" and o: "\<not> closed s" "\<not> finished s"
    using u by (auto simp: upload_inv_def batch_ids_def)
  note r = upload_inv_nonneg [OF u]
  from f K nc live obtain st where st: "map_of (streams s) ?sid = Some st"
    by (auto simp: follows_def)
  have eq: "apply_frame cb v a s e = do {
      (s, e) \<leftarrow> do {
        (s, e) \<leftarrow> releaseStreamWrites cb st s e;
        rememberClosed cb ?sid (s\<lparr>streams := AList.delete ?sid (streams s)\<rparr>) e };
      Some (a\<lparr>closing := closing a @ [backend st]\<rparr>, s, e) }"
    using t nc st by (simp add: apply_frame_def Let_def apply_close_def case_prod_unfold)
  show ?thesis
    unfolding eq ok_with_bind [of "_ \<bind> _"]
  proof (rule ok_with_mono [OF drop_stream_ok [OF inv acc _ _ st]], goal_cases)
    case (3 x)
    obtain s' e' where x: "x = (s', e')" by (cases x)
    have h: "moved s e s' e'" "session_inv (reservedCost a) (reservedItems a) s'"
        "remembered_in ?sid (s\<lparr>streams := AList.delete ?sid (streams s)\<rparr>) s'" "finished s' = finished s"
      using 3(2) by (simp_all add: x)
    have ev: "evicted_by ?sid (s\<lparr>streams := AList.delete ?sid (streams s)\<rparr>) = evicted_by ?sid s"
      "remembered (s\<lparr>streams := AList.delete ?sid (streams s)\<rparr>) = remembered s"
      by (auto simp: evicted_by_def remembered_def)
    have "upload_inv K vs (live(?sid := None)) (insert ?sid C) (resv_next v L) a s'"
      by (rule upload_push [OF u _ nc h(2)])
        (use t h kL ev in \<open>auto simp: moved_with_def remembered_in_def resv_next_def\<close>)
    then have "upload_inv K vs (live(?sid := None)) (insert ?sid C) (resv_next v L)
        (a\<lparr>closing := closing a @ [backend st]\<rparr>) s'"
      by (simp add: upload_inv_def)
    then show ?case
      using h(1) by (simp add: x frame_postI)
  qed (use r in simp_all)
qed

lemma put_lane_ring:
  "remembered (put_lane sid lane s) = remembered s" "finished (put_lane sid lane s) = finished s"
  by (simp_all add: put_lane_def remembered_def)

lemma put_lane_keys:
  "lane_for sid s = Some l \<Longrightarrow> keys (carrierLanes (put_lane sid lane s)) = keys (carrierLanes s)"
  by (auto simp: put_lane_def lane_for_def dest: map_of_keys split: if_splits)

lemma apply_open_ok:
  assumes u: "upload_inv K (v # vs) live C L a s" and acc: "acc s e" and ap: "applied a"
    and t: "Type v = Open" "StreamID v \<noteq> 0" and nC: "StreamID v \<notin> C"
    and live: "live (StreamID v) = None"
  shows "ok_with (apply_frame cb v a s e) (frame_post K vs
     (live(StreamID v \<mapsto> \<lparr>snap_window = initial_window, snap_credit = initial_credit\<rparr>)) C
     (resv_next v L) s e)"
proof -
  let ?sid = "StreamID v"
  let ?live = "live(?sid \<mapsto> \<lparr>snap_window = initial_window, snap_credit = initial_credit\<rparr>)"
  have K: "?sid \<in> K" and f: "follows K live C s" and cf: "client_frame v" and kL: "keys (streams s) \<subseteq> L"
    and inv: "session_inv (reservedCost a) (reservedItems a) s" and o: "\<not> closed s" "\<not> finished s"
    using u by (auto simp: upload_inv_def batch_ids_def)
  note r = upload_inv_nonneg [OF u]
  have sid: "?sid \<le> MaxStreamID" using cf by (simp add: client_frame_def)
  have nc: "?sid \<notin> closedStreams s" using f K nC live by (auto simp: follows_def)
  have nk: "?sid \<notin> keys (streams s)"
    using f K nc live unfolding follows_def keys_iff_map_of by fastforce
  obtain acquired e1 where q: "(if len (streams s) \<ge> MaxStreamsPerSession (limits s) then (False, e)
      else acquireStream cb e) = (acquired, e1)" by fastforce
  then have e1: "owner_ok e1" "pool_cost e1 = pool_cost e" "pool_items e1 = pool_items e"
    using acquire_pool [of e] acc by (auto simp: in_pool_def split: if_splits)
  have m1: "moved s e s e1" and acc1: "acc s e1"
    using e1 acc by (simp_all add: moved_with_def in_pool_def)
  show ?thesis
  proof (cases acquired)
    case True
    let ?a = "a\<lparr>opened := opened a @ [\<lparr>backendRef = next_ref s, backend_id = ?sid,
      address = Backend (profile s)\<rparr>]\<rparr>"
    let ?s = "(put_stream ?sid (new_stream (next_ref s)) s)\<lparr>next_ref := next_ref s + 1\<rparr>"
    have "upload_inv K vs (live(?sid \<mapsto> snapshot (new_stream (next_ref s)))) C (resv_next v L) ?a ?s"
      by (rule upload_new [OF u t nc live new_stream_ok [OF t(2) sid]]) (simp_all add: new_stream_def)
    moreover have "snapshot (new_stream (next_ref s)) =
        \<lparr>snap_window = initial_window, snap_credit = initial_credit\<rparr>"
      by (simp add: snapshot_def new_stream_def)
    moreover have "moved s e ?s e1"
      by (rule moved_counts_trans [OF m1]) (simp add: same_counts_def same_session_def put_stream_def)
    ultimately have "frame_post K vs ?live C (resv_next v L) s e (?a, ?s, e1)"
      by (intro frame_postI) simp_all
    then show ?thesis
      using t q True by (simp add: apply_frame_def apply_open_def Let_def)
  next
    case False
    have eq: "apply_frame cb v a s e = do {
        (s, e) \<leftarrow> rememberClosed cb ?sid s e1;
        (ok, s, e) \<leftarrow> queueFrame cb Close ?sid [] s (onStreamRejected cb e);
        Some (a\<lparr>applied := ok\<rparr>, s, e) }"
      using t q False unfolding apply_frame_def apply_open_def Let_def by simp
    show ?thesis
      unfolding eq wp_rules
    proof (rule ok_with_mono [OF rememberClosed_ok [OF inv acc1 _ _ nk]], goal_cases)
      case (3 x)
      obtain s2 e2 where x: "x = (s2, e2)" by (cases x)
      have h: "moved s e1 s2 e2" "session_inv (reservedCost a) (reservedItems a) s2"
          "remembered_in ?sid s s2"
        using 3(2) by (simp_all add: x)
      have m2: "moved s e s2 (onStreamRejected cb e2)"
        using moved_trans [OF m1 h(1)] rejected_pool [of e2] by (simp add: moved_with_def)
      have acc2: "acc s2 (onStreamRejected cb e2)" by (rule acc_moved [OF acc m2])
      have "ok_with (queueFrame cb Close ?sid [] s2 (onStreamRejected cb e2))
        (\<lambda>r. ok_with (case r of (ok, s, e) \<Rightarrow> Some (a\<lparr>applied := ok\<rparr>, s, e))
          (frame_post K vs ?live C (resv_next v L) s e))"
      proof (rule ok_with_mono [OF queueFrame_ok [OF h(2) acc2 sid]], goal_cases)
        case (3 y)
        obtain ok s3 e3 where y: "y = (ok, s3, e3)" by (cases y)
        have inv3: "session_inv (reservedCost a) (reservedItems a) s3" and m3: "moved s2 (onStreamRejected cb e2) s3 e3"
          using 3(2) by (simp_all add: y)
        have m: "moved s e s3 e3" by (rule moved_trans [OF m2 m3])
        show ?case
        proof (cases ok)
          case False
          then have "s3 = s2" using 3(2) by (simp add: y)
          then show ?thesis
            using False inv3 m r o h(3) by (simp add: y frame_post_def remembered_in_def)
        next
          case True
          from 3(2) True obtain lane lane' c i where q3: "lane_for ?sid s2 = Some lane"
              "s3 = put_lane ?sid lane'
                (s2\<lparr>pendingCost := pendingCost s2 + c, pendingItems := pendingItems s2 + i\<rparr>)"
            by (auto simp: y)
          let ?s2 = "s2\<lparr>pendingCost := pendingCost s2 + c, pendingItems := pendingItems s2 + i\<rparr>"
          have l: "lane_for ?sid ?s2 = Some lane"
            using q3(1) by (auto simp: lane_for_def usesCarrierLanes_def split: if_splits)
          have fields: "streams s3 = streams s" "closed s3 = closed s" "finished s3 = finished s"
              "closedStreams s3 = insert ?sid (closedStreams s) - evicted_by ?sid s"
              "keys (carrierLanes s3) = keys (carrierLanes s) - evicted_by ?sid s"
              "remembered s3 = remember_push (MaxClosedStreamIDs (limits s)) ?sid (remembered s)"
            using h(3) put_lane_keys [OF l, of lane']
            by (simp_all add: q3(2) remembered_in_def put_lane_ring) (simp_all add: remembered_def)
          have ss: "same_session s s3" using m by (simp add: moved_with_def)
          have "upload_inv K vs ?live C (resv_next v L) a s3"
            by (rule upload_push [OF u _ nc inv3 ss fields(2-6)])
              (use t fields kL in \<open>auto simp: resv_next_def\<close>)
          then have "upload_inv K vs ?live C (resv_next v L) (a\<lparr>applied := ok\<rparr>) s3"
            by (simp add: upload_inv_def)
          then show ?thesis using m by (simp add: y frame_postI)
        qed
      qed simp_all
      then show ?case by (simp only: x prod.case Let_def wp_rules)
    qed (use r in simp_all)
  qed
qed

lemma apply_skip_ok:
  assumes u: "upload_inv K (v # vs) live C L a s" and acc: "acc s e"
    and eq: "apply_frame cb v a s e = Some (a, s, e)" and f: "follows K live' C' s"
    and k: "keys (streams s) \<subseteq> resv_next v L"
  shows "ok_with (apply_frame cb v a s e) (frame_post K vs live' C' (resv_next v L) s e)"
  using upload_skip [OF u f k] moved_refl [OF acc] by (simp add: eq frame_postI)

lemma closed_not_live:
  assumes "upload_inv K vs live C L a s" and "sid \<in> closedStreams s"
  shows "sid \<notin> keys (streams s)"
  using assms by (auto simp: upload_inv_def session_inv_def streams_ok_def)

lemma apply_frame_ok:
  assumes u: "upload_inv K (v # vs) live (before \<union> done) L a s" and acc: "acc s e" and ap: "applied a"
    and vs: "validate_step (before \<union> done) v live done = Some (live', done')"
  shows "ok_with (apply_frame cb v a s e)
     (frame_post K vs live' (before \<union> done') (resv_next v L) s e)"
proof -
  let ?sid = "StreamID v" and ?C = "before \<union> done"
  have f: "follows K live ?C s" and K: "?sid \<in> K" and kL: "keys (streams s) \<subseteq> L"
    using u by (auto simp: upload_inv_def batch_ids_def)
  consider (zero) "?sid = 0"
    | (opn) "?sid \<noteq> 0" "Type v = Open"
    | (late) "?sid \<noteq> 0" "Type v = Data \<or> Type v = Window \<or> Type v = Close" "?sid \<in> closedStreams s"
    | (live) "?sid \<noteq> 0" "Type v = Data \<or> Type v = Window \<or> Type v = Close" "?sid \<notin> closedStreams s"
    using vs by (auto simp: validate_step_def Let_def split: if_splits)
  then show ?thesis
  proof cases
    case zero
    then have "live' = live" "done' = done" using vs by (auto simp: validate_step_def Let_def split: if_splits)
    then show ?thesis
      using apply_skip_ok [OF u acc _ f] kL zero by (simp add: apply_frame_def resv_next_def)
  next
    case opn
    then have h: "live ?sid = None" "?sid \<notin> ?C" "done' = done"
        "live' = live(?sid \<mapsto> \<lparr>snap_window = initial_window, snap_credit = initial_credit\<rparr>)"
      using vs by (auto simp: validate_step_def Let_def split: if_splits)
    show ?thesis using apply_open_ok [OF u acc ap opn(2,1) h(2,1)] h(3,4) by simp
  next
    case late
    have eq: "apply_frame cb v a s e = Some (a, s, e)"
      using late by (auto simp: apply_frame_def Let_def)
    have nk: "?sid \<notin> keys (streams s)" by (rule closed_not_live [OF u late(3)])
    then have k: "keys (streams s) \<subseteq> resv_next v L" using kL late by (auto simp: resv_next_def)
    have f': "follows K live' (before \<union> done') s"
    proof (cases "?sid \<in> ?C")
      case True
      then have "live' = live" "done' = done"
        using vs late by (auto simp: validate_step_def Let_def split: if_splits)
      then show ?thesis using f by simp
    next
      case False
      then have x: "\<And>x. x \<noteq> ?sid \<Longrightarrow> live' x = live x" "done \<subseteq> done'" "done' \<subseteq> insert ?sid done"
          "?sid \<in> done' \<or> live' ?sid \<noteq> None"
        using vs late by (auto simp: validate_step_def Let_def split: if_splits option.splits)
      show ?thesis
        unfolding follows_def
      proof
        fix y assume "y \<in> K"
        then show "(y \<in> before \<union> done' \<longrightarrow> y \<in> closedStreams s) \<and>
          (y \<in> closedStreams s \<longrightarrow> y \<in> before \<union> done' \<or> live' y \<noteq> None) \<and>
          (y \<notin> closedStreams s \<longrightarrow> live' y = map_option snapshot (map_of (streams s) y))"
          using f x late(3) unfolding follows_def by (cases "y = ?sid") auto
      qed
    qed
    show ?thesis by (rule apply_skip_ok [OF u acc eq f' k])
  next
    case live
    then have nC: "?sid \<notin> ?C" using f K by (auto simp: follows_def)
    consider "Type v = Data" | "Type v = Window" | "Type v = Close" using live(2) by blast
    then show ?thesis
    proof cases
      case 1
      with vs live(1) nC obtain sn where "live ?sid = Some sn" "done' = done"
          "word_of_int (len (Payload v)) \<le> snap_window sn"
          "live' = live(?sid \<mapsto> sn\<lparr>snap_window := snap_window sn - word_of_int (len (Payload v))\<rparr>)"
        by (auto simp: validate_step_def Let_def split: if_splits option.splits)
      then show ?thesis using apply_data_ok [OF u acc 1 live(1,3)] by simp
    next
      case 2
      with vs live(1) nC obtain sn where "live ?sid = Some sn" "done' = done"
          "live' = live(?sid \<mapsto> sn\<lparr>snap_credit := add_credit (snap_credit sn) (Payload v)\<rparr>)"
        by (auto simp: validate_step_def Let_def split: if_splits option.splits)
      then show ?thesis using apply_window_ok [OF u acc 2 live(1,3)] by simp
    next
      case 3
      with vs live(1) nC obtain sn where "live ?sid = Some sn" "done' = insert ?sid done"
          "live' = live(?sid := None)"
        by (auto simp: validate_step_def Let_def split: if_splits option.splits)
      then show ?thesis using apply_close_ok [OF u acc 3 live(1,3)] by simp
    qed
  qed
qed

lemma apply_loop_ok:
  assumes "upload_inv K vs live (before \<union> done) L a s" and "acc s e" and "applied a"
    and "validate_loop before vs live done"
  shows "ok_with (apply_loop cb vs a s e) (\<lambda>(a', s', e'). moved s e s' e' \<and>
     session_inv (reservedCost a') (reservedItems a') s' \<and>
     0 \<le> reservedCost a' \<and> 0 \<le> reservedItems a' \<and> \<not> closed s' \<and> \<not> finished s')"
  using assms
proof (induction vs arbitrary: live "done" L a s e)
  case Nil
  then show ?case
    using moved_refl [OF Nil.prems(2)] upload_inv_nonneg [OF Nil.prems(1)] by (simp add: upload_inv_def)
next
  case (Cons v vs)
  from Cons.prems(4) obtain live' done' where st: "validate_step (before \<union> done) v live done = Some (live', done')"
      "validate_loop before vs live' done'"
    by (auto simp: validate_Cons split: option.splits)
  show ?case
    unfolding apply_loop.simps wp_rules
  proof (rule ok_with_mono [OF apply_frame_ok [OF Cons.prems(1-3) st(1)]], goal_cases)
    case (1 x)
    obtain a1 s1 e1 where x: "x = (a1, s1, e1)" by (cases x)
    have h: "moved s e s1 e1" "session_inv (reservedCost a1) (reservedItems a1) s1"
        "0 \<le> reservedCost a1" "0 \<le> reservedItems a1" "\<not> closed s1" "\<not> finished s1"
        "applied a1 \<longrightarrow> upload_inv K vs live' (before \<union> done') (resv_next v L) a1 s1"
      using 1(2) by (simp_all add: x frame_post_def)
    show ?case
    proof (cases "applied a1")
      case False
      then show ?thesis using h by (simp add: x)
    next
      case True
      have acc1: "acc s1 e1" by (rule acc_moved [OF Cons.prems(2) h(1)])
      have "ok_with (apply_loop cb vs a1 s1 e1) (\<lambda>(a', s', e'). moved s1 e1 s' e' \<and>
          session_inv (reservedCost a') (reservedItems a') s' \<and>
          0 \<le> reservedCost a' \<and> 0 \<le> reservedItems a' \<and> \<not> closed s' \<and> \<not> finished s')"
        using True h(7) by (intro Cons.IH [OF _ acc1 True st(2)]) simp
      then have "ok_with (apply_loop cb vs a1 s1 e1) (\<lambda>(a', s', e'). moved s e s' e' \<and>
          session_inv (reservedCost a') (reservedItems a') s' \<and>
          0 \<le> reservedCost a' \<and> 0 \<le> reservedItems a' \<and> \<not> closed s' \<and> \<not> finished s')"
        by (rule ok_with_mono3) (use moved_trans [OF h(1)] in blast)
      then show ?thesis using True by (simp add: x)
    qed
  qed
qed

end

end
