(* ===== verification/Uplink_Handlers.thy ===== *)
theory Uplink_Handlers
  imports Uplink_Inv
begin

text \<open>
  The uplink handlers keep the session's invariant and never panic; for the multiplexed
  carriers this needs that the batch does not push out a tombstone it still refers to. A
  retried batch is answered without being applied again.
\<close>

subsection \<open>What the handlers parse\<close>

lemma parse_client_frames:
  assumes "parse_client m bytes = Some frames"
  shows "list_all client_frame frames" and "frames \<noteq> []"
proof -
  have p: "ParseAll bytes m = Inr frames" and sh: "list_all (\<lambda>v. ValidateClientShape v = None) frames"
    using assms by (auto simp: parse_client_def split: sum.splits if_splits)
  then show "frames \<noteq> []" by (simp add: parse_all_iff)
  have "list_all (\<lambda>f. StreamID f \<le> MaxStreamID) frames"
    using p by (auto simp: parse_all_iff encode_batch_eq split: if_splits)
  moreover have "list_all (\<lambda>f. len (Payload f) \<le> MaxPayload) frames"
    unfolding list_all_iff
  proof
    fix f assume "f \<in> set frames"
    then have "len (Payload f) \<le> payload_limit m" using p by (simp add: parse_all_iff list_all_iff)
    then show "len (Payload f) \<le> MaxPayload" using payload_limit_bounds(1) [of m] by linarith
  qed
  ultimately show "list_all client_frame frames"
    using sh by (simp add: client_frame_def list_all_iff)
qed

lemma parse_lane_frames:
  assumes "parse_lane m laneID bytes = Some frames"
  shows "list_all client_frame frames" and "frames \<noteq> []" and "\<And>v. v \<in> set frames \<Longrightarrow> StreamID v = laneID"
proof -
  have c: "parse_client m bytes = Some frames" and l: "list_all (\<lambda>v. StreamID v = laneID) frames"
    using assms by (auto simp: parse_lane_def parse_client_def list_all_iff split: sum.splits if_splits)
  show "list_all client_frame frames" "frames \<noteq> []" using parse_client_frames [OF c] by simp_all
  show "\<And>v. v \<in> set frames \<Longrightarrow> StreamID v = laneID" using l by (simp add: list_all_iff)
qed

text \<open>A batch for one stream cannot evict its own tombstone.\<close>

lemma one_stream_safe:
  assumes ring: "ring_ok s" and m: "0 < MaxClosedStreamIDs (limits s)"
    and one: "\<And>v. v \<in> set vs \<Longrightarrow> StreamID v = sid"
  shows "batch_safe vs s"
proof -
  let ?C = "closedStreams s"
  have K: "batch_ids vs \<subseteq> {sid}" using one by (auto simp: batch_ids_def)
  have len: "len (remembered s) \<le> MaxClosedStreamIDs (limits s)"
    using ring by (simp add: remembered_def ring_ok_def)
  have sub: "fresh_ids vs ?C \<subseteq> {sid} - ?C" using fresh_ids_sub [of vs ?C] K by (auto simp: fresh_ids_def)
  show ?thesis
  proof (cases "sid \<in> ?C")
    case True
    then have "fresh_ids vs ?C = {}" using sub by blast
    then show ?thesis using len m by (simp add: batch_safe_def evict_safe_def)
  next
    case False
    then have "sid \<notin> set (remembered s)" using remembered_set [OF ring] by simp
    then have "set (take k (remembered s)) \<inter> batch_ids vs = {}" for k
      using K by (auto dest: in_set_takeD)
    moreover have "fresh_ids vs ?C \<subseteq> {sid}" using sub by blast
    then have "card (fresh_ids vs ?C) \<le> 1" using card_mono [of "{sid}"] by simp
    ultimately show ?thesis using m by (simp add: batch_safe_def evict_safe_def)
  qed
qed

text \<open>Nor can a batch for which the ring has room.\<close>

lemma room_safe:
  assumes "len (closedOrder s) + len vs \<le> MaxClosedStreamIDs (limits s)"
  shows "batch_safe vs s"
proof -
  have "card (fresh_ids vs (closedStreams s)) \<le>
      card (set (map StreamID (filter (\<lambda>v. Type v = Open \<or> Type v = Close) vs)))"
    unfolding fresh_ids_def by (rule card_mono) auto
  also have "\<dots> \<le> length (map StreamID (filter (\<lambda>v. Type v = Open \<or> Type v = Close) vs))"
    by (rule card_length)
  also have "\<dots> \<le> length vs" by simp
  finally have "card (fresh_ids vs (closedStreams s)) \<le> length vs" .
  then show ?thesis using assms by (simp add: batch_safe_def evict_safe_def remembered_def)
qed

lemma batch_safe_cong:
  "remembered s' = remembered s \<Longrightarrow> limits s' = limits s \<Longrightarrow> closedStreams s' = closedStreams s \<Longrightarrow>
     batch_safe vs s' = batch_safe vs s"
  by (simp add: batch_safe_def evict_safe_def)

subsection \<open>Reserving and applying\<close>

context session_owner
begin

lemma upload_inv_start:
  assumes "session_inv c i s" and "\<not> closed s" and "\<not> finished s"
    and "list_all client_frame frames" and "batch_safe frames s"
    and "usesCarrierLanes s \<longrightarrow> batch_ids frames - {0} \<subseteq> keys (carrierLanes s)"
    and "backendWriteReservation s frames = (c, i)"
  shows "upload_inv (batch_ids frames) frames (\<lambda>sid. map_option snapshot (map_of (streams s) sid))
     (closedStreams s \<union> {}) (set (map fst (streams s)))
     \<lparr>opened = [], closing = [], reservedCost = c, reservedItems = i, applied = True\<rparr> s"
  using assms
  by (simp add: upload_inv_def follows_def batch_safe_def backendWriteReservation_def keys_def)

lemma reserve_and_apply_ok:
  assumes ok: "session_ok s" and acc: "acc s e" and o: "\<not> closed s"
    and v: "validateBatch s frames" and cf: "list_all client_frame frames" and safe: "batch_safe frames s"
    and lane: "usesCarrierLanes s \<longrightarrow> batch_ids frames - {0} \<subseteq> keys (carrierLanes s)"
  shows "ok_with (reserve_and_apply cb frames s e) (\<lambda>(r, s', e'). moved s e s' e' \<and> session_ok s' \<and> \<not> closed s')"
proof -
  obtain c i where ci: "backendWriteReservation s frames = (c, i)" by fastforce
  have fin: "\<not> finished s" and inv: "session_inv 0 0 s" using ok o by (simp_all add: session_ok_def)
  have nn: "0 \<le> c" "0 \<le> i"
    using ci reservation_nonneg [of "set (map fst (streams s))" frames]
    by (simp_all add: backendWriteReservation_def)
  define resv where "resv = (if c \<noteq> 0 \<or> i \<noteq> 0 then reservePending cb c i PendingUplink s e
      else Some (True, s, e))"
  have resv: "ok_with resv (\<lambda>(g, s1, e1). moved s e s1 e1 \<and> (if g then session_inv c i s1 \<and>
      s1 = s\<lparr>pendingCost := pendingCost s + c, pendingItems := pendingItems s + i\<rparr> else s1 = s))"
  proof (cases "c \<noteq> 0 \<or> i \<noteq> 0")
    case True
    have "ok_with (reservePending cb c i PendingUplink s e) (\<lambda>(g, s1, e1). moved s e s1 e1 \<and>
      (if g then session_inv c i s1 \<and>
       s1 = s\<lparr>pendingCost := pendingCost s + c, pendingItems := pendingItems s + i\<rparr> else s1 = s))"
      by (rule ok_with_mono3 [OF reservePending_ok [OF acc]])
        (use session_inv_pending [OF inv, of c i] in auto)
    then show ?thesis using True by (simp add: resv_def)
  next
    case False
    then show ?thesis using inv moved_refl [OF acc] by (simp add: resv_def)
  qed
  have eq: "reserve_and_apply cb frames s e = do {
      (granted, s, e) \<leftarrow> resv;
      if \<not> granted then Some (None, s, e)
      else do {
        (a, s, e) \<leftarrow> applyBatch cb frames c i s e;
        (s, e) \<leftarrow> (if reservedCost a \<noteq> 0 \<or> reservedItems a \<noteq> 0
                  then releasePending cb (reservedCost a) (reservedItems a) s e else Some (s, e));
        Some (Some a, s, e) } }"
    by (simp add: reserve_and_apply_def ci resv_def)
  show ?thesis
    unfolding eq wp_rules
  proof (rule ok_with_mono [OF resv], goal_cases)
    case (1 x)
    obtain g s1 e1 where x: "x = (g, s1, e1)" by (cases x)
    have m1: "moved s e s1 e1" using 1(2) by (simp add: x)
    show ?case
    proof (cases g)
      case False
      then have "s1 = s" using 1(2) by (simp add: x)
      then show ?thesis using False m1 ok o by (simp add: x)
    next
      case True
      then have i1: "session_inv c i s1" and s1: "s1 = s\<lparr>pendingCost := pendingCost s + c,
          pendingItems := pendingItems s + i\<rparr>" using 1(2) by (auto simp: x)
      have acc1: "acc s1 e1" by (rule acc_moved [OF acc m1])
      have "upload_inv (batch_ids frames) frames (\<lambda>sid. map_option snapshot (map_of (streams s1) sid))
          (closedStreams s1 \<union> {}) (set (map fst (streams s1)))
          \<lparr>opened = [], closing = [], reservedCost = c, reservedItems = i, applied = True\<rparr> s1"
      proof (rule upload_inv_start [OF i1])
        show "batch_safe frames s1" using safe by (subst batch_safe_cong) (simp_all add: s1 remembered_def)
        show "backendWriteReservation s1 frames = (c, i)" using ci by (simp add: s1 backendWriteReservation_def)
        show "usesCarrierLanes s1 \<longrightarrow> batch_ids frames - {0} \<subseteq> keys (carrierLanes s1)"
          using lane by (simp add: s1 usesCarrierLanes_def)
      qed (use o fin cf in \<open>simp_all add: s1\<close>)
      from apply_loop_ok [OF this acc1] v
      have ap: "ok_with (applyBatch cb frames c i s1 e1) (\<lambda>(a', s', e'). moved s1 e1 s' e' \<and>
          session_inv (reservedCost a') (reservedItems a') s' \<and>
          0 \<le> reservedCost a' \<and> 0 \<le> reservedItems a' \<and> \<not> closed s' \<and> \<not> finished s')"
        by (simp add: applyBatch_def validateBatch_def s1)
      have "ok_with (applyBatch cb frames c i s1 e1) (\<lambda>x. ok_with (case x of (a, s, e) \<Rightarrow>
          (if reservedCost a \<noteq> 0 \<or> reservedItems a \<noteq> 0
           then releasePending cb (reservedCost a) (reservedItems a) s e else Some (s, e)) \<bind>
          (\<lambda>(s, e). Some (Some a, s, e)))
        (\<lambda>(r, s', e'). moved s e s' e' \<and> session_ok s' \<and> \<not> closed s'))"
      proof (rule ok_with_mono [OF ap], goal_cases)
        case (1 y)
        obtain a s2 e2 where y: "y = (a, s2, e2)" by (cases y)
        have h: "moved s1 e1 s2 e2" "session_inv (reservedCost a) (reservedItems a) s2"
            "0 \<le> reservedCost a" "0 \<le> reservedItems a" "\<not> closed s2" "\<not> finished s2"
          using 1(2) by (simp_all add: y)
        have m2: "moved s e s2 e2" by (rule moved_trans [OF m1 h(1)])
        have eq2: "(if reservedCost a \<noteq> 0 \<or> reservedItems a \<noteq> 0
            then releasePending cb (reservedCost a) (reservedItems a) s2 e2 else Some (s2, e2)) =
            releasePending cb (reservedCost a) (reservedItems a) s2 e2"
          by (simp add: releasePending_def)
        have le: "reservedCost a \<le> pendingCost s2" "reservedItems a \<le> pendingItems s2"
          using h totals_nonneg [of s2]
          by (simp_all add: session_inv_def held_cost_def held_items_def)
        show ?case
          unfolding y prod.case eq2 wp_rules
        proof (rule ok_with_mono [OF release_inv [OF h(2) acc_moved [OF acc m2] h(3,4) le]], goal_cases)
          case (1 z)
          obtain s3 e3 where z: "z = (s3, e3)" by (cases z)
          from 1(2) obtain k where m3: "moved s2 e2 s3 e3" "session_inv 0 0 s3"
            and s3: "s3 = s2\<lparr>pendingCost := pendingCost s2 - reservedCost a,
              pendingItems := pendingItems s2 - reservedItems a, budgetNotify := k\<rparr>"
            unfolding z prod.case diff_self by blast
          have "session_ok s3" "\<not> closed s3" using m3(2) h(5,6) by (simp_all add: session_ok_def s3)
          then show ?case using moved_trans [OF m2 m3(1)] by (simp add: z)
        qed
      qed
      then show ?thesis using True by (simp add: x wp_rules)
    qed
  qed
qed

subsection \<open>The handlers\<close>

lemma session_ok_up:
  assumes "session_ok s"
  shows "session_ok (s\<lparr>lastActivity := l, mux := (mux s)\<lparr>upActive := b\<rparr>\<rparr>)"
proof -
  have "lane_ok (mux s)" using assms by (simp add: session_ok_def session_inv_def lanes_ok_def)
  then have "session_ok (s\<lparr>lastActivity := l\<rparr>\<lparr>mux := (mux s)\<lparr>upActive := b\<rparr>\<rparr>)"
    using assms by (intro session_ok_mux) simp_all
  then show ?thesis by simp
qed

lemma up_begin_session:
  "up_begin sequence digest now s = (r, s') \<Longrightarrow>
     \<exists>l b. s' = s\<lparr>lastActivity := l, mux := (mux s)\<lparr>upActive := b\<rparr>\<rparr>"
proof -
  assume b: "up_begin sequence digest now s = (r, s')"
  have split: "Q (if c then x else y)" if "Q x" "Q y" for c and x y :: "u64 outcome \<times> session" and Q
    using that by simp
  have m: "mux (s\<lparr>lastActivity := now\<rparr>) = mux s" by simp
  let ?Q = "\<lambda>x :: u64 outcome \<times> session. snd x = s \<or> snd x = s\<lparr>lastActivity := now\<rparr> \<or>
      snd x = s\<lparr>lastActivity := now, mux := (mux s)\<lparr>upActive := True\<rparr>\<rparr>"
  have "?Q (up_begin sequence digest now s)"
    unfolding up_begin_def Let_def m by (intro split [of ?Q]) (simp_all only: snd_conv simp_thms)
  then consider "s' = s" | "s' = s\<lparr>lastActivity := now\<rparr>"
    | "s' = s\<lparr>lastActivity := now, mux := (mux s)\<lparr>upActive := True\<rparr>\<rparr>"
    unfolding b snd_conv by blast
  then show ?thesis
  proof cases
    case 1
    then have "s' = s\<lparr>lastActivity := lastActivity s, mux := (mux s)\<lparr>upActive := upActive (mux s)\<rparr>\<rparr>" by simp
    then show ?thesis by blast
  next
    case 2
    then have "s' = s\<lparr>lastActivity := now, mux := (mux s)\<lparr>upActive := upActive (mux s)\<rparr>\<rparr>" by simp
    then show ?thesis by blast
  qed blast
qed

lemma up_commit_ok:
  assumes ok: "session_ok s" and acc: "acc s e" and n: "\<not> usesCarrierLanes s"
    and p: "\<And>frames. parsed = Some frames \<Longrightarrow> list_all client_frame frames \<and> batch_safe frames s"
  shows "ok_with (up_commit cb sequence digest parsed s e)
     (\<lambda>(r, a, s', e'). moved s e s' e' \<and> session_ok s')"
proof -
  let ?s = "s\<lparr>mux := (mux s)\<lparr>upActive := False\<rparr>\<rparr>"
  have ok1: "session_ok ?s" using session_ok_up [OF ok, where l = "lastActivity s" and b = False] by simp
  have m1: "moved s e ?s e" by (rule moved_counts [OF acc]) (simp add: same_counts_def same_session_def)
  show ?thesis
  proof (cases "closed s \<or> parsed = None \<or> \<not> validateBatch ?s (the parsed)")
    case True
    then show ?thesis using ok1 m1 by (auto simp: up_commit_def Let_def split: option.split)
  next
    case False
    then obtain frames where fr: "parsed = Some frames" and v: "validateBatch ?s frames" and o: "\<not> closed ?s"
      by auto
    have safe: "batch_safe frames ?s"
      using p [OF fr] batch_safe_cong [of ?s s frames] by (simp add: remembered_def)
    have n': "\<not> usesCarrierLanes ?s" using n by (simp add: usesCarrierLanes_def)
    have eq: "up_commit cb sequence digest parsed s e = reserve_and_apply cb frames ?s e \<bind>
        (\<lambda>(r, s, e). case r of
               None \<Rightarrow> Some (Answer (Inl ErrBackpressure), no_effects, s, e)
             | Some a \<Rightarrow>
                 if applied a
                 then Some (Applied sequence, a,
                   s\<lparr>mux := (mux s)\<lparr>lastUpSequence := sequence, lastUpDigest := digest\<rparr>\<rparr>, e)
                 else Some (CloseAfter, a, s, e))"
      using fr v o by (simp add: up_commit_def Let_def)
    show ?thesis
      unfolding eq wp_rules
    proof (rule ok_with_mono [OF reserve_and_apply_ok [OF ok1 acc_moved [OF acc m1] o v _ safe]], goal_cases)
      case (3 x)
      obtain r s1 e1 where x: "x = (r, s1, e1)" by (cases x)
      have h: "moved s e s1 e1" "session_ok s1" using 3(2) moved_trans [OF m1] by (auto simp: x)
      let ?s1 = "s1\<lparr>mux := (mux s1)\<lparr>lastUpSequence := sequence, lastUpDigest := digest\<rparr>\<rparr>"
      have "lane_ok (mux s1)" using h(2) by (simp add: session_ok_def session_inv_def lanes_ok_def)
      then have "session_ok ?s1" by (intro session_ok_mux [OF h(2)]) simp_all
      moreover have "moved s e ?s1 e1"
        by (rule moved_counts_trans [OF h(1)]) (simp add: same_counts_def same_session_def)
      ultimately show ?case using h by (simp add: x split: option.split)
    qed (use p [OF fr] n' in simp_all)
  qed
qed

lemma ProcessUp_ok:
  assumes ok: "session_ok s" and acc: "acc s e"
    and safe: "\<And>frames. parse_client (MaxFramePayload (limits s)) bytes = Some frames \<Longrightarrow> batch_safe frames s"
  shows "ok_with (ProcessUp cb sequence bytes now s e) (\<lambda>(r, a, s', e'). moved s e s' e' \<and> session_ok s')"
proof (cases "usesCarrierLanes s")
  case True
  then show ?thesis using ok moved_refl [OF acc] by (simp add: ProcessUp_def)
next
  case False
  obtain r s1 where b: "up_begin sequence (Sum256 bytes) now s = (r, s1)" by fastforce
  obtain l ua where s1: "s1 = s\<lparr>lastActivity := l, mux := (mux s)\<lparr>upActive := ua\<rparr>\<rparr>"
    using up_begin_session [OF b] by blast
  have ok1: "session_ok s1" unfolding s1 by (rule session_ok_up [OF ok])
  have m1: "moved s e s1 e" unfolding s1
    by (rule moved_counts [OF acc]) (simp add: same_counts_def same_session_def)
  have acc1: "acc s1 e" by (rule acc_moved [OF acc m1])
  have n1: "\<not> usesCarrierLanes s1" using False by (simp add: s1 usesCarrierLanes_def)
  have close: "ok_with (closeLocked cb s' e' \<bind> (\<lambda>(bs, s, e). Some (q, f bs, s, e)))
      (\<lambda>(r, a, s', e'). moved s e s' e' \<and> session_ok s')"
    if "session_ok s'" "moved s e s' e'" for s' e' and q :: "session_error + u64" and f :: "nat list \<Rightarrow> application"
    unfolding wp_rules
  proof (rule ok_with_mono [OF protocolFailure_ok [OF that(1) acc_moved [OF acc that(2)],
          unfolded protocolFailure_def]], goal_cases)
    case (1 x)
    then show ?case using moved_trans [OF that(2)] by (cases x) auto
  qed
  have commit: "ok_with (up_commit cb sequence (Sum256 bytes)
      (parse_client (MaxFramePayload (limits s1)) bytes) s1 e \<bind>
      (\<lambda>(r, a, s, e). case r of
               Applied q \<Rightarrow> Some (Inr q, a, s, onUp cb (len bytes) e)
             | Answer r \<Rightarrow> Some (r, a, s, e)
             | CloseAfter \<Rightarrow> do {
                 (bs, s, e) \<leftarrow> closeLocked cb s e;
                 Some (Inl ErrClosed, a\<lparr>closing := closing a @ bs\<rparr>, s, e) }
             | _ \<Rightarrow> do {
                 (bs, s, e) \<leftarrow> protocolFailure cb s e;
                 Some (Inl ErrProtocol, a\<lparr>closing := closing a @ bs\<rparr>, s, e) }))
      (\<lambda>(r, a, s', e'). moved s e s' e' \<and> session_ok s')"
    unfolding ok_with_bind [of "up_commit _ _ _ _ _ _"]
  proof (rule ok_with_mono [OF up_commit_ok [OF ok1 acc1 n1]], goal_cases)
    case (1 frames)
    then have pf: "parse_client (MaxFramePayload (limits s)) bytes = Some frames" by (simp add: s1)
    have "batch_safe frames s1"
      using safe [OF pf] batch_safe_cong [of s1 s frames] by (simp add: s1 remembered_def)
    then show ?case using parse_client_frames [OF pf] by simp
  next
    case (2 x)
    obtain r a s2 e2 where x: "x = (r, a, s2, e2)" by (cases x)
    have h: "moved s e s2 e2" "session_ok s2" using 2(2) moved_trans [OF m1] by (auto simp: x)
    have "moved s e s2 (onUp cb (len bytes) e2)"
      using h(1) up_pool [of e2 "len bytes"] by (simp add: moved_with_def)
    then show ?case
      using h close [OF h(2,1)] by (cases r) (simp_all add: x protocolFailure_def)
  qed
  show ?thesis
    using False b ok1 m1 commit close [OF ok1 m1]
    by (cases r) (simp_all add: ProcessUp_def Let_def protocolFailure_def)
qed

end

end
