(* ===== verification/Uplink_Lanes.thy ===== *)
theory Uplink_Lanes
  imports Uplink_Handlers
begin

text \<open>
  The uplink of a lane. A batch carries frames of one stream, so the handler never panics,
  whatever the client sends; retried batches are answered without being applied again.
\<close>

context session_owner
begin

lemma laneProtocolFailure_ok:
  assumes "session_ok s" and "acc s e"
  shows "ok_with (laneProtocolFailure cb laneID now s e) (\<lambda>(bs, s', e'). moved s e s' e' \<and> session_ok s')"
proof (cases "carrier s = CarrierWebSocketLanes")
  case True
  have "ok_with (ReleaseWebSocketLane cb laneID now s e) (\<lambda>x. ok_with (case x of (b, s, e) \<Rightarrow>
      Some ((case b of None \<Rightarrow> [] | Some b \<Rightarrow> [b]), s, e)) (\<lambda>(bs, s', e'). moved s e s' e' \<and> session_ok s'))"
    by (rule ok_with_mono [OF ReleaseWebSocketLane_ok [OF assms]]) auto
  then show ?thesis using True by (simp only: laneProtocolFailure_def if_True wp_rules simp_thms)
next
  case False
  show ?thesis
    using False unfolding laneProtocolFailure_def
    by simp (rule ok_with_mono3 [OF protocolFailure_ok [OF assms]], blast)
qed

lemma edit_lane_ok:
  assumes "session_ok s" and "\<And>l. lane_ok (f l) = lane_ok l" "\<And>l. lane_cost (f l) = lane_cost l"
    "\<And>l. lane_items (f l) = lane_items l"
  shows "session_ok (edit_lane laneID f s)" and "same_counts s (edit_lane laneID f s)"
proof -
  show "session_ok (edit_lane laneID f s)"
  proof (cases "map_of (carrierLanes s) laneID")
    case (Some lane)
    have "lane_ok lane" using assms(1) lane_of_ok [OF _ Some] by (auto simp: session_ok_def)
    then show ?thesis
      using session_ok_lanes [OF assms(1) Some, of "f lane"] assms(2-4) Some by (simp add: edit_lane_def)
  qed (simp add: edit_lane_def assms(1))
  show "same_counts s (edit_lane laneID f s)"
    by (simp add: edit_lane_def same_counts_def same_session_def split: option.split)
qed

lemma up_lane_ok:
  assumes ok: "session_ok s" and acc: "acc s e" and fr: "parse_lane m laneID bytes = Some frames"
  shows "ok_with (up_lane cb laneID sequence digest frames now s e)
     (\<lambda>(r, a, s', e'). moved s e s' e' \<and> session_ok s')"
proof -
  note pl = parse_lane_frames [OF fr]
  let ?missing = "map_of (carrierLanes s) laneID = None"
  obtain lane s1 where c: "(case map_of (carrierLanes s) laneID of
      None \<Rightarrow> add_lane laneID s | Some lane \<Rightarrow> (lane, s)) = (lane, s1)" by fastforce
  have s1: "session_ok s1" "map_of (carrierLanes s1) laneID = Some lane" "same_counts s s1" "closed s1 = closed s"
    using c ok add_lane_ok [OF ok, of laneID lane s1]
    by (auto simp: same_counts_def split: option.splits)
  let ?s = "s1\<lparr>lastActivity := now\<rparr>"
  have ok1: "session_ok ?s" using s1(1) by simp
  have m1: "moved s e ?s e"
    by (rule moved_counts [OF acc]) (use s1(3) in \<open>simp add: same_counts_def same_session_def\<close>)
  have m0: "moved s e (s\<lparr>lastActivity := now\<rparr>) e"
    by (rule moved_counts [OF acc]) (simp add: same_counts_def same_session_def)
  have core: "ok_with (reserve_and_apply cb frames ?s e \<bind> (\<lambda>(r, s, e). case r of
                   None \<Rightarrow> Some (Answer (Inl ErrBackpressure), no_effects, s, e)
                 | Some a \<Rightarrow>
                     if applied a
                     then Some (Applied sequence, a,
                       edit_lane laneID
                         (\<lambda>lane. lane\<lparr>lastUpSequence := sequence, lastUpDigest := digest\<rparr>) s, e)
                     else Some (CloseAfter, a, s, e)))
      (\<lambda>(r, a, s', e'). moved s e s' e' \<and> session_ok s')"
    if v: "validateBatch ?s frames" and o: "\<not> closed s"
    unfolding wp_rules
  proof (rule ok_with_mono [OF reserve_and_apply_ok [OF ok1 acc_moved [OF acc m1] _ v pl(1)]], goal_cases)
    case 1 show ?case using o s1(4) by simp
  next
    case 2
    show ?case
      using ok1 pl(3) by (intro one_stream_safe) (auto simp: session_ok_def session_inv_def limits_ok_def)
  next
    case 3
    show ?case using pl(3) map_of_keys [OF s1(2)] by (auto simp: batch_ids_def)
  next
    case (4 x)
    obtain r s2 e2 where x: "x = (r, s2, e2)" by (cases x)
    have h: "moved s e s2 e2" "session_ok s2" using 4(2) moved_trans [OF m1] by (auto simp: x)
    have "session_ok (edit_lane laneID (\<lambda>lane. lane\<lparr>lastUpSequence := sequence, lastUpDigest := digest\<rparr>) s2)"
      "same_counts s2 (edit_lane laneID (\<lambda>lane. lane\<lparr>lastUpSequence := sequence, lastUpDigest := digest\<rparr>) s2)"
      by (rule edit_lane_ok [OF h(2)]; simp)+
    then show ?case using h moved_counts_trans [OF h(1)] by (simp add: x split: option.split)
  qed
  show ?thesis
    unfolding up_lane_def Let_def c prod.case
    using ok m0 m1 ok1 moved_refl [OF acc] core
    by (intro ok_with_ifI) (simp_all only: ok_with_simps prod.case session_ok_irrelevant simp_thms)
qed

lemma ProcessUpLane_ok:
  assumes ok: "session_ok s" and acc: "acc s e"
  shows "ok_with (ProcessUpLane cb laneID sequence bytes now s e)
     (\<lambda>(r, a, s', e'). moved s e s' e' \<and> session_ok s')"
proof (cases "\<not> usesCarrierLanes s \<or> laneID > MaxStreamID")
  case True
  then show ?thesis using ok moved_refl [OF acc] by (simp add: ProcessUpLane_def)
next
  case False
  have fail: "ok_with (laneProtocolFailure cb laneID now s' e' \<bind> (\<lambda>(bs, s, e). Some (q, f bs, s, e)))
      (\<lambda>(r, a, s', e'). moved s e s' e' \<and> session_ok s')"
    if "session_ok s'" "moved s e s' e'" for s' e' and q :: "session_error + u64" and f :: "nat list \<Rightarrow> application"
    unfolding wp_rules
  proof (rule ok_with_mono [OF laneProtocolFailure_ok [OF that(1) acc_moved [OF acc that(2)]]], goal_cases)
    case (1 x)
    then show ?case using moved_trans [OF that(2)] by (cases x) auto
  qed
  have close: "ok_with (closeLocked cb s' e' \<bind> (\<lambda>(bs, s, e). Some (q, f bs, s, e)))
      (\<lambda>(r, a, s', e'). moved s e s' e' \<and> session_ok s')"
    if "session_ok s'" "moved s e s' e'" for s' e' and q :: "session_error + u64" and f :: "nat list \<Rightarrow> application"
    unfolding wp_rules
  proof (rule ok_with_mono [OF protocolFailure_ok [OF that(1) acc_moved [OF acc that(2)],
          unfolded protocolFailure_def]], goal_cases)
    case (1 x)
    then show ?case using moved_trans [OF that(2)] by (cases x) auto
  qed
  show ?thesis
  proof (cases "parse_lane (MaxFramePayload (limits s)) laneID bytes")
    case None
    then show ?thesis using False fail [OF ok moved_refl [OF acc]] by (simp add: ProcessUpLane_def)
  next
    case (Some frames)
    have "ok_with (up_lane cb laneID sequence (Sum256 bytes) frames now s e) (\<lambda>x. ok_with (case x of
        (r, a, s, e) \<Rightarrow> (case r of
               Applied q \<Rightarrow> Some (Inr q, a, s, onUp cb (len bytes) e)
             | Answer r \<Rightarrow> Some (r, a, s, e)
             | CloseAfter \<Rightarrow> do {
                 (bs, s, e) \<leftarrow> closeLocked cb s e;
                 Some (Inl ErrClosed, a\<lparr>closing := closing a @ bs\<rparr>, s, e) }
             | _ \<Rightarrow> do {
                 (bs, s, e) \<leftarrow> laneProtocolFailure cb laneID now s e;
                 Some (Inl ErrProtocol, a\<lparr>closing := closing a @ bs\<rparr>, s, e) }))
        (\<lambda>(r, a, s', e'). moved s e s' e' \<and> session_ok s'))"
    proof (rule ok_with_mono [OF up_lane_ok [OF ok acc Some]], goal_cases)
      case (1 x)
      obtain r a s2 e2 where x: "x = (r, a, s2, e2)" by (cases x)
      have h: "moved s e s2 e2" "session_ok s2" using 1(2) by (auto simp: x)
      have "moved s e s2 (onUp cb (len bytes) e2)"
        using h(1) up_pool [of e2 "len bytes"] by (simp add: moved_with_def)
      then show ?case
        using h close [OF h(2,1)] fail [OF h(2,1)] by (cases r) (simp_all add: x)
    qed
    then show ?thesis
      using False Some by (simp only: ProcessUpLane_def if_False option.case wp_rules)
  qed
qed

end

end
