(* ===== verification/Downlink.thy ===== *)
theory Downlink
  imports Session_Ops
begin

text \<open>
  The downlink of a session: the long polls \<open>Poll\<close> and \<open>PollLane\<close> of
  \<open>internal/session/session.go\<close>. A poll runs under the session's lock up to the point where
  it waits; each way the wait ends is one more critical section. A waiting poll keeps its
  cursor and the identity of the channel it made, and for a lane the lane object.

  The channel a poll waits on is closed exactly when a newer poll has replaced it, that is
  when \<open>superseded\<close> is no longer its own; receiving from \<open>notify\<close> empties the one slot.
\<close>

subsection \<open>Outcomes\<close>

datatype poll_error = PollProtocol | PollClosed | PollCancelled

text \<open>
  A section ends with an answer, with a protocol failure that the caller runs before it
  answers \<open>ErrProtocol\<close>, or parked on the channel of the given identity.
\<close>

datatype 'r poll_outcome = Answered "poll_error + 'r" | PollFailure | Parked poll_id

text \<open>How a wait ends: the request's context, the own channel, \<open>done\<close> of the session (for
  a lane), the deadline, or a signal.\<close>

datatype wake = Cancelled | Replaced | SessionDone | Deadline | Signalled

subsection \<open>The steps on a queue\<close>

datatype poll_start = Replay "byte list" u64 | BadCursor | Fresh int int carrierLane

text \<open>The cursor check: resend the batch, reject the cursor, or acknowledge the batch.\<close>

definition poll_start :: "u64 \<Rightarrow> carrierLane \<Rightarrow> poll_start" where
  "poll_start cursor lane =
     (if unacked lane \<noteq> [] then
        (if cursor = unackedBase lane then Replay (unacked lane) (downCursor lane)
         else if cursor \<noteq> downCursor lane then BadCursor
         else Fresh (unackedCost lane) (unackedItems lane)
                (lane\<lparr>unacked := [], unackedCost := 0, unackedItems := 0\<rparr>))
      else if cursor \<noteq> downCursor lane then BadCursor
      else Fresh 0 0 lane)"

definition poll_take :: "int \<Rightarrow> u64 \<Rightarrow> carrierLane \<Rightarrow> byte list \<times> carrierLane" where
  "poll_take carrierBatchBytes cursor lane =
     (case takeDownBatch carrierBatchBytes lane of (batch, lane) \<Rightarrow>
        (body batch,
         lane\<lparr>downCursor := downCursor lane + 1, unackedBase := cursor, unacked := body batch,
              unackedCost := batch_cost batch, unackedItems := batch_items batch,
              downActive := False, superseded := None\<rparr>))"

definition idle :: "carrierLane \<Rightarrow> carrierLane" where
  "idle lane = lane\<lparr>downActive := False, superseded := None\<rparr>"

definition idle_if_own :: "poll_id \<Rightarrow> carrierLane \<Rightarrow> carrierLane" where
  "idle_if_own mine lane = (if superseded lane = Some mine then idle lane else lane)"

definition raise_signal :: "carrierLane \<Rightarrow> carrierLane" where
  "raise_signal lane = lane\<lparr>notify := True\<rparr>"

subsection \<open>Polling a multiplexed session\<close>

text \<open>The head of the loop of \<open>Poll\<close>, with the lock held.\<close>

definition poll_loop ::
  "'e callbacks \<Rightarrow> u64 \<Rightarrow> poll_id \<Rightarrow> session \<Rightarrow> 'e \<Rightarrow> (byte list \<times> u64) poll_outcome \<times> session \<times> 'e" where
  "poll_loop cb cursor mine s e =
     (if superseded (mux s) \<noteq> Some mine then (Answered (Inr ([], cursor)), s, e)
      else if pendingFrames (mux s) \<noteq> [] then
        (case poll_take (CarrierBatchBytes (limits s)) cursor (mux s) of (bytes, lane) \<Rightarrow>
           (Answered (Inr (bytes, downCursor lane)), s\<lparr>mux := lane\<rparr>, onDown cb (len bytes) e))
      else if closed s then (Answered (Inl PollClosed), s\<lparr>mux := idle (mux s)\<rparr>, e)
      else (Parked mine, s, e))"

definition Poll ::
  "'e callbacks \<Rightarrow> u64 \<Rightarrow> int \<Rightarrow> session \<Rightarrow> 'e
     \<Rightarrow> ((byte list \<times> u64) poll_outcome \<times> session \<times> 'e) option" where
  "Poll cb cursor now s e =
     (if usesCarrierLanes s then Some (Answered (Inl PollProtocol), s, e)
      else if closed s then Some (Answered (Inl PollClosed), s, e)
      else
        let s = s\<lparr>lastActivity := now\<rparr> in
        case poll_start cursor (mux s) of
          Replay bytes nxt \<Rightarrow> Some (Answered (Inr (bytes, nxt)), s, e)
        | BadCursor \<Rightarrow> Some (PollFailure, s, e)
        | Fresh c i lane \<Rightarrow> do {
            (s, e) \<leftarrow> releasePending cb c i s e;
            let mine = PollId (next_ref s) cursor;
            Some (poll_loop cb cursor mine
              (s\<lparr>mux := lane\<lparr>superseded := Some mine, downActive := True\<rparr>,
                 next_ref := next_ref s + 1\<rparr>) e)
          })"

definition poll_wake ::
  "'e callbacks \<Rightarrow> wake \<Rightarrow> u64 \<Rightarrow> poll_id \<Rightarrow> int \<Rightarrow> session \<Rightarrow> 'e
     \<Rightarrow> (byte list \<times> u64) poll_outcome \<times> session \<times> 'e" where
  "poll_wake cb w cursor mine now s e =
     (case w of
        Cancelled \<Rightarrow> (Answered (Inl PollCancelled), s\<lparr>mux := idle_if_own mine (mux s)\<rparr>, e)
      | Replaced \<Rightarrow> (Answered (Inr ([], cursor)), s\<lparr>mux := raise_signal (mux s)\<rparr>, e)
      | SessionDone \<Rightarrow> (Parked mine, s, e)
      | Deadline \<Rightarrow>
          if superseded (mux s) \<noteq> Some mine
          then (Answered (Inr ([], cursor)), s\<lparr>mux := raise_signal (mux s)\<rparr>, e)
          else if pendingFrames (mux s) \<noteq> [] then poll_loop cb cursor mine s e
          else (Answered (Inr ([], cursor)), s\<lparr>mux := idle (mux s), lastActivity := now\<rparr>, e)
      | Signalled \<Rightarrow>
          let lane = (mux s)\<lparr>notify := False\<rparr>;
              lane = (if superseded lane \<noteq> Some mine then raise_signal lane else lane)
          in poll_loop cb cursor mine (s\<lparr>mux := lane\<rparr>) e)"

subsection \<open>Polling a lane\<close>

text \<open>The lane object a poll holds: in the map, or evicted since.\<close>

definition held_lane :: "u32 \<Rightarrow> nat \<Rightarrow> session \<Rightarrow> carrierLane option" where
  "held_lane laneID ref s =
     (case map_of (carrierLanes s) laneID of
        Some lane \<Rightarrow> if laneRef lane = ref then Some lane else map_of (detached s) ref
      | None \<Rightarrow> map_of (detached s) ref)"

definition lane_in_map :: "u32 \<Rightarrow> nat \<Rightarrow> session \<Rightarrow> bool" where
  "lane_in_map laneID ref s =
     (case map_of (carrierLanes s) laneID of None \<Rightarrow> False | Some lane \<Rightarrow> laneRef lane = ref)"

definition store_lane :: "u32 \<Rightarrow> nat \<Rightarrow> carrierLane \<Rightarrow> session \<Rightarrow> session" where
  "store_lane laneID ref lane s =
     (if lane_in_map laneID ref s
      then s\<lparr>carrierLanes := AList.update laneID lane (carrierLanes s)\<rparr>
      else s\<lparr>detached := AList.update ref lane (detached s)\<rparr>)"

type_synonym lane_answer = "(byte list \<times> u64 \<times> bool) poll_outcome"

definition poll_lane_loop ::
  "'e callbacks \<Rightarrow> u32 \<Rightarrow> u64 \<Rightarrow> poll_id \<Rightarrow> carrierLane \<Rightarrow> session \<Rightarrow> 'e \<Rightarrow> lane_answer \<times> session \<times> 'e" where
  "poll_lane_loop cb laneID cursor mine lane s e =
     (let put = (\<lambda>lane'. store_lane laneID (laneRef lane) lane' s) in
      if superseded lane \<noteq> Some mine then (Answered (Inr ([], cursor, False)), put lane, e)
      else if pendingFrames lane \<noteq> [] then
        (case poll_take (CarrierBatchBytes (limits s)) cursor lane of (bytes, lane') \<Rightarrow>
           (Answered (Inr (bytes, downCursor lane', False)), put lane', onDown cb (len bytes) e))
      else if closed s then (Answered (Inl PollClosed), put (idle lane), e)
      else if laneID \<noteq> 0 \<and> map_of (streams s) laneID = None \<and> laneID \<in> closedStreams s
      then (Answered (Inr ([], cursor, True)), put (idle lane), e)
      else if \<not> lane_in_map laneID (laneRef lane) s
      then (Answered (Inr ([], cursor, True)), put (idle lane), e)
      else (Parked mine, put lane, e))"

definition PollLane ::
  "'e callbacks \<Rightarrow> u32 \<Rightarrow> u64 \<Rightarrow> int \<Rightarrow> session \<Rightarrow> 'e \<Rightarrow> (lane_answer \<times> session \<times> 'e) option" where
  "PollLane cb laneID cursor now s e =
     (if \<not> usesCarrierLanes s \<or> laneID > MaxStreamID
      then Some (Answered (Inl PollProtocol), s, e)
      else if closed s then Some (Answered (Inl PollClosed), s, e)
      else
        case map_of (carrierLanes s) laneID of
          None \<Rightarrow> Some (Answered (Inl PollProtocol), s, e)
        | Some lane \<Rightarrow>
            let s = s\<lparr>lastActivity := now\<rparr> in
            (case poll_start cursor lane of
               Replay bytes nxt \<Rightarrow> Some (Answered (Inr (bytes, nxt, False)), s, e)
             | BadCursor \<Rightarrow> Some (PollFailure, s, e)
             | Fresh c i lane \<Rightarrow> do {
                 (s, e) \<leftarrow> releasePending cb c i s e;
                 let mine = PollId (next_ref s) cursor;
                 Some (poll_lane_loop cb laneID cursor mine
                   (lane\<lparr>superseded := Some mine, downActive := True\<rparr>)
                   (s\<lparr>next_ref := next_ref s + 1\<rparr>) e)
               }))"

text \<open>\<open>None\<close>: no lane object of that identity exists.\<close>

definition poll_lane_wake ::
  "'e callbacks \<Rightarrow> wake \<Rightarrow> u32 \<Rightarrow> nat \<Rightarrow> u64 \<Rightarrow> poll_id \<Rightarrow> int \<Rightarrow> session \<Rightarrow> 'e
     \<Rightarrow> (lane_answer \<times> session \<times> 'e) option" where
  "poll_lane_wake cb w laneID ref cursor mine now s e =
     (case held_lane laneID ref s of
        None \<Rightarrow> None
      | Some lane \<Rightarrow> Some (
          let put = (\<lambda>lane'. store_lane laneID ref lane' s) in
          case w of
            Cancelled \<Rightarrow> (Answered (Inl PollCancelled), put (idle_if_own mine lane), e)
          | Replaced \<Rightarrow> (Answered (Inr ([], cursor, False)), put (raise_signal lane), e)
          | SessionDone \<Rightarrow> (Answered (Inl PollClosed), put (idle_if_own mine lane), e)
          | Deadline \<Rightarrow>
              if superseded lane \<noteq> Some mine
              then (Answered (Inr ([], cursor, False)), put (raise_signal lane), e)
              else if pendingFrames lane \<noteq> [] then poll_lane_loop cb laneID cursor mine lane s e
              else (Answered (Inr ([], cursor, False)),
                    (put (idle lane))\<lparr>lastActivity := now\<rparr>, e)
          | Signalled \<Rightarrow>
              let lane = lane\<lparr>notify := False\<rparr>;
                  lane = (if superseded lane \<noteq> Some mine then raise_signal lane else lane)
              in poll_lane_loop cb laneID cursor mine lane s e))"

end
