(* ===== verification/Downlink_Inv.thy ===== *)
theory Downlink_Inv
  imports Downlink
begin

text \<open>
  The polls keep the invariant of the session. A poll that waits finds its queue in the state
  it left it in as long as no newer poll has replaced it (\<open>poll_ready\<close>); an answer with bytes
  moves the frames from the queue to the unacknowledged batch at the same cost.
\<close>

subsection \<open>One queue\<close>

lemma idle_fields [simp]:
  "lane_cost (idle lane) = lane_cost lane" "lane_items (idle lane) = lane_items lane"
  "superseded (idle lane) = None" "pendingFrames (idle lane) = pendingFrames lane"
  "unacked (idle lane) = unacked lane" "downCursor (idle lane) = downCursor lane"
  "unackedCost (idle lane) = unackedCost lane" "unackedItems (idle lane) = unackedItems lane"
  "notify (idle lane) = notify lane" "laneRef (idle lane) = laneRef lane"
  by (simp_all add: idle_def lane_cost_def lane_items_def)

lemma lane_ok_idled [simp]: "lane_ok lane \<Longrightarrow> lane_ok (idle lane)"
  by (simp add: idle_def)

lemma raise_signal_fields [simp]:
  "lane_cost (raise_signal lane) = lane_cost lane" "lane_items (raise_signal lane) = lane_items lane"
  "superseded (raise_signal lane) = superseded lane" "notify (raise_signal lane)"
  "idle (raise_signal lane) = raise_signal (idle lane)" "laneRef (raise_signal lane) = laneRef lane"
  by (simp_all add: raise_signal_def idle_def)

lemma lane_ok_raised [simp]: "lane_ok lane \<Longrightarrow> lane_ok (raise_signal lane)"
  by (simp add: raise_signal_def)

lemma idle_if_own_fields [simp]:
  "lane_cost (idle_if_own mine lane) = lane_cost lane"
  "lane_items (idle_if_own mine lane) = lane_items lane"
  "laneRef (idle_if_own mine lane) = laneRef lane"
  "lane_ok lane \<Longrightarrow> lane_ok (idle_if_own mine lane)"
  by (simp_all add: idle_if_own_def)

text \<open>The queue a poll with identity \<open>mine\<close> and this cursor finds when it gets the lock.\<close>

definition poll_ready :: "poll_id \<Rightarrow> u64 \<Rightarrow> bool \<Rightarrow> carrierLane \<Rightarrow> bool" where
  "poll_ready mine cursor over lane \<longleftrightarrow> lane_ok (idle lane) \<and> poll_cursor mine = cursor \<and>
     (if superseded lane = Some mine then unacked lane = [] \<and> downCursor lane = cursor
      else lane_ok lane \<and> (over \<longrightarrow> superseded lane \<noteq> None \<longrightarrow> notify lane))"

text \<open>The unacknowledged batch a poll starts from, as \<open>poll_start\<close> leaves it.\<close>

lemma poll_start_Fresh:
  assumes "poll_start cursor lane = Fresh c i lane'" and "lane_ok lane"
  shows "c = unackedCost lane" "i = unackedItems lane" "downCursor lane = cursor"
    "lane' = lane\<lparr>unacked := [], unackedCost := 0, unackedItems := 0\<rparr>"
    "lane_cost lane' = lane_cost lane - c" "lane_items lane' = lane_items lane - i"
    "lane_ok (idle lane')"
proof -
  show l: "lane' = lane\<lparr>unacked := [], unackedCost := 0, unackedItems := 0\<rparr>"
    and "c = unackedCost lane" "i = unackedItems lane" "downCursor lane = cursor"
    using assms by (auto simp: poll_start_def lane_ok_def split: if_splits)
  then show "lane_cost lane' = lane_cost lane - c" "lane_items lane' = lane_items lane - i"
    by (simp_all add: lane_cost_def lane_items_def)
  show "lane_ok (idle lane')"
    using assms(2) unfolding l by (simp add: lane_ok_def queue_ok_def idle_def)
qed

lemma poll_ready_start:
  assumes "poll_start cursor lane = Fresh c i lane'" and "lane_ok lane" and m: "poll_cursor mine = cursor"
  shows "poll_ready mine cursor over (lane'\<lparr>superseded := Some mine, downActive := True\<rparr>)"
    and "lane_cost (lane'\<lparr>superseded := Some mine, downActive := True\<rparr>) = lane_cost lane - c"
    and "lane_items (lane'\<lparr>superseded := Some mine, downActive := True\<rparr>) = lane_items lane - i"
proof -
  let ?l = "lane'\<lparr>superseded := Some mine, downActive := True\<rparr>"
  note f = poll_start_Fresh [OF assms(1,2)]
  have "idle ?l = idle lane'" by (simp add: idle_def)
  moreover have "unacked ?l = []" "downCursor ?l = cursor" using f(3) by (simp_all add: f(4))
  ultimately show "poll_ready mine cursor over ?l" using f(7) m by (simp add: poll_ready_def)
  show "lane_cost ?l = lane_cost lane - c" "lane_items ?l = lane_items lane - i"
    using f(5,6) by (simp_all add: lane_cost_def lane_items_def)
qed

lemma encoded_nonempty: "list_all queued_ok qs \<Longrightarrow> qs \<noteq> [] \<Longrightarrow> concat (map encoded qs) \<noteq> []"
proof (cases qs)
  case (Cons q qs')
  moreover assume "list_all queued_ok qs"
  ultimately have "queued_ok q" by simp
  then have "len (encoded q) = HeaderSize + len (drop 8 (encoded q))" by (rule queued_ok_length)
  then have "0 < len (encoded q)" by linarith
  then show ?thesis using Cons by simp
qed simp

lemma poll_take_ok:
  assumes ok: "lane_ok (idle lane)" and u: "unacked lane = []" and c: "downCursor lane = cursor"
    and p: "pendingFrames lane \<noteq> []" and t: "poll_take limit cursor lane = (bytes, lane')"
  defines "taken \<equiv> batch_taken limit lane"
  shows "lane_ok lane'" "lane_cost lane' = lane_cost lane" "lane_items lane' = lane_items lane"
    "superseded lane' = None" "bytes \<noteq> []" "unacked lane' = bytes" "unackedBase lane' = cursor"
    "downCursor lane' = cursor + 1" "laneRef lane' = laneRef lane"
    "pendingFrames lane = taken @ pendingFrames lane'"
    "bytes = concat (map encoded taken)" "list_all queued_ok taken" "taken \<noteq> []"
    "length taken \<le> MaxBatchFrames" "len bytes \<le> limit \<or> length taken = 1"
    "unackedCost lane' = queue_cost taken" "unackedItems lane' = len taken"
proof -
  obtain b l where b: "takeDownBatch limit lane = (b, l)" by fastforce
  have q: "queue_ok lane" and u0: "unackedCost lane = 0" "unackedItems lane = 0"
    using ok u by (auto simp: lane_ok_def queue_ok_def idle_def)
  note k = takeDownBatch_ok [OF q b, folded taken_def]
  have l: "lane' = l\<lparr>downCursor := downCursor l + 1, unackedBase := cursor, unacked := body b,
              unackedCost := batch_cost b, unackedItems := batch_items b,
              downActive := False, superseded := None\<rparr>" and y: "bytes = body b"
    using t by (auto simp: poll_take_def b)
  have dc: "downCursor l = cursor" "laneRef l = laneRef lane" by (subst k(2), simp add: c)+
  show bytes: "bytes = concat (map encoded taken)" using k(4) y by simp
  show "taken \<noteq> []" by (rule k(8) [OF p])
  show "list_all queued_ok taken" by (rule k(10))
  then show ne: "bytes \<noteq> []" unfolding bytes by (rule encoded_nonempty) (rule k(8) [OF p])
  show "length taken \<le> MaxBatchFrames" by (rule k(7))
  show "len bytes \<le> limit \<or> length taken = 1"
  proof -
    have "length taken = 1" if "length taken \<le> 1"
      using that \<open>taken \<noteq> []\<close> by (simp add: le_Suc_eq)
    then show ?thesis using k(9) unfolding y by blast
  qed
  show "superseded lane' = None" "unacked lane' = bytes" "unackedBase lane' = cursor"
    "downCursor lane' = cursor + 1" "laneRef lane' = laneRef lane"
    by (simp_all add: l y dc)
  show "pendingFrames lane = taken @ pendingFrames lane'" using k(3) by (simp add: l)
  have n: "0 \<le> queue_cost taken" using queue_cost_nonneg [OF k(10)] by simp
  show "lane_cost lane' = lane_cost lane"
    unfolding lane_cost_def k(3) by (simp add: l u0 k(5))
  show "lane_items lane' = lane_items lane"
    unfolding lane_items_def k(3) by (simp add: l u0 k(6))
  show "lane_ok lane'"
    using k(1) n ne dc by (simp add: lane_ok_def queue_ok_def l y k(5,6))
  show "unackedCost lane' = queue_cost taken" "unackedItems lane' = len taken"
    by (simp_all add: l k(5,6))
qed

text \<open>Every way a wait ends leaves the queue ready for the poll, or well-formed.\<close>

lemma lane_ok_notify_idle: "lane_ok lane \<Longrightarrow> lane_ok (idle (lane\<lparr>notify := b\<rparr>))"
  by (simp add: lane_ok_def queue_ok_def idle_def)

lemma poll_ready_parked:
  assumes "lane_ok lane" and "poll_cursor mine = cursor"
    and "over \<longrightarrow> superseded lane \<noteq> None \<longrightarrow> notify lane"
  shows "poll_ready mine cursor over lane"
    and "poll_ready mine cursor over
      (let lane = lane\<lparr>notify := False\<rparr> in
       if superseded lane \<noteq> Some mine then raise_signal lane else lane)"
proof -
  have m: "unacked lane = [] \<and> downCursor lane = cursor" if "superseded lane = Some mine"
    using assms(1,2) that by (simp add: lane_ok_def)
  then show "poll_ready mine cursor over lane" using assms by (simp add: poll_ready_def)
  have "lane_ok (raise_signal (lane\<lparr>notify := False\<rparr>))"
    using assms(1) by (simp add: raise_signal_def lane_ok_def queue_ok_def)
  then show "poll_ready mine cursor over
      (let lane = lane\<lparr>notify := False\<rparr> in
       if superseded lane \<noteq> Some mine then raise_signal lane else lane)"
    using m lane_ok_notify_idle [OF assms(1), of False] assms(2)
    by (cases "superseded lane = Some mine") (simp_all add: poll_ready_def Let_def)
qed

subsection \<open>Polls of a multiplexed session\<close>

definition parked_on :: "carrierLane \<Rightarrow> poll_id \<Rightarrow> bool" where
  "parked_on lane mine \<longleftrightarrow> superseded lane = Some mine \<and> pendingFrames lane = [] \<and> unacked lane = []"

text \<open>The bytes of an answer are the frames taken off the queue, kept until acknowledged.\<close>

definition delivered :: "int \<Rightarrow> u64 \<Rightarrow> carrierLane \<Rightarrow> byte list \<Rightarrow> u64 \<Rightarrow> carrierLane \<Rightarrow> bool" where
  "delivered limit cursor lane bytes nxt lane' \<longleftrightarrow>
     (if bytes = [] then nxt = cursor \<and> pendingFrames lane' = pendingFrames lane
      else \<exists>taken. taken \<noteq> [] \<and> pendingFrames lane = taken @ pendingFrames lane' \<and>
        list_all queued_ok taken \<and> length taken \<le> MaxBatchFrames \<and>
        bytes = concat (map encoded taken) \<and> (len bytes \<le> limit \<or> length taken = 1) \<and>
        nxt = cursor + 1 \<and> downCursor lane' = nxt \<and> unackedBase lane' = cursor \<and>
        unacked lane' = bytes \<and> unackedCost lane' = queue_cost taken \<and>
        unackedItems lane' = len taken)"

definition poll_result ::
  "int \<Rightarrow> u64 \<Rightarrow> poll_id \<Rightarrow> bool \<Rightarrow> carrierLane \<Rightarrow> (byte list \<times> u64) poll_outcome \<Rightarrow> carrierLane \<Rightarrow> bool" where
  "poll_result limit cursor mine over lane r lane' \<longleftrightarrow>
     (case r of
        Answered (Inr (bytes, nxt)) \<Rightarrow> delivered limit cursor lane bytes nxt lane'
      | Answered (Inl err) \<Rightarrow> pendingFrames lane' = pendingFrames lane \<and> (err = PollClosed \<longrightarrow> over)
      | PollFailure \<Rightarrow> False
      | Parked m \<Rightarrow> m = mine \<and> \<not> over \<and> pendingFrames lane = [] \<and> parked_on lane' mine)"

text \<open>The result depends on the old queue only.\<close>

lemma poll_result_same:
  "pendingFrames lane = pendingFrames lane2 \<Longrightarrow>
     poll_result limit cursor mine over lane r lane' = poll_result limit cursor mine over lane2 r lane'"
  by (simp add: poll_result_def delivered_def split: poll_outcome.splits sum.splits)

lemma delivered_empty [simp]:
  "pendingFrames lane' = pendingFrames lane \<Longrightarrow> delivered limit cursor lane [] cursor lane'"
  by (simp add: delivered_def)

lemma delivered_take:
  assumes "lane_ok (idle lane)" and "unacked lane = []" and "downCursor lane = cursor"
    and "pendingFrames lane \<noteq> []" and "poll_take limit cursor lane = (bytes, lane')"
  shows "delivered limit cursor lane bytes (downCursor lane') lane'"
proof -
  note k = poll_take_ok [OF assms]
  show ?thesis
    unfolding delivered_def if_not_P [OF k(5)]
    using k by (intro exI [of _ "batch_taken limit lane"] conjI) blast+
qed

context session_owner
begin

lemma moved_down: "moved s e s' e' \<Longrightarrow> moved s e s' (onDown cb n e')"
  using down_pool [of e' n] by (simp add: moved_with_def)

lemma session_ok_mux_idle:
  assumes "session_ok (s\<lparr>mux := idle (mux s)\<rparr>)" and "lane_ok l" and "lane_cost l = lane_cost (mux s)"
    and "lane_items l = lane_items (mux s)" and "closed s \<Longrightarrow> superseded l \<noteq> None \<Longrightarrow> notify l"
  shows "session_ok (s\<lparr>mux := l\<rparr>)"
  using session_ok_mux [OF assms(1), of l] assms(2-5) by simp

lemma poll_loop_ok:
  assumes ok: "session_ok (s\<lparr>mux := idle (mux s)\<rparr>)" and acc: "acc s e"
    and ready: "poll_ready mine cursor (closed s) (mux s)"
    and p: "poll_loop cb cursor mine s e = (r, s', e')"
  shows "moved s e s' e' \<and> session_ok s' \<and>
     poll_result (CarrierBatchBytes (limits s)) cursor mine (closed s) (mux s) r (mux s')"
proof -
  let ?lane = "mux s"
  have li: "lane_ok (idle ?lane)" using ready by (simp add: poll_ready_def)
  have mv: "moved s e (s\<lparr>mux := l\<rparr>) e" for l
    by (rule moved_counts [OF acc]) (simp add: same_counts_def same_session_def)
  consider "superseded ?lane \<noteq> Some mine"
    | "superseded ?lane = Some mine" "pendingFrames ?lane \<noteq> []"
    | "superseded ?lane = Some mine" "pendingFrames ?lane = []" "closed s"
    | "superseded ?lane = Some mine" "pendingFrames ?lane = []" "\<not> closed s" by blast
  then show ?thesis
  proof cases
    case 1
    then have "session_ok (s\<lparr>mux := mux s\<rparr>)"
      using ready by (intro session_ok_mux_idle [OF ok]) (simp_all add: poll_ready_def)
    then show ?thesis using 1 p mv [of "mux s"] by (auto simp: poll_loop_def poll_result_def)
  next
    case 2
    have u: "unacked ?lane = []" "downCursor ?lane = cursor" using 2 ready by (simp_all add: poll_ready_def)
    obtain bytes lane' where t: "poll_take (CarrierBatchBytes (limits s)) cursor ?lane = (bytes, lane')"
      by fastforce
    note k = poll_take_ok [OF li u 2(2) t] and d = delivered_take [OF li u 2(2) t]
    have "session_ok (s\<lparr>mux := lane'\<rparr>)"
      using k(1-4) by (intro session_ok_mux_idle [OF ok]) simp_all
    then show ?thesis
      using 2 t p d moved_down [OF mv] by (auto simp: poll_loop_def poll_result_def)
  next
    case 3
    then show ?thesis using p mv ok by (auto simp: poll_loop_def poll_result_def)
  next
    case 4
    have "lane_ok ?lane" using 4 ready by (auto simp: poll_ready_def lane_ok_def queue_ok_def idle_def)
    then have "session_ok (s\<lparr>mux := mux s\<rparr>)"
      using 4 by (intro session_ok_mux_idle [OF ok]) simp_all
    then show ?thesis
      using 4 ready p mv [of "mux s"]
      by (auto simp: poll_loop_def poll_result_def parked_on_def poll_ready_def)
  qed
qed

text \<open>A first poll: resent, failed, or run from a queue whose old batch is acknowledged.\<close>

lemma session_ok_mux_lane: "session_ok s \<Longrightarrow> lane_ok (mux s)"
  by (simp add: session_ok_def session_inv_def lanes_ok_def)

lemma lane_le_mux:
  assumes "session_ok s"
  shows "unackedCost (mux s) \<le> pendingCost s" "unackedItems (mux s) \<le> pendingItems s"
  using assms totals_nonneg [of s] queue_cost_nonneg [of "pendingFrames (mux s)"]
  by (auto simp: session_ok_def session_inv_def held_cost_def held_items_def lanes_ok_def
      lane_ok_def queue_ok_def lane_cost_def lane_items_def)

lemma session_inv_mux:
  assumes "session_inv rc ri s" and "lane_ok l"
  shows "session_inv (rc + lane_cost (mux s) - lane_cost l) (ri + lane_items (mux s) - lane_items l)
    (s\<lparr>mux := l\<rparr>)"
  using assms by (simp add: session_inv_def ring_ok_def streams_ok_def lanes_ok_def held_cost_def
      held_items_def usesCarrierLanes_def)

lemma Poll_ok:
  assumes ok: "session_ok s" and acc: "acc s e"
  shows "ok_with (Poll cb cursor now s e) (\<lambda>(r, s', e'). moved s e s' e' \<and> session_ok s' \<and>
     (case poll_start cursor (mux s) of
        Fresh c i lane \<Rightarrow> \<not> usesCarrierLanes s \<longrightarrow> \<not> closed s \<longrightarrow>
          poll_result (CarrierBatchBytes (limits s)) cursor (PollId (next_ref s) cursor) False (mux s) r (mux s')
      | _ \<Rightarrow> mux s' = mux s))"
proof (cases "usesCarrierLanes s \<or> closed s")
  case True
  then show ?thesis using ok moved_refl [OF acc] by (auto simp: Poll_def split: poll_start.split)
next
  case False
  let ?s = "s\<lparr>lastActivity := now\<rparr>"
  have m0: "moved s e ?s e" by (rule moved_counts [OF acc]) (simp add: same_counts_def same_session_def)
  have eq: "Poll cb cursor now s e = (case poll_start cursor (mux s) of
          Replay bytes nxt \<Rightarrow> Some (Answered (Inr (bytes, nxt)), ?s, e)
        | BadCursor \<Rightarrow> Some (PollFailure, ?s, e)
        | Fresh c i lane \<Rightarrow> do {
            (s, e) \<leftarrow> releasePending cb c i ?s e;
            Some (poll_loop cb cursor (PollId (next_ref s) cursor)
              (s\<lparr>mux := lane\<lparr>superseded := Some (PollId (next_ref s) cursor), downActive := True\<rparr>,
                 next_ref := next_ref s + 1\<rparr>) e) })"
    using False unfolding Poll_def Let_def by simp
  show ?thesis
  proof (cases "poll_start cursor (mux s)")
    case (Fresh c i lane)
    have lo: "lane_ok (mux s)" by (rule session_ok_mux_lane [OF ok])
    note f = poll_start_Fresh [OF Fresh lo]
    have n: "0 \<le> c" "0 \<le> i" using lo f(1,2) by (simp_all add: lane_ok_def)
    have inv: "session_inv 0 0 ?s" using ok by (simp add: session_ok_def)
    have le: "c \<le> pendingCost ?s" "i \<le> pendingItems ?s" using lane_le_mux [OF ok] f(1,2) by simp_all
    show ?thesis
      unfolding eq Fresh poll_start.case wp_rules
    proof (rule ok_with_mono [OF release_inv [OF inv acc_moved [OF acc m0] n le]], goal_cases)
      case (1 x)
      obtain s1 e1 where x: "x = (s1, e1)" by (cases x)
      let ?mine = "PollId (next_ref s1) cursor"
      let ?l = "lane\<lparr>superseded := Some ?mine, downActive := True\<rparr>"
      let ?s1 = "s1\<lparr>mux := ?l, next_ref := next_ref s1 + 1\<rparr>"
      have m1: "moved ?s e s1 e1" and "session_inv (0 - c) (0 - i) s1"
        and "s1 = ?s\<lparr>pendingCost := pendingCost ?s - c, pendingItems := pendingItems ?s - i,
          budgetNotify := budgetNotify s1\<rparr>"
        using 1(2) unfolding x prod.case by blast+
      then obtain k where i1: "session_inv (- c) (- i) s1"
        and s1: "s1 = ?s\<lparr>pendingCost := pendingCost ?s - c, pendingItems := pendingItems ?s - i, budgetNotify := k\<rparr>"
        unfolding diff_0 by blast
      have eqs: "mux s1 = mux s" "next_ref s1 = next_ref s" "closed s1 = closed s" "limits s1 = limits s"
        "finished s1 = finished s" by (simp_all add: s1)
      note st = poll_ready_start [OF Fresh lo, of ?mine, simplified]
      have "session_inv 0 0 (s1\<lparr>mux := idle ?l\<rparr>)"
        using session_inv_mux [OF i1, of "idle ?l"] st(1)[of False] st(2,3) eqs by (simp add: poll_ready_def)
      then have "session_ok (s1\<lparr>mux := idle ?l\<rparr>)" using False ok eqs by (simp add: session_ok_def)
      then have "session_ok (s1\<lparr>mux := idle ?l\<rparr>\<lparr>next_ref := next_ref s1 + 1\<rparr>)"
        by (simp only: session_ok_irrelevant)
      moreover have "?s1\<lparr>mux := idle (mux ?s1)\<rparr> = s1\<lparr>mux := idle ?l\<rparr>\<lparr>next_ref := next_ref s1 + 1\<rparr>"
        by (rule session.equality) simp_all
      ultimately have ok1: "session_ok (?s1\<lparr>mux := idle (mux ?s1)\<rparr>)" by (simp only:)
      have m2: "moved s e ?s1 e1"
        by (rule moved_counts_trans [OF moved_trans [OF m0 m1]]) (simp add: same_counts_def same_session_def)
      obtain r s2 e2 where p: "poll_loop cb cursor ?mine ?s1 e1 = (r, s2, e2)" by (metis prod_cases3)
      have "poll_ready ?mine cursor (closed ?s1) (mux ?s1)" using st(1) by simp
      from poll_loop_ok [OF ok1 acc_moved [OF acc m2] this p]
      have h: "moved s e s2 e2" "session_ok s2"
        "poll_result (CarrierBatchBytes (limits s)) cursor ?mine False ?l r (mux s2)"
        using moved_trans [OF m2] eqs False by auto
      have "poll_result (CarrierBatchBytes (limits s)) cursor ?mine False (mux s) r (mux s2)"
        using h(3) by (subst poll_result_same [of _ ?l]) (simp_all add: f(4))
      then show ?case using h p eqs by (simp add: x)
    qed
  qed (use eq ok m0 in \<open>simp_all\<close>)
qed

lemma poll_wake_ok:
  assumes ok: "session_ok s" and acc: "acc s e" and m: "poll_cursor mine = cursor"
    and p: "poll_wake cb w cursor mine now s e = (r, s', e')" and w: "w \<noteq> SessionDone"
  shows "moved s e s' e' \<and> session_ok s' \<and>
    poll_result (CarrierBatchBytes (limits s)) cursor mine (closed s) (mux s) r (mux s')"
proof -
  have lo: "lane_ok (mux s)" by (rule session_ok_mux_lane [OF ok])
  have cl: "closed s \<longrightarrow> superseded (mux s) \<noteq> None \<longrightarrow> notify (mux s)"
    using ok by (simp add: session_ok_def)
  have mv: "moved s e (s\<lparr>mux := l\<rparr>) e" "moved s e (s\<lparr>mux := l, lastActivity := now\<rparr>) e" for l
    by (rule moved_counts [OF acc], simp add: same_counts_def same_session_def)+
  have idl: "session_ok (s\<lparr>mux := idle (mux s)\<rparr>)"
    by (rule session_ok_mux [OF ok]) (simp_all add: lo)
  have own: "session_ok (s\<lparr>mux := idle_if_own mine (mux s)\<rparr>)"
    by (rule session_ok_mux [OF ok]) (auto simp: lo idle_if_own_def split: if_splits)
  have sig: "session_ok (s\<lparr>mux := raise_signal (mux s)\<rparr>)"
    by (rule session_ok_mux [OF ok]) (simp_all add: lo)
  have idl2: "session_ok (s\<lparr>mux := idle (mux s), lastActivity := now\<rparr>)"
    using idl by (simp only: session_ok_irrelevant)
  note ready = poll_ready_parked [OF lo m cl]
  show ?thesis
  proof (cases w)
    case Cancelled
    then show ?thesis using p mv own by (auto simp: poll_wake_def poll_result_def idle_if_own_def)
  next
    case Replaced
    then show ?thesis using p mv sig by (auto simp: poll_wake_def poll_result_def raise_signal_def)
  next
    case SessionDone
    then show ?thesis using w by simp
  next
    case Deadline
    consider "superseded (mux s) \<noteq> Some mine"
      | "superseded (mux s) = Some mine" "pendingFrames (mux s) \<noteq> []"
      | "superseded (mux s) = Some mine" "pendingFrames (mux s) = []" by blast
    then show ?thesis
    proof cases
      case 1
      then show ?thesis
        using Deadline p mv sig by (auto simp: poll_wake_def poll_result_def raise_signal_def)
    next
      case 2
      then have "poll_loop cb cursor mine s e = (r, s', e')" using Deadline p by (simp add: poll_wake_def)
      then show ?thesis by (rule poll_loop_ok [OF idl acc ready(1)])
    next
      case 3
      then show ?thesis using Deadline p mv idl2 by (auto simp: poll_wake_def poll_result_def)
    qed
  next
    case Signalled
    define lane where "lane = (let lane = (mux s)\<lparr>notify := False\<rparr> in
       if superseded lane \<noteq> Some mine then raise_signal lane else lane)"
    have q: "poll_loop cb cursor mine (s\<lparr>mux := lane\<rparr>) e = (r, s', e')"
      using Signalled p by (simp add: poll_wake_def Let_def lane_def)
    have f: "pendingFrames lane = pendingFrames (mux s)"
      by (simp add: lane_def Let_def raise_signal_def)
    have "lane_cost lane = lane_cost (mux s)" "lane_items lane = lane_items (mux s)"
      by (simp_all add: lane_def Let_def)
    then have "session_ok (s\<lparr>mux := idle lane\<rparr>)"
      by (intro session_ok_mux [OF ok]) (use ready(2) in \<open>simp_all add: poll_ready_def flip: lane_def\<close>)
    then have ok1: "session_ok ((s\<lparr>mux := lane\<rparr>)\<lparr>mux := idle (mux (s\<lparr>mux := lane\<rparr>))\<rparr>)" by simp
    have "acc (s\<lparr>mux := lane\<rparr>) e" by (rule acc_moved [OF acc mv(1)])
    from poll_loop_ok [OF ok1 this _ q] ready(2)
    have h: "moved (s\<lparr>mux := lane\<rparr>) e s' e'" "session_ok s'"
      "poll_result (CarrierBatchBytes (limits s)) cursor mine (closed s) lane r (mux s')"
      by (simp_all flip: lane_def)
    show ?thesis
      using h(2) moved_trans [OF mv(1) h(1)] poll_result_same [THEN iffD1, OF f h(3)] by blast
  qed
qed

end

subsection \<open>Polls of a lane\<close>

text \<open>The lane's stream is over and remembered, or the lane object has left the map.\<close>

definition lane_gone :: "u32 \<Rightarrow> nat \<Rightarrow> session \<Rightarrow> bool" where
  "lane_gone laneID ref s \<longleftrightarrow>
     (laneID \<noteq> 0 \<and> map_of (streams s) laneID = None \<and> laneID \<in> closedStreams s) \<or>
     \<not> lane_in_map laneID ref s"

definition lane_result ::
  "int \<Rightarrow> u64 \<Rightarrow> poll_id \<Rightarrow> bool \<Rightarrow> bool \<Rightarrow> carrierLane \<Rightarrow> lane_answer \<Rightarrow> carrierLane \<Rightarrow> bool" where
  "lane_result limit cursor mine over gone lane r lane' \<longleftrightarrow>
     (case r of
        Answered (Inr (bytes, nxt, ended)) \<Rightarrow>
          delivered limit cursor lane bytes nxt lane' \<and> (ended \<longrightarrow> bytes = [] \<and> gone)
      | Answered (Inl err) \<Rightarrow> pendingFrames lane' = pendingFrames lane
      | PollFailure \<Rightarrow> False
      | Parked m \<Rightarrow> m = mine \<and> \<not> over \<and> \<not> gone \<and> pendingFrames lane = [] \<and> parked_on lane' mine)"

lemma lane_result_same:
  "pendingFrames lane = pendingFrames lane2 \<Longrightarrow>
     lane_result limit cursor mine over gone lane r lane' = lane_result limit cursor mine over gone lane2 r lane'"
  by (simp add: lane_result_def delivered_def split: poll_outcome.splits sum.splits)

lemma store_lane_counts [simp]:
  "same_counts s (store_lane laneID ref lane s)" "limits (store_lane laneID ref lane s) = limits s"
  "closed (store_lane laneID ref lane s) = closed s" "streams (store_lane laneID ref lane s) = streams s"
  "closedStreams (store_lane laneID ref lane s) = closedStreams s"
  by (simp_all add: store_lane_def same_counts_def same_session_def)

lemma session_ok_lane:
  assumes "session_ok s" and "map_of (carrierLanes s) sid = Some lane"
  shows "lane_ok lane" "unackedCost lane \<le> pendingCost s" "unackedItems lane \<le> pendingItems s"
    "lane_cost lane \<le> pendingCost s" "lane_items lane \<le> pendingItems s"
proof -
  show ok: "lane_ok lane" using assms lane_of_ok by (auto simp: session_ok_def)
  show c: "lane_cost lane \<le> pendingCost s" "lane_items lane \<le> pendingItems s"
    using assms totals_nonneg [of s] lane_total_le [OF _ assms(2)]
    by (auto simp: session_ok_def session_inv_def held_cost_def held_items_def)
  show "unackedCost lane \<le> pendingCost s" "unackedItems lane \<le> pendingItems s"
    using c ok queue_cost_nonneg [of "pendingFrames lane"]
    by (auto simp: lane_ok_def queue_ok_def lane_cost_def lane_items_def)
qed

text \<open>A lane that holds as much as the one stored before can take its place.\<close>

lemma session_ok_detach:
  "session_ok s \<Longrightarrow> lane_emptied ref lane \<Longrightarrow>
     session_ok (s\<lparr>detached := AList.update ref lane (detached s)\<rparr>)"
  by (simp add: session_ok_def session_inv_detach)

lemma session_ok_store:
  assumes ok: "session_ok (store_lane laneID ref lane s)" and l: "lane_ok lane'" "laneRef lane' = ref"
    "lane_cost lane' = lane_cost lane" "lane_items lane' = lane_items lane"
  shows "session_ok (store_lane laneID ref lane' s)"
proof (cases "lane_in_map laneID ref s")
  case True
  then have st: "store_lane laneID ref l s =
      s\<lparr>carrierLanes := AList.update laneID l (carrierLanes s)\<rparr>" for l
    by (simp add: store_lane_def)
  have "session_ok (store_lane laneID ref lane s
      \<lparr>carrierLanes := AList.update laneID lane' (carrierLanes (store_lane laneID ref lane s))\<rparr>)"
    by (rule session_ok_lanes [OF ok, of _ lane]) (use l in \<open>simp_all add: st\<close>)
  then show ?thesis by (simp add: st)
next
  case False
  then have st: "store_lane laneID ref l s = s\<lparr>detached := AList.update ref l (detached s)\<rparr>" for l
    by (simp add: store_lane_def)
  have "all_vals lane_emptied (detached (store_lane laneID ref lane s))"
    using ok by (simp add: session_ok_def session_inv_def lanes_ok_def)
  then have "lane_emptied ref lane" by (rule all_valsD) (simp add: st)
  then have "session_ok (store_lane laneID ref lane s
      \<lparr>detached := AList.update ref lane' (detached (store_lane laneID ref lane s))\<rparr>)"
    by (intro session_ok_detach [OF ok]) (use l in \<open>simp add: lane_emptied_def\<close>)
  then show ?thesis by (simp add: st)
qed

lemma session_ok_store_same:
  assumes ok: "session_ok s" and h: "held_lane laneID ref s = Some lane"
  shows "session_ok (store_lane laneID ref lane s)" "lane_ok lane" "laneRef lane = ref"
proof -
  have "session_ok (store_lane laneID ref lane s) \<and> lane_ok lane \<and> laneRef lane = ref"
  proof (cases "lane_in_map laneID ref s")
    case True
    then have m: "map_of (carrierLanes s) laneID = Some lane" "laneRef lane = ref"
      using h by (auto simp: held_lane_def lane_in_map_def split: option.splits if_splits)
    have "lane_ok lane" by (rule session_ok_lane(1) [OF ok m(1)])
    then show ?thesis
      using session_ok_lanes [OF ok m(1), of lane] m(2) True by (simp add: store_lane_def)
  next
    case False
    then have m: "map_of (detached s) ref = Some lane"
      using h by (auto simp: held_lane_def lane_in_map_def split: option.splits if_splits)
    have "all_vals lane_emptied (detached s)"
      using ok by (simp add: session_ok_def session_inv_def lanes_ok_def)
    then have e: "lane_emptied ref lane" by (rule all_valsD) (rule m)
    then have "session_ok (store_lane laneID ref lane s)"
      using session_ok_detach [OF ok] False by (simp add: store_lane_def)
    then show ?thesis using e by (simp add: lane_emptied_def)
  qed
  then show "session_ok (store_lane laneID ref lane s)" "lane_ok lane" "laneRef lane = ref" by blast+
qed

lemma poll_lane_loop_shape:
  assumes ready: "poll_ready mine cursor False lane"
    and p: "poll_lane_loop cb laneID cursor mine lane s e = (r, s', e')"
  obtains lane' where "s' = store_lane laneID (laneRef lane) lane' s" "lane_ok lane'"
    "lane_cost lane' = lane_cost lane" "lane_items lane' = lane_items lane" "laneRef lane' = laneRef lane"
    "lane_result (CarrierBatchBytes (limits s)) cursor mine (closed s)
       (lane_gone laneID (laneRef lane) s) lane r lane'"
    "e' = e \<or> (\<exists>n. e' = onDown cb n e)"
proof -
  have li: "lane_ok (idle lane)" using ready by (simp add: poll_ready_def)
  consider "superseded lane \<noteq> Some mine"
    | "superseded lane = Some mine" "pendingFrames lane \<noteq> []"
    | "superseded lane = Some mine" "pendingFrames lane = []"
        "closed s \<or> lane_gone laneID (laneRef lane) s"
    | "superseded lane = Some mine" "pendingFrames lane = []"
        "\<not> closed s" "\<not> lane_gone laneID (laneRef lane) s" by blast
  then show ?thesis
  proof cases
    case 1
    then show ?thesis
      using ready p by (intro that [of lane]) (auto simp: poll_lane_loop_def poll_ready_def lane_result_def)
  next
    case 2
    have u: "unacked lane = []" "downCursor lane = cursor" using 2 ready by (simp_all add: poll_ready_def)
    obtain bytes l where t: "poll_take (CarrierBatchBytes (limits s)) cursor lane = (bytes, l)"
      by fastforce
    note k = poll_take_ok [OF li u 2(2) t] and d = delivered_take [OF li u 2(2) t]
    show ?thesis
      by (rule that [of l]) (use 2 t p d k(1-3,9) in \<open>auto simp: poll_lane_loop_def lane_result_def\<close>)
  next
    case 3
    then show ?thesis
      using li p by (intro that [of "idle lane"])
        (auto simp: poll_lane_loop_def Let_def lane_gone_def lane_result_def split: if_splits)
  next
    case 4
    have "lane_ok lane" using 4 ready by (auto simp: poll_ready_def lane_ok_def queue_ok_def idle_def)
    then show ?thesis
      using 4 ready p by (intro that [of lane])
        (auto simp: poll_lane_loop_def lane_gone_def lane_result_def parked_on_def poll_ready_def)
  qed
qed

context session_owner
begin

lemma poll_lane_loop_ok:
  assumes ok: "session_ok (store_lane laneID (laneRef lane) (idle lane) s)" and acc: "acc s e"
    and ready: "poll_ready mine cursor False lane"
    and p: "poll_lane_loop cb laneID cursor mine lane s e = (r, s', e')"
  shows "moved s e s' e' \<and> session_ok s' \<and>
     (\<exists>lane'. s' = store_lane laneID (laneRef lane) lane' s \<and>
       lane_result (CarrierBatchBytes (limits s)) cursor mine (closed s)
         (lane_gone laneID (laneRef lane) s) lane r lane')"
proof (rule poll_lane_loop_shape [OF ready p])
  fix lane'
  assume l: "s' = store_lane laneID (laneRef lane) lane' s" "lane_ok lane'"
    "lane_cost lane' = lane_cost lane" "lane_items lane' = lane_items lane" "laneRef lane' = laneRef lane"
    "lane_result (CarrierBatchBytes (limits s)) cursor mine (closed s)
       (lane_gone laneID (laneRef lane) s) lane r lane'"
    and e': "e' = e \<or> (\<exists>n. e' = onDown cb n e)"
  have "session_ok s'"
    unfolding l(1) by (rule session_ok_store [OF ok l(2)]) (simp_all add: l(3-5))
  moreover have "moved s e s' e" unfolding l(1) by (rule moved_counts [OF acc]) simp
  then have "moved s e s' e'" using e' moved_down by auto
  ultimately show ?thesis using l by blast
qed

lemma PollLane_ok:
  assumes ok: "session_ok s" and acc: "acc s e"
  shows "ok_with (PollLane cb laneID cursor now s e) (\<lambda>(r, s', e'). moved s e s' e' \<and> session_ok s' \<and>
     (\<forall>lane c i l. usesCarrierLanes s \<longrightarrow> \<not> closed s \<longrightarrow> laneID \<le> MaxStreamID \<longrightarrow>
        map_of (carrierLanes s) laneID = Some lane \<longrightarrow> poll_start cursor lane = Fresh c i l \<longrightarrow>
        (\<exists>lane'. map_of (carrierLanes s') laneID = Some lane' \<and>
          lane_result (CarrierBatchBytes (limits s)) cursor (PollId (next_ref s) cursor) False
            (laneID \<noteq> 0 \<and> map_of (streams s) laneID = None \<and> laneID \<in> closedStreams s) lane r lane')))"
proof (cases "\<not> usesCarrierLanes s \<or> laneID > MaxStreamID \<or> closed s \<or>
    map_of (carrierLanes s) laneID = None")
  case True
  then show ?thesis using ok moved_refl [OF acc] by (auto simp: PollLane_def not_le split: option.split)
next
  case False
  then obtain lane where lane: "map_of (carrierLanes s) laneID = Some lane" by auto
  let ?s = "s\<lparr>lastActivity := now\<rparr>"
  have m0: "moved s e ?s e" by (rule moved_counts [OF acc]) (simp add: same_counts_def same_session_def)
  have eq: "PollLane cb laneID cursor now s e = (case poll_start cursor lane of
          Replay bytes nxt \<Rightarrow> Some (Answered (Inr (bytes, nxt, False)), ?s, e)
        | BadCursor \<Rightarrow> Some (PollFailure, ?s, e)
        | Fresh c i lane \<Rightarrow> do {
            (s, e) \<leftarrow> releasePending cb c i ?s e;
            Some (poll_lane_loop cb laneID cursor (PollId (next_ref s) cursor)
              (lane\<lparr>superseded := Some (PollId (next_ref s) cursor), downActive := True\<rparr>)
              (s\<lparr>next_ref := next_ref s + 1\<rparr>) e) })"
    using False lane unfolding PollLane_def Let_def by simp
  show ?thesis
  proof (cases "poll_start cursor lane")
    case (Fresh c i lane2)
    note sl = session_ok_lane [OF ok lane]
    note f = poll_start_Fresh [OF Fresh sl(1)]
    have n: "0 \<le> c" "0 \<le> i" using sl(1) f(1,2) by (simp_all add: lane_ok_def)
    have inv: "session_inv 0 0 ?s" using ok by (simp add: session_ok_def)
    have le: "c \<le> pendingCost ?s" "i \<le> pendingItems ?s" using sl f(1,2) by simp_all
    show ?thesis
      unfolding eq Fresh poll_start.case wp_rules
    proof (rule ok_with_mono [OF release_inv [OF inv acc_moved [OF acc m0] n le]], goal_cases)
      case (1 x)
      obtain s1 e1 where x: "x = (s1, e1)" by (cases x)
      let ?mine = "PollId (next_ref s1) cursor"
      let ?l = "lane2\<lparr>superseded := Some ?mine, downActive := True\<rparr>"
      let ?s1 = "s1\<lparr>next_ref := next_ref s1 + 1\<rparr>"
      have m1: "moved ?s e s1 e1" and "session_inv (0 - c) (0 - i) s1"
        and "s1 = ?s\<lparr>pendingCost := pendingCost ?s - c, pendingItems := pendingItems ?s - i,
          budgetNotify := budgetNotify s1\<rparr>"
        using 1(2) unfolding x prod.case by blast+
      then obtain k where i1: "session_inv (- c) (- i) s1"
        and s1: "s1 = ?s\<lparr>pendingCost := pendingCost ?s - c, pendingItems := pendingItems ?s - i, budgetNotify := k\<rparr>"
        unfolding diff_0 by blast
      have eqs: "carrierLanes s1 = carrierLanes s" "next_ref s1 = next_ref s" "closed s1 = closed s"
        "limits s1 = limits s" "finished s1 = finished s" "streams s1 = streams s"
        "closedStreams s1 = closedStreams s" "mux s1 = mux s" by (simp_all add: s1)
      note st = poll_ready_start [OF Fresh sl(1), of ?mine, simplified]
      have ref: "laneRef ?l = laneRef lane" by (simp add: f(4))
      have inm: "lane_in_map laneID (laneRef ?l) ?s1" using lane eqs ref by (simp add: lane_in_map_def)
      have "session_inv 0 0 (s1\<lparr>carrierLanes := AList.update laneID (idle ?l) (carrierLanes s1)\<rparr>)"
        using session_inv_update_lane [OF i1, of laneID lane "idle ?l"] lane st(1)[of False] st(2,3) eqs
        by (simp add: poll_ready_def)
      then have "session_ok (s1\<lparr>carrierLanes := AList.update laneID (idle ?l) (carrierLanes s1)\<rparr>)"
        using False ok eqs by (simp add: session_ok_def)
      then have "session_ok (s1\<lparr>carrierLanes := AList.update laneID (idle ?l) (carrierLanes s1)\<rparr>
          \<lparr>next_ref := next_ref s1 + 1\<rparr>)"
        by (simp only: session_ok_irrelevant)
      moreover have "store_lane laneID (laneRef ?l) (idle ?l) ?s1 =
          s1\<lparr>carrierLanes := AList.update laneID (idle ?l) (carrierLanes s1)\<rparr>\<lparr>next_ref := next_ref s1 + 1\<rparr>"
        using inm unfolding store_lane_def by (simp only: if_True) (rule session.equality; simp)
      ultimately have ok1: "session_ok (store_lane laneID (laneRef ?l) (idle ?l) ?s1)" by (simp only:)
      have m2: "moved s e ?s1 e1"
        by (rule moved_counts_trans [OF moved_trans [OF m0 m1]]) (simp add: same_counts_def same_session_def)
      obtain r s2 e2 where p: "poll_lane_loop cb laneID cursor ?mine ?l ?s1 e1 = (r, s2, e2)"
        by (metis prod_cases3)
      from poll_lane_loop_ok [OF ok1 acc_moved [OF acc m2] st(1) p]
      obtain lane' where h: "moved ?s1 e1 s2 e2" "session_ok s2" "s2 = store_lane laneID (laneRef ?l) lane' ?s1"
        "lane_result (CarrierBatchBytes (limits ?s1)) cursor ?mine (closed ?s1)
          (lane_gone laneID (laneRef ?l) ?s1) ?l r lane'" by blast
      have m: "map_of (carrierLanes s2) laneID = Some lane'"
        using inm unfolding h(3) by (simp add: store_lane_def)
      have g: "lane_gone laneID (laneRef ?l) ?s1 =
          (laneID \<noteq> 0 \<and> map_of (streams s) laneID = None \<and> laneID \<in> closedStreams s)"
        using inm eqs by (simp add: lane_gone_def)
      have "lane_result (CarrierBatchBytes (limits s)) cursor (PollId (next_ref s) cursor) False
            (laneID \<noteq> 0 \<and> map_of (streams s) laneID = None \<and> laneID \<in> closedStreams s) lane r lane'"
        using h(4) False eqs(2-4) unfolding g
        by (subst lane_result_same [of _ ?l]) (simp_all add: f(4))
      then show ?case using h(2) m moved_trans [OF m2 h(1)] p lane by (simp add: x)
    qed
  qed (use eq ok m0 lane in \<open>simp_all\<close>)
qed

text \<open>How a wait on a lane ends, for any lane object that still exists.\<close>

lemma poll_lane_wake_ok:
  assumes ok: "session_ok s" and acc: "acc s e" and m: "poll_cursor mine = cursor"
    and held: "held_lane laneID ref s = Some lane"
  shows "ok_with (poll_lane_wake cb w laneID ref cursor mine now s e)
    (\<lambda>(r, s', e'). moved s e s' e' \<and> session_ok s' \<and>
       (\<exists>lane'. held_lane laneID ref s' = Some lane' \<and>
         lane_result (CarrierBatchBytes (limits s)) cursor mine (closed s) (lane_gone laneID ref s) lane r lane'))"
proof -
  note k = session_ok_store_same [OF ok held]
  let ?put = "\<lambda>l. store_lane laneID ref l s"
  have put: "session_ok (?put l) \<and> session_ok ((?put l)\<lparr>lastActivity := now\<rparr>)"
    if "lane_ok l" "laneRef l = ref" "lane_cost l = lane_cost lane" "lane_items l = lane_items lane" for l
    using session_ok_store [OF k(1) that] by simp
  have mv: "moved s e (?put l) e" "moved s e ((?put l)\<lparr>lastActivity := now\<rparr>) e" for l
    by (rule moved_counts [OF acc], simp add: store_lane_def same_counts_def same_session_def)+
  have got: "held_lane laneID ref (?put l) = Some l" "held_lane laneID ref ((?put l)\<lparr>lastActivity := now\<rparr>) = Some l"
    if "laneRef l = ref" for l
    using that by (auto simp: held_lane_def store_lane_def lane_in_map_def split: option.splits)
  have loop: "moved s e s' e' \<and> session_ok s' \<and> (\<exists>lane'. held_lane laneID ref s' = Some lane' \<and>
       lane_result (CarrierBatchBytes (limits s)) cursor mine (closed s) (lane_gone laneID ref s) lane r lane')"
    if p: "poll_lane_loop cb laneID cursor mine l s e = (r, s', e')" and ready: "poll_ready mine cursor False l"
      and l: "laneRef l = ref" "lane_cost l = lane_cost lane" "lane_items l = lane_items lane"
        "pendingFrames l = pendingFrames lane" for l r s' e'
  proof -
    have "lane_ok (idle l)" using ready by (simp add: poll_ready_def)
    then have "session_ok (store_lane laneID (laneRef l) (idle l) s)" using put l by simp
    from poll_lane_loop_shape [OF ready p]
    obtain l' where l': "s' = store_lane laneID (laneRef l) l' s" "lane_ok l'"
        "lane_cost l' = lane_cost l" "lane_items l' = lane_items l" "laneRef l' = laneRef l"
        "lane_result (CarrierBatchBytes (limits s)) cursor mine (closed s) (lane_gone laneID (laneRef l) s) l r l'"
        "e' = e \<or> (\<exists>n. e' = onDown cb n e)" by blast
    have "moved s e s' e'" using l'(1,7) mv(1) [of l'] moved_down l(1) by auto
    moreover have "session_ok s'" using put [of l'] l' l by simp
    moreover have "held_lane laneID ref s' = Some l'" using got(1) [of l'] l' l by simp
    ultimately show ?thesis using lane_result_same [THEN iffD1, OF l(4)] l'(6) l(1) by blast
  qed
  note ready = poll_ready_parked [OF k(2) m, of False, simplified]
  let ?sig = "if superseded lane \<noteq> Some mine then raise_signal (lane\<lparr>notify := False\<rparr>) else lane\<lparr>notify := False\<rparr>"
  have sig: "laneRef ?sig = ref" "lane_cost ?sig = lane_cost lane" "lane_items ?sig = lane_items lane"
      "pendingFrames ?sig = pendingFrames lane"
    using k(3) by (simp_all add: raise_signal_def)
  obtain r s' e' where p: "poll_lane_wake cb w laneID ref cursor mine now s e = Some (r, s', e')"
    using held by (cases "poll_lane_wake cb w laneID ref cursor mine now s e")
      (auto simp: poll_lane_wake_def split: wake.splits)
  have "moved s e s' e' \<and> session_ok s' \<and> (\<exists>lane'. held_lane laneID ref s' = Some lane' \<and>
       lane_result (CarrierBatchBytes (limits s)) cursor mine (closed s) (lane_gone laneID ref s) lane r lane')"
  proof (cases w)
    case Signalled
    have "poll_lane_loop cb laneID cursor mine ?sig s e = (r, s', e')"
      using p held Signalled by (simp add: poll_lane_wake_def Let_def)
    then show ?thesis by (rule loop) (use ready(2) sig in \<open>simp_all add: Let_def split del: if_split\<close>)
  next
    case Deadline
    then consider "superseded lane = Some mine" "pendingFrames lane \<noteq> []"
      | "\<not> (superseded lane = Some mine \<and> pendingFrames lane \<noteq> [])" by blast
    then show ?thesis
    proof cases
      case 1
      then have "poll_lane_loop cb laneID cursor mine lane s e = (r, s', e')"
        using p held Deadline by (simp add: poll_lane_wake_def)
      then show ?thesis by (rule loop) (use ready(1) k(3) in simp_all)
    next
      case 2
      then show ?thesis
        using p held Deadline put [of "idle lane"] put [of "raise_signal lane"] mv got k(2,3)
        by (auto simp: poll_lane_wake_def lane_result_def raise_signal_def split: if_splits)
    qed
  qed (use p held put [of "raise_signal lane"] put [of "idle_if_own mine lane"] mv got k(2,3) in
      \<open>auto simp: poll_lane_wake_def lane_result_def raise_signal_def idle_if_own_def split: if_splits\<close>)
  then show ?thesis using p by simp
qed

end

end
