(* ===== verification/Backend.thy ===== *)
theory Backend
  imports Downlink_Inv Uplink
begin

text \<open>
  The backend side of a session (\<open>internal/session/session.go\<close>): what the writer and the
  reader of a backend connection do to the session, and the loops of the two goroutines as
  machines whose inputs are the answers of the connection. As everywhere, a definition with a
  session argument is one critical section.
\<close>

subsection \<open>The writer's operations\<close>

text \<open>What the head of a waiting loop ends in: a value, the end, or parked on its channels.\<close>

datatype 'a waiting = Got 'a | Stopped | Waiting

definition nextWrite :: "u32 \<Rightarrow> session \<Rightarrow> byte list waiting \<times> session" where
  "nextWrite sid s =
     (if closed s then (Stopped, s)
      else case map_of (streams s) sid of
        None \<Rightarrow> (Stopped, s)
      | Some st \<Rightarrow>
          (case writes st of
             [] \<Rightarrow> (Waiting, s)
           | w # ws \<Rightarrow> (Got w, put_stream sid (st\<lparr>writes := ws\<rparr>) s)))"

definition backendDrained ::
  "'e callbacks \<Rightarrow> u32 \<Rightarrow> int \<Rightarrow> session \<Rightarrow> 'e \<Rightarrow> (bool \<times> session \<times> 'e) option" where
  "backendDrained cb sid amount s e =
     (if closed s then Some (False, s, e)
      else case map_of (streams s) sid of
        None \<Rightarrow> Some (False, s, e)
      | Some st \<Rightarrow>
          if amount \<le> 0 \<or> amount > pendingWriteBytes st \<or> amount > pendingWriteCost st \<or>
             uint (receiveWindow st) + amount > InitialStreamWindow
          then Some (False, s, e)
          else do {
            let st = st\<lparr>pendingWriteBytes := pendingWriteBytes st - amount,
                       pendingWriteCost := pendingWriteCost st - amount\<rparr>;
            (s, e) \<leftarrow> releasePending cb amount 0 (put_stream sid st s) e;
            let s = put_stream sid (st\<lparr>receiveWindow := receiveWindow st + word_of_int amount\<rparr>) s;
            queueFrame cb Window sid (WindowPayload (word_of_int amount)) s e
          })"

definition backendWriteFinished ::
  "'e callbacks \<Rightarrow> u32 \<Rightarrow> session \<Rightarrow> 'e \<Rightarrow> (bool \<times> session \<times> 'e) option" where
  "backendWriteFinished cb sid s e =
     (if closed s then Some (False, s, e)
      else case map_of (streams s) sid of
        None \<Rightarrow> Some (False, s, e)
      | Some st \<Rightarrow>
          if pendingWriteItems st = 0 \<or> pendingWriteCost st < queueItemCost then Some (False, s, e)
          else do {
            (s, e) \<leftarrow> releasePending cb queueItemCost 1
              (put_stream sid (st\<lparr>pendingWriteItems := pendingWriteItems st - 1,
                                 pendingWriteCost := pendingWriteCost st - queueItemCost\<rparr>) s) e;
            Some (True, s, e)
          })"

subsection \<open>The reader's operations\<close>

definition dataFrameAllowance :: "int \<Rightarrow> session \<Rightarrow> int" where
  "dataFrameAllowance limit s =
     (case downlinkPendingLimits (limits s) of (costLimit, itemLimit) \<Rightarrow>
        if pendingItems s \<ge> itemLimit then 0
        else
          let available = costLimit - pendingCost s - queueItemCost - HeaderSize in
          if available \<le> 0 then 0 else if limit > available then available else limit)"

definition nextReadAllowance :: "u32 \<Rightarrow> session \<Rightarrow> int waiting" where
  "nextReadAllowance sid s =
     (if closed s then Stopped
      else case map_of (streams s) sid of
        None \<Rightarrow> Stopped
      | Some st \<Rightarrow>
          if sendCredit st \<noteq> 0 then
            (let result = uint (sendCredit st);
                 result = (if result > DataChunk then DataChunk else result);
                 result = dataFrameAllowance result s
             in if result \<noteq> 0 then Got result else Waiting)
          else Waiting)"

definition backendData ::
  "'e callbacks \<Rightarrow> u32 \<Rightarrow> byte list \<Rightarrow> session \<Rightarrow> 'e \<Rightarrow> (bool \<times> session \<times> 'e) option" where
  "backendData cb sid data s e =
     (if closed s then Some (False, s, e)
      else case map_of (streams s) sid of
        None \<Rightarrow> Some (False, s, e)
      | Some st \<Rightarrow>
          if data = [] \<or> len data > uint (sendCredit st) then Some (False, s, e)
          else queueFrame cb Data sid data
                 (put_stream sid (st\<lparr>sendCredit := sendCredit st - word_of_int (len data)\<rparr>) s) e)"

text \<open>The first component lists the backends of the streams a session closed with.\<close>

definition backendClosed ::
  "'e callbacks \<Rightarrow> u32 \<Rightarrow> nat \<Rightarrow> session \<Rightarrow> 'e \<Rightarrow> (nat list \<times> session \<times> 'e) option" where
  "backendClosed cb sid ref s e =
     (case map_of (streams s) sid of
        None \<Rightarrow> Some ([], s, e)
      | Some st \<Rightarrow>
          if closed s \<or> backend st \<noteq> ref then Some ([], s, e)
          else do {
            (s, e) \<leftarrow> releaseStreamWrites cb st s e;
            (s, e) \<leftarrow> rememberClosed cb sid (s\<lparr>streams := AList.delete sid (streams s)\<rparr>) e;
            (ok, s, e) \<leftarrow> queueFrame cb Close sid [] s e;
            if \<not> ok then closeLocked cb s e else Some ([], s, e)
          })"

subsection \<open>The writer's loop\<close>

text \<open>
  \<open>Fetching\<close> is the call of \<open>nextWrite\<close>, \<open>Writing\<close> the inner loop with the bytes that are
  left. The connection accepts \<open>written\<close> bytes and may report an error.
\<close>

datatype writer = Fetching | Writing "byte list" | WriterDone

definition write_fetch :: "u32 \<Rightarrow> session \<Rightarrow> writer \<times> session" where
  "write_fetch sid s =
     (case nextWrite sid s of
        (Got data, s) \<Rightarrow> (Writing data, s)
      | (Stopped, s) \<Rightarrow> (WriterDone, s)
      | (Waiting, s) \<Rightarrow> (Fetching, s))"

definition write_some ::
  "'e callbacks \<Rightarrow> u32 \<Rightarrow> int \<Rightarrow> bool \<Rightarrow> byte list \<Rightarrow> session \<Rightarrow> 'e \<Rightarrow> (writer \<times> session \<times> 'e) option" where
  "write_some cb sid written failed data s e =
     (if data = [] then do {
        (ok, s, e) \<leftarrow> backendWriteFinished cb sid s e;
        Some (if ok then Fetching else WriterDone, s, e)
      }
      else do {
        (ok, s, e) \<leftarrow> (if written > 0 then backendDrained cb sid written s e else Some (True, s, e));
        Some (if \<not> ok \<or> failed \<or> written = 0 then WriterDone else Writing (drop (nat written) data), s, e)
      })"

text \<open>
  The inner loop run to its end: \<open>conn\<close> is what the connection does when it is given the
  bytes that are left, the number it accepts and whether it fails. Every round that does not
  end the loop leaves fewer bytes.
\<close>

lemma write_some_less:
  assumes "write_some cb sid (int n) failed data s e = Some (Writing rest, s', e')"
  shows "length rest < length data"
proof -
  have "data \<noteq> [] \<and> n \<noteq> 0 \<and> rest = drop n data"
    using assms by (auto simp: write_some_def bind_eq_Some_conv split: if_splits)
  then show ?thesis by simp
qed

function write_loop ::
  "'e callbacks \<Rightarrow> u32 \<Rightarrow> (byte list \<Rightarrow> nat \<times> bool) \<Rightarrow> byte list \<Rightarrow> session \<Rightarrow> 'e
     \<Rightarrow> (writer \<times> session \<times> 'e) option" where
  "write_loop cb sid conn data s e =
     (case write_some cb sid (int (fst (conn data))) (snd (conn data)) data s e of
        None \<Rightarrow> None
      | Some (w, s, e) \<Rightarrow>
          (case w of Writing rest \<Rightarrow> write_loop cb sid conn rest s e | _ \<Rightarrow> Some (w, s, e)))"
  by pat_completeness auto
termination
  by (relation "measure (\<lambda>(cb, sid, conn, data, s, e). length data)") (auto dest: write_some_less)

declare write_loop.simps [simp del]

subsection \<open>The reader's loop\<close>

datatype reader = Asking | Reading int | ReaderDone

definition read_ask :: "u32 \<Rightarrow> session \<Rightarrow> reader" where
  "read_ask sid s =
     (case nextReadAllowance sid s of Got n \<Rightarrow> Reading n | Stopped \<Rightarrow> ReaderDone | Waiting \<Rightarrow> Asking)"

definition read_some ::
  "'e callbacks \<Rightarrow> u32 \<Rightarrow> byte list \<Rightarrow> bool \<Rightarrow> session \<Rightarrow> 'e \<Rightarrow> (reader \<times> session \<times> 'e) option" where
  "read_some cb sid data failed s e =
     do {
       (ok, s, e) \<leftarrow> (if data \<noteq> [] then backendData cb sid data s e else Some (True, s, e));
       Some (if \<not> ok \<or> failed \<or> data = [] then ReaderDone else Asking, s, e)
     }"

end
