(* ===== verification/Backend_Inv.thy ===== *)
theory Backend_Inv
  imports Backend
begin

text \<open>
  The backend operations keep the invariant of the session and move the owner's pool with it,
  and what each of them does to its stream: draining written bytes gives the window back to
  the client, finishing a write gives its slot back, reading spends the client's credit.
\<close>

lemma put_stream_fields [simp]:
  "pendingCost (put_stream sid st s) = pendingCost s" "pendingItems (put_stream sid st s) = pendingItems s"
  "closed (put_stream sid st s) = closed s" "limits (put_stream sid st s) = limits s"
  "finished (put_stream sid st s) = finished s" "mux (put_stream sid st s) = mux s"
  "carrierLanes (put_stream sid st s) = carrierLanes s" "closedStreams (put_stream sid st s) = closedStreams s"
  "streams (put_stream sid st s) = AList.update sid st (streams s)"
  "carrier (put_stream sid st s) = carrier s" "same_counts s (put_stream sid st s)"
  "usesCarrierLanes (put_stream sid st s) = usesCarrierLanes s"
  by (simp_all add: put_stream_def same_counts_def same_session_def usesCarrierLanes_def)

lemma put_stream_twice [simp]: "put_stream sid st (put_stream sid st' s) = put_stream sid st s"
  by (simp add: put_stream_def)

lemma put_stream_counters [simp]:
  "put_stream sid st (s\<lparr>pendingCost := c, pendingItems := i, budgetNotify := k\<rparr>) =
     (put_stream sid st s)\<lparr>pendingCost := c, pendingItems := i, budgetNotify := k\<rparr>"
  by (simp add: put_stream_def)

lemma session_ok_open: "\<not> closed s \<Longrightarrow> session_ok s \<longleftrightarrow> session_inv 0 0 s \<and> \<not> finished s"
  by (auto simp: session_ok_def)

lemma session_ok_stream: "session_ok s \<Longrightarrow> map_of (streams s) sid = Some st \<Longrightarrow> stream_ok sid st"
  using stream_of_ok by (auto simp: session_ok_def)

lemma session_ok_live: "session_ok s \<Longrightarrow> map_of (streams s) sid = Some st \<Longrightarrow> \<not> closed s"
  by (auto simp: session_ok_def session_inv_def streams_ok_def)

text \<open>Giving a part of a stream's charge back.\<close>

lemma session_inv_put_stream:
  assumes "session_inv rc ri s" and "map_of (streams s) sid = Some st" and "stream_ok sid st'"
  shows "session_inv (rc + pendingWriteCost st - pendingWriteCost st')
    (ri + pendingWriteItems st - pendingWriteItems st') (put_stream sid st' s)"
  using session_inv_update_stream [OF assms] by (simp add: put_stream_def)

lemma session_ok_put_stream:
  assumes ok: "session_ok s" and st: "map_of (streams s) sid = Some st" and st': "stream_ok sid st'"
    and eq: "pendingWriteCost st' = pendingWriteCost st" "pendingWriteItems st' = pendingWriteItems st"
  shows "session_ok (put_stream sid st' s)"
  using session_inv_put_stream [OF _ st st'] ok eq session_ok_live [OF ok st]
  by (simp add: session_ok_open)

lemma nextWrite_ok: "session_ok s \<Longrightarrow> session_ok (snd (nextWrite sid s))"
proof (cases "map_of (streams s) sid")
  case (Some st)
  assume ok: "session_ok s"
  have "stream_ok sid (st\<lparr>writes := ws\<rparr>)" for ws
    using session_ok_stream [OF ok Some] by (simp add: stream_ok_def)
  then have "session_ok (put_stream sid (st\<lparr>writes := ws\<rparr>) s)" for ws
    by (intro session_ok_put_stream [OF ok Some]) simp_all
  then show ?thesis using ok Some by (simp add: nextWrite_def split: list.split)
qed (simp add: nextWrite_def)

context session_owner
begin

lemma releasePending_put_stream:
  "releasePending cb c i (put_stream sid st s) e =
     map_option (\<lambda>(s, e). (put_stream sid st s, e)) (releasePending cb c i s e)"
  by (cases "budget cb (- c) (- i) PendingUplink e") (auto simp: releasePending_def put_stream_def)

text \<open>
  A stream gives back \<open>c\<close> of its cost and \<open>i\<close> of its items and is replaced by \<open>st'\<close>, whatever
  it looked like while the budget was released.
\<close>

lemma release_from_stream:
  assumes ok: "session_ok s" and acc: "acc s e" and st: "map_of (streams s) sid = Some st"
    and st': "stream_ok sid st'" and c: "pendingWriteCost st' = pendingWriteCost st - c" "0 \<le> c"
    and i: "pendingWriteItems st' = pendingWriteItems st - i" "0 \<le> i"
  shows "ok_with (releasePending cb c i (put_stream sid mid s) e) (\<lambda>(s', e').
     moved s e (put_stream sid st' s') e' \<and> session_ok (put_stream sid st' s') \<and>
     streams s' = streams (put_stream sid mid s) \<and> closed s' = closed s \<and> carrier s' = carrier s \<and>
     limits s' = limits s \<and> mux s' = mux s \<and> carrierLanes s' = carrierLanes s)"
proof -
  have inv: "session_inv 0 0 s" using ok by (simp add: session_ok_def)
  have sok: "streams_ok s" "lanes_ok s" using inv by (simp_all add: session_inv_def)
  have le: "c \<le> pendingCost s" "i \<le> pendingItems s"
    using stream_total_le [OF sok(1) st] totals_nonneg [OF sok] inv c i stream_ok_nonneg [OF st']
    by (auto simp: session_inv_def held_cost_def held_items_def)
  show ?thesis
    unfolding releasePending_put_stream wp_rules
  proof (rule ok_with_mono [OF release_inv [OF inv acc c(2) i(2) le]], goal_cases)
    case (1 x)
    obtain s1 e1 where x: "x = (s1, e1)" by (cases x)
    have m1: "moved s e s1 e1" and "session_inv (0 - c) (0 - i) s1"
      and "s1 = s\<lparr>pendingCost := pendingCost s - c, pendingItems := pendingItems s - i,
          budgetNotify := budgetNotify s1\<rparr>"
      using 1(2) unfolding x prod.case by blast+
    then obtain k where i1: "session_inv (- c) (- i) s1"
      and s1: "s1 = s\<lparr>pendingCost := pendingCost s - c, pendingItems := pendingItems s - i, budgetNotify := k\<rparr>"
      unfolding diff_0 by blast
    have "map_of (streams s1) sid = Some st" using st by (simp add: s1)
    from session_inv_put_stream [OF i1 this st']
    have "session_inv 0 0 (put_stream sid st' s1)" using c(1) i(1) by simp
    moreover have "\<not> closed s1" "\<not> finished s1"
      using session_ok_live [OF ok st] ok by (simp_all add: s1 session_ok_open)
    ultimately have "session_ok (put_stream sid st' s1)" by (simp add: session_ok_open)
    moreover have "moved s e (put_stream sid st' s1) e1" by (rule moved_counts_trans [OF m1]) simp
    ultimately show ?case by (simp add: x) (simp add: s1 put_stream_def)
  qed
qed

text \<open>Queueing a frame on an open session.\<close>

lemma queueFrame_open_ok:
  assumes ok: "session_ok s" and acc: "acc s e" and live: "\<not> closed s" and sid: "sid \<le> MaxStreamID"
    and p: "len p \<le> MaxPayload" and w: "t = Window \<longrightarrow> (\<exists>v. v \<noteq> 0 \<and> p = WindowPayload v)"
  shows "ok_with (queueFrame cb t sid p s e) (\<lambda>(ok, s', e'). session_ok s' \<and> moved s e s' e' \<and>
     streams s' = streams s \<and> closed s' = closed s \<and> closedStreams s' = closedStreams s \<and>
     (if ok then \<exists>lane lane' c i. lane_for sid s = Some lane \<and> lane_for sid s' = Some lane' \<and>
        queued_more t sid p lane lane' c i
      else s' = s))"
proof -
  have inv: "session_inv 0 0 s" and f: "\<not> finished s" using ok live by (simp_all add: session_ok_open)
  show ?thesis
  proof (rule ok_with_mono3 [OF queueFrame_ok [OF inv acc sid p w]], goal_cases)
    case (1 ok s' e')
    show ?case
    proof (cases ok)
      case False
      then show ?thesis using 1(2) assms(1) by (simp only: if_False simp_thms) metis
    next
      case True
      then obtain lane lane' c i where l: "lane_for sid s = Some lane" "queued_more t sid p lane lane' c i"
          and s': "s' = put_lane sid lane'
            (s\<lparr>pendingCost := pendingCost s + c, pendingItems := pendingItems s + i\<rparr>)"
        using 1(2) by auto
      have "lane_for sid s' = Some lane'"
        using l(1) by (auto simp: s' put_lane_def lane_for_def usesCarrierLanes_def split: if_splits)
      moreover have "closed s' = closed s" "finished s' = finished s" by (simp_all add: s' put_lane_def)
      ultimately show ?thesis using True 1(2) l f live by (auto simp: session_ok_open s')
    qed
  qed
qed

lemma lane_for_put_stream [simp]:
  "lane_for k (put_stream sid st s) = lane_for k s"
  by (simp add: lane_for_def)

lemma backendDrained_ok:
  assumes ok: "session_ok s" and acc: "acc s e"
  shows "ok_with (backendDrained cb sid amount s e) (\<lambda>(granted, s', e'). session_ok s' \<and> moved s e s' e' \<and>
     (\<forall>st. map_of (streams s) sid = Some st \<longrightarrow> 0 < amount \<longrightarrow> amount \<le> pendingWriteBytes st \<longrightarrow>
        (\<exists>st'. streams s' = AList.update sid st' (streams s) \<and>
           st' = st\<lparr>pendingWriteBytes := pendingWriteBytes st - amount,
                   pendingWriteCost := pendingWriteCost st - amount, receiveWindow := receiveWindow st'\<rparr> \<and>
           uint (receiveWindow st') = uint (receiveWindow st) + amount) \<and>
        (granted \<longrightarrow> (\<exists>lane lane' c i. lane_for sid s = Some lane \<and> lane_for sid s' = Some lane' \<and>
           queued_more Window sid (WindowPayload (word_of_int amount)) lane lane' c i))) \<and>
     (granted \<longrightarrow> sid \<in> keys (streams s) \<and> 0 < amount))"
proof (cases "map_of (streams s) sid")
  case None
  then show ?thesis using ok moved_refl [OF acc] by (simp add: backendDrained_def)
next
  case (Some st)
  note so = session_ok_stream [OF ok Some]
  have live: "\<not> closed s" by (rule session_ok_live [OF ok Some])
  have in_streams: "sid \<in> keys (streams s)" using Some by (rule map_of_keys)
  have cost: "pendingWriteBytes st \<le> pendingWriteCost st"
    and win: "uint (receiveWindow st) + pendingWriteBytes st = InitialStreamWindow"
    using so by (simp_all add: stream_ok_def)
  show ?thesis
  proof (cases "amount \<le> 0 \<or> amount > pendingWriteBytes st")
    case True
    then show ?thesis using Some ok live moved_refl [OF acc] by (auto simp: backendDrained_def)
  next
    case False
    define st' where "st' = st\<lparr>pendingWriteBytes := pendingWriteBytes st - amount,
        pendingWriteCost := pendingWriteCost st - amount,
        receiveWindow := receiveWindow st + word_of_int amount\<rparr>"
    have u: "uint (word_of_int amount :: u32) = amount"
      using False win uint_ge_0 [of "receiveWindow st"] by (intro uint_word_of_int_u32) linarith+
    have rw: "uint (receiveWindow st') = uint (receiveWindow st) + amount"
      using False win u by (simp add: st'_def uint_plus_if')
    have st': "stream_ok sid st'" using so False rw by (simp add: stream_ok_def st'_def)
    have v: "(word_of_int amount :: u32) \<noteq> 0" using u False by auto
    let ?mid = "st\<lparr>pendingWriteBytes := pendingWriteBytes st - amount,
                  pendingWriteCost := pendingWriteCost st - amount\<rparr>"
    have eq: "backendDrained cb sid amount s e = releasePending cb amount 0 (put_stream sid ?mid s) e \<bind>
        (\<lambda>(s, e). queueFrame cb Window sid (WindowPayload (word_of_int amount)) (put_stream sid st' s) e)"
      using Some live False cost win unfolding backendDrained_def Let_def st'_def by simp
    show ?thesis
      unfolding eq wp_rules
    proof (rule ok_with_mono [OF release_from_stream [OF ok acc Some st', of amount 0 ?mid]], goal_cases)
      case (5 x)
      obtain s1 e1 where x: "x = (s1, e1)" by (cases x)
      let ?s1 = "put_stream sid st' s1"
      have m1: "moved s e ?s1 e1" and ok1: "session_ok ?s1" and live1: "\<not> closed ?s1"
        and f: "streams ?s1 = AList.update sid st' (streams s)" "lane_for sid ?s1 = lane_for sid s"
        using 5(2) live by (auto simp: x lane_for_def usesCarrierLanes_def)
      show ?case
        unfolding x prod.case
      proof (rule ok_with_mono3 [OF queueFrame_open_ok [OF ok1 acc_moved [OF acc m1] live1]], goal_cases)
        case 1 show ?case using so by (simp add: stream_ok_def)
      next
        case 2 show ?case by (simp add: WindowPayload_def PutUint32_def)
      next
        case 3 show ?case using v by blast
      next
        case (4 granted s' e')
        have "\<exists>st''. streams s' = AList.update sid st'' (streams s) \<and>
           st'' = st\<lparr>pendingWriteBytes := pendingWriteBytes st - amount,
                   pendingWriteCost := pendingWriteCost st - amount, receiveWindow := receiveWindow st''\<rparr> \<and>
           uint (receiveWindow st'') = uint (receiveWindow st) + amount"
          using 4(2) f rw by (intro exI [of _ st']) (simp add: st'_def)
        then show ?case
          using 4(2) f(2) moved_trans [OF m1] in_streams Some False by auto
      qed
    qed (use False in \<open>simp_all add: st'_def\<close>)
  qed
qed

lemma backendWriteFinished_ok:
  assumes ok: "session_ok s" and acc: "acc s e"
  shows "ok_with (backendWriteFinished cb sid s e) (\<lambda>(granted, s', e'). session_ok s' \<and> moved s e s' e' \<and>
     (\<forall>st. map_of (streams s) sid = Some st \<longrightarrow> granted = (pendingWriteItems st \<noteq> 0) \<and>
        (granted \<longrightarrow> streams s' = AList.update sid
           (st\<lparr>pendingWriteItems := pendingWriteItems st - 1,
              pendingWriteCost := pendingWriteCost st - queueItemCost\<rparr>) (streams s))) \<and>
     (granted \<longrightarrow> sid \<in> keys (streams s)) \<and> (\<not> granted \<longrightarrow> s' = s))"
proof (cases "map_of (streams s) sid")
  case None
  then show ?thesis using ok moved_refl [OF acc] by (simp add: backendWriteFinished_def)
next
  case (Some st)
  note so = session_ok_stream [OF ok Some]
  have live: "\<not> closed s" by (rule session_ok_live [OF ok Some])
  have in_streams: "sid \<in> keys (streams s)" using Some by (rule map_of_keys)
  have guard: "pendingWriteItems st = 0 \<or> pendingWriteCost st < queueItemCost \<longleftrightarrow> pendingWriteItems st = 0"
    using so by (auto simp: stream_ok_def)
  show ?thesis
  proof (cases "pendingWriteItems st = 0")
    case True
    then show ?thesis using Some ok live moved_refl [OF acc] by (simp add: backendWriteFinished_def)
  next
    case False
    let ?st = "st\<lparr>pendingWriteItems := pendingWriteItems st - 1,
                 pendingWriteCost := pendingWriteCost st - queueItemCost\<rparr>"
    have st': "stream_ok sid ?st" using so False by (simp add: stream_ok_def)
    have eq: "backendWriteFinished cb sid s e = map_option (\<lambda>(s, e). (True, s, e))
        (releasePending cb queueItemCost 1 (put_stream sid ?st s) e)"
      using Some live guard False
      by (simp add: backendWriteFinished_def map_conv_bind_option case_prod_unfold comp_def)
    show ?thesis
      unfolding eq wp_rules
    proof (rule ok_with_mono [OF release_from_stream [OF ok acc Some st', of queueItemCost 1 ?st]], goal_cases)
      case (5 x)
      obtain s1 e1 where x: "x = (s1, e1)" by (cases x)
      have "streams s1 = AList.update sid ?st (streams s)" using 5(2) by (simp add: x)
      then have "put_stream sid ?st s1 = s1" by (simp add: put_stream_def)
      then show ?case using 5(2) Some False in_streams by (simp add: x)
    qed simp_all
  qed
qed

lemma backendData_ok:
  assumes ok: "session_ok s" and acc: "acc s e" and p: "len data \<le> MaxPayload"
  shows "ok_with (backendData cb sid data s e) (\<lambda>(granted, s', e'). session_ok s' \<and> moved s e s' e' \<and>
     (granted \<longrightarrow> (\<exists>st lane lane' c i. map_of (streams s) sid = Some st \<and> data \<noteq> [] \<and>
        len data \<le> uint (sendCredit st) \<and>
        streams s' = AList.update sid (st\<lparr>sendCredit := sendCredit st - word_of_int (len data)\<rparr>) (streams s) \<and>
        lane_for sid s = Some lane \<and> lane_for sid s' = Some lane' \<and> queued_more Data sid data lane lane' c i)))"
proof (cases "map_of (streams s) sid")
  case None
  then show ?thesis using ok moved_refl [OF acc] by (simp add: backendData_def)
next
  case (Some st)
  note so = session_ok_stream [OF ok Some]
  have live: "\<not> closed s" by (rule session_ok_live [OF ok Some])
  show ?thesis
  proof (cases "data = [] \<or> len data > uint (sendCredit st)")
    case True
    then show ?thesis using Some ok live moved_refl [OF acc] by (auto simp: backendData_def)
  next
    case False
    let ?st = "st\<lparr>sendCredit := sendCredit st - word_of_int (len data)\<rparr>"
    let ?s = "put_stream sid ?st s"
    have "uint (sendCredit st) \<le> MaxUint32" using so by (simp add: stream_ok_def)
    then have "uint (word_of_int (len data) :: u64) = len data"
      using False by (intro uint_word_of_int_u64) auto
    then have "uint (sendCredit ?st) = uint (sendCredit st) - len data"
      using False by (simp add: uint_sub_if')
    then have st': "stream_ok sid ?st" using so by (simp add: stream_ok_def)
    have ok1: "session_ok ?s" by (rule session_ok_put_stream [OF ok Some st']) simp_all
    have m1: "moved s e ?s e" by (rule moved_counts [OF acc]) simp
    have eq: "backendData cb sid data s e = queueFrame cb Data sid data ?s e"
      using Some live False by (simp add: backendData_def)
    show ?thesis
      unfolding eq
    proof (rule ok_with_mono3 [OF queueFrame_open_ok [OF ok1 acc_moved [OF acc m1]]], goal_cases)
      case (5 granted s' e')
      then show ?case using moved_trans [OF m1] Some False by fastforce
    qed (use live so p in \<open>simp_all add: stream_ok_def\<close>)
  qed
qed

lemma backendClosed_ok:
  assumes ok: "session_ok s" and acc: "acc s e"
  shows "ok_with (backendClosed cb sid ref s e) (\<lambda>(bs, s', e'). session_ok s' \<and> moved s e s' e' \<and>
     (case map_of (streams s) sid of
        None \<Rightarrow> bs = [] \<and> s' = s
      | Some st \<Rightarrow>
          if backend st \<noteq> ref then bs = [] \<and> s' = s
          else sid \<notin> keys (streams s') \<and>
            (if closed s' then bs = map (\<lambda>(_, st). backend st) (AList.delete sid (streams s))
             else bs = [] \<and> streams s' = AList.delete sid (streams s) \<and> sid \<in> closedStreams s' \<and>
               (\<exists>lane' v. lane_for sid s' = Some lane' \<and>
                  queue_view sid (pendingFrames lane') = v @ [None]))))"
proof (cases "map_of (streams s) sid")
  case None
  then show ?thesis using ok moved_refl [OF acc] by (simp add: backendClosed_def)
next
  case (Some st)
  have live: "\<not> closed s" by (rule session_ok_live [OF ok Some])
  have sid: "sid \<le> MaxStreamID" using session_ok_stream [OF ok Some] by (simp add: stream_ok_def)
  have inv: "session_inv 0 0 s" using ok by (simp add: session_ok_def)
  show ?thesis
  proof (cases "backend st = ref")
    case False
    then show ?thesis using Some ok live moved_refl [OF acc] by (simp add: backendClosed_def)
  next
    case True
    have eq: "backendClosed cb sid ref s e = (do {
        (s, e) \<leftarrow> releaseStreamWrites cb st s e;
        rememberClosed cb sid (s\<lparr>streams := AList.delete sid (streams s)\<rparr>) e }) \<bind> (\<lambda>(s, e). do {
          (ok, s, e) \<leftarrow> queueFrame cb Close sid [] s e;
          if \<not> ok then closeLocked cb s e else Some ([], s, e) })"
      using Some True live by (simp add: backendClosed_def case_prod_unfold)
    show ?thesis
      unfolding eq
    proof (subst ok_with_bind, rule ok_with_mono [OF drop_stream_ok [OF inv acc _ _ Some]], goal_cases)
      case (3 x)
      obtain s1 e1 where x: "x = (s1, e1)" by (cases x)
      have m1: "moved s e s1 e1" and i1: "session_inv 0 0 s1" and f1: "finished s1 = finished s"
        and r1: "remembered_in sid (s\<lparr>streams := AList.delete sid (streams s)\<rparr>) s1"
        using 3(2) by (auto simp: x)
      have f: "closed s1 = closed s" "streams s1 = AList.delete sid (streams s)" "sid \<in> closedStreams s1"
        using r1 by (auto simp: remembered_in_def)
      have ok1: "session_ok s1" using i1 live f f1 ok by (simp add: session_ok_open)
      show ?case
        unfolding x prod.case wp_rules
      proof (rule ok_with_mono [OF queueFrame_open_ok [OF ok1 acc_moved [OF acc m1]]], goal_cases)
        case (5 y)
        obtain granted s2 e2 where y: "y = (granted, s2, e2)" by (cases y)
        note 5 = 5 [unfolded y prod.case]
        have m2: "moved s e s2 e2" using 5(2) moved_trans [OF m1] by blast
        show ?case
        proof (cases granted)
          case True
          then obtain lane lane' c i where "lane_for sid s2 = Some lane'"
              "queued_more Close sid [] lane lane' c i" using 5(2) by auto
          then have "\<exists>lane' v. lane_for sid s2 = Some lane' \<and>
              queue_view sid (pendingFrames lane') = v @ [None]"
            by (auto simp: queued_more_def frame_view_def)
          then show ?thesis using 5(2) True m2 f live Some \<open>backend st = ref\<close> by (simp add: y)
        next
          case False
          then have s2: "s2 = s1" using 5(2) by simp
          have "closed s2 \<Longrightarrow> session_ok s2" using s2 ok1 by simp
          note c = closeLocked_ok [OF _ acc_moved [OF acc m2] _ _ this, of 0 0]
          have "ok_with (closeLocked cb s2 e2) (\<lambda>(bs, s', e'). moved s2 e2 s' e' \<and> session_ok s' \<and> closed s' \<and>
              bs = map (\<lambda>(_, st). backend st) (streams s2))"
            using i1 s2 by (intro c) simp_all
          then have "ok_with (closeLocked cb s2 e2) (\<lambda>(bs, s', e'). session_ok s' \<and> moved s e s' e' \<and>
              closed s' \<and> streams s' = [] \<and> bs = map (\<lambda>(_, st). backend st) (AList.delete sid (streams s)))"
            by (rule ok_with_mono3)
              (use s2 f moved_trans [OF m2] in \<open>auto simp: session_ok_def session_inv_def streams_ok_def\<close>)
          then show ?thesis using False Some True
            by (auto simp: y \<open>backend st = ref\<close> elim!: ok_with_mono3)
        qed
      qed (use live f sid in simp_all)
    qed simp_all
  qed
qed

end

end
