(* ===== verification/Float64.thy ===== *)
theory Float64
  imports Prelude "HOL-Library.Log_Nat"
begin

text \<open>
  Go's \<open>float64\<close> arithmetic on the values the rate limiter uses: a \<open>float64\<close> value is a
  rational, and every operation is the exact one followed by rounding to the nearest value
  with a 53-bit significand, ties to even. Infinities, NaN and subnormal numbers cannot
  occur on these values and are left out.
\<close>

definition pow2 :: "int \<Rightarrow> rat" where
  "pow2 k = (if 0 \<le> k then 2 ^ nat k else 1 / 2 ^ nat (- k))"

text \<open>The binary exponent of a positive rational.\<close>

definition ilog2 :: "rat \<Rightarrow> int" where
  "ilog2 x = (case quotient_of x of (a, b) \<Rightarrow>
     let k = bitlen a - bitlen b in if pow2 k * of_int b \<le> of_int a then k else k - 1)"

definition round_even :: "rat \<Rightarrow> int" where
  "round_even x = (let f = \<lfloor>x\<rfloor>; d = x - of_int f in
     if d < 1/2 then f else if d > 1/2 then f + 1 else if even f then f else f + 1)"

definition f64 :: "rat \<Rightarrow> rat" where
  "f64 x = (if x = 0 then 0
     else let e = ilog2 \<bar>x\<bar> - 52 in of_int (round_even (x / pow2 e)) * pow2 e)"

subsection \<open>Powers of two and exponents\<close>

lemma pow2_pos [simp]: "0 < pow2 k"
  by (simp add: pow2_def)

lemma pow2_nz [simp]: "pow2 k \<noteq> 0"
  using pow2_pos [of k] by linarith

lemma pow2_add: "pow2 (j + k) = pow2 j * pow2 k"
  by (auto simp: pow2_def nat_add_distrib power_add [symmetric] nat_diff_distrib power_diff
      field_simps not_le simp flip: power_add)

lemma pow2_nonneg [simp]: "0 \<le> pow2 k"
  using pow2_pos [of k] by linarith

lemma pow2_52: "pow2 52 = 2 ^ 52"
  by (simp add: pow2_def)

lemma pow2_0 [simp]: "pow2 0 = 1" and pow2_1 [simp]: "pow2 1 = 2"
  by (simp_all add: pow2_def)

lemma pow2_Suc: "pow2 (k + 1) = 2 * pow2 k"
  by (simp add: pow2_add)

lemma pow2_diff: "pow2 (j - k) = pow2 j / pow2 k"
  using pow2_add [of "j - k" k] by (simp add: field_simps)

lemma pow2_mono: "j \<le> k \<Longrightarrow> pow2 j \<le> pow2 k"
proof -
  assume "j \<le> k"
  then have "1 \<le> pow2 (k - j)" by (simp add: pow2_def)
  then show ?thesis by (simp add: pow2_diff field_simps)
qed

lemma pow2_less_cancel: "pow2 j < pow2 k \<Longrightarrow> j < k"
  using pow2_mono [of k j] by linarith

lemma pow2_nonneg_int: "0 \<le> k \<Longrightarrow> pow2 k = of_int (2 ^ nat k)"
  by (simp add: pow2_def)

lemma ilog2_bounds:
  assumes "0 < x"
  shows "pow2 (ilog2 x) \<le> x" and "x < pow2 (ilog2 x + 1)"
proof -
  obtain a b where q: "quotient_of x = (a, b)" by fastforce
  have b: "0 < b" using q by (rule quotient_of_denom_pos)
  have x: "x = of_int a / of_int b" using q by (rule quotient_of_div)
  have a: "0 < a" using assms b x by (simp add: zero_less_divide_iff)
  have up: "of_int n < pow2 (bitlen n)" if "0 < n" for n
    using bitlen_bounds [OF that] pow2_nonneg_int [of "bitlen n"] bitlen_nonneg [of n]
    by (simp del: of_int_power)
  have lo: "pow2 (bitlen n - 1) \<le> of_int n" if "0 < n" for n
    using bitlen_bounds [OF that] pow2_nonneg_int [of "bitlen n - 1"]
      bitlen_nonneg [of n] bitlen_eq_zero_iff [of n] that by (simp del: of_int_power)
  define k where "k = bitlen a - bitlen b"
  have bl: "pow2 (bitlen b - 1) \<le> of_int b" and bu: "of_int b < pow2 (bitlen b)"
    and al: "pow2 (bitlen a - 1) \<le> of_int a" and au: "of_int a < pow2 (bitlen a)"
    using a b lo up by auto
  have "x < pow2 (k + 1)"
  proof -
    have "pow2 (bitlen a) = pow2 (k + 1) * pow2 (bitlen b - 1)"
      by (simp add: k_def flip: pow2_add)
    also have "\<dots> \<le> pow2 (k + 1) * of_int b" using bl by simp
    finally show ?thesis using au b by (simp add: x pos_divide_less_eq)
  qed
  moreover have "pow2 (k - 1) \<le> x"
  proof -
    have "pow2 (k - 1) * of_int b \<le> pow2 (k - 1) * pow2 (bitlen b)" using bu by simp
    also have "\<dots> = pow2 (bitlen a - 1)" by (simp add: k_def flip: pow2_add)
    finally show ?thesis using al b by (simp add: x pos_le_divide_eq)
  qed
  moreover have "pow2 k * of_int b \<le> of_int a \<longleftrightarrow> pow2 k \<le> x"
    using b by (simp add: x pos_le_divide_eq)
  ultimately show "pow2 (ilog2 x) \<le> x" and "x < pow2 (ilog2 x + 1)"
    by (auto simp: ilog2_def q k_def [symmetric] Let_def)
qed

lemma ilog2_mono: "0 < x \<Longrightarrow> x \<le> y \<Longrightarrow> ilog2 x \<le> ilog2 y"
  using ilog2_bounds [of x] ilog2_bounds [of y] pow2_less_cancel [of "ilog2 x" "ilog2 y + 1"]
  by linarith

subsection \<open>Rounding to an integer\<close>

lemma round_even_of_int [simp]: "round_even (of_int n) = n"
  by (simp add: round_even_def)

lemma round_even_mono: "x \<le> y \<Longrightarrow> round_even x \<le> round_even y"
proof -
  assume le: "x \<le> y"
  consider "\<lfloor>x\<rfloor> < \<lfloor>y\<rfloor>" | "\<lfloor>x\<rfloor> = \<lfloor>y\<rfloor>" using floor_mono [OF le] by linarith
  then show ?thesis
  proof cases
    case 1
    have "round_even x \<le> \<lfloor>x\<rfloor> + 1" "\<lfloor>y\<rfloor> \<le> round_even y"
      by (simp_all add: round_even_def Let_def)
    with 1 show ?thesis by linarith
  next
    case 2
    with le show ?thesis by (auto simp: round_even_def Let_def)
  qed
qed

lemma round_even_ge: "of_int n \<le> x \<Longrightarrow> n \<le> round_even x"
  using round_even_mono [of "of_int n" x] by simp

lemma round_even_le: "x \<le> of_int n \<Longrightarrow> round_even x \<le> n"
  using round_even_mono [of x "of_int n"] by simp

lemma round_even_neg: "round_even (- x) = - round_even x"
proof (cases "x = of_int \<lfloor>x\<rfloor>")
  case True
  then show ?thesis by (metis of_int_minus round_even_of_int)
next
  case False
  then have "x \<notin> \<int>" by (metis Ints_cases floor_of_int)
  then have "\<lfloor>- x\<rfloor> = - \<lfloor>x\<rfloor> - 1"
    by (metis ceiling_altdef ceiling_def diff_minus_eq_add add.inverse_inverse minus_add_distrib
        False uminus_add_conv_diff)
  then show ?thesis by (auto simp: round_even_def Let_def)
qed

subsection \<open>Rounding to a \<open>float64\<close> is monotone and exact on small integers\<close>

lemma f64_0 [simp]: "f64 0 = 0"
  by (simp add: f64_def)

lemma f64_neg: "f64 (- x) = - f64 x"
  by (simp add: f64_def Let_def round_even_neg)

lemma f64_pos: "0 < x \<Longrightarrow> f64 x = of_int (round_even (x / pow2 (ilog2 x - 52))) * pow2 (ilog2 x - 52)"
  by (simp add: f64_def Let_def)

lemma f64_ge_pow2: "0 < x \<Longrightarrow> pow2 (ilog2 x) \<le> f64 x"
proof -
  assume x: "0 < x"
  let ?e = "ilog2 x - 52"
  have "of_int (2 ^ 52) \<le> x / pow2 ?e"
    using ilog2_bounds(1) [OF x] by (simp add: pow2_diff pow2_52 field_simps)
  then have "2 ^ 52 \<le> round_even (x / pow2 ?e)" by (rule round_even_ge)
  then have "of_int (2 ^ 52) * pow2 ?e \<le> of_int (round_even (x / pow2 ?e)) * pow2 ?e"
    by (intro mult_right_mono) (simp_all only: of_int_le_iff pow2_pos less_imp_le)
  then show ?thesis using x by (simp add: f64_pos pow2_diff pow2_52)
qed

lemma f64_le_pow2: "0 < x \<Longrightarrow> f64 x \<le> pow2 (ilog2 x + 1)"
proof -
  assume x: "0 < x"
  let ?e = "ilog2 x - 52"
  have b: "x < 2 * pow2 (ilog2 x)" using ilog2_bounds(2) [OF x] by (simp only: pow2_Suc)
  then have "x / pow2 ?e \<le> of_int (2 ^ 53)" by (simp add: pow2_diff pow2_52 field_simps)
  then have "round_even (x / pow2 ?e) \<le> 2 ^ 53" by (rule round_even_le)
  then have "of_int (round_even (x / pow2 ?e)) * pow2 ?e \<le> of_int (2 ^ 53) * pow2 ?e"
    by (intro mult_right_mono) (simp_all only: of_int_le_iff pow2_pos less_imp_le)
  then show ?thesis using x by (simp add: f64_pos pow2_diff pow2_Suc pow2_52)
qed

lemma f64_mono_pos: "0 < x \<Longrightarrow> x \<le> y \<Longrightarrow> f64 x \<le> f64 y"
proof -
  assume x: "0 < x" and le: "x \<le> y"
  then have y: "0 < y" by simp
  consider "ilog2 x < ilog2 y" | "ilog2 x = ilog2 y" using ilog2_mono [OF x le] by linarith
  then show ?thesis
  proof cases
    case 1
    then have "pow2 (ilog2 x + 1) \<le> pow2 (ilog2 y)" by (intro pow2_mono) simp
    with f64_le_pow2 [OF x] f64_ge_pow2 [OF y] show ?thesis by linarith
  next
    case 2
    then have "round_even (x / pow2 (ilog2 x - 52)) \<le> round_even (y / pow2 (ilog2 x - 52))"
      using le by (intro round_even_mono divide_right_mono) simp_all
    with 2 x y show ?thesis by (simp add: f64_pos mult_right_mono)
  qed
qed

lemma f64_nonneg: "0 \<le> x \<Longrightarrow> 0 \<le> f64 x"
  using f64_ge_pow2 [of x] pow2_pos [of "ilog2 x"] by (cases "x = 0") (simp, linarith)

lemma f64_mono: "x \<le> y \<Longrightarrow> f64 x \<le> f64 y"
proof -
  assume le: "x \<le> y"
  consider "0 < x" | "x \<le> 0 \<and> 0 \<le> y" | "y < 0" by linarith
  then show ?thesis
  proof cases
    case 1
    then show ?thesis using le by (rule f64_mono_pos)
  next
    case 2
    then show ?thesis using f64_nonneg [of y] f64_nonneg [of "- x"] by (simp add: f64_neg)
  next
    case 3
    with le have "f64 (- y) \<le> f64 (- x)" by (intro f64_mono_pos) simp_all
    then show ?thesis by (simp add: f64_neg)
  qed
qed

lemma f64_of_nat_pos:
  assumes "0 < n" and "n \<le> 2 ^ 53"
  shows "f64 (of_int n) = of_int n"
proof -
  let ?k = "ilog2 (of_int n)"
  have k: "?k \<le> 53"
    using ilog2_bounds(1) [of "of_int n"] assms pow2_less_cancel [of ?k 54]
    by (simp add: pow2_def split: if_splits)
  have "\<exists>m. of_int n / pow2 (?k - 52) = of_int m"
  proof (cases "?k = 53")
    case True
    then have "n = 2 ^ 53"
      using ilog2_bounds(1) [of "of_int n"] assms by (simp add: pow2_def)
    with True show ?thesis by (intro exI [of _ "2 ^ 52"]) (simp add: pow2_def)
  next
    case False
    with k have "0 \<le> 52 - ?k" by simp
    then have "pow2 (52 - ?k) = of_int (2 ^ nat (52 - ?k))" by (rule pow2_nonneg_int)
    moreover have "of_int n / pow2 (?k - 52) = of_int n * pow2 (52 - ?k)"
      by (simp add: pow2_diff field_simps)
    ultimately show ?thesis by (metis of_int_mult)
  qed
  then obtain m where m: "of_int n / pow2 (?k - 52) = of_int m" by blast
  then have "of_int m * pow2 (?k - 52) = of_int n" by (simp add: nonzero_divide_eq_eq)
  with m show ?thesis using assms by (simp add: f64_pos)
qed

lemma f64_of_int: "\<bar>n\<bar> \<le> 2 ^ 53 \<Longrightarrow> f64 (of_int n) = of_int n"
  using f64_of_nat_pos [of n] f64_of_nat_pos [of "- n"] f64_neg [of "of_int n"]
  by (cases "n = 0"; cases "0 < n") auto

end
