(* ===== verification/Ledger.thy ===== *)
theory Ledger
  imports Uplink_Lanes Backend_Inv Float64
begin

text \<open>
  The manager's accounting (\<open>internal/session/manager.go\<close>): the global pending budget, the
  stream and dial counters, the token buckets of the rate limits and the metrics. It is
  the part of \<open>Manager\<close> the sessions reach through their callbacks. \<open>clock\<close> is what
  \<open>time.Now()\<close> returns, in nanoseconds since the zero \<open>time.Time\<close>.
\<close>

subsection \<open>Token buckets\<close>

record rateState =
  tokens :: rat
  last_take :: int

definition zero_rate :: rateState where
  "zero_rate = \<lparr>tokens = 0, last_take = 0\<rparr>"

text \<open>\<open>Time.Sub\<close> saturates at the ends of \<open>Duration\<close>, \<open>Duration.Seconds\<close> adds two floats.\<close>

definition time_sub :: "int \<Rightarrow> int \<Rightarrow> int" where
  "time_sub t u = max (- MaxInt - 1) (min MaxInt (t - u))"

definition Seconds :: "int \<Rightarrow> rat" where
  "Seconds d = f64 (f64 (of_int (d sdiv Second)) + f64 (f64 (of_int (d smod Second)) / 10 ^ 9))"

definition takeRate :: "rateState \<Rightarrow> int \<Rightarrow> int \<Rightarrow> int \<Rightarrow> rateState \<times> bool" where
  "takeRate state now perMinute burstLimit =
     (let burst = f64 (of_int burstLimit);
          state =
            (if last_take state = 0 then state\<lparr>tokens := burst, last_take := now\<rparr>
             else
               let perSecond = f64 (f64 (of_int perMinute) / 60);
                   t = f64 (tokens state
                         + f64 (Seconds (time_sub now (last_take state)) * perSecond))
               in state\<lparr>tokens := (if t > burst then burst else t), last_take := now\<rparr>)
      in if tokens state < 1 then (state, False)
         else (state\<lparr>tokens := f64 (tokens state - 1)\<rparr>, True))"

definition allowRateLocked :: "rateState \<Rightarrow> int \<Rightarrow> int \<Rightarrow> int \<Rightarrow> rateState \<times> bool" where
  "allowRateLocked state now perMinute burstLimit = takeRate state now perMinute burstLimit"

text \<open>Both buckets must allow; otherwise neither is written back.\<close>

definition allowProfileRateLocked ::
  "rateState \<Rightarrow> (string \<Rightarrow> rateState) \<Rightarrow> string \<Rightarrow> int \<Rightarrow> int \<Rightarrow> int \<Rightarrow> int \<Rightarrow> int \<Rightarrow>
   rateState \<times> (string \<Rightarrow> rateState) \<times> bool" where
  "allowProfileRateLocked global profiles prof now globalPerMinute globalBurst
       profilePerMinute profileBurst =
     (case takeRate global now globalPerMinute globalBurst of (updatedGlobal, globalAllowed) \<Rightarrow>
      case takeRate (profiles prof) now profilePerMinute profileBurst of
        (updatedProfile, profileAllowed) \<Rightarrow>
        if \<not> globalAllowed \<or> \<not> profileAllowed then (global, profiles, False)
        else (updatedGlobal, profiles(prof := updatedProfile), True))"

subsection \<open>The accounting state\<close>

record ledger =
  config_limits :: Limits
  clock :: int
  mgr_closed :: bool
  streamRate :: rateState
  profileStreamRates :: "string \<Rightarrow> rateState"
  streamsLive :: int
  backendDialsInFlight :: int
  streamsPerProfile :: "string \<rightharpoonup> int"
  dialsPerProfile :: "string \<rightharpoonup> int"
  pendingGlobalCost :: int
  pendingGlobalItems :: int
  streamsOpened :: u64
  streamsRejected :: u64
  backendDialFailures :: u64
  bytesUp :: u64
  bytesDown :: u64
  limitHits :: u64

text \<open>The state \<open>NewManager\<close> starts with.\<close>

definition new_ledger :: "Limits \<Rightarrow> int \<Rightarrow> ledger" where
  "new_ledger lims now = \<lparr>
     config_limits = lims, clock = now, mgr_closed = False,
     streamRate = zero_rate, profileStreamRates = (\<lambda>_. zero_rate),
     streamsLive = 0, backendDialsInFlight = 0,
     streamsPerProfile = Map.empty, dialsPerProfile = Map.empty,
     pendingGlobalCost = 0, pendingGlobalItems = 0,
     streamsOpened = 0, streamsRejected = 0, backendDialFailures = 0,
     bytesUp = 0, bytesDown = 0, limitHits = 0\<rparr>"

text \<open>Reading a missing key of a counter map gives 0; \<open>bump\<close> is \<open>m[k]++\<close>, \<open>drop_one\<close> is
  \<open>m[k]--\<close> followed by the deletion of a zero entry.\<close>

definition count_of :: "('k \<rightharpoonup> int) \<Rightarrow> 'k \<Rightarrow> int" where
  "count_of m k = (case m k of None \<Rightarrow> 0 | Some n \<Rightarrow> n)"

definition bump :: "('k \<rightharpoonup> int) \<Rightarrow> 'k \<Rightarrow> ('k \<rightharpoonup> int)" where
  "bump m k = m(k \<mapsto> count_of m k + 1)"

definition drop_one :: "('k \<rightharpoonup> int) \<Rightarrow> 'k \<Rightarrow> ('k \<rightharpoonup> int)" where
  "drop_one m k =
     (let n = count_of m k - 1 in if n = 0 then m(k := None) else m(k \<mapsto> n))"

lemma count_of_bump: "count_of (bump m k) j = count_of m j + (if j = k then 1 else 0)"
  by (simp add: count_of_def bump_def)

lemma count_of_drop_one: "count_of (drop_one m k) j = count_of m j - (if j = k then 1 else 0)"
  by (simp add: count_of_def drop_one_def Let_def)

subsection \<open>The global pending budget\<close>

text \<open>
  The division by \<open>MaxSessionsGlobal\<close> panics when it is zero, and so does a total that
  would become negative.
\<close>

definition dataBudgetLimits :: "Limits \<Rightarrow> int \<times> int" where
  "dataBudgetLimits lims =
     (case pendingControlReserve lims of (reserveCost, reserveItems) \<Rightarrow>
      let costLimit = MaxPendingGlobal lims;
          itemLimit = MaxPendingItemsGlobal lims;
          sessions = MaxSessionsGlobal lims
      in (if reserveCost > costLimit sdiv sessions then 0 else costLimit - reserveCost * sessions,
          if reserveItems > itemLimit sdiv sessions then 0 else itemLimit - reserveItems * sessions))"

definition addPending :: "int \<Rightarrow> int \<Rightarrow> 'a ledger_scheme \<Rightarrow> (bool \<times> 'a ledger_scheme) option" where
  "addPending costDelta itemDelta m =
     (if pendingGlobalCost m + costDelta < 0 \<or> pendingGlobalItems m + itemDelta < 0 then None
      else Some (True, m\<lparr>pendingGlobalCost := pendingGlobalCost m + costDelta,
                         pendingGlobalItems := pendingGlobalItems m + itemDelta\<rparr>))"

definition changePendingBudget ::
  "int \<Rightarrow> int \<Rightarrow> pendingClass \<Rightarrow> 'a ledger_scheme \<Rightarrow> (bool \<times> 'a ledger_scheme) option" where
  "changePendingBudget costDelta itemDelta cls m =
     (if costDelta > 0 \<or> itemDelta > 0 then
        (if cls \<noteq> PendingControl \<and> MaxSessionsGlobal (config_limits m) = 0 then None
         else
           case (if cls \<noteq> PendingControl then dataBudgetLimits (config_limits m)
                 else (MaxPendingGlobal (config_limits m), MaxPendingItemsGlobal (config_limits m)))
           of (costLimit, itemLimit) \<Rightarrow>
             if costDelta > costLimit \<or> pendingGlobalCost m > costLimit - costDelta
             then Some (False, m\<lparr>limitHits := limitHits m + 1\<rparr>)
             else if itemDelta > itemLimit \<or> pendingGlobalItems m > itemLimit - itemDelta
             then Some (False, m\<lparr>limitHits := limitHits m + 1\<rparr>)
             else addPending costDelta itemDelta m)
      else addPending costDelta itemDelta m)"

subsection \<open>Streams and backend dials\<close>

definition acquire_stream :: "Profile \<Rightarrow> 'a ledger_scheme \<Rightarrow> bool \<times> 'a ledger_scheme" where
  "acquire_stream prof m =
     (let now = clock m; lims = Profile_Limits prof; g = config_limits m; name = Name prof in
      if mgr_closed m \<or> streamsLive m \<ge> MaxStreamsGlobal g
         \<or> backendDialsInFlight m \<ge> MaxBackendDialsInFlight g
         \<or> count_of (streamsPerProfile m) name \<ge> MaxStreams_p lims
         \<or> count_of (dialsPerProfile m) name \<ge> MaxBackendDialsInFlight_p lims
      then (False, m)
      else
        case allowProfileRateLocked (streamRate m) (profileStreamRates m) name now
               (NewStreamsPerMinute g) (NewStreamsBurst g)
               (NewStreamsPerMinute_p lims) (NewStreamsBurst_p lims) of
          (r, rs, allowed) \<Rightarrow>
            let m = m\<lparr>streamRate := r, profileStreamRates := rs\<rparr> in
            if \<not> allowed then (False, m)
            else (True, m\<lparr>streamsLive := streamsLive m + 1,
                          backendDialsInFlight := backendDialsInFlight m + 1,
                          streamsPerProfile := bump (streamsPerProfile m) name,
                          dialsPerProfile := bump (dialsPerProfile m) name,
                          streamsOpened := streamsOpened m + 1\<rparr>))"

definition backendDialFinished ::
  "Profile \<Rightarrow> bool \<Rightarrow> 'a ledger_scheme \<Rightarrow> 'a ledger_scheme option" where
  "backendDialFinished prof failed m =
     (let name = Name prof in
      if backendDialsInFlight m \<le> 0 \<or> count_of (dialsPerProfile m) name \<le> 0 then None
      else
        let m = m\<lparr>backendDialsInFlight := backendDialsInFlight m - 1,
                  dialsPerProfile := drop_one (dialsPerProfile m) name\<rparr>
        in Some (if failed then m\<lparr>backendDialFailures := backendDialFailures m + 1\<rparr> else m))"

definition streamFinished :: "Profile \<Rightarrow> 'a ledger_scheme \<Rightarrow> 'a ledger_scheme option" where
  "streamFinished prof m =
     (let name = Name prof in
      if streamsLive m \<le> 0 \<or> count_of (streamsPerProfile m) name \<le> 0 then None
      else Some (m\<lparr>streamsLive := streamsLive m - 1,
                   streamsPerProfile := drop_one (streamsPerProfile m) name\<rparr>))"

text \<open>The callbacks \<open>Create\<close> hands to a new session of a profile.\<close>

definition manager_callbacks :: "Profile \<Rightarrow> 'a ledger_scheme callbacks" where
  "manager_callbacks prof = \<lparr>
     budget = changePendingBudget,
     acquireStream = acquire_stream prof,
     onStreamRejected =
       (\<lambda>m. m\<lparr>streamsRejected := streamsRejected m + 1, limitHits := limitHits m + 1\<rparr>),
     onUp = (\<lambda>count m. m\<lparr>bytesUp := bytesUp m + word_of_int count\<rparr>),
     onDown = (\<lambda>count m. m\<lparr>bytesDown := bytesDown m + word_of_int count\<rparr>)\<rparr>"

subsection \<open>The manager owns the sessions' budget\<close>

definition ledger_ok :: "'a ledger_scheme \<Rightarrow> bool" where
  "ledger_ok m \<longleftrightarrow> limits_ok (config_limits m) \<and>
     0 \<le> pendingGlobalCost m \<and> pendingGlobalCost m \<le> MaxPendingGlobal (config_limits m) \<and>
     0 \<le> pendingGlobalItems m \<and> pendingGlobalItems m \<le> MaxPendingItemsGlobal (config_limits m)"

lemma new_ledger_ok: "limits_ok lims \<Longrightarrow> ledger_ok (new_ledger lims now)"
  by (simp add: ledger_ok_def new_ledger_def limits_ok_def)

definition budgetLimits :: "pendingClass \<Rightarrow> Limits \<Rightarrow> int \<times> int" where
  "budgetLimits cls lims =
     (if cls \<noteq> PendingControl then dataBudgetLimits lims
      else (MaxPendingGlobal lims, MaxPendingItemsGlobal lims))"

lemma budgetLimits_le:
  assumes ok: "limits_ok l" and b: "budgetLimits cls l = (cl, il)"
  shows "cl \<le> MaxPendingGlobal l" "il \<le> MaxPendingItemsGlobal l"
proof -
  have "0 \<le> fst (pendingControlReserve l) * MaxSessionsGlobal l"
    "0 \<le> snd (pendingControlReserve l) * MaxSessionsGlobal l"
    using control_reserve_nonneg [OF ok] ok by (simp_all add: limits_ok_def)
  then show "cl \<le> MaxPendingGlobal l" "il \<le> MaxPendingItemsGlobal l"
    using ok b
    by (auto simp: budgetLimits_def dataBudgetLimits_def Let_def limits_ok_def
        split: prod.splits if_splits)
qed

lemma changePendingBudget_positive:
  assumes "ledger_ok m" and "0 < c \<or> 0 < i" and "budgetLimits cls (config_limits m) = (cl, il)"
  shows "changePendingBudget c i cls m =
     (if pendingGlobalCost m + c \<le> cl \<and> c \<le> cl \<and> pendingGlobalItems m + i \<le> il \<and> i \<le> il
      then addPending c i m else Some (False, m\<lparr>limitHits := limitHits m + 1\<rparr>))"
  using assms by (simp add: changePendingBudget_def ledger_ok_def limits_ok_def flip: budgetLimits_def)

lemma changePendingBudget_reserve:
  assumes "ledger_ok m" and "0 < c" and "0 \<le> i"
  shows "\<exists>granted m'. changePendingBudget c i cls m = Some (granted, m') \<and> ledger_ok m' \<and>
     pendingGlobalCost m' = pendingGlobalCost m + (if granted then c else 0) \<and>
     pendingGlobalItems m' = pendingGlobalItems m + (if granted then i else 0)"
proof -
  obtain cl il where b: "budgetLimits cls (config_limits m) = (cl, il)" by fastforce
  then have "cl \<le> MaxPendingGlobal (config_limits m)" "il \<le> MaxPendingItemsGlobal (config_limits m)"
    using budgetLimits_le assms(1) by (auto simp: ledger_ok_def)
  with assms b show ?thesis
    by (auto simp: changePendingBudget_positive addPending_def ledger_ok_def)
qed

lemma changePendingBudget_release:
  assumes "ledger_ok m" and "0 \<le> c" and "0 \<le> i"
    and "c \<le> pendingGlobalCost m" and "i \<le> pendingGlobalItems m"
  shows "\<exists>m'. changePendingBudget (- c) (- i) cls m = Some (True, m') \<and> ledger_ok m' \<and>
     pendingGlobalCost m' = pendingGlobalCost m - c \<and>
     pendingGlobalItems m' = pendingGlobalItems m - i"
  using assms by (simp add: changePendingBudget_def addPending_def ledger_ok_def)

lemma acquire_stream_pool:
  "acquire_stream prof m = (b, m') \<Longrightarrow>
     config_limits m' = config_limits m \<and> clock m' = clock m \<and>
     pendingGlobalCost m' = pendingGlobalCost m \<and> pendingGlobalItems m' = pendingGlobalItems m"
  by (auto simp: acquire_stream_def Let_def split: prod.splits if_splits)

interpretation mgr: session_owner "manager_callbacks prof" ledger_ok pendingGlobalCost
    pendingGlobalItems for prof
proof (unfold_locales, goal_cases)
  case (1 e c i cls)
  then show ?case by (simp add: manager_callbacks_def changePendingBudget_reserve)
next
  case (2 e c i cls)
  then show ?case by (simp add: manager_callbacks_def changePendingBudget_release)
next
  case (3 e acquired e')
  then show ?case
    using acquire_stream_pool [of prof e acquired e']
    by (simp add: manager_callbacks_def ledger_ok_def)
qed (simp_all add: manager_callbacks_def ledger_ok_def)

text \<open>
  The callbacks of a session touch the counters and rates only: the limits, the clock, the
  closed flag and whatever the manager's state adds to the ledger stay.
\<close>

definition ledger_frame :: "'a ledger_scheme \<Rightarrow> Limits \<times> int \<times> bool \<times> 'a" where
  "ledger_frame m = (config_limits m, clock m, mgr_closed m, ledger.more m)"

lemma changePendingBudget_frame:
  "changePendingBudget c i cls m = Some (b, m') \<Longrightarrow> ledger_frame m' = ledger_frame m"
  by (auto simp: changePendingBudget_def addPending_def ledger_frame_def split: if_splits prod.splits)

lemma acquire_stream_frame: "acquire_stream prof m = (b, m') \<Longrightarrow> ledger_frame m' = ledger_frame m"
  by (auto simp: acquire_stream_def ledger_frame_def Let_def split: prod.splits if_splits)

interpretation mgr_at: session_owner "manager_callbacks prof"
    "\<lambda>m :: 'a ledger_scheme. ledger_ok m \<and> ledger_frame m = F" pendingGlobalCost pendingGlobalItems for prof F
proof (unfold_locales, goal_cases)
  case (1 e c i cls)
  then show ?case
    using mgr.budget_reserve [of e c i prof cls] changePendingBudget_frame [of c i cls e]
    by (fastforce simp: manager_callbacks_def)
next
  case (2 e c i cls)
  then show ?case
    using mgr.budget_release [of e c i prof cls] changePendingBudget_frame [of "- c" "- i" cls e]
    by (fastforce simp: manager_callbacks_def)
next
  case (3 e acquired e')
  then show ?case
    using mgr.acquire_pool [of e prof acquired e'] acquire_stream_frame [of prof e acquired e']
    by (simp add: manager_callbacks_def)
qed (simp_all add: manager_callbacks_def ledger_ok_def ledger_frame_def)

end
