(* ===== verification/Uplink_Props.thy ===== *)
theory Uplink_Props
  imports Ledger
begin

text \<open>
  The properties of the uplink under the relay's own manager, and the batch on which the
  multiplexed uplink panics.
\<close>

subsection \<open>The rules for the manager\<close>

abbreviation manager_pool :: "session \<Rightarrow> 'a ledger_scheme \<Rightarrow> bool" where
  "manager_pool \<equiv> in_pool ledger_ok pendingGlobalCost pendingGlobalItems"

abbreviation manager_moved ::
  "session \<Rightarrow> 'a ledger_scheme \<Rightarrow> session \<Rightarrow> 'a ledger_scheme \<Rightarrow> bool" where
  "manager_moved \<equiv> moved_with ledger_ok pendingGlobalCost pendingGlobalItems"

lemma manager_pool_new:
  "limits_ok lims \<Longrightarrow> manager_pool (newSession p ip l now) (new_ledger lims now)"
  using new_ledger_ok [of lims now] by (simp add: in_pool_def newSession_def Let_def new_ledger_def)

subsection \<open>What the operations leave alone\<close>

lemma reservePending_same [frame_rules]:
  "reservePending cb c i cls s e = Some (g, s', e') \<Longrightarrow>
     streams s' = streams s \<and> closed s' = closed s \<and> closedStreams s' = closedStreams s \<and>
     limits s' = limits s \<and> carrier s' = carrier s"
  by (auto simp: reservePending_def split: prod.splits if_splits bind_split_asm)

lemma releasePending_same [frame_rules]:
  "releasePending cb c i s e = Some (s', e') \<Longrightarrow>
     streams s' = streams s \<and> closed s' = closed s \<and> closedStreams s' = closedStreams s \<and>
     limits s' = limits s \<and> carrier s' = carrier s"
  by (auto simp: releasePending_def split: prod.splits if_splits bind_split_asm)

lemma put_lane_carrier: "carrier (put_lane sid lane s) = carrier s"
  by (simp add: put_lane_def)

lemma queueFrame_same [frame_rules]:
  assumes "queueFrame cb t sid p s e = Some (g, s', e')"
  shows "streams s' = streams s \<and> closed s' = closed s \<and> closedStreams s' = closedStreams s \<and>
     limits s' = limits s \<and> carrier s' = carrier s"
proof (cases "lane_for sid s")
  case None
  then show ?thesis using assms by (simp add: queueFrame_def)
next
  case (Some lane)
  then obtain plan where plan: "plan_frame (MaxFramePayload (limits s)) t sid p lane = Some plan"
    using assms by (auto simp: queueFrame_def split: bind_split_asm)
  show ?thesis
  proof (cases plan)
    case (Charged lane' c i cls)
    have eq: "queueFrame cb t sid p s e = reservePending cb c i cls s e \<bind>
        (\<lambda>(ok, s, e). Some (if ok then (True, put_lane sid lane' s, e) else (False, s, e)))"
      using Some plan Charged by (simp add: queueFrame_def)
    then obtain ok s1 e1 where r: "reservePending cb c i cls s e = Some (ok, s1, e1)"
      using assms by (cases "reservePending cb c i cls s e") auto
    have "Some (if ok then (True, put_lane sid lane' s1, e1) else (False, s1, e1)) = Some (g, s', e')"
      using assms unfolding eq r by (simp only: bind.bind_lunit prod.case)
    then have "s' = s1 \<or> s' = put_lane sid lane' s1"
      by (cases ok) (simp_all only: if_True if_False option.inject prod.inject simp_thms)
    then have "streams s' = streams s1 \<and> closed s' = closed s1 \<and> closedStreams s' = closedStreams s1 \<and>
        limits s' = limits s1 \<and> carrier s' = carrier s1"
      by (elim disjE) (simp_all add: put_lane_def)
    then show ?thesis using reservePending_same [OF r] by (simp only: simp_thms)
  qed (use assms Some plan in \<open>auto simp: queueFrame_def put_lane_carrier\<close>)
qed

lemma releaseStreamWrites_same [frame_rules]:
  "releaseStreamWrites cb st s e = Some (s', e') \<Longrightarrow>
     streams s' = streams s \<and> closed s' = closed s \<and> closedStreams s' = closedStreams s \<and>
     limits s' = limits s \<and> carrier s' = carrier s"
  by (auto simp: releaseStreamWrites_def dest!: releasePending_same split: if_splits)

lemma releaseLane_same [frame_rules]:
  assumes "releaseLane cb l lane s e = Some (s', e')"
  shows "streams s' = streams s \<and> closed s' = closed s \<and> closedStreams s' = closedStreams s \<and>
     limits s' = limits s \<and> carrier s' = carrier s"
proof -
  obtain s1 e1 where s1: "s1 = s \<or> (\<exists>c i. releasePending cb c i s e = Some (s1, e1))"
      "s' = s1\<lparr>carrierLanes := AList.delete l (carrierLanes s1),
               detached := AList.update (laneRef lane) (clear_lane lane) (detached s1)\<rparr>"
    using assms unfolding releaseLane_def Let_def by (auto split: bind_split_asm if_splits)
  then show ?thesis using releasePending_same by (auto dest!: releasePending_same)
qed

lemma rememberClosed_same [frame_rules]:
  "rememberClosed cb sid s e = Some (s', e') \<Longrightarrow>
     streams s' = streams s \<and> closed s' = closed s \<and>
     closedStreams s' \<subseteq> insert sid (closedStreams s) \<and> limits s' = limits s \<and> carrier s' = carrier s"
  by (auto simp: rememberClosed_def evict_oldest_def signal_lane_def Let_def dest!: releaseLane_same
      split: if_splits prod.splits bind_split_asm option.splits)

lemma apply_frame_same [frame_rules]:
  assumes "apply_frame cb v a s e = Some (a', s', e')"
  shows "closed s' = closed s \<and> carrier s' = carrier s"
proof -
  consider (o) "Type v = Open" "StreamID v \<noteq> 0" | (c) "Type v = Close" "StreamID v \<noteq> 0"
    | (r) "(Type v \<noteq> Open \<and> Type v \<noteq> Close) \<or> StreamID v = 0" by blast
  then show ?thesis
  proof cases
    case o
    then have "apply_open cb (StreamID v) a s e = Some (a', s', e')"
      using assms by (simp add: apply_frame_def Let_def)
    then show ?thesis
      unfolding apply_open_def Let_def
      by (auto simp: put_stream_def dest!: rememberClosed_same queueFrame_same
          split: prod.splits if_splits bind_split_asm)
  next
    case c
    then show ?thesis
      using assms unfolding apply_frame_def Let_def apply_close_def
      by (auto dest!: rememberClosed_same releaseStreamWrites_same
          split: prod.splits if_splits bind_split_asm option.splits)
  next
    case r
    then show ?thesis
      using assms unfolding apply_frame_def Let_def
      by (auto simp: apply_data_def apply_window_def put_stream_def
          split: prod.splits if_splits bind_split_asm option.splits)
  qed
qed

lemma apply_loop_same [frame_rules]:
  "apply_loop cb vs a s e = Some (a', s', e') \<Longrightarrow> closed s' = closed s \<and> carrier s' = carrier s"
proof (induction vs arbitrary: a s e)
  case (Cons v vs)
  then obtain a1 s1 e1 where 1: "apply_frame cb v a s e = Some (a1, s1, e1)"
    by (auto split: bind_split_asm prod.splits)
  then have "s' = s1 \<or> apply_loop cb vs a1 s1 e1 = Some (a', s', e')"
    using Cons.prems by (auto split: if_splits)
  then show ?case using apply_frame_same [OF 1] Cons.IH by metis
qed simp

lemma reserve_and_apply_same [frame_rules]:
  assumes "reserve_and_apply cb frames s e = Some (r, s', e')"
  shows "closed s' = closed s \<and> carrier s' = carrier s"
proof -
  obtain c i where ci: "backendWriteReservation s frames = (c, i)" by fastforce
  obtain g s1 e1 where 1: "(if c \<noteq> 0 \<or> i \<noteq> 0 then reservePending cb c i PendingUplink s e
      else Some (True, s, e)) = Some (g, s1, e1)"
    using assms by (auto simp: reserve_and_apply_def ci split: bind_split_asm)
  have s1: "closed s1 = closed s \<and> carrier s1 = carrier s"
    using 1 reservePending_same [of cb c i PendingUplink s e g s1 e1] by (auto split: if_splits)
  show ?thesis
  proof (cases g)
    case False
    then show ?thesis using assms s1 unfolding reserve_and_apply_def ci prod.case 1 by simp
  next
    case True
    then obtain a s2 e2 where 2: "applyBatch cb frames c i s1 e1 = Some (a, s2, e2)"
      using assms True unfolding reserve_and_apply_def ci prod.case 1 by (auto split: bind_split_asm)
    have s2: "closed s2 = closed s \<and> carrier s2 = carrier s"
      using s1 apply_loop_same [OF 2 [unfolded applyBatch_def]] by simp
    obtain s3 e3 where 3: "(if reservedCost a \<noteq> 0 \<or> reservedItems a \<noteq> 0
        then releasePending cb (reservedCost a) (reservedItems a) s2 e2 else Some (s2, e2)) = Some (s3, e3)"
      using assms True 2 unfolding reserve_and_apply_def ci prod.case 1 by (auto split: bind_split_asm)
    then have "closed s3 = closed s \<and> carrier s3 = carrier s"
      using s2 releasePending_same [of cb "reservedCost a" "reservedItems a" s2 e2 s3 e3]
      by (auto split: if_splits)
    then show ?thesis using assms True 2 3 unfolding reserve_and_apply_def ci prod.case 1 by simp
  qed
qed

subsection \<open>A stream's bytes\<close>

definition data_bytes :: "u32 \<Rightarrow> frame list \<Rightarrow> byte list" where
  "data_bytes sid vs = concat (map Payload (filter (\<lambda>v. StreamID v = sid \<and> Type v = Data) vs))"

lemma appendBackendWrite_writes:
  "appendBackendWrite st p = (st', c, i) \<Longrightarrow> concat (writes st') = concat (writes st) @ p"
  by (auto simp: appendBackendWrite_def Let_def concat_butlast_last split: if_splits)

lemma apply_frame_stream:
  assumes ap: "apply_frame cb v a s e = Some (a', s', e')" and st: "map_of (streams s) sid = Some st"
    and nc: "sid \<notin> closedStreams s" "sid \<noteq> 0" and n: "StreamID v = sid \<Longrightarrow> Type v \<noteq> Open \<and> Type v \<noteq> Close"
  shows "sid \<notin> closedStreams s' \<and> (\<exists>st'. map_of (streams s') sid = Some st' \<and>
     concat (writes st') = concat (writes st) @ data_bytes sid [v])"
proof (cases "StreamID v = sid")
  case True
  with n have t: "Type v \<noteq> Open" "Type v \<noteq> Close" by simp_all
  obtain st1 c i where a1: "appendBackendWrite st (Payload v) = (st1, c, i)" by (metis prod_cases3)
  show ?thesis
    using True t ap st nc appendBackendWrite_writes [OF a1] a1
    by (auto simp: apply_frame_def apply_data_def apply_window_def put_stream_def data_bytes_def Let_def
        split: if_splits)
next
  case False
  then have d: "data_bytes sid [v] = []" by (simp add: data_bytes_def)
  consider (o) "Type v = Open" "StreamID v \<noteq> 0" | (c) "Type v = Close" "StreamID v \<noteq> 0"
    | (r) "(Type v \<noteq> Open \<and> Type v \<noteq> Close) \<or> StreamID v = 0" by blast
  then have "streams s' = streams s \<or> (\<exists>x. streams s' = AList.delete (StreamID v) (streams s)) \<or>
      (\<exists>x. streams s' = AList.update (StreamID v) x (streams s))"
    and "closedStreams s' \<subseteq> insert (StreamID v) (closedStreams s)"
  proof (atomize (full), cases)
    case o
    then have "apply_open cb (StreamID v) a s e = Some (a', s', e')"
      using ap by (simp add: apply_frame_def Let_def)
    then show "(streams s' = streams s \<or> (\<exists>x. streams s' = AList.delete (StreamID v) (streams s)) \<or>
        (\<exists>x. streams s' = AList.update (StreamID v) x (streams s))) \<and>
        closedStreams s' \<subseteq> insert (StreamID v) (closedStreams s)"
      unfolding apply_open_def Let_def
      by (auto simp: put_stream_def dest!: rememberClosed_same queueFrame_same
          split: prod.splits if_splits bind_split_asm)
  next
    case c
    then show "(streams s' = streams s \<or> (\<exists>x. streams s' = AList.delete (StreamID v) (streams s)) \<or>
        (\<exists>x. streams s' = AList.update (StreamID v) x (streams s))) \<and>
        closedStreams s' \<subseteq> insert (StreamID v) (closedStreams s)"
      using ap unfolding apply_frame_def Let_def apply_close_def
      by (auto dest!: rememberClosed_same releaseStreamWrites_same
          split: prod.splits if_splits bind_split_asm option.splits)
  next
    case r
    then show "(streams s' = streams s \<or> (\<exists>x. streams s' = AList.delete (StreamID v) (streams s)) \<or>
        (\<exists>x. streams s' = AList.update (StreamID v) x (streams s))) \<and>
        closedStreams s' \<subseteq> insert (StreamID v) (closedStreams s)"
      using ap unfolding apply_frame_def Let_def
      by (auto simp: apply_data_def apply_window_def put_stream_def
          split: prod.splits if_splits bind_split_asm option.splits)
  qed
  then show ?thesis using False st nc by (auto simp: d)
qed

lemma apply_loop_stream:
  assumes "apply_loop cb vs a s e = Some (a', s', e')" and "applied a'"
    and "map_of (streams s) sid = Some st" and "sid \<notin> closedStreams s" and "sid \<noteq> 0"
    and "\<And>v. v \<in> set vs \<Longrightarrow> StreamID v = sid \<Longrightarrow> Type v \<noteq> Open \<and> Type v \<noteq> Close"
  shows "\<exists>st'. map_of (streams s') sid = Some st' \<and>
     concat (writes st') = concat (writes st) @ data_bytes sid vs"
  using assms
proof (induction vs arbitrary: a s e st)
  case Nil
  then show ?case by (simp add: data_bytes_def)
next
  case (Cons v vs)
  obtain a1 s1 e1 where 1: "apply_frame cb v a s e = Some (a1, s1, e1)"
    using Cons.prems(1) by (auto split: bind_split_asm prod.splits)
  have n: "StreamID v = sid \<Longrightarrow> Type v \<noteq> Open \<and> Type v \<noteq> Close" using Cons.prems(6) [of v] by simp
  obtain st1 where st1: "sid \<notin> closedStreams s1" "map_of (streams s1) sid = Some st1"
      "concat (writes st1) = concat (writes st) @ data_bytes sid [v]"
    using apply_frame_stream [OF 1 Cons.prems(3-5) n] by blast
  have ap: "applied a1" and rest: "apply_loop cb vs a1 s1 e1 = Some (a', s', e')"
    using Cons.prems(1,2) 1 by (auto split: if_splits)
  obtain st' where "map_of (streams s') sid = Some st'"
      "concat (writes st') = concat (writes st1) @ data_bytes sid vs"
    using Cons.IH [OF rest Cons.prems(2) st1(2,1) Cons.prems(5)] Cons.prems(6) by auto
  then show ?case using st1(3) by (auto simp: data_bytes_def)
qed

subsection \<open>Properties\<close>


text \<open>A profile with the default limits, for the concrete instances.\<close>

definition sample_profile :: Profile where
  "sample_profile = \<lparr>Name = ''main'', Backend = ''127.0.0.1:9000'', Carrier_Mode = ''https'',
     Capability = [], Profile_Limits = WithDefaults
       \<lparr>MaxSessions_p = 0, MaxStreams_p = 0, MaxBackendDialsInFlight_p = 0,
        NewSessionsPerMinute_p = 0, NewSessionsBurst_p = 0, NewStreamsPerMinute_p = 0,
        NewStreamsBurst_p = 0, MaxStreamsPerSession_p = 0, MaxPendingPerSession_p = 0\<rparr>
       Default_Limits\<rparr>"




text \<open>
  C9: the uplink of a lane never panics, with no hypothesis on the bytes or on the ring of
  tombstones, keeps the session's invariant and moves the manager's pool by exactly what
  the session's counters move.
\<close>
theorem ProcessUpLane_accounts:
  assumes "session_ok s" and "manager_pool s m"
  shows "ok_with (ProcessUpLane (manager_callbacks prof) laneID sequence bytes now s m)
     (\<lambda>(r, a, s', m'). manager_moved s m s' m' \<and> session_ok s')"
  by (rule mgr.ProcessUpLane_ok [OF assms])

theorem ProcessUpLane_accounts_witness:
  "ok_with (ProcessUpLane (manager_callbacks sample_profile) 1 1 [1, 0, 0, 1, 0, 0, 0, 0] 5
       (newSession sample_profile ''192.0.2.1'' Default_Limits 5) (new_ledger Default_Limits 5))
     (\<lambda>(r, a, s', m'). session_ok s' \<and> pendingGlobalCost m' = pendingCost s')"
proof -
  have pool: "manager_pool (newSession sample_profile ''192.0.2.1'' Default_Limits 5) (new_ledger Default_Limits 5)"
    by (rule manager_pool_new) (rule Default_Limits_ok)
  show ?thesis
    by (rule ok_with_mono [OF ProcessUpLane_accounts [OF newSession_ok [OF Default_Limits_ok] pool]])
      (auto simp: moved_with_def new_ledger_def newSession_def Let_def)
qed

text \<open>
  C30: the bytes of a stream reach its backend queue completely, in order and once. When a
  batch has been applied, the writes waiting for the backend of a stream that the batch
  neither opens nor closes are the writes that waited before followed by the payloads of
  the stream's DATA frames, whatever was coalesced and whatever other streams did.
\<close>
theorem uplink_bytes_appended:
  assumes "applyBatch cb frames c i s e = Some (a, s', e')" and "applied a"
    and "map_of (streams s) sid = Some st" and "sid \<notin> closedStreams s" and "sid \<noteq> 0"
    and "\<forall>v \<in> set frames. StreamID v = sid \<longrightarrow> Type v \<noteq> Open \<and> Type v \<noteq> Close"
  shows "\<exists>st'. map_of (streams s') sid = Some st' \<and>
     concat (writes st') = concat (writes st) @ data_bytes sid frames"
  using apply_loop_stream [OF assms(1) [unfolded applyBatch_def] assms(2-5)] assms(6) by blast

definition sample_session :: session where
  "sample_session = (newSession sample_profile ''192.0.2.1'' Default_Limits 5)
     \<lparr>streams := [(1, new_stream 2)]\<rparr>"

theorem uplink_bytes_appended_witness:
  "\<exists>a s' m' st'. applyBatch (manager_callbacks (profile sample_session))
       [\<lparr>Type = Data, StreamID = 1, Payload = [65]\<rparr>, \<lparr>Type = Data, StreamID = 1, Payload = [66]\<rparr>]
       514 2 sample_session (new_ledger Default_Limits 5) = Some (a, s', m') \<and>
     map_of (streams s') 1 = Some st' \<and> concat (writes st') = [65, 66]"
proof -
  let ?vs = "[\<lparr>Type = Data, StreamID = 1, Payload = [65]\<rparr>, \<lparr>Type = Data, StreamID = 1, Payload = [66]\<rparr>]"
  obtain a s' m' where r: "applyBatch (manager_callbacks (profile sample_session)) ?vs 514 2
      sample_session (new_ledger Default_Limits 5) = Some (a, s', m')" "applied a"
    by (simp add: applyBatch_def apply_frame_def Let_def apply_data_def appendBackendWrite_def
        sample_session_def newSession_def new_stream_def put_stream_def)
  have "\<exists>st'. map_of (streams s') 1 = Some st' \<and>
      concat (writes st') = concat (writes (new_stream 2)) @ data_bytes 1 ?vs"
    by (rule uplink_bytes_appended [OF r]) (simp_all add: sample_session_def newSession_def Let_def)
  then show ?thesis using r by (auto simp: new_stream_def data_bytes_def)
qed

lemma up_commit_applied:
  assumes "up_commit cb sequence digest parsed s e = Some (Applied q, a, s', e')"
  shows "q = sequence \<and> \<not> closed s' \<and> carrier s' = carrier s \<and>
     lastUpSequence (mux s') = sequence \<and> lastUpDigest (mux s') = digest"
proof -
  let ?s = "s\<lparr>mux := (mux s)\<lparr>upActive := False\<rparr>\<rparr>"
  obtain frames where f: "parsed = Some frames" "validateBatch ?s frames" "\<not> closed s"
    using assms by (auto simp: up_commit_def Let_def split: if_splits option.splits)
  obtain r s1 e1 where r: "reserve_and_apply cb frames ?s e = Some (r, s1, e1)"
    using assms f by (auto simp: up_commit_def Let_def split: bind_split_asm)
  have "closed s1 = closed s" "carrier s1 = carrier s"
    using reserve_and_apply_same [OF r] by simp_all
  then show ?thesis
    using assms f r by (auto simp: up_commit_def Let_def split: option.splits if_splits)
qed

lemma ProcessUp_accepted:
  assumes "ProcessUp cb sequence bytes now s e = Some (Inr q, a, s', e')"
  shows "q = sequence \<and> sequence \<noteq> 0 \<and> \<not> closed s' \<and> carrier s' = carrier s \<and> \<not> usesCarrierLanes s \<and>
     lastUpSequence (mux s') = sequence \<and> lastUpDigest (mux s') = Sum256 bytes \<and>
     (sequence = lastUpSequence (mux s) \<or> sequence = lastUpSequence (mux s) + 1)"
proof -
  have n: "\<not> usesCarrierLanes s" using assms by (auto simp: ProcessUp_def split: if_splits)
  show ?thesis
  proof (cases "sequence = lastUpSequence (mux s) \<and> sequence \<noteq> 0")
    case True
    then show ?thesis
      using assms n by (auto simp: ProcessUp_def up_begin_def Let_def protocolFailure_def
          split: if_splits bind_split_asm prod.splits)
  next
    case False
    then have seq: "sequence = lastUpSequence (mux s) + 1" "sequence \<noteq> 0" and o: "\<not> closed s" "\<not> upActive (mux s)"
      using assms n by (auto simp: ProcessUp_def up_begin_def Let_def protocolFailure_def
          split: if_splits bind_split_asm prod.splits)
    let ?s = "s\<lparr>lastActivity := now, mux := (mux s)\<lparr>upActive := True\<rparr>\<rparr>"
    have b: "up_begin sequence (Sum256 bytes) now s = (Continue, ?s)"
      using False seq o by (simp add: up_begin_def Let_def)
    obtain r a1 s1 e1 where c: "up_commit cb sequence (Sum256 bytes)
        (parse_client (MaxFramePayload (limits ?s)) bytes) ?s e = Some (r, a1, s1, e1)"
      using assms n b by (auto simp: ProcessUp_def Let_def split: bind_split_asm)
    have "(\<exists>q'. r = Applied q' \<and> q = q' \<and> s' = s1) \<or> (r = Answer (Inr q))"
      using assms n b c by (auto simp: ProcessUp_def Let_def protocolFailure_def
          split: outcome.splits bind_split_asm prod.splits)
    moreover have "r \<noteq> Answer (Inr q)"
      using c by (auto simp: up_commit_def Let_def split: if_splits option.splits bind_split_asm prod.splits)
    ultimately have "r = Applied q" "s' = s1" by auto
    then show ?thesis using up_commit_applied [of cb sequence] c seq n by auto
  qed
qed

text \<open>
  C29: a retried uplink batch is not applied twice. Once \<open>ProcessUp\<close> has acknowledged a
  batch, sending the same bytes with the same sequence number again is acknowledged with
  the same number, opens and closes nothing, and changes neither the owner's state nor
  anything of the session but its last activity. The acknowledged number was the last one
  or its successor.
\<close>
theorem ProcessUp_retry:
  assumes "ProcessUp cb sequence bytes now s e = Some (Inr q, a, s', e')"
  shows "ProcessUp cb sequence bytes later s' e' =
       Some (Inr q, no_effects, s'\<lparr>lastActivity := later\<rparr>, e') \<and>
     q = sequence \<and> (sequence = lastUpSequence (mux s) \<or> sequence = lastUpSequence (mux s) + 1)"
proof -
  note h = ProcessUp_accepted [OF assms]
  then have "\<not> usesCarrierLanes s'" by (simp add: usesCarrierLanes_def)
  then show ?thesis using h by (simp add: ProcessUp_def up_begin_def Let_def)
qed

theorem ProcessUp_retry_witness:
  "\<exists>s' m'. ProcessUp (manager_callbacks sample_profile) 1 [6, 0, 0, 0, 0, 0, 0, 0] 5
       sample_session (new_ledger Default_Limits 5) = Some (Inr 1, no_effects, s', m') \<and>
     ProcessUp (manager_callbacks sample_profile) 1 [6, 0, 0, 0, 0, 0, 0, 0] 9 s' m' =
       Some (Inr 1, no_effects, s'\<lparr>lastActivity := 9\<rparr>, m')"
proof -
  have "ParseAll [6, 0, 0, 0, 0, 0, 0, 0] 1048576 = Inr [\<lparr>Type = Pong, StreamID = 0, Payload = []\<rparr>]"
    by (simp add: parse_all_iff encode_batch_eq frame_bytes_def frame_header_def PutUint32_def
        payload_limit_def)
  then have "parse_client 1048576 [6, 0, 0, 0, 0, 0, 0, 0] =
      Some [\<lparr>Type = Pong, StreamID = 0, Payload = []\<rparr>]"
    by (simp add: parse_client_def ValidateClientShape_def)
  then obtain s' m' where 1: "ProcessUp (manager_callbacks sample_profile) 1 [6, 0, 0, 0, 0, 0, 0, 0] 5
       sample_session (new_ledger Default_Limits 5) = Some (Inr 1, no_effects, s', m')"
    by (simp add: ProcessUp_def sample_session_def newSession_def Let_def usesCarrierLanes_def
        sample_profile_def WithDefault_def up_begin_def newCarrierLane_def Default_Limits_def up_commit_def
        validateBatch_def validate_loop.simps reserve_and_apply_def backendWriteReservation_def
        reservation_loop.simps applyBatch_def apply_frame_def no_effects_def)
  from ProcessUp_retry [OF 1, of 9] 1 show ?thesis by blast
qed

text \<open>
  C28: a batch the validation accepts can panic. When the ring of tombstones of a
  multiplexed session is full and a batch closes a live stream and then carries late DATA
  for the oldest tombstone, the batch is well-formed and passes the validation, but closing
  the stream evicts that tombstone, and the DATA frame is then applied to a stream that
  does not exist. The handler never returns.
\<close>
theorem ProcessUp_evicted_tombstone_panics:
  assumes "session_ok s" and "manager_pool s m" and "\<not> usesCarrierLanes s"
    and "parse_client (MaxFramePayload (limits s)) bytes =
      Some [\<lparr>Type = Close, StreamID = sid, Payload = []\<rparr>, \<lparr>Type = Data, StreamID = old, Payload = p\<rparr>]"
    and "map_of (streams s) sid = Some st" and "len (closedOrder s) = MaxClosedStreamIDs (limits s)"
    and "old = hd (remembered s)"
    and "sequence = lastUpSequence (mux s) + 1" and "sequence \<noteq> 0" and "\<not> upActive (mux s)"
  shows "validateBatch s
       [\<lparr>Type = Close, StreamID = sid, Payload = []\<rparr>, \<lparr>Type = Data, StreamID = old, Payload = p\<rparr>] \<and>
     ProcessUp (manager_callbacks prof) sequence bytes now s m = None"
proof
  let ?v = "\<lparr>Type = Close, StreamID = sid, Payload = []\<rparr>" and ?w = "\<lparr>Type = Data, StreamID = old, Payload = p\<rparr>"
  let ?s1 = "s\<lparr>lastActivity := now, mux := (mux s)\<lparr>upActive := True\<rparr>\<rparr>"
  let ?s2 = "?s1\<lparr>mux := (mux ?s1)\<lparr>upActive := False\<rparr>\<rparr>"
  have inv: "session_inv 0 0 s" and o: "\<not> closed s"
    using assms(1,5) by (auto simp: session_ok_def session_inv_def streams_ok_def)
  have ring: "ring_ok s" and dis: "keys (streams s) \<inter> closedStreams s = {}"
    and m: "0 < MaxClosedStreamIDs (limits s)"
    using inv by (simp_all add: session_inv_def streams_ok_def limits_ok_def)
  have ne: "closedOrder s \<noteq> []" using assms(6) m by auto
  then have k: "closedStart s < length (closedOrder s)" using ring by (simp add: ring_ok_def)
  have hd: "old = closedOrder s ! closedStart s" using assms(7) k by (simp add: remembered_def hd_rotate)
  have old: "old \<in> closedStreams s"
    using hd nth_mem [OF k] ring by (simp add: ring_ok_def)
  have nold: "map_of (streams s) old = None" using old dis by (auto simp: map_of_None_keys)
  have sid: "sid \<notin> closedStreams s" "sid \<noteq> 0" "sid \<in> keys (streams s)"
    using map_of_keys [OF assms(5)] dis stream_of_ok [OF inv assms(5)] by (auto simp: stream_ok_def)
  have cf: "list_all client_frame [?v, ?w]" by (rule parse_client_frames(1) [OF assms(4)])
  have old0: "old \<noteq> 0" using cf by (auto simp: client_frame_def ValidateClientShape_None)
  show v: "validateBatch s [?v, ?w]"
    using sid old old0 assms(5) by (simp add: validateBatch_def validate_loop.simps Let_def)
  have v2: "validateBatch ?s2 [?v, ?w]" using v by (simp add: validateBatch_def)
  have ok2: "session_ok ?s2" using mgr.session_ok_up [OF mgr.session_ok_up [OF assms(1)]] by simp
  have pool2: "manager_pool ?s2 m" using assms(2) by (simp add: in_pool_def)
  have inv2: "session_inv 0 0 ?s2" using ok2 by (simp add: session_ok_def)
  have st2: "map_of (streams ?s2) sid = Some st" using assms(5) by simp
  obtain s3 m3 where d: "do {
       (s, e) \<leftarrow> releaseStreamWrites (manager_callbacks prof) st ?s2 m;
       rememberClosed (manager_callbacks prof) sid (s\<lparr>streams := AList.delete sid (streams s)\<rparr>) e } = Some (s3, m3)"
    and r3: "remembered_in sid (?s2\<lparr>streams := AList.delete sid (streams ?s2)\<rparr>) s3"
    using mgr.drop_stream_ok [OF inv2 pool2 _ _ st2, of prof] unfolding ok_with_Ex by auto
  from d obtain s4 m4 where d1: "releaseStreamWrites (manager_callbacks prof) st ?s2 m = Some (s4, m4)"
      "rememberClosed (manager_callbacks prof) sid (s4\<lparr>streams := AList.delete sid (streams s4)\<rparr>) m4
        = Some (s3, m3)"
    by (auto simp: bind_eq_Some_conv)
  have "evicted_by sid (?s2\<lparr>streams := AList.delete sid (streams ?s2)\<rparr>) = {old}"
    using sid assms(6) hd by (simp add: evicted_by_def)
  then have s3: "old \<notin> closedStreams s3" "streams s3 = AList.delete sid (streams s)"
    using r3 by (simp_all add: remembered_in_def)
  have n3: "map_of (streams s3) old = None" using nold by (simp add: s3)
  have "applyBatch (manager_callbacks prof) [?v, ?w] 0 0 ?s2 m = None"
    using sid st2 d1 s3(1) n3 old0
    by (simp add: applyBatch_def apply_frame_def Let_def apply_close_def)
  moreover have "backendWriteReservation ?s2 [?v, ?w] = (0, 0)"
    using nold sid old0 by (auto simp: backendWriteReservation_def reservation_loop.simps(2) Let_def
        map_of_None_keys keys_def)
  ultimately have "reserve_and_apply (manager_callbacks prof) [?v, ?w] ?s2 m = None"
    by (simp add: reserve_and_apply_def)
  then have "up_commit (manager_callbacks prof) sequence (Sum256 bytes) (Some [?v, ?w]) ?s1 m = None"
    using v2 o by (simp add: up_commit_def Let_def)
  moreover have "up_begin sequence (Sum256 bytes) now s = (Continue, ?s1)"
    using assms(8-10) o by (simp add: up_begin_def Let_def)
  ultimately show "ProcessUp (manager_callbacks prof) sequence bytes now s m = None"
    using assms(3,4) by (simp add: ProcessUp_def Let_def)
qed

text \<open>A ring of one tombstone is enough: stream 1 is live and stream 2 closed.\<close>

definition full_ring_session :: session where
  "full_ring_session =
     (newSession sample_profile ''192.0.2.1'' (Default_Limits\<lparr>MaxClosedStreamIDs := 1\<rparr>) 5)
       \<lparr>streams := [(1, new_stream 2)], closedStreams := {2}, closedOrder := [2]\<rparr>"

theorem ProcessUp_evicted_tombstone_panics_witness:
  "ProcessUp (manager_callbacks sample_profile) 1
     [3, 0, 0, 1, 0, 0, 0, 0, 2, 0, 0, 2, 0, 0, 0, 1, 65] 5 full_ring_session
     (new_ledger Default_Limits 5) = None"
proof -
  let ?vs = "[\<lparr>Type = Close, StreamID = 1, Payload = []\<rparr>, \<lparr>Type = Data, StreamID = 2, Payload = [65]\<rparr>]"
  have l: "limits_ok (Default_Limits\<lparr>MaxClosedStreamIDs := 1\<rparr>)"
    using Default_Limits_ok by (simp add: limits_ok_def)
  have fields: "limits full_ring_session = Default_Limits\<lparr>MaxClosedStreamIDs := 1\<rparr>"
    "streams full_ring_session = [(1, new_stream 2)]" "closedOrder full_ring_session = [2]"
    "closedStreams full_ring_session = {2}" "closedStart full_ring_session = 0"
    "mux full_ring_session = newCarrierLane 0" "carrierLanes full_ring_session = []"
    "pendingCost full_ring_session = 0" "pendingItems full_ring_session = 0"
    "detached full_ring_session = []" "closed full_ring_session = False" "finished full_ring_session = False"
    "carrier full_ring_session = ''https''"
    by (simp_all add: full_ring_session_def newSession_def Let_def sample_profile_def WithDefault_def)
  have ok: "session_ok full_ring_session"
    using l new_stream_ok [of 1 2]
    by (simp add: session_ok_def session_inv_def fields ring_ok_def streams_ok_def lanes_ok_def
        held_cost_def held_items_def usesCarrierLanes_def all_vals_def new_stream_def)
  have pool: "manager_pool full_ring_session (new_ledger Default_Limits 5)"
    using new_ledger_ok [OF Default_Limits_ok, of 5] by (simp add: in_pool_def fields new_ledger_def)
  have "ParseAll [3, 0, 0, 1, 0, 0, 0, 0, 2, 0, 0, 2, 0, 0, 0, 1, 65] 1048576 = Inr ?vs"
    by (simp add: parse_all_iff encode_batch_eq frame_bytes_def frame_header_def PutUint32_def
        payload_limit_def)
  then have "parse_client 1048576 [3, 0, 0, 1, 0, 0, 0, 0, 2, 0, 0, 2, 0, 0, 0, 1, 65] = Some ?vs"
    by (simp add: parse_client_def ValidateClientShape_def)
  then have p: "parse_client (MaxFramePayload (limits full_ring_session))
      [3, 0, 0, 1, 0, 0, 0, 0, 2, 0, 0, 2, 0, 0, 0, 1, 65] = Some ?vs"
    by (simp add: fields Default_Limits_def)
  have "validateBatch full_ring_session ?vs \<and>
      ProcessUp (manager_callbacks sample_profile) 1
        [3, 0, 0, 1, 0, 0, 0, 0, 2, 0, 0, 2, 0, 0, 0, 1, 65] 5 full_ring_session
        (new_ledger Default_Limits 5) = None"
    by (rule ProcessUp_evicted_tombstone_panics [OF ok pool _ p])
      (simp_all add: fields remembered_def usesCarrierLanes_def newCarrierLane_def)
  then show ?thesis by blast
qed

end
