(* ===== verification/Base64.thy ===== *)
theory Base64
  imports Prelude
begin

text \<open>
  \<open>base64.RawURLEncoding\<close> of the Go library: the URL alphabet without padding. The decoder
  is Go's lenient one: it skips carriage returns and line feeds and does not look at the
  unused bits of the last sextet. Strings are lists of 8-bit characters.
\<close>

definition sextet_code :: "nat \<Rightarrow> nat" where
  "sextet_code n =
     (if n < 26 then n + 65 else if n < 52 then n + 71 else if n < 62 then n - 4
      else if n = 62 then 45 else 95)"

definition sextet_char :: "nat \<Rightarrow> char" where
  "sextet_char n = char_of (sextet_code n)"

definition code_sextet :: "nat \<Rightarrow> nat option" where
  "code_sextet c =
     (if 65 \<le> c \<and> c \<le> 90 then Some (c - 65)
      else if 97 \<le> c \<and> c \<le> 122 then Some (c - 71)
      else if 48 \<le> c \<and> c \<le> 57 then Some (c + 4)
      else if c = 45 then Some 62 else if c = 95 then Some 63 else None)"

definition char_sextet :: "char \<Rightarrow> nat option" where
  "char_sextet c = code_sextet (of_char c)"

fun to_sextets :: "nat list \<Rightarrow> nat list" where
  "to_sextets [] = []"
| "to_sextets [a] = [a div 4, (a mod 4) * 16]"
| "to_sextets [a, b] = [a div 4, (a mod 4) * 16 + b div 16, (b mod 16) * 4]"
| "to_sextets (a # b # c # rest) =
     a div 4 # ((a mod 4) * 16 + b div 16) # ((b mod 16) * 4 + c div 64) # c mod 64 # to_sextets rest"

fun of_sextets :: "nat list \<Rightarrow> nat list option" where
  "of_sextets [] = Some []"
| "of_sextets [x] = None"
| "of_sextets [x, y] = Some [x * 4 + y div 16]"
| "of_sextets [x, y, z] = Some [x * 4 + y div 16, (y mod 16) * 16 + z div 4]"
| "of_sextets (x # y # z # w # rest) =
     map_option (\<lambda>r. (x * 4 + y div 16) # ((y mod 16) * 16 + z div 4) # ((z mod 4) * 64 + w) # r)
       (of_sextets rest)"

definition EncodeToString :: "byte list \<Rightarrow> string" where
  "EncodeToString bytes = map sextet_char (to_sextets (map unat bytes))"

definition DecodeString :: "string \<Rightarrow> byte list option" where
  "DecodeString text =
     do {
       xs \<leftarrow> those (map char_sextet (filter (\<lambda>c. c \<noteq> CHR 0x0A \<and> c \<noteq> CHR 0x0D) text));
       ns \<leftarrow> of_sextets xs;
       Some (map word_of_nat ns)
     }"

subsection \<open>Decoding what was encoded\<close>

lemma code_sextet_code: "n < 64 \<Longrightarrow> code_sextet (sextet_code n) = Some n"
  by (auto simp: code_sextet_def sextet_code_def)

lemma sextet_code_range: "n < 64 \<Longrightarrow> 45 \<le> sextet_code n \<and> sextet_code n \<le> 122"
  by (auto simp: sextet_code_def)

lemma char_sextet_char:
  assumes "n < 64"
  shows "char_sextet (sextet_char n) = Some n" and "sextet_char n \<noteq> CHR 0x0A" "sextet_char n \<noteq> CHR 0x0D"
proof -
  have o: "of_char (sextet_char n) = sextet_code n"
    using sextet_code_range [OF assms] by (simp add: sextet_char_def)
  then show "char_sextet (sextet_char n) = Some n"
    using code_sextet_code [OF assms] by (simp add: char_sextet_def)
  have "(of_char (CHR 0x0A) :: nat) = 10" "(of_char (CHR 0x0D) :: nat) = 13" by simp_all
  with o sextet_code_range [OF assms] show "sextet_char n \<noteq> CHR 0x0A" "sextet_char n \<noteq> CHR 0x0D"
    by auto
qed

lemma to_sextets_bound: "list_all (\<lambda>a. a < 256) ns \<Longrightarrow> list_all (\<lambda>x. x < 64) (to_sextets ns)"
  by (induction ns rule: to_sextets.induct) auto

lemma of_to_sextets: "list_all (\<lambda>a. a < 256) ns \<Longrightarrow> of_sextets (to_sextets ns) = Some ns"
  by (induction ns rule: to_sextets.induct) auto

lemma length_to_sextets: "length (to_sextets ns) = (length ns * 4 + 2) div 3"
  by (induction ns rule: to_sextets.induct) auto

lemma those_map_Some: "(\<And>x. x \<in> set xs \<Longrightarrow> f x = Some (g x)) \<Longrightarrow> those (map f xs) = Some (map g xs)"
  by (induction xs) simp_all

lemma DecodeString_EncodeToString [simp]: "DecodeString (EncodeToString bytes) = Some bytes"
proof -
  let ?xs = "to_sextets (map unat bytes)"
  have "unat b < 256" for b :: byte using unsigned_less [of b] by simp
  then have b: "list_all (\<lambda>a. a < 256) (map unat bytes)" by (simp add: list_all_iff)
  have x: "\<And>x. x \<in> set ?xs \<Longrightarrow> x < 64" using to_sextets_bound [OF b] by (simp add: list_all_iff)
  have "filter (\<lambda>c. c \<noteq> CHR 0x0A \<and> c \<noteq> CHR 0x0D) (EncodeToString bytes) = map sextet_char ?xs"
    unfolding EncodeToString_def by (rule filter_True) (auto simp: char_sextet_char x)
  moreover have "those (map char_sextet (map sextet_char ?xs)) = Some (map (\<lambda>c. c) ?xs)"
    unfolding map_map by (rule those_map_Some) (simp add: char_sextet_char x)
  ultimately show ?thesis
    using of_to_sextets [OF b] by (simp add: DecodeString_def comp_def)
qed

lemma length_EncodeToString: "length (EncodeToString bytes) = (length bytes * 4 + 2) div 3"
  by (simp add: EncodeToString_def length_to_sextets)

lemma EncodeToString_inj: "EncodeToString a = EncodeToString b \<longleftrightarrow> a = b"
  by (metis DecodeString_EncodeToString option.inject)

end
