(* ===== verification/Token.thy ===== *)
theory Token
  imports Base64 Sha256
begin

text \<open>
  The bearer tokens (\<open>internal/session/token.go\<close>, \<open>tokenHash\<close> of
  \<open>internal/session/manager.go\<close>): 16 random bytes and 16 bytes of a MAC that tells which
  kind of token the relay issued. What \<open>rand.Read\<close> returned is an argument, \<open>None\<close> when
  it failed.
\<close>

datatype TokenClass = TokenExternal | TokenBootstrap | TokenSession

fun class_byte :: "TokenClass \<Rightarrow> byte" where
  "class_byte TokenExternal = 0"
| "class_byte TokenBootstrap = 1"
| "class_byte TokenSession = 2"

text \<open>The bytes of \<open>tproxy-server-token-v1\<close> and a zero byte.\<close>

definition token_label :: "byte list" where
  "token_label = map (\<lambda>c. word_of_nat (of_char c)) ''tproxy-server-token-v1'' @ [0]"

definition tokenMAC :: "byte list \<Rightarrow> TokenClass \<Rightarrow> byte list \<Rightarrow> byte list" where
  "tokenMAC key kind nonce = take 16 (hmac_sha256 key (token_label @ [class_byte kind] @ nonce))"

definition newToken ::
  "byte list \<Rightarrow> TokenClass \<Rightarrow> byte list option \<Rightarrow> (string \<times> byte list) option" where
  "newToken key kind random =
     map_option (\<lambda>nonce.
       let input = nonce @ tokenMAC key kind nonce in (EncodeToString input, Sum256 input)) random"

definition ClassifyToken :: "byte list \<Rightarrow> string \<Rightarrow> TokenClass" where
  "ClassifyToken key token =
     (case DecodeString token of
        None \<Rightarrow> TokenExternal
      | Some decoded \<Rightarrow>
          if length decoded \<noteq> 32 then TokenExternal
          else if drop 16 decoded = tokenMAC key TokenBootstrap (take 16 decoded) then TokenBootstrap
          else if drop 16 decoded = tokenMAC key TokenSession (take 16 decoded) then TokenSession
          else TokenExternal)"

text \<open>\<open>None\<close> is \<open>ErrAuthentication\<close>.\<close>

definition tokenHash :: "string \<Rightarrow> byte list option" where
  "tokenHash token =
     (case DecodeString token of
        None \<Rightarrow> None
      | Some decoded \<Rightarrow>
          if length decoded \<noteq> 32 \<or> EncodeToString decoded \<noteq> token then None
          else Some (Sum256 decoded))"

lemma length_tokenMAC [simp]: "length (tokenMAC key kind nonce) = 16"
  by (simp add: tokenMAC_def)

lemma tokenHash_EncodeToString:
  "length bytes = 32 \<Longrightarrow> tokenHash (EncodeToString bytes) = Some (Sum256 bytes)"
  by (simp add: tokenHash_def)

text \<open>
  C36: an operation that authorizes a token accepts exactly the canonical spellings of
  32 bytes, and looks up the digest of those bytes: no second spelling of a token, with
  line breaks or other trailing bits, reaches the same session.
\<close>
theorem tokenHash_canonical:
  "tokenHash token = Some h \<longleftrightarrow>
     (\<exists>bytes. length bytes = 32 \<and> token = EncodeToString bytes \<and> h = Sum256 bytes)"
  by (auto simp: tokenHash_def split: option.splits if_splits)

text \<open>
  A token the relay issues is authorized under the hash it is stored by, has 43
  characters, and is classified as what it was issued as. For a session token that needs
  the MACs of the two kinds to differ on its random bytes.
\<close>
theorem newToken_classified:
  assumes "newToken key kind (Some nonce) = Some (token, h)" and "length nonce = 16"
    and "kind = TokenBootstrap \<or> (kind = TokenSession \<and> tokenMAC key TokenBootstrap nonce \<noteq> tokenMAC key TokenSession nonce)"
  shows "tokenHash token = Some h \<and> length token = 43 \<and> ClassifyToken key token = kind"
proof -
  have t: "token = EncodeToString (nonce @ tokenMAC key kind nonce)" "h = Sum256 (nonce @ tokenMAC key kind nonce)"
    using assms(1) by (auto simp: newToken_def Let_def)
  have "length (nonce @ tokenMAC key kind nonce) = 32" using assms(2) by simp
  then show ?thesis
    using assms(2,3) by (auto simp: t tokenHash_EncodeToString length_EncodeToString ClassifyToken_def)
qed

theorem newToken_classified_witness:
  "ClassifyToken (replicate 32 7)
     (EncodeToString (replicate 16 1 @ tokenMAC (replicate 32 7) TokenBootstrap (replicate 16 1))) = TokenBootstrap"
proof -
  have "newToken (replicate 32 7) TokenBootstrap (Some (replicate 16 1)) =
      Some (EncodeToString (replicate 16 1 @ tokenMAC (replicate 32 7) TokenBootstrap (replicate 16 1)),
        Sum256 (replicate 16 1 @ tokenMAC (replicate 32 7) TokenBootstrap (replicate 16 1)))"
    by (simp add: newToken_def Let_def)
  from newToken_classified [OF this] show ?thesis by simp
qed

text \<open>
  A token that is not a canonical encoding of 32 bytes whose last 16 are the MAC of the
  first 16 for one of the two kinds is never both authorized and of that kind: a
  classification other than \<open>TokenExternal\<close> comes with the MAC.
\<close>
theorem ClassifyToken_authentic:
  assumes "ClassifyToken key token = kind" and "kind \<noteq> TokenExternal" and "tokenHash token = Some h"
  shows "\<exists>nonce. length nonce = 16 \<and> newToken key kind (Some nonce) = Some (token, h)"
proof -
  obtain bytes where b: "length bytes = 32" "token = EncodeToString bytes" "h = Sum256 bytes"
    using assms(3) by (auto simp: tokenHash_def split: option.splits if_splits)
  then have m: "drop 16 bytes = tokenMAC key kind (take 16 bytes)"
    using assms(1,2) by (auto simp: ClassifyToken_def split: if_splits)
  have "take 16 bytes @ tokenMAC key kind (take 16 bytes) = bytes" unfolding m [symmetric] by simp
  then show ?thesis using b by (intro exI [of _ "take 16 bytes"]) (simp add: newToken_def Let_def)
qed

theorem ClassifyToken_authentic_witness:
  "\<exists>nonce. length nonce = 16 \<and> newToken [] TokenBootstrap (Some nonce) =
     Some (EncodeToString (replicate 16 0 @ tokenMAC [] TokenBootstrap (replicate 16 0)),
       Sum256 (replicate 16 0 @ tokenMAC [] TokenBootstrap (replicate 16 0)))"
proof -
  let ?b = "replicate 16 (0 :: byte) @ tokenMAC [] TokenBootstrap (replicate 16 0)"
  have "ClassifyToken [] (EncodeToString ?b) = TokenBootstrap" by (simp add: ClassifyToken_def)
  moreover have "tokenHash (EncodeToString ?b) = Some (Sum256 ?b)"
    by (rule tokenHash_EncodeToString) simp
  ultimately show ?thesis by (intro ClassifyToken_authentic) simp_all
qed

end
