(* ===== verification/Manager.thy ===== *)
theory Manager
  imports Ledger Token Backend_Inv
begin

text \<open>
  The manager (\<open>internal/session/manager.go\<close>): bootstraps, the table of sessions, the
  remembered tokens of closed ones, the limits per client and per profile, and the clean-up.
  The manager extends the accounting state of \<open>Ledger\<close>, which its sessions reach through
  their callbacks.

  A session object is a pointer in the code; here it is a number, and \<open>objs\<close> holds the
  objects, in the table or not. Digests are the keys of the maps. A loop over a map runs in
  the order of its association list. Random bytes are arguments, \<open>None\<close> when reading them
  failed.
\<close>

subsection \<open>State\<close>

record bootstrap =
  expires :: int
  bs_profile :: Profile
  issuanceIP :: string
  bodyDigest :: "byte list"
  sessionToken :: string
  bs_session :: "nat option"
  used :: bool

record manager = ledger +
  config_timeouts :: Timeouts
  config_profiles :: "Profile list"
  tokenKey :: "byte list"
  bootstraps :: "(byte list, bootstrap) assoc"
  bootstrapsPerIP :: "string \<rightharpoonup> int"
  sessions :: "(byte list, nat) assoc"
  closedTokens :: "(byte list, int) assoc"
  sessionsPerIP :: "string \<rightharpoonup> int"
  sessionsPerProfile :: "string \<rightharpoonup> int"
  bootstrapRate :: rateState
  sessionRate :: rateState
  profileSessionRates :: "string \<Rightarrow> rateState"
  sessionsCreated :: u64
  sessionsClosed :: u64
  objs :: "(nat, session) assoc"
  next_obj :: nat

datatype manager_error = ErrAuthentication | ErrLimit | ManagerProtocol | ManagerClosed | RandomFailed

definition resolve_profile :: "Limits \<Rightarrow> Profile \<Rightarrow> Profile" where
  "resolve_profile lims prof =
     prof\<lparr>Carrier_Mode := WithDefault (Carrier_Mode prof),
          Profile_Limits := WithDefaults (Profile_Limits prof) lims\<rparr>"

definition NewManager ::
  "Limits \<Rightarrow> Timeouts \<Rightarrow> Profile list \<Rightarrow> byte list \<Rightarrow> int \<Rightarrow> manager" where
  "NewManager lims tms profs key now =
     ledger.extend (new_ledger lims now)
       (manager.fields tms (map (resolve_profile lims) profs) key
          [] Map.empty [] [] Map.empty Map.empty zero_rate zero_rate (\<lambda>_. zero_rate) 0 0 [] 0)"

text \<open>The last profile whose capability is the value.\<close>

definition MatchCapability :: "byte list \<Rightarrow> 'a manager_scheme \<Rightarrow> Profile option" where
  "MatchCapability v m =
     (if length v \<noteq> 32 then None
      else fold (\<lambda>p matched. if Capability p = v then Some p else matched) (config_profiles m) None)"

subsection \<open>Bootstraps\<close>

definition releaseUnusedBootstrap :: "bootstrap \<Rightarrow> manager \<Rightarrow> manager" where
  "releaseUnusedBootstrap b m =
     (if used b then m
      else
        let n = count_of (bootstrapsPerIP m) (issuanceIP b) - 1 in
        m\<lparr>bootstrapsPerIP := (if n \<le> 0 then (bootstrapsPerIP m)(issuanceIP b := None)
                             else (bootstrapsPerIP m)(issuanceIP b \<mapsto> n))\<rparr>)"

definition removeBootstrap :: "byte list \<Rightarrow> bootstrap \<Rightarrow> manager \<Rightarrow> manager" where
  "removeBootstrap h b m =
     (let m = releaseUnusedBootstrap b m in m\<lparr>bootstraps := AList.delete h (bootstraps m)\<rparr>)"

fun remove_bootstraps ::
  "(bootstrap \<Rightarrow> bool) \<Rightarrow> (byte list, bootstrap) assoc \<Rightarrow> manager \<Rightarrow> manager" where
  "remove_bootstraps P [] m = m"
| "remove_bootstraps P ((h, b) # entries) m =
     remove_bootstraps P entries (if P b then removeBootstrap h b m else m)"

text \<open>The unused bootstrap that expires first; the first found wins a tie.\<close>

fun oldest_unused ::
  "(byte list, bootstrap) assoc \<Rightarrow> (byte list \<times> bootstrap) option \<Rightarrow> (byte list \<times> bootstrap) option" where
  "oldest_unused [] oldest = oldest"
| "oldest_unused ((h, b) # entries) oldest =
     oldest_unused entries
       (if used b \<or> (case oldest of None \<Rightarrow> False | Some (_, o') \<Rightarrow> \<not> expires b < expires o')
        then oldest else Some (h, b))"

definition evictOldestUnusedBootstrap :: "manager \<Rightarrow> bool \<times> manager" where
  "evictOldestUnusedBootstrap m =
     (case oldest_unused (bootstraps m) None of
        None \<Rightarrow> (False, m)
      | Some (h, b) \<Rightarrow> (True, removeBootstrap h b m))"

definition removeExpiredBootstraps :: "int \<Rightarrow> manager \<Rightarrow> manager" where
  "removeExpiredBootstraps now m =
     (let m = remove_bootstraps (\<lambda>b. now > expires b) (bootstraps m) m in
      m\<lparr>closedTokens := filter (\<lambda>(_, t). \<not> now > t) (closedTokens m)\<rparr>)"

definition count_limit_hit :: "manager \<Rightarrow> manager" where
  "count_limit_hit m = m\<lparr>limitHits := limitHits m + 1\<rparr>"

definition IssueBootstrap ::
  "Profile option \<Rightarrow> string \<Rightarrow> byte list option \<Rightarrow> manager \<Rightarrow> (manager_error + string) \<times> manager" where
  "IssueBootstrap prof ip random m =
     (case Option.bind prof (\<lambda>p. MatchCapability (Capability p) m) of
        None \<Rightarrow> (Inl ErrAuthentication, m)
      | Some p \<Rightarrow>
          (case newToken (tokenKey m) TokenBootstrap random of
             None \<Rightarrow> (Inl RandomFailed, m)
           | Some (token, h) \<Rightarrow>
               if mgr_closed m then (Inl ManagerClosed, m)
               else
                 let now = clock m; g = config_limits m; m = removeExpiredBootstraps now m in
                 if MaxBootstrapsPerIP g \<noteq> 0 \<and> count_of (bootstrapsPerIP m) ip \<ge> MaxBootstrapsPerIP g
                 then (Inl ErrLimit, count_limit_hit m)
                 else
                   (case allowRateLocked (bootstrapRate m) now (NewBootstrapsPerMinute g) (NewBootstrapsBurst g) of
                      (r, allowed) \<Rightarrow>
                        let m = m\<lparr>bootstrapRate := r\<rparr> in
                        if \<not> allowed then (Inl ErrLimit, count_limit_hit m)
                        else
                          (case (if len (bootstraps m) \<ge> MaxBootstrapsGlobal g
                                 then evictOldestUnusedBootstrap m else (True, m)) of
                             (evicted, m) \<Rightarrow>
                               if \<not> evicted then (Inl ErrLimit, count_limit_hit m)
                               else
                                 let entry = \<lparr>expires = now + BootstrapLifetime (config_timeouts m),
                                     bs_profile = p, issuanceIP = ip, bodyDigest = replicate 32 0,
                                     sessionToken = [], bs_session = None, used = False\<rparr>
                                 in (Inr token,
                                     m\<lparr>bootstraps := AList.update h entry (bootstraps m),
                                       bootstrapsPerIP := bump (bootstrapsPerIP m) ip\<rparr>)))))"

subsection \<open>Sessions\<close>

text \<open>The limits a session of a profile runs under.\<close>

definition session_limits :: "Limits \<Rightarrow> ProfileLimits \<Rightarrow> Limits" where
  "session_limits g p = g\<lparr>MaxStreamsPerSession := MaxStreamsPerSession_p p,
                         MaxPendingPerSession := MaxPendingPerSession_p p\<rparr>"

record CreateResult =
  created_token :: string
  created_welcome :: "byte list"
  created_session :: nat

text \<open>Encoding WELCOME cannot panic, its stream id is 0.\<close>

definition create_result :: "string \<Rightarrow> nat \<Rightarrow> CreateResult" where
  "create_result token ref = \<lparr>created_token = token,
     created_welcome = frame_bytes \<lparr>Type = Welcome, StreamID = 0, Payload = []\<rparr>, created_session = ref\<rparr>"

lemma welcome_encoded: "Encode Welcome 0 [] = Some (created_welcome (create_result token ref))"
  by (simp add: Encode_eq create_result_def)

definition Create ::
  "string \<Rightarrow> string \<Rightarrow> byte list \<Rightarrow> byte list option \<Rightarrow> manager
     \<Rightarrow> (manager_error + CreateResult) \<times> manager" where
  "Create token ip bytes random m =
     (case ParseHello bytes of
        Some _ \<Rightarrow> (Inl ManagerProtocol, m)
      | None \<Rightarrow>
      case tokenHash token of
        None \<Rightarrow> (Inl ErrAuthentication, m)
      | Some th \<Rightarrow>
      let digest = Sum256 bytes; now = clock m; g = config_limits m in
      case map_of (bootstraps m) th of
        None \<Rightarrow> (Inl ErrAuthentication, m)
      | Some entry \<Rightarrow>
          if now > expires entry then (Inl ErrAuthentication, m)
          else if used entry then
            (case bs_session entry of
               None \<Rightarrow> (Inl ErrAuthentication, m)
             | Some ref \<Rightarrow>
                 if bodyDigest entry \<noteq> digest then (Inl ErrAuthentication, m)
                 else (Inr (create_result (sessionToken entry) ref), m))
          else
            let prof = bs_profile entry; pl = Profile_Limits prof in
            if mgr_closed m \<or> len (sessions m) \<ge> MaxSessionsGlobal g \<or>
               count_of (sessionsPerProfile m) (Name prof) \<ge> MaxSessions_p pl \<or>
               (MaxSessionsPerIP g \<noteq> 0 \<and> count_of (sessionsPerIP m) ip \<ge> MaxSessionsPerIP g)
            then (Inl ErrLimit, count_limit_hit m)
            else
              (case allowProfileRateLocked (sessionRate m) (profileSessionRates m) (Name prof) now
                      (NewSessionsPerMinute g) (NewSessionsBurst g)
                      (NewSessionsPerMinute_p pl) (NewSessionsBurst_p pl) of
                 (r, rs, allowed) \<Rightarrow>
                   let m = m\<lparr>sessionRate := r, profileSessionRates := rs\<rparr> in
                   if \<not> allowed then (Inl ErrLimit, count_limit_hit m)
                   else
                     (case newToken (tokenKey m) TokenSession random of
                        None \<Rightarrow> (Inl RandomFailed, m)
                      | Some (stoken, sh) \<Rightarrow>
                          let ref = next_obj m;
                              created = newSession prof ip (session_limits g pl) now;
                              m = m\<lparr>objs := AList.update ref created (objs m), next_obj := ref + 1,
                                    sessions := AList.update sh ref (sessions m),
                                    sessionsPerIP := bump (sessionsPerIP m) ip,
                                    sessionsPerProfile := bump (sessionsPerProfile m) (Name prof)\<rparr>;
                              m = releaseUnusedBootstrap entry m;
                              entry = entry\<lparr>used := True, bodyDigest := digest,
                                           sessionToken := stoken, bs_session := Some ref\<rparr>
                          in (Inr (create_result stoken ref),
                              m\<lparr>bootstraps := AList.update th entry (bootstraps m),
                                sessionsCreated := sessionsCreated m + 1\<rparr>))))"

definition HasBootstrap :: "string \<Rightarrow> manager \<Rightarrow> bool" where
  "HasBootstrap token m =
     (case tokenHash token of
        None \<Rightarrow> False
      | Some h \<Rightarrow> (case map_of (bootstraps m) h of None \<Rightarrow> False | Some entry \<Rightarrow> \<not> clock m > expires entry))"

definition Get_session :: "string \<Rightarrow> manager \<Rightarrow> manager_error + nat" where
  "Get_session token m =
     (case tokenHash token of
        None \<Rightarrow> Inl ErrAuthentication
      | Some h \<Rightarrow> (case map_of (sessions m) h of None \<Rightarrow> Inl ErrAuthentication | Some ref \<Rightarrow> Inr ref))"

subsection \<open>Acting on a session object\<close>

text \<open>An operation on the object, with the manager as the owner its callbacks act on.\<close>

definition on_object ::
  "nat \<Rightarrow> (manager callbacks \<Rightarrow> session \<Rightarrow> manager \<Rightarrow> ('r \<times> session \<times> manager) option) \<Rightarrow> manager
     \<Rightarrow> ('r \<times> manager) option" where
  "on_object ref f m =
     do {
       s \<leftarrow> map_of (objs m) ref;
       (r, s, m) \<leftarrow> f (manager_callbacks (profile s)) s m;
       Some (r, m\<lparr>objs := AList.update ref s (objs m)\<rparr>)
     }"

definition close_object :: "nat \<Rightarrow> manager \<Rightarrow> (nat list \<times> manager) option" where
  "close_object ref m = on_object ref closeLocked m"

text \<open>The outcome is the error of \<open>CloseToken\<close>, if any, and the backends to close.\<close>

definition CloseToken :: "string \<Rightarrow> manager \<Rightarrow> (manager_error option \<times> nat list \<times> manager) option" where
  "CloseToken token m =
     (case tokenHash token of
        None \<Rightarrow> Some (Some ErrAuthentication, [], m)
      | Some h \<Rightarrow>
          (case map_of (sessions m) h of
             None \<Rightarrow> Some (if map_of (closedTokens m) h \<noteq> None then None else Some ErrAuthentication, [], m)
           | Some ref \<Rightarrow> map_option (\<lambda>(bs, m). (None, bs, m)) (close_object ref m)))"

fun close_objects ::
  "(session \<Rightarrow> bool) \<Rightarrow> nat list \<Rightarrow> manager \<Rightarrow> (nat list \<times> manager) option" where
  "close_objects P [] m = Some ([], m)"
| "close_objects P (ref # refs) m =
     do {
       s \<leftarrow> map_of (objs m) ref;
       (bs, m) \<leftarrow> (if P s then close_object ref m else Some ([], m));
       (bs', m) \<leftarrow> close_objects P refs m;
       Some (bs @ bs', m)
     }"

text \<open>One tick of \<open>cleanupLoop\<close>.\<close>

definition cleanup_tick :: "manager \<Rightarrow> (nat list \<times> manager) option" where
  "cleanup_tick m =
     (let now = clock m; m = removeExpiredBootstraps now m in
      close_objects (\<lambda>s. time_sub now (lastActivity s) > ReconnectGrace (config_timeouts m))
        (map snd (sessions m)) m)"

text \<open>\<open>Shutdown\<close> up to the point where it waits for the backends.\<close>

definition Shutdown_manager :: "manager \<Rightarrow> (nat list \<times> manager) option" where
  "Shutdown_manager m =
     (if mgr_closed m then Some ([], m)
      else close_objects (\<lambda>_. True) (map snd (sessions m)) (m\<lparr>mgr_closed := True\<rparr>))"

subsection \<open>The end of a session\<close>

text \<open>The remembered token that expires first, where a zero time counts as none.\<close>

fun oldest_closed :: "(byte list, int) assoc \<Rightarrow> byte list \<times> int \<Rightarrow> byte list \<times> int" where
  "oldest_closed [] oldest = oldest"
| "oldest_closed ((h, t) # entries) oldest =
     oldest_closed entries (if snd oldest = 0 \<or> t < snd oldest then (h, t) else oldest)"

definition sessionFinished :: "nat \<Rightarrow> session \<Rightarrow> manager \<Rightarrow> manager" where
  "sessionFinished ref s m =
     (let m = (case find (\<lambda>(_, r). r = ref) (sessions m) of
                 None \<Rightarrow> m
               | Some (h, _) \<Rightarrow>
                   let old = closedTokens m;
                       old = (if len old \<ge> MaxSessionsGlobal (config_limits m) * 16
                              then AList.delete (fst (oldest_closed old (replicate 32 0, 0))) old else old)
                   in m\<lparr>sessions := AList.delete h (sessions m),
                        closedTokens := AList.update h (clock m + BootstrapLifetime (config_timeouts m)) old,
                        sessionsPerIP := drop_one (sessionsPerIP m) (clientIP s),
                        sessionsPerProfile := drop_one (sessionsPerProfile m) (Name (profile s))\<rparr>);
          m = remove_bootstraps (\<lambda>b. bs_session b = Some ref) (bootstraps m) m
      in m\<lparr>sessionsClosed := sessionsClosed m + 1\<rparr>)"

subsection \<open>Reports\<close>

record Metrics =
  SessionsCreated_m :: u64
  SessionsClosed_m :: u64
  StreamsOpened_m :: u64
  StreamsRejected_m :: u64
  BackendDialFailures_m :: u64
  BytesUp_m :: u64
  BytesDown_m :: u64
  LimitHits_m :: u64

definition report_metrics :: "manager \<Rightarrow> Metrics" where
  "report_metrics m = \<lparr>SessionsCreated_m = sessionsCreated m, SessionsClosed_m = sessionsClosed m,
     StreamsOpened_m = streamsOpened m, StreamsRejected_m = streamsRejected m,
     BackendDialFailures_m = backendDialFailures m, BytesUp_m = bytesUp m,
     BytesDown_m = bytesDown m, LimitHits_m = limitHits m\<rparr>"

record Capacity =
  Sessions_c :: int
  Streams_c :: int
  BackendDialsInFlight_c :: int
  PendingBytes_c :: int
  PendingItems_c :: int

definition report_capacity :: "manager \<Rightarrow> Capacity" where
  "report_capacity m = \<lparr>Sessions_c = len (sessions m), Streams_c = streamsLive m,
     BackendDialsInFlight_c = backendDialsInFlight m, PendingBytes_c = pendingGlobalCost m,
     PendingItems_c = pendingGlobalItems m\<rparr>"

end
