(* ===== verification/Manager_Inv.thy ===== *)
theory Manager_Inv
  imports Manager
begin

text \<open>
  The invariant of the manager: its tables agree with each other and with their counters, its
  limits hold, every session object satisfies the session invariant, and the global pending
  budget is the sum of what the objects hold.
\<close>

subsection \<open>The invariant\<close>

definition count_if :: "('v \<Rightarrow> bool) \<Rightarrow> ('k, 'v) assoc \<Rightarrow> int" where
  "count_if P al = sum_vals (\<lambda>v. if P v then 1 else 0) al"

abbreviation unused_of :: "string \<Rightarrow> bootstrap \<Rightarrow> bool" where
  "unused_of ip b \<equiv> \<not> used b \<and> issuanceIP b = ip"

text \<open>The object behind an entry of the session table.\<close>

definition obj :: "manager \<Rightarrow> nat \<Rightarrow> session" where
  "obj m ref = the (map_of (objs m) ref)"

text \<open>An entry is for a configured profile; once used it leads to a session of the table.\<close>

definition entry_ok :: "Profile set \<Rightarrow> nat set \<Rightarrow> bootstrap \<Rightarrow> bool" where
  "entry_ok profs refs b \<longleftrightarrow> bs_profile b \<in> profs \<and>
     (if used b then \<exists>ref. bs_session b = Some ref \<and> ref \<in> refs else bs_session b = None)"

definition bootstraps_ok :: "manager \<Rightarrow> bool" where
  "bootstraps_ok m \<longleftrightarrow> distinct_keys (bootstraps m) \<and>
     (\<forall>ip. count_of (bootstrapsPerIP m) ip = count_if (unused_of ip) (bootstraps m)) \<and>
     len (bootstraps m) \<le> MaxBootstrapsGlobal (config_limits m) \<and>
     all_vals (\<lambda>_. entry_ok (set (config_profiles m)) (snd ` set (sessions m))) (bootstraps m)"

definition table_ok :: "manager \<Rightarrow> bool" where
  "table_ok m \<longleftrightarrow> distinct_keys (sessions m) \<and> distinct (map snd (sessions m)) \<and>
     snd ` set (sessions m) \<subseteq> keys (objs m) \<and> (\<forall>ref \<in> keys (objs m). ref < next_obj m) \<and>
     (\<forall>ip. count_of (sessionsPerIP m) ip = count_if (\<lambda>ref. clientIP (obj m ref) = ip) (sessions m)) \<and>
     (\<forall>name. count_of (sessionsPerProfile m) name =
        count_if (\<lambda>ref. Name (profile (obj m ref)) = name) (sessions m)) \<and>
     len (sessions m) \<le> MaxSessionsGlobal (config_limits m) \<and>
     (\<forall>p \<in> set (config_profiles m). count_of (sessionsPerProfile m) (Name p) \<le> MaxSessions_p (Profile_Limits p)) \<and>
     (\<forall>ip. MaxSessionsPerIP (config_limits m) \<noteq> 0 \<longrightarrow>
        count_of (sessionsPerIP m) ip \<le> MaxSessionsPerIP (config_limits m))"

definition objects_ok :: "manager \<Rightarrow> bool" where
  "objects_ok m \<longleftrightarrow> distinct_keys (objs m) \<and>
     all_vals (\<lambda>_. session_ok) (objs m) \<and>
     pendingGlobalCost m = sum_vals pendingCost (objs m) \<and>
     pendingGlobalItems m = sum_vals pendingItems (objs m)"

text \<open>What the configuration has to provide; \<open>Config.validate\<close> checks it.\<close>

definition manager_config_ok :: "manager \<Rightarrow> bool" where
  "manager_config_ok m \<longleftrightarrow> limits_ok (config_limits m) \<and>
     0 \<le> MaxSessionsPerIP (config_limits m) \<and>
     (\<forall>p \<in> set (config_profiles m). 0 \<le> MaxSessions_p (Profile_Limits p) \<and>
        limits_ok (session_limits (config_limits m) (Profile_Limits p))) \<and>
     inj_on Name (set (config_profiles m))"

definition manager_ok :: "manager \<Rightarrow> bool" where
  "manager_ok m \<longleftrightarrow> manager_config_ok m \<and> bootstraps_ok m \<and> table_ok m \<and> objects_ok m \<and> ledger_ok m"

lemma count_if_simps [simp]:
  "count_if P [] = 0" "count_if P ((k, v) # al) = (if P v then 1 else 0) + count_if P al"
  by (simp_all add: count_if_def)

lemma count_if_update_None: "map_of al k = None \<Longrightarrow>
    count_if P (AList.update k v al) = count_if P al + (if P v then 1 else 0)"
  by (simp add: count_if_def sum_vals_update_None map_of_None_keys)

lemma count_if_update_Some: "distinct_keys al \<Longrightarrow> map_of al k = Some w \<Longrightarrow>
    count_if P (AList.update k v al) = count_if P al + (if P v then 1 else 0) - (if P w then 1 else 0)"
  by (simp add: count_if_def sum_vals_update_Some)

lemma count_if_delete: "distinct_keys al \<Longrightarrow> map_of al k = Some v \<Longrightarrow>
    count_if P (AList.delete k al) = count_if P al - (if P v then 1 else 0)"
  by (simp add: count_if_def sum_vals_delete)

lemma count_if_cong: "(\<And>k v. (k, v) \<in> set al \<Longrightarrow> P v = Q v) \<Longrightarrow> count_if P al = count_if Q al"
  unfolding count_if_def by (rule sum_vals_cong) auto

lemma count_if_nonneg: "0 \<le> count_if P al"
  by (simp add: count_if_def sum_vals_nonneg)

lemma count_if_pos: "distinct_keys al \<Longrightarrow> map_of al k = Some v \<Longrightarrow> P v \<Longrightarrow> 0 < count_if P al"
  using count_if_delete [of al k v P] count_if_nonneg [of P "AList.delete k al"] by simp

subsection \<open>Operations of session objects\<close>

definition same_tables :: "manager \<Rightarrow> manager \<Rightarrow> bool" where
  "same_tables m m' \<longleftrightarrow> ledger_frame m' = ledger_frame m"

lemma same_tables_fields:
  assumes "same_tables m m'"
  shows "config_limits m' = config_limits m" "clock m' = clock m" "mgr_closed m' = mgr_closed m"
    "config_profiles m' = config_profiles m" "config_timeouts m' = config_timeouts m"
    "bootstraps m' = bootstraps m" "bootstrapsPerIP m' = bootstrapsPerIP m" "sessions m' = sessions m"
    "closedTokens m' = closedTokens m" "sessionsPerIP m' = sessionsPerIP m"
    "sessionsPerProfile m' = sessionsPerProfile m" "objs m' = objs m" "next_obj m' = next_obj m"
    "tokenKey m' = tokenKey m"
proof -
  have f: "ledger.more m' = ledger.more m" using assms by (simp add: same_tables_def ledger_frame_def)
  show "config_limits m' = config_limits m" "clock m' = clock m" "mgr_closed m' = mgr_closed m"
    using assms by (simp_all add: same_tables_def ledger_frame_def)
  have g: "h (ledger.more m') = h (ledger.more m)" for h :: "_ \<Rightarrow> 'b" using f by simp
  show "config_profiles m' = config_profiles m" "config_timeouts m' = config_timeouts m"
    "bootstraps m' = bootstraps m" "bootstrapsPerIP m' = bootstrapsPerIP m" "sessions m' = sessions m"
    "closedTokens m' = closedTokens m" "sessionsPerIP m' = sessionsPerIP m"
    "sessionsPerProfile m' = sessionsPerProfile m" "objs m' = objs m" "next_obj m' = next_obj m"
    "tokenKey m' = tokenKey m"
    using f by (cases m; cases m'; simp)+
qed

text \<open>An operation that keeps the session invariant and moves the pool, for any owner state.\<close>

definition sound_op :: "(manager callbacks \<Rightarrow> session \<Rightarrow> manager \<Rightarrow> ('r \<times> session \<times> manager) option)
    \<Rightarrow> session \<Rightarrow> bool" where
  "sound_op f s \<longleftrightarrow> (\<forall>prof m F. session_ok s \<longrightarrow>
     in_pool (\<lambda>m. ledger_ok m \<and> ledger_frame m = F) pendingGlobalCost pendingGlobalItems s m \<longrightarrow>
     ok_with (f (manager_callbacks prof) s m) (\<lambda>(r, s', m').
       moved_with (\<lambda>m. ledger_ok m \<and> ledger_frame m = F) pendingGlobalCost pendingGlobalItems s m s' m' \<and>
       session_ok s'))"

text \<open>The manager's own tables stay; only the objects and the ledger move.\<close>

definition same_manager :: "manager \<Rightarrow> manager \<Rightarrow> bool" where
  "same_manager m m' \<longleftrightarrow> same_tables m (m'\<lparr>objs := objs m\<rparr>) \<and> keys (objs m') = keys (objs m)"

lemma same_manager_fields:
  assumes "same_manager m m'"
  shows "config_limits m' = config_limits m" "clock m' = clock m" "mgr_closed m' = mgr_closed m"
    "config_profiles m' = config_profiles m" "config_timeouts m' = config_timeouts m"
    "bootstraps m' = bootstraps m" "sessions m' = sessions m" "keys (objs m') = keys (objs m)"
    "closedTokens m' = closedTokens m" "next_obj m' = next_obj m" "tokenKey m' = tokenKey m"
  using same_tables_fields [of m "m'\<lparr>objs := objs m\<rparr>"] assms by (simp_all add: same_manager_def)

lemma same_manager_refl [simp]: "same_manager m m"
  by (simp add: same_manager_def same_tables_def)

lemma same_manager_trans: "same_manager m m' \<Longrightarrow> same_manager m' m'' \<Longrightarrow> same_manager m m''"
  by (cases m; cases m'; cases m'') (simp add: same_manager_def same_tables_def ledger_frame_def)

lemma manager_ok_put:
  assumes ok: "manager_ok m" and s: "map_of (objs m) ref = Some s" and t: "same_tables m m'"
    and s': "session_ok s'" and same: "same_session s s'" and l: "ledger_ok m'"
    and c: "pendingGlobalCost m' - pendingCost s' = pendingGlobalCost m - pendingCost s"
    and i: "pendingGlobalItems m' - pendingItems s' = pendingGlobalItems m - pendingItems s"
  shows "manager_ok (m'\<lparr>objs := AList.update ref s' (objs m')\<rparr>)"
    and "same_manager m (m'\<lparr>objs := AList.update ref s' (objs m')\<rparr>)"
proof -
  let ?m = "m'\<lparr>objs := AList.update ref s' (objs m')\<rparr>"
  note f = same_tables_fields [OF t]
  have k: "ref \<in> keys (objs m)" using s by (rule map_of_keys)
  have o: "clientIP (obj ?m r) = clientIP (obj m r) \<and> profile (obj ?m r) = profile (obj m r)" for r
    using same s by (simp add: obj_def f same_session_def)
  have "manager_config_ok ?m" using ok f by (simp add: manager_ok_def manager_config_ok_def)
  moreover have "bootstraps_ok ?m" using ok f by (simp add: manager_ok_def bootstraps_ok_def)
  moreover have "table_ok ?m" using ok f o k by (auto simp: manager_ok_def table_ok_def)
  moreover have "objects_ok ?m"
    using ok f s s' c i
    by (auto simp: manager_ok_def objects_ok_def sum_vals_update_Some)
  moreover have "ledger_ok ?m" using l by (simp add: ledger_ok_def)
  ultimately show "manager_ok ?m" by (simp add: manager_ok_def)
  have e: "?m\<lparr>objs := objs m\<rparr> = m'" using f by simp
  have "keys (objs ?m) = keys (objs m)" using k f by auto
  then show "same_manager m ?m" unfolding same_manager_def e using t by blast
qed

lemma object_in_pool:
  assumes "manager_ok m" and "map_of (objs m) ref = Some s"
  shows "session_ok s" "pendingCost s \<le> pendingGlobalCost m" "pendingItems s \<le> pendingGlobalItems m"
proof -
  have o: "all_vals (\<lambda>_. session_ok) (objs m)" and d: "distinct_keys (objs m)"
    and c: "pendingGlobalCost m = sum_vals pendingCost (objs m)"
      "pendingGlobalItems m = sum_vals pendingItems (objs m)"
    using assms(1) by (simp_all add: manager_ok_def objects_ok_def)
  show "session_ok s" using o assms(2) by (rule all_valsD)
  have "all_vals (\<lambda>_ s. 0 \<le> pendingCost s) (objs m)" "all_vals (\<lambda>_ s. 0 \<le> pendingItems s) (objs m)"
    using o by (auto elim!: all_vals_mono simp: session_ok_def dest: mgr.pending_nonneg)
  then show "pendingCost s \<le> pendingGlobalCost m" "pendingItems s \<le> pendingGlobalItems m"
    using c assms(2) by (auto intro: sum_vals_ge_val)
qed

lemma on_object_ok:
  assumes ok: "manager_ok m" and s: "map_of (objs m) ref = Some s" and f: "sound_op f s"
  shows "ok_with (on_object ref f m) (\<lambda>(r, m'). manager_ok m' \<and> same_manager m m')"
proof -
  note p = object_in_pool [OF ok s]
  have l: "ledger_ok m" using ok by (simp add: manager_ok_def)
  have "ok_with (f (manager_callbacks (profile s)) s m) (\<lambda>(r, s', m').
       moved_with (\<lambda>m'. ledger_ok m' \<and> ledger_frame m' = ledger_frame m) pendingGlobalCost pendingGlobalItems s m s' m' \<and>
       session_ok s')"
    by (rule f [unfolded sound_op_def, rule_format]) (use p l in \<open>simp_all add: in_pool_def\<close>)
  then show ?thesis
    unfolding on_object_def s
  proof (simp add: wp_rules, elim ok_with_mono, goal_cases)
    case (1 x)
    obtain r s' m' where x: "x = (r, s', m')" by (cases x)
    have "manager_ok (m'\<lparr>objs := AList.update ref s' (objs m')\<rparr>) \<and>
        same_manager m (m'\<lparr>objs := AList.update ref s' (objs m')\<rparr>)"
      using 1 manager_ok_put [OF ok s, of m' s'] by (simp add: x moved_with_def same_tables_def)
    then show ?case by (simp add: x)
  qed
qed

lemma closeLocked_sound: "sound_op closeLocked s"
  unfolding sound_op_def
proof (intro allI impI)
  fix prof m F
  assume s: "session_ok s" and m: "in_pool (\<lambda>m. ledger_ok m \<and> ledger_frame m = F)
      pendingGlobalCost pendingGlobalItems s (m :: manager)"
  show "ok_with (closeLocked (manager_callbacks prof) s m) (\<lambda>(r, s', m').
       moved_with (\<lambda>m. ledger_ok m \<and> ledger_frame m = F) pendingGlobalCost pendingGlobalItems s m s' m' \<and>
       session_ok s')"
    using mgr_at.protocolFailure_ok [OF s m, of prof] unfolding protocolFailure_def
    by (rule ok_with_mono3) blast
qed

lemma close_object_ok:
  assumes "manager_ok m" and "ref \<in> keys (objs m)"
  shows "ok_with (close_object ref m) (\<lambda>(bs, m'). manager_ok m' \<and> same_manager m m')"
  using assms on_object_ok [OF assms(1) _ closeLocked_sound] by (auto simp: close_object_def keys_iff_map_of)

lemma close_objects_ok:
  assumes "manager_ok m" and "set refs \<subseteq> keys (objs m)"
  shows "ok_with (close_objects P refs m) (\<lambda>(bs, m'). manager_ok m' \<and> same_manager m m')"
  using assms
proof (induction refs arbitrary: m)
  case (Cons ref refs)
  then obtain s where s: "map_of (objs m) ref = Some s" by (auto simp: keys_iff_map_of)
  have "ok_with (if P s then close_object ref m else Some ([], m)) (\<lambda>(bs, m'). manager_ok m' \<and> same_manager m m')"
    using close_object_ok [OF Cons.prems(1)] Cons.prems by auto
  then show ?case
    unfolding close_objects.simps s bind.simps(2) wp_rules
  proof (elim ok_with_mono, goal_cases)
    case (1 x)
    obtain bs m1 where x: "x = (bs, m1)" by (cases x)
    have m1: "manager_ok m1" "same_manager m m1" using 1 by (auto simp: x)
    have "ok_with (close_objects P refs m1) (\<lambda>(bs, m'). manager_ok m' \<and> same_manager m1 m')"
      using Cons.IH [OF m1(1)] Cons.prems(2) same_manager_fields(8) [OF m1(2)] by simp
    then show ?case
      unfolding x prod.case wp_rules
      by (rule ok_with_mono) (auto intro: same_manager_trans [OF m1(2)])
  qed
qed simp

subsection \<open>Fields outside the invariant\<close>

lemma obj_simps [simp]:
  "obj (m\<lparr>bootstraps := b\<rparr>) = obj m" "obj (m\<lparr>bootstrapsPerIP := p\<rparr>) = obj m"
  "obj (m\<lparr>sessions := t\<rparr>) = obj m" "obj (m\<lparr>sessionsPerIP := p\<rparr>) = obj m"
  "obj (m\<lparr>sessionsPerProfile := p\<rparr>) = obj m" "obj (m\<lparr>closedTokens := c\<rparr>) = obj m"
  "obj (m\<lparr>limitHits := n\<rparr>) = obj m" "obj (m\<lparr>bootstrapRate := r\<rparr>) = obj m"
  "obj (m\<lparr>sessionRate := r\<rparr>) = obj m" "obj (m\<lparr>profileSessionRates := rs\<rparr>) = obj m"
  "obj (m\<lparr>sessionsCreated := n\<rparr>) = obj m" "obj (m\<lparr>sessionsClosed := n\<rparr>) = obj m"
  "obj (m\<lparr>mgr_closed := c'\<rparr>) = obj m" "obj (m\<lparr>clock := t'\<rparr>) = obj m" "obj (m\<lparr>next_obj := k\<rparr>) = obj m"
  by (simp_all add: obj_def fun_eq_iff)

lemmas manager_ok_defs = manager_ok_def manager_config_ok_def bootstraps_ok_def table_ok_def
  objects_ok_def ledger_ok_def

lemma manager_ok_irrelevant [simp]:
  "manager_ok (m\<lparr>limitHits := n\<rparr>) = manager_ok m" "manager_ok (m\<lparr>bootstrapRate := r\<rparr>) = manager_ok m"
  "manager_ok (m\<lparr>sessionRate := r\<rparr>) = manager_ok m"
  "manager_ok (m\<lparr>profileSessionRates := rs\<rparr>) = manager_ok m"
  "manager_ok (m\<lparr>closedTokens := c\<rparr>) = manager_ok m"
  "manager_ok (m\<lparr>sessionsCreated := k\<rparr>) = manager_ok m"
  "manager_ok (m\<lparr>sessionsClosed := k\<rparr>) = manager_ok m"
  "manager_ok (m\<lparr>mgr_closed := b\<rparr>) = manager_ok m" "manager_ok (m\<lparr>clock := t\<rparr>) = manager_ok m"
  by (simp_all add: manager_ok_defs)

lemma count_limit_hit_ok [simp]: "manager_ok (count_limit_hit m) = manager_ok m"
  by (simp add: count_limit_hit_def)

lemma manager_parts_boot [simp]:
  "manager_config_ok (m\<lparr>bootstraps := bs, bootstrapsPerIP := pip\<rparr>) = manager_config_ok m"
  "table_ok (m\<lparr>bootstraps := bs, bootstrapsPerIP := pip\<rparr>) = table_ok m"
  "objects_ok (m\<lparr>bootstraps := bs, bootstrapsPerIP := pip\<rparr>) = objects_ok m"
  "ledger_ok (m\<lparr>bootstraps := bs, bootstrapsPerIP := pip\<rparr>) = ledger_ok m"
  by (simp_all add: manager_config_ok_def table_ok_def objects_ok_def ledger_ok_def)

lemma manager_ok_boot:
  "manager_ok m \<Longrightarrow> bootstraps_ok (m\<lparr>bootstraps := bs, bootstrapsPerIP := pip\<rparr>) \<Longrightarrow>
     manager_ok (m\<lparr>bootstraps := bs, bootstrapsPerIP := pip\<rparr>)"
  by (simp add: manager_ok_def)

subsection \<open>Removing bootstraps\<close>

lemma removeBootstrap_shape:
  "\<exists>pip. removeBootstrap h b m = m\<lparr>bootstraps := AList.delete h (bootstraps m), bootstrapsPerIP := pip\<rparr>"
  by (intro exI [of _ "bootstrapsPerIP (releaseUnusedBootstrap b m)"] manager.equality)
    (simp_all add: removeBootstrap_def releaseUnusedBootstrap_def Let_def)

text \<open>Giving an unused entry's slot back keeps the counters, whatever the map looks like.\<close>

lemma releaseUnused_count:
  assumes "\<forall>ip. count_of (bootstrapsPerIP m) ip = count_if (unused_of ip) (bootstraps m)"
    and "distinct_keys (bootstraps m)" and "map_of (bootstraps m) h = Some b"
  shows "count_of (bootstrapsPerIP (releaseUnusedBootstrap b m)) ip =
     count_if (unused_of ip) (bootstraps m) - (if unused_of ip b then 1 else 0)"
proof (cases "used b")
  case False
  have "0 < count_if (unused_of (issuanceIP b)) (bootstraps m)"
    by (rule count_if_pos [OF assms(2,3)]) (simp add: False)
  moreover have "count_of (bootstrapsPerIP m) i = count_if (unused_of i) (bootstraps m)" for i
    using assms(1) by blast
  ultimately show ?thesis
    using False by (auto simp: releaseUnusedBootstrap_def Let_def count_of_def split: option.splits)
qed (use assms(1) in \<open>simp add: releaseUnusedBootstrap_def\<close>)

lemma length_delete_le: "length (AList.delete k al) \<le> length al"
  by (simp add: AList.delete_eq length_filter_le)

lemma length_delete: "map_of al k = Some v \<Longrightarrow> distinct_keys al \<Longrightarrow> Suc (length (AList.delete k al)) = length al"
  using card_keys [of al] card_keys [of "AList.delete k al"] map_of_keys [of al k v]
    card_Suc_Diff1 [of "keys al" k] by simp

lemma removeBootstrap_ok:
  assumes ok: "manager_ok m" and b: "map_of (bootstraps m) h = Some b"
  shows "manager_ok (removeBootstrap h b m)"
proof -
  obtain pip where r: "removeBootstrap h b m = m\<lparr>bootstraps := AList.delete h (bootstraps m), bootstrapsPerIP := pip\<rparr>"
    using removeBootstrap_shape by blast
  have k: "distinct_keys (bootstraps m)"
      "\<forall>ip. count_of (bootstrapsPerIP m) ip = count_if (unused_of ip) (bootstraps m)"
    using ok by (simp_all add: manager_ok_def bootstraps_ok_def)
  have "pip = bootstrapsPerIP (removeBootstrap h b m)" by (simp add: r)
  then have "pip = bootstrapsPerIP (releaseUnusedBootstrap b m)" by (simp add: removeBootstrap_def Let_def)
  then have "count_of pip ip = count_if (unused_of ip) (AList.delete h (bootstraps m))" for ip
    using releaseUnused_count [OF k(2,1) b] count_if_delete [OF k(1) b] by simp
  moreover have "len (AList.delete h (bootstraps m)) \<le> MaxBootstrapsGlobal (config_limits m)"
    using ok length_delete_le [of h "bootstraps m"] by (simp add: manager_ok_def bootstraps_ok_def)
  ultimately show ?thesis
    unfolding r using ok by (intro manager_ok_boot) (auto simp: manager_ok_def bootstraps_ok_def)
qed

lemma remove_bootstraps_ok:
  assumes "manager_ok m" and "distinct_keys es"
    and "\<And>h b. (h, b) \<in> set es \<Longrightarrow> map_of (bootstraps m) h = Some b"
  shows "manager_ok (remove_bootstraps P es m) \<and>
     (\<exists>bs pip. remove_bootstraps P es m = m\<lparr>bootstraps := bs, bootstrapsPerIP := pip\<rparr>) \<and>
     length (bootstraps (remove_bootstraps P es m)) \<le> length (bootstraps m) \<and>
     map_of (bootstraps (remove_bootstraps P es m)) =
       (\<lambda>h. case map_of es h of None \<Rightarrow> map_of (bootstraps m) h
          | Some b \<Rightarrow> if P b then None else map_of (bootstraps m) h)"
  using assms
proof (induction es arbitrary: m)
  case Nil
  have "m = m\<lparr>bootstraps := bootstraps m, bootstrapsPerIP := bootstrapsPerIP m\<rparr>" by simp
  then have "\<exists>bs pip. m = m\<lparr>bootstraps := bs, bootstrapsPerIP := pip\<rparr>" by blast
  moreover have "map_of (bootstraps m) = (\<lambda>h. case map_of [] h of None \<Rightarrow> map_of (bootstraps m) h
      | Some b \<Rightarrow> if P b then None else map_of (bootstraps m) h)" by (simp add: fun_eq_iff)
  ultimately show ?case
    unfolding remove_bootstraps.simps using Nil(1) by (intro conjI) (assumption | rule le_refl)+
next
  case (Cons e es)
  obtain h b where e: "e = (h, b)" by (cases e)
  have b: "map_of (bootstraps m) h = Some b" and d: "distinct_keys es" "h \<notin> keys es"
    using Cons.prems(2,3) by (auto simp: e)
  have n: "map_of es h = None" using d(2) by (simp add: map_of_None_keys)
  show ?case
  proof (cases "P b")
    case False
    then show ?thesis
      using Cons.IH [OF Cons.prems(1) d(1)] Cons.prems(3) n
      by (auto simp: e fun_eq_iff)
  next
    case True
    obtain pip where r: "removeBootstrap h b m =
        m\<lparr>bootstraps := AList.delete h (bootstraps m), bootstrapsPerIP := pip\<rparr>"
      using removeBootstrap_shape by blast
    have bs: "bootstraps (removeBootstrap h b m) = AList.delete h (bootstraps m)" by (simp add: r)
    have "map_of (bootstraps (removeBootstrap h b m)) h' = Some b'" if "(h', b') \<in> set es" for h' b'
    proof -
      have "h' \<noteq> h" using that d(2) by (auto simp: keys_def image_iff)
      then show ?thesis using Cons.prems(3) [of h' b'] that by (simp add: bs)
    qed
    from Cons.IH [OF removeBootstrap_ok [OF Cons.prems(1) b] d(1) this]
    obtain bs' pip' where ih: "manager_ok (remove_bootstraps P es (removeBootstrap h b m))"
        "remove_bootstraps P es (removeBootstrap h b m) = (removeBootstrap h b m)\<lparr>bootstraps := bs', bootstrapsPerIP := pip'\<rparr>"
        "length (bootstraps (remove_bootstraps P es (removeBootstrap h b m))) \<le> length (AList.delete h (bootstraps m))"
        "map_of (bootstraps (remove_bootstraps P es (removeBootstrap h b m))) =
       (\<lambda>h'. case map_of es h' of None \<Rightarrow> map_of (AList.delete h (bootstraps m)) h'
          | Some b \<Rightarrow> if P b then None else map_of (AList.delete h (bootstraps m)) h')"
      unfolding bs by blast
    note length_delete_le [of h "bootstraps m"]
    moreover have "\<exists>bs pip. remove_bootstraps P es (removeBootstrap h b m) = m\<lparr>bootstraps := bs, bootstrapsPerIP := pip\<rparr>"
      unfolding ih(2) by (intro exI [of _ bs'] exI [of _ pip']) (simp add: r)
    ultimately show ?thesis
      using ih True n by (auto simp: e fun_eq_iff split: option.split)
  qed
qed

lemma map_of_self: "distinct_keys al \<Longrightarrow> (k, v) \<in> set al \<Longrightarrow> map_of al k = Some v"
  by (simp add: in_set_map_of)

text \<open>On the whole map: what is left are the entries that do not satisfy the predicate.\<close>

lemma remove_all_bootstraps_ok:
  fixes P :: "bootstrap \<Rightarrow> bool"
  assumes ok: "manager_ok m"
  defines "m' \<equiv> remove_bootstraps P (bootstraps m) m"
  shows "manager_ok m'" and "\<exists>bs pip. m' = m\<lparr>bootstraps := bs, bootstrapsPerIP := pip\<rparr>"
    and "length (bootstraps m') \<le> length (bootstraps m)"
    and "map_of (bootstraps m') h = (case map_of (bootstraps m) h of None \<Rightarrow> None
       | Some b \<Rightarrow> if P b then None else Some b)"
proof -
  have d: "distinct_keys (bootstraps m)" using ok by (simp add: manager_ok_def bootstraps_ok_def)
  note r = remove_bootstraps_ok [OF ok d map_of_self [OF d], of P, folded m'_def]
  show "manager_ok m'" "\<exists>bs pip. m' = m\<lparr>bootstraps := bs, bootstrapsPerIP := pip\<rparr>"
    "length (bootstraps m') \<le> length (bootstraps m)" using r by blast+
  have "map_of (bootstraps m') = (\<lambda>h. case map_of (bootstraps m) h of None \<Rightarrow> map_of (bootstraps m) h
          | Some b \<Rightarrow> if P b then None else map_of (bootstraps m) h)" using r by blast
  then show "map_of (bootstraps m') h = (case map_of (bootstraps m) h of None \<Rightarrow> None
       | Some b \<Rightarrow> if P b then None else Some b)" by (simp split: option.split)
qed

end
