(* ===== verification/Manager_Ops.thy ===== *)
theory Manager_Ops
  imports Manager_Inv
begin

text \<open>
  The operations of the manager keep its invariant: issuing and redeeming a bootstrap, the end
  of a session, closing by token, the clean-up and the shutdown. The hypotheses on a new token
  say that its digest is not in use, which its 16 random bytes are for.
\<close>

lemma NewManager_fields [simp]:
  "config_limits (NewManager lims tms profs key now) = lims" "clock (NewManager lims tms profs key now) = now"
  "mgr_closed (NewManager lims tms profs key now) = False"
  "config_profiles (NewManager lims tms profs key now) = map (resolve_profile lims) profs"
  "config_timeouts (NewManager lims tms profs key now) = tms" "tokenKey (NewManager lims tms profs key now) = key"
  "bootstraps (NewManager lims tms profs key now) = []" "bootstrapsPerIP (NewManager lims tms profs key now) = Map.empty"
  "sessions (NewManager lims tms profs key now) = []" "closedTokens (NewManager lims tms profs key now) = []"
  "sessionsPerIP (NewManager lims tms profs key now) = Map.empty"
  "sessionsPerProfile (NewManager lims tms profs key now) = Map.empty"
  "objs (NewManager lims tms profs key now) = []" "next_obj (NewManager lims tms profs key now) = 0"
  "pendingGlobalCost (NewManager lims tms profs key now) = 0"
  "pendingGlobalItems (NewManager lims tms profs key now) = 0"
  "streamsLive (NewManager lims tms profs key now) = 0"
  "backendDialsInFlight (NewManager lims tms profs key now) = 0"
  "streamsPerProfile (NewManager lims tms profs key now) = Map.empty"
  "dialsPerProfile (NewManager lims tms profs key now) = Map.empty"
  "bootstrapRate (NewManager lims tms profs key now) = zero_rate"
  "sessionRate (NewManager lims tms profs key now) = zero_rate"
  "profileSessionRates (NewManager lims tms profs key now) = (\<lambda>_. zero_rate)"
  by (simp_all add: NewManager_def new_ledger_def ledger.defs manager.defs)

lemma NewManager_ok:
  "manager_config_ok (NewManager lims tms profs key now) \<Longrightarrow> manager_ok (NewManager lims tms profs key now)"
  by (simp add: manager_ok_def bootstraps_ok_def table_ok_def objects_ok_def ledger_ok_def
      manager_config_ok_def limits_ok_def count_of_def keys_def all_vals_def)

subsection \<open>Bootstraps\<close>

lemma removeExpired_ok:
  assumes ok: "manager_ok m"
  shows "manager_ok (removeExpiredBootstraps now m)"
    and "\<exists>bs pip cl. removeExpiredBootstraps now m = m\<lparr>bootstraps := bs, bootstrapsPerIP := pip, closedTokens := cl\<rparr>"
    and "length (bootstraps (removeExpiredBootstraps now m)) \<le> length (bootstraps m)"
    and "map_of (bootstraps (removeExpiredBootstraps now m)) h = (case map_of (bootstraps m) h of None \<Rightarrow> None
       | Some b \<Rightarrow> if now > expires b then None else Some b)"
proof -
  note r = remove_all_bootstraps_ok [OF ok, of "\<lambda>b. now > expires b"]
  show "manager_ok (removeExpiredBootstraps now m)"
    using r(1) by (simp add: removeExpiredBootstraps_def Let_def)
  obtain bs pip where e: "remove_bootstraps (\<lambda>b. now > expires b) (bootstraps m) m =
      m\<lparr>bootstraps := bs, bootstrapsPerIP := pip\<rparr>" using r(2) by blast
  show "\<exists>bs pip cl. removeExpiredBootstraps now m = m\<lparr>bootstraps := bs, bootstrapsPerIP := pip, closedTokens := cl\<rparr>"
    unfolding removeExpiredBootstraps_def Let_def e
    by (intro exI [of _ bs] exI [of _ pip] exI [of _ "filter (\<lambda>(_, t). \<not> now > t) (closedTokens m)"]) simp
  show "length (bootstraps (removeExpiredBootstraps now m)) \<le> length (bootstraps m)"
    using r(3) by (simp add: removeExpiredBootstraps_def Let_def)
  show "map_of (bootstraps (removeExpiredBootstraps now m)) h = (case map_of (bootstraps m) h of None \<Rightarrow> None
       | Some b \<Rightarrow> if now > expires b then None else Some b)"
    using r(4) [of h] by (simp add: removeExpiredBootstraps_def Let_def)
qed

lemma oldest_unused_in:
  "oldest_unused es o' = Some (h, b) \<Longrightarrow> o' = Some (h, b) \<or> ((h, b) \<in> set es \<and> \<not> used b)"
proof (induction es o' rule: oldest_unused.induct)
  case (2 h' b' es oldest)
  show ?case
    using 2(1) [OF 2(2) [unfolded oldest_unused.simps]] by (auto split: if_splits option.splits)
qed simp

lemma oldest_unused_None:
  "oldest_unused es o' = None \<longleftrightarrow> o' = None \<and> list_all (\<lambda>(h, b). used b) es"
  by (induction es o' rule: oldest_unused.induct) (auto split: option.splits)

lemma evict_ok:
  assumes ok: "manager_ok m" and e: "evictOldestUnusedBootstrap m = (done, m')"
  shows "manager_ok m'" and "\<exists>bs pip. m' = m\<lparr>bootstraps := bs, bootstrapsPerIP := pip\<rparr>"
    and "done \<Longrightarrow> Suc (length (bootstraps m')) = length (bootstraps m)"
    and "keys (bootstraps m') \<subseteq> keys (bootstraps m)" and "\<not> done \<Longrightarrow> m' = m"
proof -
  have "manager_ok m' \<and> (\<exists>bs pip. m' = m\<lparr>bootstraps := bs, bootstrapsPerIP := pip\<rparr>) \<and>
    (done \<longrightarrow> Suc (length (bootstraps m')) = length (bootstraps m)) \<and> keys (bootstraps m') \<subseteq> keys (bootstraps m) \<and>
    (\<not> done \<longrightarrow> m' = m)"
  proof (cases "oldest_unused (bootstraps m) None")
    case None
    then have "m' = m" "\<not> done" using e by (simp_all add: evictOldestUnusedBootstrap_def)
    moreover have "m = m\<lparr>bootstraps := bootstraps m, bootstrapsPerIP := bootstrapsPerIP m\<rparr>" by simp
    ultimately show ?thesis using ok by blast
  next
    case (Some hb)
    obtain h b where hb: "hb = (h, b)" by (cases hb)
    have d: "distinct_keys (bootstraps m)" using ok by (simp add: manager_ok_def bootstraps_ok_def)
    have "(h, b) \<in> set (bootstraps m)" using oldest_unused_in [of "bootstraps m" None h b] Some hb by simp
    then have b: "map_of (bootstraps m) h = Some b" by (rule map_of_self [OF d])
    have m': "m' = removeBootstrap h b m" "done"
      using e Some hb by (simp_all add: evictOldestUnusedBootstrap_def)
    obtain pip where r: "m' = m\<lparr>bootstraps := AList.delete h (bootstraps m), bootstrapsPerIP := pip\<rparr>"
      using removeBootstrap_shape [of h b m] m' by auto
    have "Suc (length (bootstraps m')) = length (bootstraps m)" "keys (bootstraps m') \<subseteq> keys (bootstraps m)"
      using length_delete [OF b d] by (auto simp: r)
    then show ?thesis using removeBootstrap_ok [OF ok b] m' r by blast
  qed
  then show "manager_ok m'" "\<exists>bs pip. m' = m\<lparr>bootstraps := bs, bootstrapsPerIP := pip\<rparr>"
    "done \<Longrightarrow> Suc (length (bootstraps m')) = length (bootstraps m)"
    "keys (bootstraps m') \<subseteq> keys (bootstraps m)" "\<not> done \<Longrightarrow> m' = m" by blast+
qed

lemma MatchCapability_in: "MatchCapability v m = Some p \<Longrightarrow> p \<in> set (config_profiles m)"
proof -
  have "fold (\<lambda>p matched. if Capability p = v then Some p else matched) ps acc = Some p \<Longrightarrow>
      acc = Some p \<or> p \<in> set ps" for ps and acc :: "Profile option"
  proof (induction ps arbitrary: acc)
    case (Cons q ps)
    have "fold (\<lambda>p matched. if Capability p = v then Some p else matched) ps
        (if Capability q = v then Some q else acc) = Some p" using Cons.prems by simp
    from Cons.IH [OF this] show ?case by (auto split: if_splits)
  qed simp
  moreover assume "MatchCapability v m = Some p"
  ultimately show ?thesis by (fastforce simp: MatchCapability_def split: if_splits)
qed

text \<open>A new unused entry under a digest that is not in the map.\<close>

lemma add_bootstrap_ok:
  assumes ok: "manager_ok m" and h: "h \<notin> keys (bootstraps m)"
    and l: "len (bootstraps m) < MaxBootstrapsGlobal (config_limits m)"
    and p: "bs_profile b \<in> set (config_profiles m)" and u: "\<not> used b" "bs_session b = None"
  shows "manager_ok (m\<lparr>bootstraps := AList.update h b (bootstraps m),
     bootstrapsPerIP := bump (bootstrapsPerIP m) (issuanceIP b)\<rparr>)"
proof (rule manager_ok_boot [OF ok])
  have n: "map_of (bootstraps m) h = None" using h by (simp add: map_of_None_keys)
  have b: "bootstraps_ok m" using ok by (simp add: manager_ok_def)
  have "count_of (bump (bootstrapsPerIP m) (issuanceIP b)) ip =
      count_if (unused_of ip) (AList.update h b (bootstraps m))" for ip
    using b u by (auto simp: bootstraps_ok_def count_of_bump count_if_update_None [OF n])
  then show "bootstraps_ok (m\<lparr>bootstraps := AList.update h b (bootstraps m),
     bootstrapsPerIP := bump (bootstrapsPerIP m) (issuanceIP b)\<rparr>)"
    using b l p u by (auto simp: bootstraps_ok_def length_update_None [OF h] entry_ok_def)
qed

lemma IssueBootstrap_ok:
  assumes ok: "manager_ok m"
    and fresh: "\<And>token h. newToken (tokenKey m) TokenBootstrap random = Some (token, h) \<Longrightarrow> h \<notin> keys (bootstraps m)"
    and i: "IssueBootstrap prof ip random m = (r, m')"
  shows "manager_ok m'"
proof (cases "Option.bind prof (\<lambda>p. MatchCapability (Capability p) m)")
  case None
  then show ?thesis using i ok by (simp add: IssueBootstrap_def)
next
  case (Some p)
  then have p: "p \<in> set (config_profiles m)" by (auto simp: bind_eq_Some_conv dest: MatchCapability_in)
  show ?thesis
  proof (cases "newToken (tokenKey m) TokenBootstrap random = None \<or> mgr_closed m")
    case True
    then have "m' = m" using i Some by (cases "newToken (tokenKey m) TokenBootstrap random") (auto simp: IssueBootstrap_def)
    then show ?thesis using ok by simp
  next
    case False
    then obtain token h where t: "newToken (tokenKey m) TokenBootstrap random = Some (token, h)" by auto
    note fr = fresh [OF t]
    define m1 where "m1 = removeExpiredBootstraps (clock m) m"
    obtain bs pip cl where m1: "m1 = m\<lparr>bootstraps := bs, bootstrapsPerIP := pip, closedTokens := cl\<rparr>"
      using removeExpired_ok(2) [OF ok, of "clock m"] m1_def by auto
    have ok1: "manager_ok m1" unfolding m1_def by (rule removeExpired_ok(1) [OF ok])
    have k1: "h \<notin> keys (bootstraps m1)"
      using removeExpired_ok(4) [OF ok, of "clock m" h] fr unfolding m1_def [symmetric]
      by (simp add: map_of_None_keys [symmetric])
    let ?g = "config_limits m"
    obtain rate allowed where a: "allowRateLocked (bootstrapRate m1) (clock m) (NewBootstrapsPerMinute ?g)
        (NewBootstrapsBurst ?g) = (rate, allowed)" by fastforce
    let ?m2 = "m1\<lparr>bootstrapRate := rate\<rparr>"
    have ok2: "manager_ok ?m2" using ok1 by simp
    obtain evicted m3 where e: "(if len (bootstraps ?m2) \<ge> MaxBootstrapsGlobal ?g
        then evictOldestUnusedBootstrap ?m2 else (True, ?m2)) = (evicted, m3)" by fastforce
    have lim: "len (bootstraps ?m2) \<le> MaxBootstrapsGlobal (config_limits ?m2)"
      using ok2 by (simp add: manager_ok_def bootstraps_ok_def)
    have g: "config_limits ?m2 = ?g" "config_profiles ?m2 = config_profiles m" by (simp_all add: m1)
    have 3: "manager_ok m3 \<and> (\<exists>bs pip. m3 = ?m2\<lparr>bootstraps := bs, bootstrapsPerIP := pip\<rparr>) \<and>
        (evicted \<longrightarrow> len (bootstraps m3) < MaxBootstrapsGlobal ?g) \<and> keys (bootstraps m3) \<subseteq> keys (bootstraps m1)"
    proof (cases "len (bootstraps ?m2) \<ge> MaxBootstrapsGlobal ?g")
      case True
      then have "evictOldestUnusedBootstrap ?m2 = (evicted, m3)" using e by simp
      note v = evict_ok [OF ok2 this]
      show ?thesis using v(1,2,4) v(3) lim g by auto
    next
      case False
      then have "m3 = ?m2" "evicted" using e by auto
      moreover have "?m2 = ?m2\<lparr>bootstraps := bootstraps ?m2, bootstrapsPerIP := bootstrapsPerIP ?m2\<rparr>" by simp
      ultimately show ?thesis using ok2 False by (intro conjI) (blast | simp)+
    qed
    have f3: "config_profiles m3 = config_profiles m" "config_limits m3 = ?g" using 3 g by auto
    have "manager_ok (m3\<lparr>bootstraps := AList.update h b (bootstraps m3),
        bootstrapsPerIP := bump (bootstrapsPerIP m3) ip\<rparr>)"
      if "evicted" "b = \<lparr>expires = ex, bs_profile = p, issuanceIP = ip, bodyDigest = replicate 32 0,
         sessionToken = [], bs_session = None, used = False\<rparr>" for b ex
      using add_bootstrap_ok [of m3 h b] 3 k1 that p f3 by auto
    moreover have "IssueBootstrap prof ip random m =
        (if MaxBootstrapsPerIP ?g \<noteq> 0 \<and> count_of (bootstrapsPerIP m1) ip \<ge> MaxBootstrapsPerIP ?g
         then (Inl ErrLimit, count_limit_hit m1)
         else if \<not> allowed then (Inl ErrLimit, count_limit_hit ?m2)
         else if \<not> evicted then (Inl ErrLimit, count_limit_hit m3)
         else (Inr token, m3\<lparr>bootstraps := AList.update h \<lparr>expires = clock m + BootstrapLifetime (config_timeouts m3),
              bs_profile = p, issuanceIP = ip, bodyDigest = replicate 32 0,
              sessionToken = [], bs_session = None, used = False\<rparr> (bootstraps m3),
            bootstrapsPerIP := bump (bootstrapsPerIP m3) ip\<rparr>))"
      using Some t False a e unfolding IssueBootstrap_def Let_def m1_def [symmetric] by simp
    ultimately show ?thesis using i ok1 ok2 3 by (auto split: if_splits)
  qed
qed

subsection \<open>Sessions\<close>

lemma update_new: "k \<notin> keys al \<Longrightarrow> AList.update k v al = al @ [(k, v)]"
  by (induction al) (auto simp: keys_def)

text \<open>A new object with a new entry of the table.\<close>

lemma add_session_ok:
  assumes ok: "manager_ok m" and sh: "sh \<notin> keys (sessions m)" and p: "prof \<in> set (config_profiles m)"
    and l: "len (sessions m) < MaxSessionsGlobal (config_limits m)"
    and lp: "count_of (sessionsPerProfile m) (Name prof) < MaxSessions_p (Profile_Limits prof)"
    and li: "MaxSessionsPerIP (config_limits m) \<noteq> 0 \<longrightarrow>
      count_of (sessionsPerIP m) ip < MaxSessionsPerIP (config_limits m)"
    and s: "session_ok s" "pendingCost s = 0" "pendingItems s = 0" "clientIP s = ip" "profile s = prof"
  shows "manager_ok (m\<lparr>objs := AList.update (next_obj m) s (objs m), next_obj := next_obj m + 1,
     sessions := AList.update sh (next_obj m) (sessions m),
     sessionsPerIP := bump (sessionsPerIP m) ip, sessionsPerProfile := bump (sessionsPerProfile m) (Name prof)\<rparr>)"
    (is "manager_ok ?m")
proof -
  have t: "table_ok m" "objects_ok m" "bootstraps_ok m" "manager_config_ok m"
    using ok by (simp_all add: manager_ok_def)
  have new: "next_obj m \<notin> keys (objs m)" using t(1) by (auto simp: table_ok_def)
  have n: "map_of (sessions m) sh = None" "map_of (objs m) (next_obj m) = None"
    using sh new by (simp_all add: map_of_None_keys)
  have old: "r \<noteq> next_obj m" if "(k, r) \<in> set (sessions m)" for k r
  proof -
    have "r \<in> snd ` set (sessions m)" using that by force
    moreover have "snd ` set (sessions m) \<subseteq> keys (objs m)" using t(1) by (simp add: table_ok_def)
    ultimately show ?thesis using new by blast
  qed
  have o: "obj ?m r = (if r = next_obj m then s else obj m r)" for r by (simp add: obj_def)
  have c: "count_if (\<lambda>r. P (obj ?m r)) (AList.update sh (next_obj m) (sessions m)) =
      count_if (\<lambda>r. P (obj m r)) (sessions m) + (if P s then 1 else 0)" for P
  proof -
    have "count_if (\<lambda>r. P (obj ?m r)) (sessions m) = count_if (\<lambda>r. P (obj m r)) (sessions m)"
    proof (rule count_if_cong)
      fix k r assume "(k, r) \<in> set (sessions m)"
      then have "obj ?m r = obj m r" using old o by simp
      then show "P (obj ?m r) = P (obj m r)" by (rule arg_cong)
    qed
    moreover have "obj ?m (next_obj m) = s" by (simp add: obj_def)
    ultimately show ?thesis unfolding count_if_update_None [OF n(1)] by presburger
  qed
  have vals: "snd ` set (AList.update sh (next_obj m) (sessions m)) = insert (next_obj m) (snd ` set (sessions m))"
    by (simp add: update_new [OF sh])
  have "manager_config_ok ?m" using t(4) by (simp add: manager_config_ok_def)
  moreover have "bootstraps_ok ?m"
  proof -
    have "entry_ok P R b \<Longrightarrow> R \<subseteq> R' \<Longrightarrow> entry_ok P R' b" for P R R' b
      by (auto simp: entry_ok_def split: if_splits)
    then have "all_vals (\<lambda>_. entry_ok (set (config_profiles m)) (insert (next_obj m) (snd ` set (sessions m)))) (bootstraps m)"
      using t(3) unfolding bootstraps_ok_def by (elim conjE all_vals_mono) blast
    then show ?thesis using t(3) by (simp add: bootstraps_ok_def vals)
  qed
  moreover have "table_ok ?m"
  proof -
    have inj: "prof = p'" if "p' \<in> set (config_profiles m)" "Name p' = Name prof" for p'
      using t(4) that p by (auto simp: manager_config_ok_def inj_on_def)
    have "distinct (map snd (AList.update sh (next_obj m) (sessions m)))"
      using t(1) new by (auto simp: update_new [OF sh] table_ok_def)
    moreover have "count_of (bump (sessionsPerProfile m) (Name prof)) (Name p') \<le> MaxSessions_p (Profile_Limits p')"
      if "p' \<in> set (config_profiles m)" for p'
      using t(1) that lp inj [OF that] by (auto simp: table_ok_def count_of_bump)
    ultimately show ?thesis
      using t(1) l li c [of "\<lambda>s. clientIP s = i" for i] c [of "\<lambda>s. Name (profile s) = i" for i] s
      by (auto simp: table_ok_def vals length_update_None [OF sh] count_of_bump less_Suc_eq)
  qed
  moreover have "objects_ok ?m"
    using t(2) s new by (auto simp: objects_ok_def sum_vals_update_None)
  moreover have "ledger_ok ?m" using ok by (simp add: manager_ok_def ledger_ok_def)
  ultimately show ?thesis by (simp add: manager_ok_def)
qed

text \<open>The entry that is redeemed gives its slot back and leads to the session.\<close>

lemma releaseUnused_shape:
  "\<exists>pip. releaseUnusedBootstrap b m = m\<lparr>bootstrapsPerIP := pip\<rparr>"
  by (cases "used b") (auto simp: releaseUnusedBootstrap_def Let_def intro: exI [of _ "bootstrapsPerIP m"])

lemma use_bootstrap_ok:
  assumes ok: "manager_ok m" and b: "map_of (bootstraps m) th = Some b" and u: "\<not> used b"
    and b': "used b'" "bs_session b' = Some ref" "ref \<in> snd ` set (sessions m)" "bs_profile b' = bs_profile b"
  shows "manager_ok ((releaseUnusedBootstrap b m)\<lparr>bootstraps := AList.update th b' (bootstraps m)\<rparr>)"
proof -
  obtain pip where r: "releaseUnusedBootstrap b m = m\<lparr>bootstrapsPerIP := pip\<rparr>"
    using releaseUnused_shape by blast
  have t: "bootstraps_ok m" using ok by (simp add: manager_ok_def)
  have d: "distinct_keys (bootstraps m)"
    and c: "\<forall>ip. count_of (bootstrapsPerIP m) ip = count_if (unused_of ip) (bootstraps m)"
    and e: "entry_ok (set (config_profiles m)) (snd ` set (sessions m)) b"
    using t b by (auto simp: bootstraps_ok_def dest: all_valsD)
  have pip: "count_of pip ip = count_if (unused_of ip) (bootstraps m) - (if unused_of ip b then 1 else 0)" for ip
    using releaseUnused_count [OF c d b, of ip] by (simp add: r)
  have "entry_ok (set (config_profiles m)) (snd ` set (sessions m)) b'"
    using b' e by (simp add: entry_ok_def)
  then have "bootstraps_ok (m\<lparr>bootstraps := AList.update th b' (bootstraps m), bootstrapsPerIP := pip\<rparr>)"
    using t b b' u map_of_keys [OF b] pip
    by (auto simp: bootstraps_ok_def count_if_update_Some [OF d b] length_update_Some)
  from manager_ok_boot [OF ok this]
  have "manager_ok (m\<lparr>bootstraps := AList.update th b' (bootstraps m), bootstrapsPerIP := pip\<rparr>)" .
  moreover have "(releaseUnusedBootstrap b m)\<lparr>bootstraps := AList.update th b' (bootstraps m)\<rparr> =
      m\<lparr>bootstraps := AList.update th b' (bootstraps m), bootstrapsPerIP := pip\<rparr>"
    by (rule manager.equality) (simp_all add: r)
  ultimately show ?thesis by simp
qed

lemma newSession_fields [simp]:
  "pendingCost (newSession prof ip lims now) = 0" "pendingItems (newSession prof ip lims now) = 0"
  "clientIP (newSession prof ip lims now) = ip" "profile (newSession prof ip lims now) = prof"
  "limits (newSession prof ip lims now) = lims" "streams (newSession prof ip lims now) = []"
  "closed (newSession prof ip lims now) = False"
  by (simp_all add: newSession_def Let_def)

lemma Create_ok:
  assumes ok: "manager_ok m"
    and fresh: "\<And>token h. newToken (tokenKey m) TokenSession random = Some (token, h) \<Longrightarrow> h \<notin> keys (sessions m)"
    and c: "Create token ip bytes random m = (r, m')"
  shows "manager_ok m'"
proof (cases "ParseHello bytes = None \<and> (\<exists>th entry. tokenHash token = Some th \<and>
    map_of (bootstraps m) th = Some entry \<and> \<not> clock m > expires entry \<and> \<not> used entry)")
  case False
  then have "m' = m"
    using c by (auto simp: Create_def Let_def split: option.splits if_splits)
  then show ?thesis using ok by simp
next
  case True
  then obtain th entry where h: "ParseHello bytes = None" "tokenHash token = Some th"
      "map_of (bootstraps m) th = Some entry" "\<not> clock m > expires entry" "\<not> used entry" by auto
  let ?prof = "bs_profile entry" and ?g = "config_limits m"
  let ?pl = "Profile_Limits ?prof"
  define full where "full \<longleftrightarrow> mgr_closed m \<or> len (sessions m) \<ge> MaxSessionsGlobal ?g \<or>
      count_of (sessionsPerProfile m) (Name ?prof) \<ge> MaxSessions_p ?pl \<or>
      (MaxSessionsPerIP ?g \<noteq> 0 \<and> count_of (sessionsPerIP m) ip \<ge> MaxSessionsPerIP ?g)"
  obtain sr rs allowed where a: "allowProfileRateLocked (sessionRate m) (profileSessionRates m) (Name ?prof)
      (clock m) (NewSessionsPerMinute ?g) (NewSessionsBurst ?g) (NewSessionsPerMinute_p ?pl)
      (NewSessionsBurst_p ?pl) = (sr, rs, allowed)" by (metis prod_cases3)
  let ?m0 = "m\<lparr>sessionRate := sr, profileSessionRates := rs\<rparr>"
  have ok0: "manager_ok ?m0" using ok by simp
  show ?thesis
  proof (cases "full \<or> \<not> allowed \<or> newToken (tokenKey m) TokenSession random = None")
    case True
    then have "m' = count_limit_hit m \<or> m' = count_limit_hit ?m0 \<or> m' = ?m0"
      using c h a unfolding Create_def Let_def full_def
      by (auto split: if_splits)
    then show ?thesis using ok ok0 by auto
  next
    case False
    then obtain stoken sh where t: "newToken (tokenKey m) TokenSession random = Some (stoken, sh)" by auto
    let ?s = "newSession ?prof ip (session_limits ?g ?pl) (clock m)"
    let ?m1 = "?m0\<lparr>objs := AList.update (next_obj m) ?s (objs m), next_obj := next_obj m + 1,
        sessions := AList.update sh (next_obj m) (sessions m),
        sessionsPerIP := bump (sessionsPerIP m) ip, sessionsPerProfile := bump (sessionsPerProfile m) (Name ?prof)\<rparr>"
    let ?e = "entry\<lparr>used := True, bodyDigest := Sum256 bytes, sessionToken := stoken, bs_session := Some (next_obj m)\<rparr>"
    have p: "?prof \<in> set (config_profiles m)" and cfg: "limits_ok (session_limits ?g ?pl)"
    proof -
      show "?prof \<in> set (config_profiles m)"
        using ok h(3) by (auto simp: manager_ok_def bootstraps_ok_def entry_ok_def dest: all_valsD)
      then show "limits_ok (session_limits ?g ?pl)"
        using ok by (simp add: manager_ok_def manager_config_ok_def)
    qed
    have sh: "sh \<notin> keys (sessions m)" by (rule fresh [OF t])
    have "manager_ok ?m1"
      using add_session_ok [OF ok0, of sh ?prof ip ?s] False sh p newSession_ok [OF cfg]
      by (auto simp: full_def not_le)
    moreover have "map_of (bootstraps ?m1) th = Some entry" using h by simp
    moreover have "next_obj m \<in> snd ` set (sessions ?m1)" by (simp add: update_new [OF sh])
    ultimately have "manager_ok ((releaseUnusedBootstrap entry ?m1)\<lparr>bootstraps := AList.update th ?e (bootstraps ?m1)\<rparr>)"
      using h(5) by (intro use_bootstrap_ok [where ref = "next_obj m"]) simp_all
    moreover have "m' = ((releaseUnusedBootstrap entry ?m1)\<lparr>bootstraps := AList.update th ?e (bootstraps ?m1)\<rparr>)
        \<lparr>sessionsCreated := sessionsCreated m + 1\<rparr>"
    proof -
      obtain pip where r: "releaseUnusedBootstrap entry ?m1 = ?m1\<lparr>bootstrapsPerIP := pip\<rparr>"
        using releaseUnused_shape by blast
      have "m' = (let m = releaseUnusedBootstrap entry ?m1 in
          m\<lparr>bootstraps := AList.update th ?e (bootstraps m), sessionsCreated := sessionsCreated m + 1\<rparr>)"
      proof -
        have nf: "\<not> mgr_closed m" "\<not> len (sessions m) \<ge> MaxSessionsGlobal ?g"
          "\<not> count_of (sessionsPerProfile m) (Name ?prof) \<ge> MaxSessions_p ?pl" "allowed"
          using False by (simp_all add: full_def)
        show ?thesis
        proof (cases "MaxSessionsPerIP ?g = 0")
          case True
          then show ?thesis using c h a t nf unfolding Create_def Let_def by simp
        next
          case ip: False
          then have "\<not> count_of (sessionsPerIP m) ip \<ge> MaxSessionsPerIP ?g" using False by (simp add: full_def)
          then show ?thesis using c h a t nf unfolding Create_def Let_def by simp
        qed
      qed
      then show ?thesis unfolding Let_def r by simp
    qed
    ultimately show ?thesis by simp
  qed
qed

subsection \<open>The end of a session\<close>

lemma remove_bootstraps_commute:
  "remove_bootstraps P es (m\<lparr>sessions := t, closedTokens := cl, sessionsPerIP := ipc, sessionsPerProfile := pp\<rparr>) =
     (remove_bootstraps P es m)\<lparr>sessions := t, closedTokens := cl, sessionsPerIP := ipc, sessionsPerProfile := pp\<rparr>"
proof (induction es arbitrary: m)
  case (Cons e es)
  obtain h b where e: "e = (h, b)" by (cases e)
  have "removeBootstrap h b (m\<lparr>sessions := t, closedTokens := cl, sessionsPerIP := ipc, sessionsPerProfile := pp\<rparr>) =
      (removeBootstrap h b m)\<lparr>sessions := t, closedTokens := cl, sessionsPerIP := ipc, sessionsPerProfile := pp\<rparr>"
    by (rule manager.equality) (simp_all add: removeBootstrap_def releaseUnusedBootstrap_def Let_def)
  then show ?case using Cons.IH by (simp add: e)
qed simp

lemma drop_session_ok:
  assumes ok: "manager_ok m" and h: "map_of (sessions m) h = Some ref" and s: "map_of (objs m) ref = Some s"
    and b: "\<And>k b. map_of (bootstraps m) k = Some b \<Longrightarrow> bs_session b \<noteq> Some ref"
  shows "manager_ok (m\<lparr>sessions := AList.delete h (sessions m), closedTokens := cl,
     sessionsPerIP := drop_one (sessionsPerIP m) (clientIP s),
     sessionsPerProfile := drop_one (sessionsPerProfile m) (Name (profile s))\<rparr>)" (is "manager_ok ?m")
proof -
  have t: "table_ok m" "objects_ok m" "bootstraps_ok m" "manager_config_ok m"
    using ok by (simp_all add: manager_ok_def)
  have d: "distinct_keys (sessions m)" "distinct (map snd (sessions m))" "distinct_keys (bootstraps m)"
    using t by (simp_all add: table_ok_def bootstraps_ok_def)
  have o: "obj m ref = s" using s by (simp add: obj_def)
  have vals: "r \<in> snd ` set (AList.delete h (sessions m))" if r: "r \<in> snd ` set (sessions m)" "r \<noteq> ref" for r
  proof -
    obtain k where k: "(k, r) \<in> set (sessions m)" using r(1) by auto
    have "k \<noteq> h" using k r(2) h map_of_self [OF d(1)] by auto
    then have "(k, r) \<in> set (AList.delete h (sessions m))" using k by (simp add: AList.delete_eq)
    then show ?thesis by force
  qed
  have sub: "set (AList.delete h (sessions m)) \<subseteq> set (sessions m)" by (auto simp: AList.delete_eq)
  have cnt: "count_if P (AList.delete h (sessions m)) = count_if P (sessions m) - (if P ref then 1 else 0)" for P
    by (rule count_if_delete [OF d(1) h])
  have "manager_config_ok ?m" using t(4) by (simp add: manager_config_ok_def)
  moreover have "bootstraps_ok ?m"
  proof -
    have "entry_ok (set (config_profiles m)) (snd ` set (AList.delete h (sessions m))) e"
      if "map_of (bootstraps m) k = Some e" for k e
    proof -
      have "entry_ok (set (config_profiles m)) (snd ` set (sessions m)) e"
        using t(3) that by (auto simp: bootstraps_ok_def dest: all_valsD)
      then show ?thesis using b [OF that] vals unfolding entry_ok_def by metis
    qed
    then have "all_vals (\<lambda>_. entry_ok (set (config_profiles m)) (snd ` set (AList.delete h (sessions m)))) (bootstraps m)"
      unfolding all_vals_def using in_set_map_of [OF d(3)] by (auto simp: list_all_iff)
    then show ?thesis using t(3) by (simp add: bootstraps_ok_def)
  qed
  moreover have "table_ok ?m"
  proof -
    have "distinct (map snd (AList.delete h (sessions m)))"
      using d(2) by (simp add: AList.delete_eq distinct_map_filter)
    moreover have "snd ` set (AList.delete h (sessions m)) \<subseteq> keys (objs m)"
      using t(1) sub by (auto simp: table_ok_def)
    moreover have "len (AList.delete h (sessions m)) \<le> MaxSessionsGlobal (config_limits m)"
      using t(1) length_delete_le [of h "sessions m"] by (simp add: table_ok_def)
    moreover have "count_of (drop_one (sessionsPerProfile m) (Name (profile s))) (Name p) \<le> MaxSessions_p (Profile_Limits p)"
      if "p \<in> set (config_profiles m)" for p
    proof -
      have "count_of (sessionsPerProfile m) (Name p) \<le> MaxSessions_p (Profile_Limits p)"
        using t(1) that unfolding table_ok_def by blast
      then show ?thesis by (auto simp: count_of_drop_one)
    qed
    moreover have "count_of (drop_one (sessionsPerIP m) (clientIP s)) ip \<le> MaxSessionsPerIP (config_limits m)"
      if "MaxSessionsPerIP (config_limits m) \<noteq> 0" for ip
    proof -
      have "count_of (sessionsPerIP m) ip \<le> MaxSessionsPerIP (config_limits m)"
        using t(1) that unfolding table_ok_def by blast
      then show ?thesis by (auto simp: count_of_drop_one)
    qed
    moreover have "count_of (drop_one (sessionsPerIP m) (clientIP s)) ip =
        count_if (\<lambda>r. clientIP (obj m r) = ip) (AList.delete h (sessions m))" for ip
      using t(1) by (auto simp: count_of_drop_one cnt o table_ok_def)
    moreover have "count_of (drop_one (sessionsPerProfile m) (Name (profile s))) name =
        count_if (\<lambda>r. Name (profile (obj m r)) = name) (AList.delete h (sessions m))" for name
      using t(1) by (auto simp: count_of_drop_one cnt o table_ok_def)
    moreover have "\<forall>ref \<in> keys (objs m). ref < next_obj m" using t(1) by (simp add: table_ok_def)
    ultimately show ?thesis
      using d(1) unfolding table_ok_def by (intro conjI) (simp | blast)+
  qed
  moreover have "objects_ok ?m" using t(2) by (simp add: objects_ok_def)
  moreover have "ledger_ok ?m" using ok by (simp add: manager_ok_def ledger_ok_def)
  ultimately show ?thesis by (simp add: manager_ok_def)
qed

lemma sessionFinished_ok:
  assumes ok: "manager_ok m" and s: "map_of (objs m) ref = Some s"
  shows "manager_ok (sessionFinished ref s m)"
    and "ref \<notin> snd ` set (sessions (sessionFinished ref s m))"
proof -
  let ?P = "\<lambda>b. bs_session b = Some ref"
  let ?r = "remove_bootstraps ?P (bootstraps m) m"
  note r = remove_all_bootstraps_ok [OF ok, of ?P]
  have d: "distinct_keys (sessions m)" "distinct (map snd (sessions m))"
    using ok by (simp_all add: manager_ok_def table_ok_def)
  have b: "bs_session e \<noteq> Some ref" if "map_of (bootstraps ?r) k = Some e" for k e
    using that r(4) [of k] by (auto split: option.splits if_splits)
  obtain bs pip where e: "?r = m\<lparr>bootstraps := bs, bootstrapsPerIP := pip\<rparr>" using r(2) by blast
  have f: "sessions ?r = sessions m" "objs ?r = objs m" "sessionsPerIP ?r = sessionsPerIP m"
    "sessionsPerProfile ?r = sessionsPerProfile m" "sessionsClosed ?r = sessionsClosed m" by (simp_all add: e)
  have "manager_ok (sessionFinished ref s m) \<and> ref \<notin> snd ` set (sessions (sessionFinished ref s m))"
  proof (cases "find (\<lambda>(_, r). r = ref) (sessions m)")
    case None
    then have "ref \<notin> snd ` set (sessions m)" by (force simp: find_None_iff)
    then show ?thesis using None r(1) f by (simp add: sessionFinished_def Let_def)
  next
    case (Some hr)
    obtain h where hr: "hr = (h, ref)" and mem: "(h, ref) \<in> set (sessions m)"
    proof -
      obtain i where "i < length (sessions m)" "(case sessions m ! i of (_, r) \<Rightarrow> r = ref)" "hr = sessions m ! i"
        using Some by (auto simp: find_Some_iff)
      then show thesis using that [of "fst hr"] nth_mem [of i "sessions m"] by (cases hr) auto
    qed
    have h: "map_of (sessions m) h = Some ref" by (rule map_of_self [OF d(1) mem])
    define cl where "cl = AList.update h (clock m + BootstrapLifetime (config_timeouts m))
       (if len (closedTokens m) \<ge> MaxSessionsGlobal (config_limits m) * 16
        then AList.delete (fst (oldest_closed (closedTokens m) (replicate 32 0, 0))) (closedTokens m)
        else closedTokens m)"
    have "sessionFinished ref s m = (?r\<lparr>sessions := AList.delete h (sessions m), closedTokens := cl,
        sessionsPerIP := drop_one (sessionsPerIP m) (clientIP s),
        sessionsPerProfile := drop_one (sessionsPerProfile m) (Name (profile s))\<rparr>)
        \<lparr>sessionsClosed := sessionsClosed m + 1\<rparr>"
      using Some hr f(5) by (simp add: sessionFinished_def Let_def remove_bootstraps_commute cl_def)
    moreover have "manager_ok (?r\<lparr>sessions := AList.delete h (sessions ?r), closedTokens := cl,
        sessionsPerIP := drop_one (sessionsPerIP ?r) (clientIP s),
        sessionsPerProfile := drop_one (sessionsPerProfile ?r) (Name (profile s))\<rparr>)"
      by (rule drop_session_ok [OF r(1) _ _ b]) (use h s f in simp_all)
    moreover have "ref \<notin> snd ` set (AList.delete h (sessions m))"
    proof
      assume "ref \<in> snd ` set (AList.delete h (sessions m))"
      then obtain k where "(k, ref) \<in> set (sessions m)" "k \<noteq> h" by (auto simp: AList.delete_eq)
      moreover have "inj_on snd (set (sessions m))" using d(2) by (simp add: distinct_map)
      ultimately have "(k, ref) = (h, ref)" using mem by (intro inj_onD [of snd "set (sessions m)"]) simp_all
      then show False using \<open>k \<noteq> h\<close> by simp
    qed
    ultimately show ?thesis by (simp add: f)
  qed
  then show "manager_ok (sessionFinished ref s m)" "ref \<notin> snd ` set (sessions (sessionFinished ref s m))" by blast+
qed

subsection \<open>Closing\<close>

lemma sessions_have_objects: "manager_ok m \<Longrightarrow> snd ` set (sessions m) \<subseteq> keys (objs m)"
  by (simp add: manager_ok_def table_ok_def)

lemma CloseToken_ok:
  assumes ok: "manager_ok m"
  shows "ok_with (CloseToken token m) (\<lambda>(r, bs, m'). manager_ok m')"
proof -
  have close: "ok_with (close_object ref m) (\<lambda>(bs, m'). manager_ok m')" if "map_of (sessions m) h = Some ref" for h ref
  proof -
    have "ref \<in> keys (objs m)" using sessions_have_objects [OF ok] map_of_in_set [OF that] by force
    from close_object_ok [OF ok this] show ?thesis by (rule ok_with_mono2) blast
  qed
  have "ok_with (map_option (\<lambda>(bs, m). (None :: manager_error option, bs, m)) (close_object ref m)) (\<lambda>(r, bs, m'). manager_ok m')"
    if "map_of (sessions m) h = Some ref" for h ref
    using close [OF that] by (cases "close_object ref m") auto
  then show ?thesis using ok by (simp add: CloseToken_def split: option.split)
qed

lemma cleanup_tick_ok:
  assumes ok: "manager_ok m"
  shows "ok_with (cleanup_tick m) (\<lambda>(bs, m'). manager_ok m')"
proof -
  note r = removeExpired_ok(1) [OF ok, of "clock m"]
  show ?thesis
    unfolding cleanup_tick_def Let_def
  proof (rule ok_with_mono [OF close_objects_ok [OF r]], goal_cases)
    case 1
    show ?case using sessions_have_objects [OF r] by simp
  next
    case (2 x)
    then show ?case by (cases x) simp
  qed
qed

lemma Shutdown_manager_ok:
  assumes ok: "manager_ok m"
  shows "ok_with (Shutdown_manager m) (\<lambda>(bs, m'). manager_ok m')"
proof -
  have ok1: "manager_ok (m\<lparr>mgr_closed := True\<rparr>)" using ok by simp
  have "set (map snd (sessions m)) \<subseteq> keys (objs (m\<lparr>mgr_closed := True\<rparr>))"
    using sessions_have_objects [OF ok] by simp
  from close_objects_ok [OF ok1 this]
  have "ok_with (close_objects (\<lambda>_. True) (map snd (sessions m)) (m\<lparr>mgr_closed := True\<rparr>)) (\<lambda>(bs, m'). manager_ok m')"
    by (rule ok_with_mono2) blast
  then show ?thesis using ok by (simp add: Shutdown_manager_def)
qed

end
