(* ===== verification/Stream_Count.thy ===== *)
theory Stream_Count
  imports Uplink Backend
begin

text \<open>
  How the session's operations move the owner's count of streams. \<open>stream_owner\<close> adds to the
  laws of the owner that only \<open>acquireStream\<close> changes the count \<open>live\<close>, by \<open>weight\<close> when it
  grants a stream. Then an operation changes the count exactly by the backend streams it
  hands to its caller to be started, and no other operation changes it.
\<close>

locale stream_owner = session_owner cb owner_ok pool_cost pool_items
  for cb :: "'e callbacks" and owner_ok and pool_cost and pool_items +
  fixes live :: "'e \<Rightarrow> int" and weight :: int
  assumes budget_live: "budget cb c i cls e = Some (b, e') \<Longrightarrow> live e' = live e"
  and acquire_live: "acquireStream cb e = (b, e') \<Longrightarrow> live e' = live e + (if b then weight else 0)"
  and callbacks_live: "live (onStreamRejected cb e) = live e" "live (onUp cb n e) = live e"
    "live (onDown cb n e) = live e"

context stream_owner
begin

lemma reservePending_live: "reservePending cb c i cls s e = Some (b, s', e') \<Longrightarrow> live e' = live e"
  by (auto simp: reservePending_def bind_eq_Some_conv dest: budget_live split: prod.split_asm if_split_asm)

lemma releasePending_live: "releasePending cb c i s e = Some (s', e') \<Longrightarrow> live e' = live e"
  by (auto simp: releasePending_def bind_eq_Some_conv dest: budget_live split: if_split_asm)

lemma queueFrame_live: "queueFrame cb t sid p s e = Some (b, s', e') \<Longrightarrow> live e' = live e"
  by (auto simp: queueFrame_def dest: reservePending_live
      split: bind_split_asm option.split_asm queue_plan.split_asm if_split_asm prod.split_asm)

lemma releaseStreamWrites_live: "releaseStreamWrites cb st s e = Some (s', e') \<Longrightarrow> live e' = live e"
  by (auto simp: releaseStreamWrites_def dest: releasePending_live split: if_split_asm)

lemma releaseLane_live: "releaseLane cb k lane s e = Some (s', e') \<Longrightarrow> live e' = live e"
  by (auto simp: releaseLane_def Let_def bind_eq_Some_conv dest: releasePending_live split: if_split_asm)

lemma evict_oldest_live: "evict_oldest cb sid s e = Some (s', e') \<Longrightarrow> live e' = live e"
  by (auto simp: evict_oldest_def Let_def bind_eq_Some_conv dest: releaseLane_live
      split: if_split_asm option.split_asm)

lemma rememberClosed_live: "rememberClosed cb sid s e = Some (s', e') \<Longrightarrow> live e' = live e"
  by (auto simp: rememberClosed_def Let_def bind_eq_Some_conv dest: evict_oldest_live split: if_split_asm)

lemma closeLocked_live: "closeLocked cb s e = Some (bs, s', e') \<Longrightarrow> live e' = live e"
  by (auto simp: closeLocked_def Let_def bind_eq_Some_conv dest: budget_live split: if_split_asm)

lemma ReleaseWebSocketLane_live:
  "ReleaseWebSocketLane cb k now s e = Some (b, s', e') \<Longrightarrow> live e' = live e"
  by (auto simp: ReleaseWebSocketLane_def Let_def bind_eq_Some_conv
      dest!: releaseStreamWrites_live rememberClosed_live releaseLane_live split: if_split_asm option.split_asm)

lemma laneProtocolFailure_live:
  "laneProtocolFailure cb k now s e = Some (bs, s', e') \<Longrightarrow> live e' = live e"
  by (auto simp: laneProtocolFailure_def protocolFailure_def bind_eq_Some_conv
      dest: ReleaseWebSocketLane_live closeLocked_live split: if_split_asm)

lemmas session_live = reservePending_live releasePending_live queueFrame_live releaseStreamWrites_live
  releaseLane_live rememberClosed_live closeLocked_live ReleaseWebSocketLane_live laneProtocolFailure_live

subsection \<open>The uplink\<close>

lemma apply_open_live:
  assumes "apply_open cb sid a s e = Some (a', s', e')"
  shows "live e' = live e + weight * (len (opened a') - len (opened a))"
proof -
  obtain b e1 where b: "(if len (streams s) \<ge> MaxStreamsPerSession (limits s) then (False, e)
      else acquireStream cb e) = (b, e1)" by fastforce
  have l: "live e1 = live e + (if b then weight else 0)"
    using b acquire_live [of e b e1] by (auto split: if_split_asm)
  show ?thesis
  proof (cases b)
    case True
    then show ?thesis using assms b l unfolding apply_open_def by (auto simp: Let_def)
  next
    case False
    then show ?thesis using assms b l unfolding apply_open_def
      by (auto simp: bind_eq_Some_conv callbacks_live Let_def dest!: rememberClosed_live queueFrame_live)
  qed
qed

lemma apply_data_opened: "opened (fst (apply_data v st a s)) = opened a"
  by (simp add: apply_data_def split: prod.split)

lemma apply_close_live:
  "apply_close cb sid st a s e = Some (a', s', e') \<Longrightarrow> live e' = live e \<and> opened a' = opened a"
  by (auto simp: apply_close_def bind_eq_Some_conv dest!: releaseStreamWrites_live rememberClosed_live)

lemma apply_frame_live:
  assumes "apply_frame cb v a s e = Some (a', s', e')"
  shows "live e' = live e + weight * (len (opened a') - len (opened a))"
proof (cases "StreamID v \<noteq> 0 \<and> Type v = Open")
  case True
  then show ?thesis using assms apply_open_live by (simp add: apply_frame_def Let_def)
next
  case False
  consider "StreamID v = 0" | "StreamID v \<noteq> 0" "Type v = Data" | "StreamID v \<noteq> 0" "Type v = Window"
    | "StreamID v \<noteq> 0" "Type v = Close" | "Type v \<notin> {Open, Data, Window, Close}" using False by blast
  then have "live e' = live e \<and> opened a' = opened a"
  proof cases
    case 2
    then show ?thesis
      using assms
      by (auto simp: apply_frame_def Let_def dest!: arg_cong [where f = "\<lambda>p. opened (fst p)"]
          simp: apply_data_opened split: bind_split_asm if_split_asm prod.split_asm)
  next
    case 4
    then show ?thesis
      using assms apply_close_live
      by (auto simp: apply_frame_def Let_def bind_eq_Some_conv split: if_split_asm)
  qed (use assms in \<open>auto simp: apply_frame_def Let_def bind_eq_Some_conv split: if_split_asm\<close>)
  then show ?thesis by simp
qed

lemma apply_loop_live:
  "apply_loop cb vs a s e = Some (a', s', e') \<Longrightarrow>
     live e' = live e + weight * (len (opened a') - len (opened a))"
proof (induction vs arbitrary: a s e)
  case (Cons v vs)
  obtain a1 s1 e1 where f: "apply_frame cb v a s e = Some (a1, s1, e1)"
    and r: "(if \<not> applied a1 then Some (a1, s1, e1) else apply_loop cb vs a1 s1 e1) = Some (a', s', e')"
    using Cons.prems by (auto simp: bind_eq_Some_conv)
  have "live e' = live e1 + weight * (len (opened a') - len (opened a1))"
    using r Cons.IH by (auto split: if_split_asm)
  then show ?case using apply_frame_live [OF f] by (simp add: algebra_simps)
qed simp

lemma reserve_and_apply_live:
  assumes "reserve_and_apply cb frames s e = Some (r, s', e')"
  shows "live e' = live e + weight * (case r of None \<Rightarrow> 0 | Some a \<Rightarrow> len (opened a))"
  using assms
  by (auto simp: reserve_and_apply_def applyBatch_def bind_eq_Some_conv
      dest!: reservePending_live releasePending_live apply_loop_live split: prod.split_asm if_split_asm)

text \<open>What follows the application of a batch, the same for a session and for a lane.\<close>

lemma applied_live:
  assumes "reserve_and_apply cb frames s e \<bind> (\<lambda>(r, s, e). case r of
       None \<Rightarrow> Some (Answer (Inl ErrBackpressure), no_effects, s, e)
     | Some a \<Rightarrow> if applied a then Some (Applied q, a, f s, e) else Some (CloseAfter, a, s, e)) = Some (r, a, s', e')"
  shows "live e' = live e + weight * len (opened a)"
proof -
  obtain x s1 e1 where "reserve_and_apply cb frames s e = Some (x, s1, e1)"
    and "(case x of None \<Rightarrow> Some (Answer (Inl ErrBackpressure), no_effects, s1, e1)
     | Some a \<Rightarrow> if applied a then Some (Applied q, a, f s1, e1) else Some (CloseAfter, a, s1, e1)) = Some (r, a, s', e')"
    using assms by (auto simp: bind_eq_Some_conv)
  then show ?thesis
    using reserve_and_apply_live by (cases x) (fastforce simp: no_effects_def split: if_split_asm)+
qed

lemma up_commit_live:
  assumes "up_commit cb q d parsed s e = Some (r, a, s', e')"
  shows "live e' = live e + weight * len (opened a)"
proof (cases "closed s \<or> parsed = None \<or> \<not> validateBatch (s\<lparr>mux := (mux s)\<lparr>upActive := False\<rparr>\<rparr>) (the parsed)")
  case True
  then show ?thesis using assms
    by (auto simp: up_commit_def Let_def no_effects_def split: option.split_asm if_split_asm)
next
  case False
  then obtain frames where "parsed = Some frames" by auto
  then show ?thesis using assms False unfolding up_commit_def Let_def by (simp add: applied_live)
qed

text \<open>The last part of both handlers.\<close>

lemma finish_up_live:
  assumes "live e1 = n + weight * len (opened a1)"
    and "\<And>bs s2 e2. fail s1 e1 = Some (bs, s2, e2) \<Longrightarrow> live e2 = live e1"
    and "(case x of
        Applied q \<Rightarrow> Some (Inr q, a1, s1, onUp cb k e1)
      | Answer r \<Rightarrow> Some (r, a1, s1, e1)
      | CloseAfter \<Rightarrow> do { (bs, s, e) \<leftarrow> closeLocked cb s1 e1; Some (Inl ErrClosed, a1\<lparr>closing := closing a1 @ bs\<rparr>, s, e) }
      | _ \<Rightarrow> do { (bs, s, e) \<leftarrow> fail s1 e1; Some (Inl ErrProtocol, a1\<lparr>closing := closing a1 @ bs\<rparr>, s, e) })
      = Some (r, a, s', e')"
  shows "live e' = n + weight * len (opened a)"
  using assms(1,3)
  by (cases x) (auto simp: bind_eq_Some_conv callbacks_live dest!: closeLocked_live assms(2))

lemma ProcessUp_live:
  assumes "ProcessUp cb q bytes now s e = Some (r, a, s', e')"
  shows "live e' = live e + weight * len (opened a)"
proof (cases "usesCarrierLanes s")
  case True
  then show ?thesis using assms by (auto simp: ProcessUp_def no_effects_def)
next
  case False
  obtain x s1 where b: "up_begin q (Sum256 bytes) now s = (x, s1)" by fastforce
  consider (answer) v where "x = Answer v" | (protocol) "x = Protocol" | (go) "x = Continue \<or> x = CloseAfter \<or> (\<exists>v. x = Applied v)"
    by (cases x) auto
  then show ?thesis
  proof cases
    case go
    then obtain y a1 s2 e1 where c: "up_commit cb q (Sum256 bytes) (parse_client (MaxFramePayload (limits s1)) bytes) s1 e
        = Some (y, a1, s2, e1)"
      and f: "(case y of
        Applied q \<Rightarrow> Some (Inr q, a1, s2, onUp cb (len bytes) e1)
      | Answer r \<Rightarrow> Some (r, a1, s2, e1)
      | CloseAfter \<Rightarrow> do { (bs, s, e) \<leftarrow> closeLocked cb s2 e1; Some (Inl ErrClosed, a1\<lparr>closing := closing a1 @ bs\<rparr>, s, e) }
      | _ \<Rightarrow> do { (bs, s, e) \<leftarrow> protocolFailure cb s2 e1; Some (Inl ErrProtocol, a1\<lparr>closing := closing a1 @ bs\<rparr>, s, e) })
      = Some (r, a, s', e')"
      using assms False b unfolding ProcessUp_def Let_def by (auto simp: bind_eq_Some_conv)
    show ?thesis
      by (rule finish_up_live [where fail = "protocolFailure cb" and ?s1.0 = s2 and ?e1.0 = e1,
            OF up_commit_live [OF c] _ f]) (simp add: protocolFailure_def closeLocked_live)
  next
    case answer
    then show ?thesis using assms False b by (auto simp: ProcessUp_def Let_def no_effects_def)
  next
    case protocol
    then show ?thesis using assms False b
      by (auto simp: ProcessUp_def Let_def no_effects_def bind_eq_Some_conv protocolFailure_def dest!: closeLocked_live)
  qed
qed

lemma up_lane_live:
  assumes "up_lane cb k q d frames now s e = Some (r, a, s', e')"
  shows "live e' = live e + weight * len (opened a)"
proof -
  obtain lane s1 where c: "(case map_of (carrierLanes s) k of
      None \<Rightarrow> add_lane k s | Some lane \<Rightarrow> (lane, s)) = (lane, s1)" by fastforce
  have none: "live e = live e + weight * len (opened no_effects)" by (simp add: no_effects_def)
  note core = applied_live [of frames "s1\<lparr>lastActivity := now\<rparr>" e q
      "edit_lane k (\<lambda>lane. lane\<lparr>lastUpSequence := q, lastUpDigest := d\<rparr>)" r a s' e']
  show ?thesis
    using assms core none unfolding up_lane_def Let_def c prod.case
    by (simp only: split: if_split_asm) auto
qed

lemma ProcessUpLane_live:
  assumes "ProcessUpLane cb k q bytes now s e = Some (r, a, s', e')"
  shows "live e' = live e + weight * len (opened a)"
proof (cases "\<not> usesCarrierLanes s \<or> k > MaxStreamID \<or> parse_lane (MaxFramePayload (limits s)) k bytes = None")
  case True
  then show ?thesis using assms
    by (auto simp: ProcessUpLane_def no_effects_def bind_eq_Some_conv dest!: laneProtocolFailure_live
        split: if_split_asm option.split_asm)
next
  case False
  then obtain frames where fr: "parse_lane (MaxFramePayload (limits s)) k bytes = Some frames" by auto
  obtain y a1 s1 e1 where c: "up_lane cb k q (Sum256 bytes) frames now s e = Some (y, a1, s1, e1)"
    and f: "(case y of
        Applied q \<Rightarrow> Some (Inr q, a1, s1, onUp cb (len bytes) e1)
      | Answer r \<Rightarrow> Some (r, a1, s1, e1)
      | CloseAfter \<Rightarrow> do { (bs, s, e) \<leftarrow> closeLocked cb s1 e1; Some (Inl ErrClosed, a1\<lparr>closing := closing a1 @ bs\<rparr>, s, e) }
      | _ \<Rightarrow> do { (bs, s, e) \<leftarrow> laneProtocolFailure cb k now s1 e1; Some (Inl ErrProtocol, a1\<lparr>closing := closing a1 @ bs\<rparr>, s, e) })
      = Some (r, a, s', e')"
    using assms False fr unfolding ProcessUpLane_def by (auto simp: bind_eq_Some_conv)
  show ?thesis
    by (rule finish_up_live [where fail = "laneProtocolFailure cb k now" and ?s1.0 = s1 and ?e1.0 = e1,
          OF up_lane_live [OF c] _ f]) (simp add: laneProtocolFailure_live)
qed

subsection \<open>Polls and backends\<close>

lemma poll_loop_live: "poll_loop cb c mine s e = (r, s', e') \<Longrightarrow> live e' = live e"
  by (auto simp: poll_loop_def callbacks_live split: if_split_asm prod.split_asm)

lemma Poll_live: "Poll cb c now s e = Some (r, s', e') \<Longrightarrow> live e' = live e"
  by (auto simp: Poll_def Let_def bind_eq_Some_conv dest!: releasePending_live poll_loop_live
      split: if_split_asm poll_start.split_asm)

lemma poll_wake_live: "poll_wake cb w c mine now s e = (r, s', e') \<Longrightarrow> live e' = live e"
  by (auto simp: poll_wake_def Let_def dest!: poll_loop_live split: wake.split_asm if_split_asm)

lemma poll_lane_loop_live: "poll_lane_loop cb k c mine lane s e = (r, s', e') \<Longrightarrow> live e' = live e"
  by (auto simp: poll_lane_loop_def Let_def callbacks_live split: if_split_asm prod.split_asm)

lemma PollLane_live: "PollLane cb k c now s e = Some (r, s', e') \<Longrightarrow> live e' = live e"
  by (auto simp: PollLane_def Let_def bind_eq_Some_conv dest!: releasePending_live poll_lane_loop_live
      split: if_split_asm poll_start.split_asm option.split_asm)

lemma poll_lane_wake_live: "poll_lane_wake cb w k ref c mine now s e = Some (r, s', e') \<Longrightarrow> live e' = live e"
  by (auto simp: poll_lane_wake_def Let_def dest!: poll_lane_loop_live
      split: wake.split_asm if_split_asm option.split_asm)

lemma backendDrained_live: "backendDrained cb sid n s e = Some (b, s', e') \<Longrightarrow> live e' = live e"
  by (auto simp: backendDrained_def Let_def bind_eq_Some_conv dest!: releasePending_live queueFrame_live
      split: if_split_asm option.split_asm)

lemma backendWriteFinished_live: "backendWriteFinished cb sid s e = Some (b, s', e') \<Longrightarrow> live e' = live e"
  by (auto simp: backendWriteFinished_def bind_eq_Some_conv dest!: releasePending_live
      split: if_split_asm option.split_asm)

lemma backendData_live: "backendData cb sid data s e = Some (b, s', e') \<Longrightarrow> live e' = live e"
  by (auto simp: backendData_def dest!: queueFrame_live split: if_split_asm option.split_asm)

lemma backendClosed_live: "backendClosed cb sid ref s e = Some (bs, s', e') \<Longrightarrow> live e' = live e"
  by (auto simp: backendClosed_def bind_eq_Some_conv
      dest!: releaseStreamWrites_live rememberClosed_live queueFrame_live closeLocked_live
      split: if_split_asm option.split_asm)

lemma write_some_live: "write_some cb sid n f data s e = Some (w, s', e') \<Longrightarrow> live e' = live e"
  by (auto simp: write_some_def bind_eq_Some_conv dest!: backendDrained_live backendWriteFinished_live
      split: if_split_asm)

lemma read_some_live: "read_some cb sid data f s e = Some (w, s', e') \<Longrightarrow> live e' = live e"
  by (auto simp: read_some_def bind_eq_Some_conv dest!: backendData_live split: if_split_asm)

end

end
