(* ===== verification/Relay.thy ===== *)
theory Relay
  imports Manager_Ops Stream_Count
begin

text \<open>
  The relay as one system: the manager, its sessions and the goroutines of the backend streams
  (\<open>runBackend\<close>, \<open>run\<close>, \<open>writeLoop\<close> and \<open>readLoop\<close> of \<open>internal/session/session.go\<close>). An
  event is one critical section or one call of a handler; the events of different clients,
  polls and backends happen in any order. \<open>relay_exec\<close> runs an event, \<open>None\<close> being a Go panic,
  and \<open>enabled\<close> says when the event can happen. The clock, the network and the random bytes
  are arguments of the events.
\<close>

subsection \<open>What happens to a session\<close>

datatype session_event =
    Up u64 "byte list"
  | UpLane u32 u64 "byte list"
  | Polls u64
  | Wakes wake poll_id
  | PollsLane u32 u64
  | WakesLane wake u32 nat poll_id
  | TakesSocket
  | TakesLaneSocket u32
  | DropsLaneSocket u32
  | Ends

text \<open>
  The result lists the backend streams to start and the ones to close. A failed cursor check
  of a poll makes its caller close the session, or release the lane.
\<close>

definition session_exec ::
  "session_event \<Rightarrow> int \<Rightarrow> 'e callbacks \<Rightarrow> session \<Rightarrow> 'e
     \<Rightarrow> ((backendStream list \<times> nat list) \<times> session \<times> 'e) option" where
  "session_exec ev now cb s e =
     (case ev of
        Up q bytes \<Rightarrow> do {
          (_, a, s, e) \<leftarrow> ProcessUp cb q bytes now s e;
          Some ((opened a, closing a), s, e) }
      | UpLane k q bytes \<Rightarrow> do {
          (_, a, s, e) \<leftarrow> ProcessUpLane cb k q bytes now s e;
          Some ((opened a, closing a), s, e) }
      | Polls cursor \<Rightarrow> do {
          (r, s, e) \<leftarrow> Poll cb cursor now s e;
          (bs, s, e) \<leftarrow> (if r = PollFailure then protocolFailure cb s e else Some ([], s, e));
          Some (([], bs), s, e) }
      | Wakes w mine \<Rightarrow>
          (case poll_wake cb w (poll_cursor mine) mine now s e of (_, s, e) \<Rightarrow> Some (([], []), s, e))
      | PollsLane k cursor \<Rightarrow> do {
          (r, s, e) \<leftarrow> PollLane cb k cursor now s e;
          (bs, s, e) \<leftarrow> (if r = PollFailure then laneProtocolFailure cb k now s e else Some ([], s, e));
          Some (([], bs), s, e) }
      | WakesLane w k ref mine \<Rightarrow> do {
          (_, s, e) \<leftarrow> poll_lane_wake cb w k ref (poll_cursor mine) mine now s e;
          Some (([], []), s, e) }
      | TakesSocket \<Rightarrow> (case AcquireWebSocket s of (_, s) \<Rightarrow> Some (([], []), s, e))
      | TakesLaneSocket k \<Rightarrow> (case AcquireWebSocketLane k now s of (_, s) \<Rightarrow> Some (([], []), s, e))
      | DropsLaneSocket k \<Rightarrow> do {
          (b, s, e) \<leftarrow> ReleaseWebSocketLane cb k now s e;
          Some (([], case b of None \<Rightarrow> [] | Some b \<Rightarrow> [b]), s, e) }
      | Ends \<Rightarrow> do { (bs, s, e) \<leftarrow> closeLocked cb s e; Some (([], bs), s, e) })"

text \<open>
  A batch is safe when none of its streams loses its tombstone while the batch is applied; for
  a batch that is not, \<open>ProcessUp\<close> can panic. A waiting poll of a multiplexed session does not
  wait for the end of the session, a poll of a lane holds a lane object.
\<close>

definition session_enabled :: "session_event \<Rightarrow> session \<Rightarrow> bool" where
  "session_enabled ev s =
     (case ev of
        Up q bytes \<Rightarrow> (case parse_client (MaxFramePayload (limits s)) bytes of
          None \<Rightarrow> True | Some frames \<Rightarrow> batch_safe frames s)
      | Wakes w mine \<Rightarrow> w \<noteq> SessionDone
      | WakesLane w k ref mine \<Rightarrow> held_lane k ref s \<noteq> None
      | _ \<Rightarrow> True)"

subsection \<open>What happens to a backend\<close>

text \<open>
  \<open>run\<close>: dial, then the writer and the reader until both have ended, then \<open>backendClosed\<close> and
  \<open>onStreamFinished\<close>, the deferred calls.
\<close>

datatype stage = Dialing | Connected writer reader | Leaving | Finishing

record running =
  run_owner :: nat
  run_stream :: backendStream
  run_stage :: stage

datatype backend_event =
    Dialed bool bool
  | Fetches
  | Writes int bool
  | WriterStops
  | Asks
  | Reads "byte list" bool
  | ReaderStops
  | Hangs_up
  | Leaves
  | Finishes

record relay =
  mgr :: manager
  backends :: "running list"

text \<open>An operation of the backend's session that ends in the next stage.\<close>

definition stage_op ::
  "running \<Rightarrow> (manager callbacks \<Rightarrow> session \<Rightarrow> manager \<Rightarrow> (stage \<times> session \<times> manager) option)
     \<Rightarrow> manager \<Rightarrow> (running option \<times> manager) option" where
  "stage_op b f m = do { (st, m) \<leftarrow> on_object (run_owner b) f m; Some (Some (b\<lparr>run_stage := st\<rparr>), m) }"

text \<open>
  \<open>Dialed err cancelled\<close> gives the dialer's error and whether the stream was closed meanwhile;
  \<open>Writes n err\<close> and \<open>Reads bytes err\<close> are the answers of the connection. \<open>WriterStops\<close> and
  \<open>ReaderStops\<close> are the ends through the stream's context or its closed connection. An event
  that does not fit the stage changes nothing.
\<close>

definition backend_exec :: "backend_event \<Rightarrow> running \<Rightarrow> manager \<Rightarrow> (running option \<times> manager) option" where
  "backend_exec ev b m =
     (let sid = backend_id (run_stream b) in
      case (ev, run_stage b) of
        (Dialed err cancelled, Dialing) \<Rightarrow> do {
          s \<leftarrow> map_of (objs m) (run_owner b);
          m \<leftarrow> backendDialFinished (profile s) (err \<and> \<not> cancelled) m;
          Some (Some (b\<lparr>run_stage := if err \<or> cancelled then Leaving else Connected Fetching Asking\<rparr>), m) }
      | (Fetches, Connected Fetching rd) \<Rightarrow>
          stage_op b (\<lambda>cb s e. case write_fetch sid s of (w, s) \<Rightarrow> Some (Connected w rd, s, e)) m
      | (Writes n err, Connected (Writing data) rd) \<Rightarrow>
          stage_op b (\<lambda>cb s e. do {
            (w, s, e) \<leftarrow> write_some cb sid n err data s e; Some (Connected w rd, s, e) }) m
      | (WriterStops, Connected w rd) \<Rightarrow> Some (Some (b\<lparr>run_stage := Connected WriterDone rd\<rparr>), m)
      | (Asks, Connected w Asking) \<Rightarrow>
          stage_op b (\<lambda>cb s e. Some (Connected w (read_ask sid s), s, e)) m
      | (Reads bytes err, Connected w (Reading n)) \<Rightarrow>
          stage_op b (\<lambda>cb s e. do {
            (rd, s, e) \<leftarrow> read_some cb sid bytes err s e; Some (Connected w rd, s, e) }) m
      | (ReaderStops, Connected w rd) \<Rightarrow> Some (Some (b\<lparr>run_stage := Connected w ReaderDone\<rparr>), m)
      | (Hangs_up, Connected WriterDone ReaderDone) \<Rightarrow> Some (Some (b\<lparr>run_stage := Leaving\<rparr>), m)
      | (Leaves, Leaving) \<Rightarrow>
          stage_op b (\<lambda>cb s e. do {
            (_, s, e) \<leftarrow> backendClosed cb sid (backendRef (run_stream b)) s e; Some (Finishing, s, e) }) m
      | (Finishes, Finishing) \<Rightarrow> do {
          s \<leftarrow> map_of (objs m) (run_owner b);
          m \<leftarrow> streamFinished (profile s) m;
          Some (None, m) }
      | _ \<Rightarrow> Some (Some b, m))"

text \<open>A connection reads at most as much as it was asked for.\<close>

definition backend_enabled :: "backend_event \<Rightarrow> running \<Rightarrow> bool" where
  "backend_enabled ev b =
     (case (ev, run_stage b) of
        (Reads bytes err, Connected w (Reading n)) \<Rightarrow> len bytes \<le> n
      | _ \<Rightarrow> True)"

subsection \<open>What happens to the relay\<close>

datatype relay_event =
    Issues "Profile option" string "byte list option"
  | Creates string string "byte list" "byte list option"
  | Waits int
  | Cleans
  | Shuts
  | ClosesToken string
  | Finished nat
  | OnSession nat session_event
  | OnBackend nat backend_event

definition started :: "nat \<Rightarrow> backendStream list \<Rightarrow> running list" where
  "started ref bs = map (\<lambda>b. \<lparr>run_owner = ref, run_stream = b, run_stage = Dialing\<rparr>) bs"

definition put_running :: "nat \<Rightarrow> running option \<Rightarrow> running list \<Rightarrow> running list" where
  "put_running i b bs = take i bs @ (case b of None \<Rightarrow> [] | Some b \<Rightarrow> [b]) @ drop (Suc i) bs"

definition relay_exec :: "relay_event \<Rightarrow> relay \<Rightarrow> relay option" where
  "relay_exec ev r =
     (let m = mgr r in
      case ev of
        Issues prof ip random \<Rightarrow> Some (r\<lparr>mgr := snd (IssueBootstrap prof ip random m)\<rparr>)
      | Creates token ip bytes random \<Rightarrow> Some (r\<lparr>mgr := snd (Create token ip bytes random m)\<rparr>)
      | Waits d \<Rightarrow> Some (r\<lparr>mgr := m\<lparr>clock := clock m + d\<rparr>\<rparr>)
      | Cleans \<Rightarrow> do { (_, m) \<leftarrow> cleanup_tick m; Some (r\<lparr>mgr := m\<rparr>) }
      | Shuts \<Rightarrow> do { (_, m) \<leftarrow> Shutdown_manager m; Some (r\<lparr>mgr := m\<rparr>) }
      | ClosesToken token \<Rightarrow> do { (_, _, m) \<leftarrow> CloseToken token m; Some (r\<lparr>mgr := m\<rparr>) }
      | Finished ref \<Rightarrow> do {
          s \<leftarrow> map_of (objs m) ref; Some (r\<lparr>mgr := sessionFinished ref s m\<rparr>) }
      | OnSession ref ev \<Rightarrow> do {
          (out, m) \<leftarrow> on_object ref (session_exec ev (clock m)) m;
          Some (r\<lparr>mgr := m, backends := backends r @ started ref (fst out)\<rparr>) }
      | OnBackend i ev \<Rightarrow> do {
          (b, m) \<leftarrow> backend_exec ev (backends r ! i) m;
          Some (r\<lparr>mgr := m, backends := put_running i b (backends r)\<rparr>) })"

text \<open>
  Fresh digests are what the random bytes of a token are for; a manager that runs out of them
  could not keep its sessions apart.
\<close>

definition fresh_token :: "TokenClass \<Rightarrow> byte list option \<Rightarrow> (byte list, 'v) assoc \<Rightarrow> manager \<Rightarrow> bool" where
  "fresh_token kind random al m =
     (case newToken (tokenKey m) kind random of None \<Rightarrow> True | Some (_, h) \<Rightarrow> map_of al h = None)"

definition enabled :: "relay_event \<Rightarrow> relay \<Rightarrow> bool" where
  "enabled ev r =
     (let m = mgr r in
      case ev of
        Issues prof ip random \<Rightarrow> fresh_token TokenBootstrap random (bootstraps m) m
      | Creates token ip bytes random \<Rightarrow> fresh_token TokenSession random (sessions m) m
      | Waits d \<Rightarrow> 0 \<le> d
      | Finished ref \<Rightarrow> (case map_of (objs m) ref of None \<Rightarrow> False | Some s \<Rightarrow> finished s)
      | OnSession ref ev \<Rightarrow>
          (case map_of (objs m) ref of None \<Rightarrow> False | Some s \<Rightarrow> session_enabled ev s)
      | OnBackend i ev \<Rightarrow> i < length (backends r) \<and> backend_enabled ev (backends r ! i)
      | _ \<Rightarrow> True)"

inductive relay_step :: "relay_event \<Rightarrow> relay \<Rightarrow> relay \<Rightarrow> bool" where
  step: "enabled ev r \<Longrightarrow> relay_exec ev r = Some r' \<Longrightarrow> relay_step ev r r'"

inductive_cases relay_stepE: "relay_step ev r r'"

text \<open>The states of a relay that was started with the given configuration.\<close>

inductive reachable :: "Limits \<Rightarrow> Timeouts \<Rightarrow> Profile list \<Rightarrow> byte list \<Rightarrow> int \<Rightarrow> relay \<Rightarrow> bool"
  for lims tms profs key now where
  start: "reachable lims tms profs key now \<lparr>mgr = NewManager lims tms profs key now, backends = []\<rparr>"
| more: "reachable lims tms profs key now r \<Longrightarrow> relay_step ev r r' \<Longrightarrow>
     reachable lims tms profs key now r'"

end
