(* ===== verification/Relay_Inv.thy ===== *)
theory Relay_Inv
  imports Relay
begin

text \<open>
  The invariant of the relay and its proof: the manager's invariant, and books that agree with
  the goroutines, that is, the counters of streams and dials count the backends that run and
  the ones that still dial, in all and per profile, and stay within the configured limits.
\<close>

subsection \<open>Sessions of any owner\<close>

context stream_owner
begin

text \<open>What an event does to the session and to its owner.\<close>

abbreviation handed ::
  "((backendStream list \<times> nat list) \<times> session \<times> 'e) option \<Rightarrow> session \<Rightarrow> 'e \<Rightarrow> bool" where
  "handed x s e \<equiv> ok_with x (\<lambda>(out, s', e'). moved s e s' e' \<and> session_ok s' \<and>
     live e' = live e + weight * len (fst out))"

lemma handedI:
  "f = Some (out, s', e') \<Longrightarrow> moved s e s' e' \<Longrightarrow> session_ok s' \<Longrightarrow>
     live e' = live e + weight * len (fst out) \<Longrightarrow> handed f s e"
  by simp

lemma protocolFailure_live: "protocolFailure cb s e = Some (bs, s', e') \<Longrightarrow> live e' = live e"
  by (simp add: protocolFailure_def closeLocked_live)

lemma session_exec_ok:
  assumes ok: "session_ok s" and acc: "acc s e" and en: "session_enabled ev s"
  shows "handed (session_exec ev now cb s e) s e"
proof (cases ev)
  case (Up q bytes)
  have "batch_safe frames s" if "parse_client (MaxFramePayload (limits s)) bytes = Some frames" for frames
    using en that by (simp add: session_enabled_def Up)
  then obtain r a s' e' where u: "ProcessUp cb q bytes now s e = Some (r, a, s', e')"
    and "moved s e s' e'" "session_ok s'"
    using ProcessUp_ok [OF ok acc, of bytes q now] by (auto simp: ok_with_Ex)
  then show ?thesis using ProcessUp_live [OF u] by (simp add: session_exec_def Up)
next
  case (UpLane k q bytes)
  obtain r a s' e' where u: "ProcessUpLane cb k q bytes now s e = Some (r, a, s', e')"
    and "moved s e s' e'" "session_ok s'"
    using ProcessUpLane_ok [OF ok acc, of k q bytes now] by (auto simp: ok_with_Ex)
  then show ?thesis using ProcessUpLane_live [OF u] by (simp add: session_exec_def UpLane)
next
  case (Polls cursor)
  obtain r s1 e1 where p: "Poll cb cursor now s e = Some (r, s1, e1)"
    and m: "moved s e s1 e1" and s1: "session_ok s1"
    using Poll_ok [OF ok acc, of cursor now] by (auto simp: ok_with_Ex)
  obtain bs s2 e2 where f: "protocolFailure cb s1 e1 = Some (bs, s2, e2)"
    and "moved s1 e1 s2 e2" "session_ok s2"
    using protocolFailure_ok [OF s1 acc_moved [OF acc m]] by (auto simp: ok_with_Ex)
  then show ?thesis
    using m s1 moved_trans [OF m] Poll_live [OF p] protocolFailure_live [OF f]
    by (simp add: session_exec_def Polls p)
next
  case (Wakes w mine)
  obtain r s' e' where p: "poll_wake cb w (poll_cursor mine) mine now s e = (r, s', e')"
    using prod_cases3 by blast
  show ?thesis
    using poll_wake_ok [OF ok acc refl p] poll_wake_live [OF p] en
    by (simp add: session_exec_def session_enabled_def Wakes p)
next
  case (PollsLane k cursor)
  obtain r s1 e1 where p: "PollLane cb k cursor now s e = Some (r, s1, e1)"
    and m: "moved s e s1 e1" and s1: "session_ok s1"
    using PollLane_ok [OF ok acc, of k cursor now] by (auto simp: ok_with_Ex)
  obtain bs s2 e2 where f: "laneProtocolFailure cb k now s1 e1 = Some (bs, s2, e2)"
    and "moved s1 e1 s2 e2" "session_ok s2"
    using laneProtocolFailure_ok [OF s1 acc_moved [OF acc m], of k now] by (auto simp: ok_with_Ex)
  then show ?thesis
    using m s1 moved_trans [OF m] PollLane_live [OF p] laneProtocolFailure_live [OF f]
    by (simp add: session_exec_def PollsLane p)
next
  case (WakesLane w k ref mine)
  then obtain lane where held: "held_lane k ref s = Some lane"
    using en by (auto simp: session_enabled_def)
  obtain r s' e' where p: "poll_lane_wake cb w k ref (poll_cursor mine) mine now s e = Some (r, s', e')"
    and "moved s e s' e'" "session_ok s'"
    using poll_lane_wake_ok [OF ok acc _ held, of mine _ w now] by (auto simp: ok_with_Ex)
  then show ?thesis using poll_lane_wake_live [OF p] by (simp add: session_exec_def WakesLane)
next
  case TakesSocket
  have "same_counts s (snd (AcquireWebSocket s))"
    by (simp add: AcquireWebSocket_def same_counts_def same_session_def)
  then show ?thesis
    using AcquireWebSocket_ok [OF ok] moved_counts [OF acc]
    by (simp add: session_exec_def TakesSocket case_prod_beta)
next
  case (TakesLaneSocket k)
  have "same_counts s (snd (AcquireWebSocketLane k now s))"
    by (simp add: AcquireWebSocketLane_def add_lane_def Let_def same_counts_def same_session_def
        split: option.split)
  then show ?thesis
    using AcquireWebSocketLane_ok [OF ok, of k now] moved_counts [OF acc]
    by (simp add: session_exec_def TakesLaneSocket case_prod_beta)
next
  case (DropsLaneSocket k)
  obtain b s' e' where r: "ReleaseWebSocketLane cb k now s e = Some (b, s', e')"
    and "moved s e s' e'" "session_ok s'"
    using ReleaseWebSocketLane_ok [OF ok acc, of k now] by (auto simp: ok_with_Ex)
  then show ?thesis
    using ReleaseWebSocketLane_live [OF r] by (simp add: session_exec_def DropsLaneSocket)
next
  case Ends
  obtain bs s' e' where f: "closeLocked cb s e = Some (bs, s', e')"
    and "moved s e s' e'" "session_ok s'"
    using protocolFailure_ok [OF ok acc] by (auto simp: ok_with_Ex protocolFailure_def)
  then show ?thesis using closeLocked_live [OF f] by (simp add: session_exec_def Ends)
qed

text \<open>The steps of a backend: none hands out a stream.\<close>

abbreviation stepped :: "('r \<times> session \<times> 'e) option \<Rightarrow> session \<Rightarrow> 'e \<Rightarrow> bool" where
  "stepped x s e \<equiv> ok_with x (\<lambda>(_, s', e'). moved s e s' e' \<and> session_ok s' \<and> live e' = live e)"

lemma write_fetch_stepped:
  assumes "session_ok s" and "acc s e"
  shows "stepped (case write_fetch sid s of (w, s) \<Rightarrow> Some (f w, s, e)) s e"
proof -
  have "same_counts s (snd (nextWrite sid s))"
    by (simp add: nextWrite_def put_stream_def same_counts_def same_session_def
        split: option.split list.split)
  then show ?thesis
    using nextWrite_ok [OF assms(1), of sid] moved_counts [OF assms(2)]
    by (auto simp: write_fetch_def split: prod.split waiting.split)
qed

lemma write_some_stepped:
  assumes ok: "session_ok s" and acc: "acc s e"
  shows "stepped (write_some cb sid n err data s e) s e"
proof -
  have d: "ok_with (backendDrained cb sid n s e) (\<lambda>(b, s', e'). moved s e s' e' \<and> session_ok s')"
    by (rule ok_with_mono3 [OF backendDrained_ok [OF ok acc]]) blast
  have f: "ok_with (backendWriteFinished cb sid s e) (\<lambda>(b, s', e'). moved s e s' e' \<and> session_ok s')"
    by (rule ok_with_mono3 [OF backendWriteFinished_ok [OF ok acc]]) blast
  have "ok_with (write_some cb sid n err data s e) (\<lambda>(w, s', e'). moved s e s' e' \<and> session_ok s')"
    using d f ok moved_refl [OF acc]
    by (auto simp: write_some_def ok_with_Ex)
  then show ?thesis using write_some_live by (fastforce simp: ok_with_Ex)
qed

lemma read_some_stepped:
  assumes ok: "session_ok s" and acc: "acc s e" and p: "len data \<le> MaxPayload"
  shows "stepped (read_some cb sid data err s e) s e"
proof -
  have d: "ok_with (backendData cb sid data s e) (\<lambda>(b, s', e'). moved s e s' e' \<and> session_ok s')"
    by (rule ok_with_mono3 [OF backendData_ok [OF ok acc p]]) blast
  have "ok_with (read_some cb sid data err s e) (\<lambda>(w, s', e'). moved s e s' e' \<and> session_ok s')"
    using d ok moved_refl [OF acc]
    by (auto simp: read_some_def ok_with_Ex)
  then show ?thesis using read_some_live by (fastforce simp: ok_with_Ex)
qed

lemma backendClosed_stepped:
  assumes ok: "session_ok s" and acc: "acc s e"
  shows "stepped (backendClosed cb sid ref s e) s e"
proof -
  have "ok_with (backendClosed cb sid ref s e) (\<lambda>(b, s', e'). moved s e s' e' \<and> session_ok s')"
    by (rule ok_with_mono3 [OF backendClosed_ok [OF ok acc]]) blast
  then show ?thesis using backendClosed_live by (fastforce simp: ok_with_Ex)
qed

end

subsection \<open>The manager's counters\<close>

datatype counter = AllStreams | AllDials | StreamsOf string | DialsOf string

fun counter_value :: "counter \<Rightarrow> 'a ledger_scheme \<Rightarrow> int" where
  "counter_value AllStreams m = streamsLive m"
| "counter_value AllDials m = backendDialsInFlight m"
| "counter_value (StreamsOf name) m = count_of (streamsPerProfile m) name"
| "counter_value (DialsOf name) m = count_of (dialsPerProfile m) name"

fun counter_weight :: "counter \<Rightarrow> Profile \<Rightarrow> int" where
  "counter_weight (StreamsOf name) prof = (if Name prof = name then 1 else 0)"
| "counter_weight (DialsOf name) prof = (if Name prof = name then 1 else 0)"
| "counter_weight _ prof = 1"

definition fits :: "Profile \<Rightarrow> 'a ledger_scheme \<Rightarrow> bool" where
  "fits prof m \<longleftrightarrow> streamsLive m \<le> MaxStreamsGlobal (config_limits m) \<and>
     backendDialsInFlight m \<le> MaxBackendDialsInFlight (config_limits m) \<and>
     count_of (streamsPerProfile m) (Name prof) \<le> MaxStreams_p (Profile_Limits prof) \<and>
     count_of (dialsPerProfile m) (Name prof) \<le> MaxBackendDialsInFlight_p (Profile_Limits prof)"

definition owner_at :: "Profile \<Rightarrow> Limits \<times> int \<times> bool \<times> 'a \<Rightarrow> 'a ledger_scheme \<Rightarrow> bool" where
  "owner_at prof F m \<longleftrightarrow> ledger_ok m \<and> ledger_frame m = F \<and> fits prof m"

lemma changePendingBudget_counters:
  assumes "changePendingBudget c i cls m = Some (b, m')"
  shows "counter_value k m' = counter_value k m" and "fits prof m' = fits prof m"
proof -
  have f: "streamsLive m' = streamsLive m \<and> backendDialsInFlight m' = backendDialsInFlight m \<and>
      streamsPerProfile m' = streamsPerProfile m \<and> dialsPerProfile m' = dialsPerProfile m \<and>
      config_limits m' = config_limits m"
    using assms by (auto simp: changePendingBudget_def addPending_def split: if_splits prod.splits)
  show "counter_value k m' = counter_value k m" using f by (cases k) simp_all
  show "fits prof m' = fits prof m" using f by (simp add: fits_def)
qed

text \<open>What granting a stream changes, and what it has checked before.\<close>

definition granted_from :: "Profile \<Rightarrow> 'a ledger_scheme \<Rightarrow> 'a ledger_scheme \<Rightarrow> bool" where
  "granted_from prof m m' \<longleftrightarrow>
     streamsLive m < MaxStreamsGlobal (config_limits m) \<and>
     backendDialsInFlight m < MaxBackendDialsInFlight (config_limits m) \<and>
     count_of (streamsPerProfile m) (Name prof) < MaxStreams_p (Profile_Limits prof) \<and>
     count_of (dialsPerProfile m) (Name prof) < MaxBackendDialsInFlight_p (Profile_Limits prof) \<and>
     config_limits m' = config_limits m \<and>
     streamsLive m' = streamsLive m + 1 \<and> backendDialsInFlight m' = backendDialsInFlight m + 1 \<and>
     streamsPerProfile m' = bump (streamsPerProfile m) (Name prof) \<and>
     dialsPerProfile m' = bump (dialsPerProfile m) (Name prof)"

lemma acquire_stream_cases:
  assumes "acquire_stream prof m = (b, m')"
  shows "if b then granted_from prof m m' else
     config_limits m' = config_limits m \<and> streamsLive m' = streamsLive m \<and>
     backendDialsInFlight m' = backendDialsInFlight m \<and>
     streamsPerProfile m' = streamsPerProfile m \<and> dialsPerProfile m' = dialsPerProfile m"
proof (cases "mgr_closed m \<or> streamsLive m \<ge> MaxStreamsGlobal (config_limits m)
      \<or> backendDialsInFlight m \<ge> MaxBackendDialsInFlight (config_limits m)
      \<or> count_of (streamsPerProfile m) (Name prof) \<ge> MaxStreams_p (Profile_Limits prof)
      \<or> count_of (dialsPerProfile m) (Name prof) \<ge> MaxBackendDialsInFlight_p (Profile_Limits prof)")
  case True
  then show ?thesis using assms unfolding acquire_stream_def Let_def by auto
next
  case False
  obtain r rs ok where "allowProfileRateLocked (streamRate m) (profileStreamRates m) (Name prof) (clock m)
       (NewStreamsPerMinute (config_limits m)) (NewStreamsBurst (config_limits m))
       (NewStreamsPerMinute_p (Profile_Limits prof)) (NewStreamsBurst_p (Profile_Limits prof)) = (r, rs, ok)"
    using prod_cases3 by blast
  then show ?thesis
    using assms False unfolding acquire_stream_def Let_def
    by (cases ok) (auto simp: granted_from_def)
qed

lemma acquire_stream_counters:
  assumes "acquire_stream prof m = (b, m')"
  shows "counter_value k m' = counter_value k m + (if b then counter_weight k prof else 0)"
    and "fits prof m \<Longrightarrow> fits prof m'"
proof -
  note c = acquire_stream_cases [OF assms]
  show "counter_value k m' = counter_value k m + (if b then counter_weight k prof else 0)"
    using c by (cases b; cases k) (simp_all add: granted_from_def count_of_bump)
  show "fits prof m \<Longrightarrow> fits prof m'"
    using c by (cases b) (simp_all add: granted_from_def fits_def count_of_bump)
qed

interpretation rel: stream_owner "manager_callbacks prof" "owner_at prof F" pendingGlobalCost
    pendingGlobalItems "counter_value k" "counter_weight k prof" for prof F k
proof (unfold_locales, goal_cases)
  case (1 e c i cls)
  then show ?case
    using mgr_at.budget_reserve [of e F c i prof cls] changePendingBudget_counters [of c i cls e]
    by (fastforce simp: owner_at_def manager_callbacks_def)
next
  case (2 e c i cls)
  then show ?case
    using mgr_at.budget_release [of e F c i prof cls] changePendingBudget_counters [of "- c" "- i" cls e]
    by (fastforce simp: owner_at_def manager_callbacks_def)
next
  case (3 e acquired e')
  then show ?case
    using mgr_at.acquire_pool [of e F prof acquired e'] acquire_stream_counters(2) [of prof e acquired e']
    by (simp add: owner_at_def manager_callbacks_def)
next
  case (7 c i cls e b e')
  then show ?case
    using changePendingBudget_counters [of c i cls e b e'] by (simp add: manager_callbacks_def)
next
  case (8 e b e')
  then show ?case
    using acquire_stream_counters(1) [of prof e b e' k] by (simp add: manager_callbacks_def)
next
  case (9 e)
  show ?case by (cases k) (simp_all add: manager_callbacks_def)
next
  case (10 n e)
  show ?case by (cases k) (simp_all add: manager_callbacks_def)
next
  case (11 n e)
  show ?case by (cases k) (simp_all add: manager_callbacks_def)
qed (simp_all add: owner_at_def manager_callbacks_def ledger_ok_def ledger_frame_def fits_def)

subsection \<open>The invariant\<close>

definition counts_backend :: "counter \<Rightarrow> manager \<Rightarrow> running \<Rightarrow> int" where
  "counts_backend k m b =
     (if (case k of AllDials \<Rightarrow> True | DialsOf _ \<Rightarrow> True | _ \<Rightarrow> False) \<and> run_stage b \<noteq> Dialing then 0
      else counter_weight k (profile (obj m (run_owner b))))"

definition stage_ok :: "stage \<Rightarrow> bool" where
  "stage_ok st \<longleftrightarrow> (case st of Connected w (Reading n) \<Rightarrow> n \<le> DataChunk | _ \<Rightarrow> True)"

definition books_ok :: "Limits \<times> Profile list \<Rightarrow> manager \<Rightarrow> running list \<Rightarrow> bool" where
  "books_ok cfg m bs \<longleftrightarrow> (\<forall>k. counter_value k m = sum_list (map (counts_backend k m) bs)) \<and>
     (\<forall>b \<in> set bs. run_owner b \<in> keys (objs m) \<and> stage_ok (run_stage b)) \<and>
     (\<forall>p \<in> set (config_profiles m). fits p m) \<and>
     (\<forall>ref \<in> keys (objs m). profile (obj m ref) \<in> set (config_profiles m)) \<and>
     (config_limits m, config_profiles m) = cfg"

definition relay_ok :: "Limits \<times> Profile list \<Rightarrow> relay \<Rightarrow> bool" where
  "relay_ok cfg r \<longleftrightarrow> manager_ok (mgr r) \<and> books_ok cfg (mgr r) (backends r)"

text \<open>The books look at the counters, the limits and the profiles of the objects only.\<close>

definition same_books :: "manager \<Rightarrow> manager \<Rightarrow> bool" where
  "same_books m m' \<longleftrightarrow> (\<forall>k. counter_value k m' = counter_value k m) \<and>
     config_limits m' = config_limits m \<and> config_profiles m' = config_profiles m \<and>
     keys (objs m') = keys (objs m) \<and> (\<forall>ref \<in> keys (objs m). profile (obj m' ref) = profile (obj m ref))"

lemma same_books_refl [simp]: "same_books m m"
  by (simp add: same_books_def)

lemma same_books_trans: "same_books m m' \<Longrightarrow> same_books m' m'' \<Longrightarrow> same_books m m''"
  by (simp add: same_books_def)

lemma counts_backend_cong:
  "profile (obj m' (run_owner b)) = profile (obj m (run_owner b)) \<Longrightarrow>
     counts_backend k m' b = counts_backend k m b"
  by (simp add: counts_backend_def)

lemma fits_cong:
  assumes "\<forall>k. counter_value k m' = counter_value k m" and "config_limits m' = config_limits m"
  shows "fits p m' = fits p m"
proof -
  have "counter_value k m' = counter_value k m" for k using assms(1) by blast
  from this [of AllStreams] this [of AllDials] this [of "StreamsOf (Name p)"] this [of "DialsOf (Name p)"]
  show ?thesis using assms(2) by (simp add: fits_def)
qed

lemma books_ok_same:
  assumes ok: "books_ok cfg m bs" and same: "same_books m m'"
  shows "books_ok cfg m' bs"
proof -
  have c: "map (counts_backend k m') bs = map (counts_backend k m) bs" for k
    using ok same by (auto simp: books_ok_def same_books_def intro!: map_cong counts_backend_cong)
  have "\<forall>p \<in> set (config_profiles m'). fits p m'"
    using ok same fits_cong [of m' m] by (auto simp: books_ok_def same_books_def)
  then show ?thesis using ok same by (simp add: books_ok_def same_books_def c)
qed

subsection \<open>The manager's own operations\<close>

text \<open>The part of the manager the books look at, with the objects themselves.\<close>

definition core :: "manager \<Rightarrow> (nat, session) assoc \<times> int \<times> int \<times> (string \<rightharpoonup> int) \<times> (string \<rightharpoonup> int) \<times> Limits \<times> Profile list" where
  "core m = (objs m, streamsLive m, backendDialsInFlight m, streamsPerProfile m, dialsPerProfile m,
     config_limits m, config_profiles m)"

lemma core_same_books: "core m' = core m \<Longrightarrow> same_books m m'"
  unfolding same_books_def
proof (intro conjI allI)
  fix k assume "core m' = core m"
  then show "counter_value k m' = counter_value k m" by (cases k) (simp_all add: core_def)
qed (simp_all add: core_def obj_def)

lemma core_simps [simp]:
  "core (m\<lparr>bootstraps := x1\<rparr>) = core m" "core (m\<lparr>bootstrapsPerIP := x2\<rparr>) = core m"
  "core (m\<lparr>closedTokens := x3\<rparr>) = core m" "core (m\<lparr>sessions := x4\<rparr>) = core m"
  "core (m\<lparr>sessionsPerIP := x5\<rparr>) = core m" "core (m\<lparr>sessionsPerProfile := x6\<rparr>) = core m"
  "core (m\<lparr>limitHits := x7\<rparr>) = core m" "core (m\<lparr>bootstrapRate := x8\<rparr>) = core m"
  "core (m\<lparr>sessionRate := x9\<rparr>) = core m" "core (m\<lparr>profileSessionRates := x10\<rparr>) = core m"
  "core (m\<lparr>sessionsCreated := x11\<rparr>) = core m" "core (m\<lparr>sessionsClosed := x11\<rparr>) = core m"
  "core (m\<lparr>clock := x12\<rparr>) = core m" "core (m\<lparr>mgr_closed := x13\<rparr>) = core m"
  by (simp_all add: core_def)

lemma core_removes [simp]:
  "core (releaseUnusedBootstrap b m) = core m" "core (removeBootstrap h b m) = core m"
  "core (count_limit_hit m) = core m" "core (snd (evictOldestUnusedBootstrap m)) = core m"
  by (simp_all add: releaseUnusedBootstrap_def removeBootstrap_def count_limit_hit_def
      evictOldestUnusedBootstrap_def Let_def split: option.split)

lemma core_remove_bootstraps [simp]: "core (remove_bootstraps P es m) = core m"
  by (induction P es m rule: remove_bootstraps.induct) simp_all

lemma core_removeExpired [simp]: "core (removeExpiredBootstraps now m) = core m"
  by (simp add: removeExpiredBootstraps_def Let_def)

lemma core_IssueBootstrap: "core (snd (IssueBootstrap prof ip random m)) = core m"
proof -
  have e: "core m2 = core m1" if "evictOldestUnusedBootstrap m1 = (b, m2)" for m1 b m2
    using core_removes(4) [of m1] that by simp
  show ?thesis
    by (auto simp: IssueBootstrap_def Let_def split: option.split prod.split dest!: e)
qed

lemma core_sessionFinished: "core (sessionFinished ref s m) = core m"
  by (simp add: sessionFinished_def Let_def split: option.split prod.split)

text \<open>Closing a session object.\<close>

lemma close_object_books:
  assumes ok: "manager_ok m" and c: "close_object ref m = Some (bs, m')"
  shows "same_books m m'" "manager_ok m'" "same_manager m m'"
proof -
  obtain s s1 m1 where s: "map_of (objs m) ref = Some s"
    and k: "closeLocked (manager_callbacks (profile s)) s m = Some (bs, s1, m1)"
    and m': "m' = m1\<lparr>objs := AList.update ref s1 (objs m1)\<rparr>"
    using c by (auto simp: close_object_def on_object_def bind_eq_Some_conv)
  have "ref \<in> keys (objs m)" using s by (simp add: keys_iff_map_of)
  then show man: "manager_ok m'" "same_manager m m'"
    using close_object_ok [OF ok, of ref] c by simp_all
  have p: "profile s1 = profile s"
    using k by (auto simp: closeLocked_def Let_def bind_eq_Some_conv split: if_splits)
  have f: "same_tables m m1"
    using mgr_at.protocolFailure_ok [of s "ledger_frame m" m "profile s"] object_in_pool [OF ok s] ok k
    by (simp add: same_tables_def protocolFailure_def in_pool_def manager_ok_def moved_with_def)
  have v: "counter_value j m' = counter_value j m" for j
    using rel.closeLocked_live [OF k, of j] by (cases j) (simp_all add: m')
  have "profile (obj m' r) = profile (obj m r)" for r
    using p s same_tables_fields(12) [OF f] by (simp add: m' obj_def update_conv)
  then show "same_books m m'"
    using v same_manager_fields [OF man(2)] by (simp add: same_books_def)
qed

lemma close_objects_books:
  assumes "manager_ok m" and "close_objects P refs m = Some (bs, m')"
  shows "same_books m m'"
  using assms
proof (induction refs arbitrary: m bs)
  case (Cons ref refs)
  obtain s b1 m1 b2 where a: "(if P s then close_object ref m else Some ([], m)) = Some (b1, m1)"
    and b: "close_objects P refs m1 = Some (b2, m')"
    using Cons.prems(2) by (auto simp: bind_eq_Some_conv)
  have "manager_ok m1 \<and> same_books m m1"
    using a close_object_books [OF Cons.prems(1)] Cons.prems(1) by (auto split: if_splits)
  then show ?case using Cons.IH [OF _ b] same_books_trans by blast
qed simp

lemma CloseToken_books:
  assumes "manager_ok m" and "CloseToken token m = Some (r, bs, m')"
  shows "same_books m m'"
  using assms close_object_books [OF assms(1)]
  by (auto simp: CloseToken_def split: option.splits if_splits)

lemma cleanup_books:
  assumes ok: "manager_ok m" and c: "cleanup_tick m = Some (bs, m')"
  shows "same_books m m'"
proof -
  let ?m = "removeExpiredBootstraps (clock m) m"
  have "manager_ok ?m" by (rule removeExpired_ok(1) [OF ok])
  then have "same_books ?m m'"
    using c close_objects_books by (auto simp: cleanup_tick_def Let_def)
  then show ?thesis using core_same_books [of ?m m] same_books_trans by simp
qed

lemma Shutdown_books:
  assumes ok: "manager_ok m" and c: "Shutdown_manager m = Some (bs, m')"
  shows "same_books m m'"
proof (cases "mgr_closed m")
  case False
  have "manager_ok (m\<lparr>mgr_closed := True\<rparr>)" using ok by simp
  then have "same_books (m\<lparr>mgr_closed := True\<rparr>) m'"
    using c False close_objects_books by (auto simp: Shutdown_manager_def)
  then show ?thesis using core_same_books [of "m\<lparr>mgr_closed := True\<rparr>" m] same_books_trans by simp
qed (use c in \<open>simp add: Shutdown_manager_def\<close>)

text \<open>A new session object starts without streams, for a configured profile.\<close>

lemma Create_core:
  assumes ok: "manager_ok m" and c: "Create token ip bytes random m = (r, m')"
  shows "core m' = core m \<or> (\<exists>s. core m' = core (m\<lparr>objs := AList.update (next_obj m) s (objs m)\<rparr>) \<and>
     profile s \<in> set (config_profiles m))"
proof -
  have p: "bs_profile b \<in> set (config_profiles m)" if "map_of (bootstraps m) h = Some b" for h b
    using ok map_of_SomeD [OF that]
    by (fastforce simp: manager_ok_def bootstraps_ok_def all_vals_def entry_ok_def list_all_iff)
  have l: "core (m\<lparr>sessionRate := a, profileSessionRates := b, objs := os, next_obj := n\<rparr>) =
      core (m\<lparr>objs := os\<rparr>)" for a b os n
    by (simp add: core_def)
  show ?thesis
    using c p
    by (auto simp: Create_def Let_def l intro!: exI [of _ "newSession _ _ _ _"]
        split: option.splits prod.splits if_splits)
qed

lemma new_object_books:
  assumes ok: "manager_ok m" and b: "books_ok cfg m bs"
    and c: "core m' = core (m\<lparr>objs := AList.update (next_obj m) s (objs m)\<rparr>)"
    and p: "profile s \<in> set (config_profiles m)"
  shows "books_ok cfg m' bs"
proof -
  let ?m = "m\<lparr>objs := AList.update (next_obj m) s (objs m)\<rparr>"
  have "next_obj m \<notin> keys (objs m)" using ok by (auto simp: manager_ok_def table_ok_def)
  then have old: "obj ?m ref = obj m ref" if "ref \<in> keys (objs m)" for ref
    using that by (auto simp: obj_def update_conv)
  have new: "obj ?m (next_obj m) = s" by (simp add: obj_def update_conv)
  have v: "counter_value k ?m = counter_value k m" for k by (cases k) simp_all
  have c: "map (counts_backend k ?m) bs = map (counts_backend k m) bs" for k
    using b old by (auto simp: books_ok_def intro!: counts_backend_cong)
  have f: "fits q ?m = fits q m" for q by (rule fits_cong) (simp_all add: v)
  have "books_ok cfg ?m bs"
    using b p old new by (auto simp: books_ok_def v c f)
  then show ?thesis using books_ok_same [OF _ core_same_books [OF assms(3)]] by blast
qed

subsection \<open>One backend changes\<close>

lemma sum_put_running:
  fixes f :: "running \<Rightarrow> int"
  assumes "i < length bs"
  shows "sum_list (map f (put_running i x bs)) =
     sum_list (map f bs) - f (bs ! i) + (case x of None \<Rightarrow> 0 | Some b \<Rightarrow> f b)"
proof -
  have "sum_list (map f bs) = sum_list (map f (take i bs @ bs ! i # drop (Suc i) bs))"
    using id_take_nth_drop [OF assms] by simp
  then show ?thesis by (simp add: put_running_def split: option.split)
qed

lemma set_put_running: "set (put_running i x bs) \<subseteq> set bs \<union> set_option x"
  by (auto simp: put_running_def dest: in_set_takeD in_set_dropD split: option.splits)

lemma counts_backend_nonneg: "0 \<le> counts_backend k m b"
  by (cases k) (simp_all add: counts_backend_def)

lemma counts_backend_le:
  assumes "books_ok cfg m bs" and "i < length bs"
  shows "counts_backend k m (bs ! i) \<le> counter_value k m"
proof -
  have "sum_list (map (counts_backend k m) bs) = sum_list (map (counts_backend k m) (put_running i None bs))
      + counts_backend k m (bs ! i)"
    using sum_put_running [OF assms(2), of "counts_backend k m" None] by simp
  moreover have "0 \<le> sum_list (map (counts_backend k m) (put_running i None bs))"
    by (rule sum_list_nonneg) (auto simp: counts_backend_nonneg)
  ultimately show ?thesis using assms(1) by (simp add: books_ok_def)
qed

lemma fits_mono:
  assumes "\<forall>k. counter_value k m' \<le> counter_value k m" and "config_limits m' = config_limits m"
    and "fits p m"
  shows "fits p m'"
proof -
  have "counter_value k m' \<le> counter_value k m" for k using assms(1) by blast
  from this [of AllStreams] this [of AllDials] this [of "StreamsOf (Name p)"] this [of "DialsOf (Name p)"]
  show ?thesis using assms(2,3) by (simp add: fits_def)
qed

lemma books_ok_put:
  assumes ok: "books_ok cfg m bs" and i: "i < length bs"
    and v: "\<And>k. counter_value k m' = counter_value k m - counts_backend k m (bs ! i)
      + (case x of None \<Rightarrow> 0 | Some b \<Rightarrow> counts_backend k m b)"
    and x: "\<And>k b. x = Some b \<Longrightarrow> counts_backend k m b \<le> counts_backend k m (bs ! i) \<and>
      run_owner b \<in> keys (objs m) \<and> stage_ok (run_stage b)"
    and c: "config_limits m' = config_limits m" "config_profiles m' = config_profiles m"
      "keys (objs m') = keys (objs m)" "\<And>ref. ref \<in> keys (objs m) \<Longrightarrow> profile (obj m' ref) = profile (obj m ref)"
  shows "books_ok cfg m' (put_running i x bs)"
  unfolding books_ok_def
proof (intro conjI ballI allI)
  have mem: "run_owner b \<in> keys (objs m) \<and> stage_ok (run_stage b)" if "b \<in> set (put_running i x bs)" for b
    using that set_put_running [of i x bs] ok x by (auto simp: books_ok_def)
  fix k
  have "map (counts_backend k m') (put_running i x bs) = map (counts_backend k m) (put_running i x bs)"
    using mem c(4) by (auto intro!: counts_backend_cong)
  then show "counter_value k m' = sum_list (map (counts_backend k m') (put_running i x bs))"
    using ok v [of k] by (simp only: sum_put_running [OF i] books_ok_def)
next
  fix p assume "p \<in> set (config_profiles m')"
  moreover have "counter_value k m' \<le> counter_value k m" for k
    using v [of k] x [of _ k] counts_backend_nonneg [of k m "bs ! i"] by (cases x) auto
  ultimately show "fits p m'"
    using ok c(1,2) fits_mono [of m' m p] by (simp add: books_ok_def)
next
  fix ref assume "ref \<in> keys (objs m')"
  then show "profile (obj m' ref) \<in> set (config_profiles m')"
    using ok c by (simp add: books_ok_def)
next
  fix b assume "b \<in> set (put_running i x bs)"
  then show "run_owner b \<in> keys (objs m')" "stage_ok (run_stage b)"
    using set_put_running [of i x bs] ok x c(3) by (auto simp: books_ok_def)
next
  show "(config_limits m', config_profiles m') = cfg" using ok c by (simp add: books_ok_def)
qed

subsection \<open>An operation of a session\<close>

definition same_profiles :: "manager \<Rightarrow> manager \<Rightarrow> bool" where
  "same_profiles m m' \<longleftrightarrow> (\<forall>ref \<in> keys (objs m). profile (obj m' ref) = profile (obj m ref))"

lemma on_object_relay:
  assumes ok: "manager_ok m" and b: "books_ok cfg m bs" and s: "map_of (objs m) ref = Some s"
    and f: "\<And>k F. session_ok s \<Longrightarrow> in_pool (owner_at (profile s) F) pendingGlobalCost pendingGlobalItems s m \<Longrightarrow>
      ok_with (f (manager_callbacks (profile s)) s m) (\<lambda>(out, s', m').
        moved_with (owner_at (profile s) F) pendingGlobalCost pendingGlobalItems s m s' m' \<and> session_ok s' \<and>
        counter_value k m' = counter_value k m + counter_weight k (profile s) * n out \<and> Q out)"
  shows "ok_with (on_object ref f m) (\<lambda>(out, m'). Q out \<and> manager_ok m' \<and> same_manager m m' \<and> same_profiles m m' \<and>
     fits (profile s) m' \<and> (\<forall>k. counter_value k m' = counter_value k m + counter_weight k (profile s) * n out))"
proof -
  let ?F = "ledger_frame m"
  note p = object_in_pool [OF ok s]
  have "ref \<in> keys (objs m)" "obj m ref = s" using s by (simp_all add: keys_iff_map_of obj_def)
  then have "fits (profile s) m" using b by (auto simp: books_ok_def)
  then have pool: "in_pool (owner_at (profile s) ?F) pendingGlobalCost pendingGlobalItems s m"
    using p ok by (simp add: in_pool_def owner_at_def manager_ok_def)
  note g = f [OF p(1) pool]
  obtain out s1 m1 where x: "f (manager_callbacks (profile s)) s m = Some (out, s1, m1)"
    and mv: "moved_with (owner_at (profile s) ?F) pendingGlobalCost pendingGlobalItems s m s1 m1" "session_ok s1"
    and q: "Q out"
    using g [of AllStreams] by (auto simp: ok_with_Ex)
  have v: "counter_value k m1 = counter_value k m + counter_weight k (profile s) * n out" for k
    using g [of k] by (simp add: x)
  let ?m = "m1\<lparr>objs := AList.update ref s1 (objs m1)\<rparr>"
  have t: "same_tables m m1" "ledger_ok m1" "fits (profile s) m1" "same_session s s1"
    using mv(1) by (simp_all add: moved_with_def owner_at_def same_tables_def)
  note o = same_tables_fields(12) [OF t(1)]
  have "manager_ok ?m" "same_manager m ?m"
    using manager_ok_put [OF ok s t(1) mv(2) t(4,2)] mv(1) by (simp_all add: moved_with_def)
  moreover have "same_profiles m ?m"
    using s t(4) by (auto simp: same_profiles_def obj_def update_conv o same_session_def)
  moreover have "counter_value k ?m = counter_value k m1" for k by (cases k) simp_all
  moreover have "fits (profile s) ?m" using t(3) by (simp add: fits_def)
  ultimately show ?thesis using q by (simp add: on_object_def s x v)
qed

lemma sum_started:
  assumes "profile (obj m ref) = prof"
  shows "sum_list (map (counts_backend k m) (started ref new)) = counter_weight k prof * len new"
  by (induction new) (simp_all add: started_def counts_backend_def assms distrib_left)

lemma books_ok_started:
  assumes ok: "manager_ok m" and b: "books_ok cfg m bs" and s: "map_of (objs m) ref = Some s"
    and m': "same_manager m m'" "same_profiles m m'" "fits (profile s) m'"
    and v: "\<And>k. counter_value k m' = counter_value k m + counter_weight k (profile s) * len new"
  shows "books_ok cfg m' (bs @ started ref new)"
proof -
  note c = same_manager_fields [OF m'(1)]
  have ref: "ref \<in> keys (objs m)" "obj m ref = s" using s by (simp_all add: keys_iff_map_of obj_def)
  have p: "profile (obj m' ref) = profile s" using m'(2) ref by (simp add: same_profiles_def)
  have old: "map (counts_backend k m') bs = map (counts_backend k m) bs" for k
    using b m'(2) by (auto simp: books_ok_def same_profiles_def intro!: counts_backend_cong)
  have sums: "counter_value k m' = sum_list (map (counts_backend k m') (bs @ started ref new))" for k
    using b v [of k] by (simp add: old sum_started [OF p] books_ok_def)
  have cfg: "manager_config_ok m" using ok by (simp add: manager_ok_def)
  have "fits q m'" if q: "q \<in> set (config_profiles m)" for q
  proof (cases "Name q = Name (profile s)")
    case True
    have "profile s \<in> set (config_profiles m)" using b ref by (auto simp: books_ok_def)
    then have "q = profile s" using True q cfg by (auto simp: manager_config_ok_def dest: inj_onD)
    then show ?thesis using m'(3) by simp
  next
    case False
    then have "fits q m" "counter_value (StreamsOf (Name q)) m' = counter_value (StreamsOf (Name q)) m"
      "counter_value (DialsOf (Name q)) m' = counter_value (DialsOf (Name q)) m"
      using b q v [of "StreamsOf (Name q)"] v [of "DialsOf (Name q)"] by (simp_all add: books_ok_def)
    then show ?thesis using m'(3) by (simp add: fits_def)
  qed
  then show ?thesis
    using b m'(2) sums by (auto simp: books_ok_def c same_profiles_def started_def stage_ok_def ref)
qed

lemma session_event_ok:
  assumes ok: "relay_ok cfg r" and en: "enabled (OnSession ref ev) r"
  shows "ok_with (relay_exec (OnSession ref ev) r) (relay_ok cfg)"
proof -
  let ?m = "mgr r"
  have m: "manager_ok ?m" "books_ok cfg ?m (backends r)" using ok by (simp_all add: relay_ok_def)
  obtain s where s: "map_of (objs ?m) ref = Some s" and ev: "session_enabled ev s"
    using en by (auto simp: enabled_def Let_def split: option.splits)
  have "ok_with (on_object ref (session_exec ev (clock ?m)) ?m) (\<lambda>(out, m').
     True \<and> manager_ok m' \<and> same_manager ?m m' \<and> same_profiles ?m m' \<and> fits (profile s) m' \<and>
     (\<forall>k. counter_value k m' = counter_value k ?m + counter_weight k (profile s) * len (fst out)))"
    by (rule on_object_relay [OF m s]) (simp add: rel.session_exec_ok [OF _ _ ev])
  then show ?thesis
    using books_ok_started [OF m s]
    by (auto simp: relay_exec_def ok_with_Ex Let_def relay_ok_def)
qed

subsection \<open>A step of a backend\<close>

lemma counts_backend_stage:
  "run_stage b \<noteq> Dialing \<Longrightarrow> st \<noteq> Dialing \<Longrightarrow> counts_backend k m (b\<lparr>run_stage := st\<rparr>) = counts_backend k m b"
  by (simp add: counts_backend_def)

lemma books_ok_stage:
  assumes b: "books_ok cfg m bs" and i: "i < length bs" and old: "run_stage (bs ! i) \<noteq> Dialing"
    and new: "st \<noteq> Dialing" "stage_ok st"
    and m': "same_manager m m'" "same_profiles m m'" "\<And>k. counter_value k m' = counter_value k m"
  shows "books_ok cfg m' (put_running i (Some ((bs ! i)\<lparr>run_stage := st\<rparr>)) bs)"
  using b new same_manager_fields [OF m'(1)] m'(2)
  by (intro books_ok_put [OF b i])
    (auto simp: m'(3) counts_backend_stage [OF old new(1)] same_profiles_def books_ok_def nth_mem [OF i])

definition stage_result :: "stage \<Rightarrow> bool" where
  "stage_result st \<longleftrightarrow> stage_ok st \<and> st \<noteq> Dialing"

lemma stage_op_ok:
  assumes ok: "relay_ok cfg r" and i: "i < length (backends r)" and old: "run_stage (backends r ! i) \<noteq> Dialing"
    and f: "\<And>k F s. session_ok s \<Longrightarrow>
      in_pool (owner_at (profile s) F) pendingGlobalCost pendingGlobalItems s (mgr r) \<Longrightarrow>
      ok_with (f (manager_callbacks (profile s)) s (mgr r)) (\<lambda>(st, s', m').
        moved_with (owner_at (profile s) F) pendingGlobalCost pendingGlobalItems s (mgr r) s' m' \<and> session_ok s' \<and>
        counter_value k m' = counter_value k (mgr r) \<and> stage_result st)"
  shows "ok_with (stage_op (backends r ! i) f (mgr r)) (\<lambda>(b, m').
     relay_ok cfg (r\<lparr>mgr := m', backends := put_running i b (backends r)\<rparr>))"
proof -
  let ?m = "mgr r" and ?b = "backends r ! i"
  have m: "manager_ok ?m" "books_ok cfg ?m (backends r)" using ok by (simp_all add: relay_ok_def)
  have "run_owner ?b \<in> keys (objs ?m)" using m(2) i by (simp add: books_ok_def)
  then obtain s where s: "map_of (objs ?m) (run_owner ?b) = Some s" by (auto simp: keys_iff_map_of)
  have "ok_with (on_object (run_owner ?b) f ?m) (\<lambda>(st, m'). stage_result st \<and>
     manager_ok m' \<and> same_manager ?m m' \<and> same_profiles ?m m' \<and> fits (profile s) m' \<and>
     (\<forall>k. counter_value k m' = counter_value k ?m + counter_weight k (profile s) * (\<lambda>_. 0) st))"
    by (rule on_object_relay [OF m s]) (simp add: f)
  then obtain st m' where x: "on_object (run_owner ?b) f ?m = Some (st, m')" "stage_result st" "manager_ok m'"
    and c: "same_manager ?m m'" "same_profiles ?m m'" "\<And>k. counter_value k m' = counter_value k ?m"
    by (auto simp: ok_with_Ex)
  have "books_ok cfg m' (put_running i (Some (?b\<lparr>run_stage := st\<rparr>)) (backends r))"
    using books_ok_stage [OF m(2) i old _ _ c] x(2) by (simp add: stage_result_def)
  then show ?thesis using x by (simp add: stage_op_def relay_ok_def)
qed

lemma read_ask_ok: "session_ok s \<Longrightarrow> stage_ok (Connected w (read_ask sid s))"
  by (auto simp: stage_ok_def read_ask_def nextReadAllowance_def dataFrameAllowance_def Let_def
      split: waiting.split option.split prod.split reader.split)

text \<open>Calls that only count: the manager stays but for its counters.\<close>

lemma manager_ok_ledger:
  assumes "same_tables m m'" and "pendingGlobalCost m' = pendingGlobalCost m"
    and "pendingGlobalItems m' = pendingGlobalItems m" and "manager_ok m"
  shows "manager_ok m'"
proof -
  have o: "obj m' = obj m" using same_tables_fields(12) [OF assms(1)] by (simp add: obj_def fun_eq_iff)
  show ?thesis
    using assms(4) unfolding manager_ok_defs same_tables_fields [OF assms(1)] assms(2,3) o .
qed

lemma backendDialFinished_ok:
  assumes ok: "relay_ok cfg r" and i: "i < length (backends r)" and b: "backends r ! i = b"
    and d: "run_stage b = Dialing" and s: "map_of (objs (mgr r)) (run_owner b) = Some s"
    and st: "stage_result st"
  shows "ok_with (backendDialFinished (profile s) failed (mgr r)) (\<lambda>m'.
     relay_ok cfg (r\<lparr>mgr := m', backends := put_running i (Some (b\<lparr>run_stage := st\<rparr>)) (backends r)\<rparr>))"
proof -
  let ?m = "mgr r"
  have m: "manager_ok ?m" "books_ok cfg ?m (backends r)" using ok by (simp_all add: relay_ok_def)
  have p: "profile (obj ?m (run_owner b)) = profile s" using s by (simp add: obj_def)
  have w: "counts_backend k ?m b = counter_weight k (profile s)" for k
    by (simp add: counts_backend_def d p)
  have le: "counter_weight k (profile s) \<le> counter_value k ?m" for k
    using counts_backend_le [OF m(2) i, of k] by (simp add: b w)
  then obtain m' where x: "backendDialFinished (profile s) failed ?m = Some m'"
    using le [of AllDials] le [of "DialsOf (Name (profile s))"] by (simp add: backendDialFinished_def Let_def)
  have t: "same_tables ?m m'" "pendingGlobalCost m' = pendingGlobalCost ?m"
    "pendingGlobalItems m' = pendingGlobalItems ?m"
    using x by (auto simp: backendDialFinished_def Let_def same_tables_def ledger_frame_def split: if_splits)
  note f = same_tables_fields [OF t(1)]
  have v: "counter_value k m' = counter_value k ?m - counts_backend k ?m b
      + counts_backend k ?m (b\<lparr>run_stage := st\<rparr>)" for k
    using x st
    by (cases k) (auto simp: backendDialFinished_def Let_def count_of_drop_one counts_backend_def d p
        stage_result_def split: if_splits)
  have "counts_backend k ?m (b\<lparr>run_stage := st\<rparr>) \<le> counts_backend k ?m b" for k
    by (cases k) (simp_all add: counts_backend_def d)
  moreover have "run_owner b \<in> keys (objs ?m)" using s by (simp add: keys_iff_map_of)
  ultimately have "books_ok cfg m' (put_running i (Some (b\<lparr>run_stage := st\<rparr>)) (backends r))"
    using st by (intro books_ok_put [OF m(2) i]) (auto simp: b v f obj_def stage_result_def)
  then show ?thesis using x manager_ok_ledger [OF t m(1)] by (simp add: relay_ok_def)
qed

lemma streamFinished_ok:
  assumes ok: "relay_ok cfg r" and i: "i < length (backends r)" and b: "backends r ! i = b"
    and d: "run_stage b = Finishing" and s: "map_of (objs (mgr r)) (run_owner b) = Some s"
  shows "ok_with (streamFinished (profile s) (mgr r)) (\<lambda>m'.
     relay_ok cfg (r\<lparr>mgr := m', backends := put_running i None (backends r)\<rparr>))"
proof -
  let ?m = "mgr r"
  have m: "manager_ok ?m" "books_ok cfg ?m (backends r)" using ok by (simp_all add: relay_ok_def)
  have p: "profile (obj ?m (run_owner b)) = profile s" using s by (simp add: obj_def)
  have le: "counts_backend k ?m b \<le> counter_value k ?m" for k
    using counts_backend_le [OF m(2) i, of k] by (simp add: b)
  then obtain m' where x: "streamFinished (profile s) ?m = Some m'"
    using le [of AllStreams] le [of "StreamsOf (Name (profile s))"]
    by (simp add: streamFinished_def Let_def counts_backend_def p)
  have t: "same_tables ?m m'" "pendingGlobalCost m' = pendingGlobalCost ?m"
    "pendingGlobalItems m' = pendingGlobalItems ?m"
    using x by (auto simp: streamFinished_def Let_def same_tables_def ledger_frame_def split: if_splits)
  note f = same_tables_fields [OF t(1)]
  have v: "counter_value k m' = counter_value k ?m - counts_backend k ?m b" for k
    using x
    by (cases k) (auto simp: streamFinished_def Let_def count_of_drop_one counts_backend_def d p split: if_splits)
  have "books_ok cfg m' (put_running i None (backends r))"
    by (intro books_ok_put [OF m(2) i]) (auto simp: b v f obj_def)
  then show ?thesis using x manager_ok_ledger [OF t m(1)] by (simp add: relay_ok_def)
qed

lemma unstaged_ok:
  assumes ok: "relay_ok cfg r" and i: "i < length (backends r)" and b: "backends r ! i = b"
    and d: "run_stage b \<noteq> Dialing" and st: "stage_result st"
  shows "relay_ok cfg (r\<lparr>backends := put_running i (Some (b\<lparr>run_stage := st\<rparr>)) (backends r)\<rparr>)"
  using ok st books_ok_stage [of cfg "mgr r" "backends r" i st "mgr r"] i d
  by (simp add: relay_ok_def stage_result_def b same_profiles_def)

lemma unchanged_ok:
  "i < length (backends r) \<Longrightarrow> put_running i (Some (backends r ! i)) (backends r) = backends r"
  using id_take_nth_drop [of i "backends r"] by (simp add: put_running_def)

text \<open>The operations of a session that a backend runs.\<close>

lemma backend_op_ok:
  fixes k :: counter
  assumes s: "session_ok s" and acc: "in_pool (owner_at (profile s) F) pendingGlobalCost pendingGlobalItems s m"
  defines "cb \<equiv> manager_callbacks (profile s)"
  defines "good \<equiv> \<lambda>x. ok_with x (\<lambda>(st, s', m'). moved_with (owner_at (profile s) F) pendingGlobalCost
      pendingGlobalItems s m s' m' \<and> session_ok s' \<and> counter_value k m' = counter_value k m \<and> stage_result st)"
  shows "stage_ok (Connected w rd) \<Longrightarrow>
      good (case write_fetch sid s of (w, s) \<Rightarrow> Some (Connected w rd, s, m))"
    and "stage_ok (Connected w rd) \<Longrightarrow>
      good (do { (w, s, e) \<leftarrow> write_some cb sid n err data s m; Some (Connected w rd, s, e) })"
    and "good (Some (Connected w (read_ask sid s), s, m))"
    and "len bytes \<le> DataChunk \<Longrightarrow>
      good (do { (rd, s, e) \<leftarrow> read_some cb sid bytes err s m; Some (Connected w rd, s, e) })"
    and "good (do { (bs, s, e) \<leftarrow> backendClosed cb sid ref s m; Some (Finishing, s, e) })"
proof -
  have rd: "stage_result (Connected w' rd)" if "stage_ok (Connected w rd)" for w'
    using that by (cases rd) (simp_all add: stage_result_def stage_ok_def)
  show "good (case write_fetch sid s of (w, s) \<Rightarrow> Some (Connected w rd, s, m))" if "stage_ok (Connected w rd)"
    using rel.write_fetch_stepped [OF s acc, where f = "\<lambda>w. Connected w rd" and k = k and sid = sid] rd [OF that]
    unfolding good_def by (auto simp: ok_with_Ex split: prod.splits)
  show "good (do { (w, s, e) \<leftarrow> write_some cb sid n err data s m; Some (Connected w rd, s, e) })"
    if "stage_ok (Connected w rd)"
    using rel.write_some_stepped [OF s acc, where k = k and sid = sid and n = n and err = err and data = data]
      rd [OF that]
    unfolding good_def cb_def by (auto simp: ok_with_Ex)
  show "good (Some (Connected w (read_ask sid s), s, m))"
    using read_ask_ok [OF s] s acc
    unfolding good_def by (simp add: stage_result_def moved_with_def in_pool_def)
  show "good (do { (rd, s, e) \<leftarrow> read_some cb sid bytes err s m; Some (Connected w rd, s, e) })"
    if "len bytes \<le> DataChunk"
  proof -
    have rd: "stage_result (Connected w rd)" if "read_some cb sid bytes err s m = Some (rd, s', m')" for rd s' m'
      using that by (auto simp: read_some_def bind_eq_Some_conv stage_result_def stage_ok_def split: if_splits)
    have "len bytes \<le> MaxPayload" using that by simp
    then show ?thesis
      using rel.read_some_stepped [OF s acc, where k = k and sid = sid and err = err and data = bytes] rd
      unfolding good_def cb_def by (auto simp: ok_with_Ex)
  qed
  show "good (do { (bs, s, e) \<leftarrow> backendClosed cb sid ref s m; Some (Finishing, s, e) })"
    using rel.backendClosed_stepped [OF s acc, where k = k and sid = sid and ref = ref]
    unfolding good_def cb_def by (auto simp: ok_with_Ex stage_result_def stage_ok_def)
qed

text \<open>Every event of a backend, whatever its stage.\<close>

lemma backend_event_ok:
  assumes ok: "relay_ok cfg r" and en: "enabled (OnBackend i ev) r"
  shows "ok_with (relay_exec (OnBackend i ev) r) (relay_ok cfg)"
proof -
  let ?m = "mgr r" and ?bs = "backends r"
  define b where "b = ?bs ! i"
  have i: "i < length ?bs" and be: "backend_enabled ev b" using en by (simp_all add: enabled_def b_def)
  have books: "books_ok cfg ?m ?bs" using ok by (simp add: relay_ok_def)
  have own: "run_owner b \<in> keys (objs ?m)" "stage_ok (run_stage b)"
    using books i by (simp_all add: books_ok_def b_def)
  then obtain s where s: "map_of (objs ?m) (run_owner b) = Some s" by (auto simp: keys_iff_map_of)
  define good where "good x = ok_with x (\<lambda>(b', m').
     relay_ok cfg (r\<lparr>mgr := m', backends := put_running i b' ?bs\<rparr>))" for x
  have same: "good (Some (Some b, ?m))"
    using ok unchanged_ok [OF i] by (simp add: good_def b_def)
  have set_stage: "good (Some (Some (b\<lparr>run_stage := st\<rparr>), ?m))"
    if "run_stage b \<noteq> Dialing" "stage_result st" for st
    using unstaged_ok [OF ok i b_def [symmetric] that] by (simp add: good_def)
  note op = stage_op_ok [OF ok i, folded b_def good_def]
  have stopped: "stage_result (Connected WriterDone rd)" "stage_result (Connected w ReaderDone)"
    if "run_stage b = Connected w rd" for w rd
    using own(2) that by (cases rd; simp add: stage_result_def stage_ok_def)+
  have "good (backend_exec ev b ?m)"
  proof (cases "run_stage b")
    case Dialing
    have "good (do { s \<leftarrow> map_of (objs ?m) (run_owner b); m \<leftarrow> backendDialFinished (profile s) f ?m;
        Some (Some (b\<lparr>run_stage := st\<rparr>), m) })" if "stage_result st" for st f
      using backendDialFinished_ok [OF ok i b_def [symmetric] Dialing s that, of f]
      by (auto simp: good_def s ok_with_Ex)
    then show ?thesis
      using same by (cases ev) (auto simp: backend_exec_def Dialing stage_result_def stage_ok_def Let_def)
  next
    case (Connected w rd)
    have d: "run_stage b \<noteq> Dialing" by (simp add: Connected)
    have rd: "stage_ok (Connected w rd)" using own(2) by (simp add: Connected)
    have fetch: "good (stage_op b (\<lambda>cb s e. case write_fetch sid s of (w, s) \<Rightarrow> Some (Connected w rd, s, e)) ?m)"
      for sid by (rule op [OF d], rule backend_op_ok(1) [OF _ _ rd])
    have wr: "good (stage_op b (\<lambda>cb s e. do {
            (w, s, e) \<leftarrow> write_some cb sid n err data s e; Some (Connected w rd, s, e) }) ?m)" for sid n err data
      by (rule op [OF d], rule backend_op_ok(2) [OF _ _ rd])
    have ask: "good (stage_op b (\<lambda>cb s e. Some (Connected w (read_ask sid s), s, e)) ?m)" for sid
      by (rule op [OF d], rule backend_op_ok(3))
    have rds: "good (stage_op b (\<lambda>cb s e. do {
            (rd, s, e) \<leftarrow> read_some cb sid bytes err s e; Some (Connected w rd, s, e) }) ?m)"
      if "len bytes \<le> DataChunk" for sid bytes err
      by (rule op [OF d], rule backend_op_ok(4) [OF _ _ that])
    show ?thesis
      using same set_stage [OF d] fetch wr ask rds stopped [OF Connected] be own(2)
      by (cases ev; cases w; cases rd)
        (simp_all add: backend_exec_def Connected Let_def backend_enabled_def stage_ok_def stage_result_def)
  next
    case Leaving
    have d: "run_stage b \<noteq> Dialing" by (simp add: Leaving)
    have "good (stage_op b (\<lambda>cb s e. do {
            (bs, s, e) \<leftarrow> backendClosed cb sid ref s e; Some (Finishing, s, e) }) ?m)" for sid ref
      by (rule op [OF d], rule backend_op_ok(5))
    then show ?thesis using same by (cases ev) (simp_all add: backend_exec_def Leaving Let_def)
  next
    case Finishing
    have "good (do { s \<leftarrow> map_of (objs ?m) (run_owner b); m \<leftarrow> streamFinished (profile s) ?m; Some (None, m) })"
      using streamFinished_ok [OF ok i b_def [symmetric] Finishing s]
      by (auto simp: good_def s ok_with_Ex)
    then show ?thesis using same by (cases ev) (simp_all add: backend_exec_def Finishing Let_def)
  qed
  then show ?thesis by (auto simp: relay_exec_def good_def b_def ok_with_Ex Let_def)
qed

subsection \<open>Every event\<close>

lemma manager_event_ok:
  assumes "relay_ok cfg r" and "manager_ok m'" and "same_books (mgr r) m'"
  shows "relay_ok cfg (r\<lparr>mgr := m'\<rparr>)"
  using assms books_ok_same [OF _ assms(3), of cfg "backends r"] by (simp add: relay_ok_def)

lemma fresh_tokenD:
  "fresh_token kind random al m \<Longrightarrow> newToken (tokenKey m) kind random = Some (token, h) \<Longrightarrow> h \<notin> keys al"
  by (auto simp: fresh_token_def keys_iff_map_of)

theorem relay_event_ok:
  assumes ok: "relay_ok cfg r" and en: "enabled ev r"
  shows "ok_with (relay_exec ev r) (relay_ok cfg)"
proof -
  have m: "manager_ok (mgr r)" and b: "books_ok cfg (mgr r) (backends r)" using ok by (simp_all add: relay_ok_def)
  show ?thesis
  proof (cases ev)
    case (Issues prof ip random)
    obtain x m' where i: "IssueBootstrap prof ip random (mgr r) = (x, m')" by fastforce
    have "manager_ok m'"
      by (rule IssueBootstrap_ok [OF m _ i])
        (use en Issues in \<open>auto simp: enabled_def Let_def dest: fresh_tokenD\<close>)
    moreover have "same_books (mgr r) m'"
      using core_IssueBootstrap [of prof ip random "mgr r"] core_same_books by (simp add: i)
    ultimately show ?thesis using manager_event_ok [OF ok] by (simp add: relay_exec_def Issues i Let_def)
  next
    case (Creates token ip bytes random)
    obtain x m' where c: "Create token ip bytes random (mgr r) = (x, m')" by fastforce
    have "manager_ok m'"
      by (rule Create_ok [OF m _ c])
        (use en Creates in \<open>auto simp: enabled_def Let_def dest: fresh_tokenD\<close>)
    moreover have "books_ok cfg m' (backends r)"
      using Create_core [OF m c] books_ok_same [OF b core_same_books] new_object_books [OF m b] by blast
    ultimately show ?thesis by (simp add: relay_exec_def Creates c Let_def relay_ok_def)
  next
    case (Waits d)
    show ?thesis
      using manager_event_ok [OF ok] m core_same_books by (simp add: relay_exec_def Waits Let_def)
  next
    case Cleans
    obtain bs m' where c: "cleanup_tick (mgr r) = Some (bs, m')" "manager_ok m'"
      using cleanup_tick_ok [OF m] by (auto simp: ok_with_Ex)
    show ?thesis
      using manager_event_ok [OF ok c(2) cleanup_books [OF m c(1)]] c(1) by (simp add: relay_exec_def Cleans Let_def)
  next
    case Shuts
    obtain bs m' where c: "Shutdown_manager (mgr r) = Some (bs, m')" "manager_ok m'"
      using Shutdown_manager_ok [OF m] by (auto simp: ok_with_Ex)
    show ?thesis
      using manager_event_ok [OF ok c(2) Shutdown_books [OF m c(1)]] c(1) by (simp add: relay_exec_def Shuts Let_def)
  next
    case (ClosesToken token)
    obtain x bs m' where c: "CloseToken token (mgr r) = Some (x, bs, m')" "manager_ok m'"
      using CloseToken_ok [OF m, of token] by (auto simp: ok_with_Ex)
    show ?thesis
      using manager_event_ok [OF ok c(2) CloseToken_books [OF m c(1)]] c(1)
      by (simp add: relay_exec_def ClosesToken Let_def)
  next
    case (Finished ref)
    then obtain s where s: "map_of (objs (mgr r)) ref = Some s"
      using en by (auto simp: enabled_def Let_def split: option.splits)
    show ?thesis
      using manager_event_ok [OF ok sessionFinished_ok(1) [OF m s]]
        core_same_books [OF core_sessionFinished] s
      by (simp add: relay_exec_def Finished Let_def)
  next
    case (OnSession ref e)
    then show ?thesis using session_event_ok ok en by blast
  next
    case (OnBackend i e)
    then show ?thesis using backend_event_ok ok en by blast
  qed
qed

subsection \<open>The start\<close>

text \<open>A configuration the validation accepts, with profiles of different names, at least one.\<close>

definition accepted :: "Limits \<Rightarrow> Timeouts \<Rightarrow> Profile list \<Rightarrow> bool" where
  "accepted lims tms profs \<longleftrightarrow> validate_limits lims tms = None \<and> profs \<noteq> [] \<and>
     len profs \<le> MaxProfiles lims \<and> distinct (map Name profs) \<and>
     list_all (\<lambda>p. validateProfileLimits (Profile_Limits p) lims = None) profs"

lemma session_limits_ok:
  "limits_ok g \<Longrightarrow> profile_limits_ok p g \<Longrightarrow> limits_ok (session_limits g p)"
  by (simp add: limits_ok_def profile_limits_ok_def session_limits_def)

lemma start_ok:
  assumes "accepted lims tms profs"
  shows "relay_ok (lims, map (resolve_profile lims) profs)
     \<lparr>mgr = NewManager lims tms profs key now, backends = []\<rparr>"
proof -
  let ?m = "NewManager lims tms profs key now"
  have v: "validate_limits lims tms = None" and g: "limits_ok lims"
    using assms validate_limits_ok by (auto simp: accepted_def)
  have ip: "0 \<le> MaxSessionsPerIP lims" using v by (simp add: validate_limits_def split: if_split_asm)
  have p: "profile_limits_ok (Profile_Limits q) lims" if "q \<in> set (config_profiles ?m)" for q
    using that assms WithDefaults_ok [OF v] by (auto simp: accepted_def list_all_iff resolve_profile_def)
  have n: "inj_on Name (set (config_profiles ?m))"
    using assms by (auto simp: accepted_def resolve_profile_def distinct_map inj_on_def image_iff)
  have "0 \<le> MaxSessions_p (Profile_Limits q) \<and> limits_ok (session_limits lims (Profile_Limits q))"
    if "q \<in> set (config_profiles ?m)" for q
    using p [OF that] session_limits_ok [OF g p [OF that]] by (simp add: profile_limits_ok_def)
  then have "manager_config_ok ?m"
    using g ip n by (simp add: manager_config_ok_def)
  then have man: "manager_ok ?m" by (rule NewManager_ok)
  have "counter_value k ?m = 0" for k by (cases k) (simp_all add: count_of_def)
  moreover have "fits q ?m" if "q \<in> set (config_profiles ?m)" for q
    using p [OF that] g by (simp add: fits_def profile_limits_ok_def limits_ok_def count_of_def)
  ultimately show ?thesis using man by (simp add: relay_ok_def books_ok_def keys_def)
qed

theorem reachable_ok:
  assumes "accepted lims tms profs" and "reachable lims tms profs key now r"
  shows "relay_ok (lims, map (resolve_profile lims) profs) r"
  using assms(2)
proof (induction rule: reachable.induct)
  case start
  show ?case by (rule start_ok [OF assms(1)])
next
  case (more r ev r')
  then show ?case using relay_event_ok [of _ r ev] by (auto elim!: relay_stepE)
qed

end
