(* ===== verification/Downlink_Props.thy ===== *)
theory Downlink_Props
  imports Uplink_Props
begin

text \<open>
  Properties of the long polls: an answer carries the queued frames and can be asked for
  again, an acknowledgement gives back exactly what the batch cost, the newest poll wins, a
  parked poll is woken when there is something to send, and a poll of an evicted lane ends.
\<close>

subsection \<open>What a client reads\<close>

text \<open>
  The bytes parse to frames that are, for every stream, the front of what was queued: its data,
  its end and its window credit.
\<close>

definition answers_with :: "int \<Rightarrow> carrierLane \<Rightarrow> byte list \<Rightarrow> carrierLane \<Rightarrow> bool" where
  "answers_with limit lane bytes lane' \<longleftrightarrow> (\<exists>frames. ParseAll bytes MaxPayload = Inr frames \<and>
     (len bytes \<le> limit \<or> length frames = 1) \<and>
     (\<forall>sid. queue_view sid (pendingFrames lane) =
        concat (map (frame_view sid) frames) @ queue_view sid (pendingFrames lane')) \<and>
     (\<forall>sid. queue_credit sid (pendingFrames lane) =
        sum_list (map (frame_credit sid) frames) + queue_credit sid (pendingFrames lane')))"

lemma delivered_answers:
  assumes "delivered limit cursor lane bytes nxt lane'" and "bytes \<noteq> []"
  shows "answers_with limit lane bytes lane'" "nxt = cursor + 1" "unacked lane' = bytes"
    "unackedBase lane' = cursor" "downCursor lane' = nxt"
proof -
  obtain taken where t: "taken \<noteq> []" "pendingFrames lane = taken @ pendingFrames lane'"
    "list_all queued_ok taken" "length taken \<le> MaxBatchFrames" "bytes = concat (map encoded taken)"
    "len bytes \<le> limit \<or> length taken = 1"
    and u: "nxt = cursor + 1" "unacked lane' = bytes" "unackedBase lane' = cursor" "downCursor lane' = nxt"
    using assms by (auto simp: delivered_def)
  have "ParseAll bytes MaxPayload = Inr (map frame_of taken)"
    using batch_parses [OF t(3,1,4)] t(5) by simp
  then show "answers_with limit lane bytes lane'"
    using t unfolding answers_with_def
    by (intro exI [of _ "map frame_of taken"]) (simp add: queue_view_def queue_credit_def comp_def)
  show "nxt = cursor + 1" "unacked lane' = bytes" "unackedBase lane' = cursor" "downCursor lane' = nxt"
    using u by simp_all
qed

lemma mgr_Poll_ok:
  assumes "session_ok s" and "manager_pool s m" and "Poll (manager_callbacks prof) cursor now s m = Some (r, s', m')"
  shows "session_ok s'" "manager_moved s m s' m'"
    "\<not> usesCarrierLanes s \<Longrightarrow> \<not> closed s \<Longrightarrow> poll_start cursor (mux s) = Fresh c i lane \<Longrightarrow>
       poll_result (CarrierBatchBytes (limits s)) cursor (PollId (next_ref s) cursor) False (mux s) r (mux s')"
  using mgr.Poll_ok [OF assms(1,2), of prof cursor now] assms(3) by auto

lemma Poll_open:
  "Poll cb cursor now s e = Some (Answered (Inr (bytes, nxt)), s', e') \<Longrightarrow> \<not> usesCarrierLanes s \<and> \<not> closed s"
  by (simp add: Poll_def split: if_splits)

lemma poll_start_fresh:
  assumes "Poll cb cursor now s e = Some (Answered r, s', e')" and "\<not> usesCarrierLanes s" and "\<not> closed s"
    and "unacked (mux s) = [] \<or> cursor \<noteq> unackedBase (mux s)"
  shows "\<exists>c i lane. poll_start cursor (mux s) = Fresh c i lane"
  using assms by (auto simp: Poll_def poll_start_def Let_def split: if_splits)

text \<open>
  C14: a poll delivers the queue. When a poll of a multiplexed session answers with a new batch,
  the bytes parse as frames, and these frames followed by what is still queued are, for every
  stream, the data bytes, the end of stream and the window credit that were queued before, in
  order. The batch keeps to the configured size unless it is one frame, and until it is
  acknowledged a poll with the same cursor returns the same bytes and the same next cursor and
  changes nothing but the time of the last activity.
\<close>
theorem Poll_delivers:
  assumes "session_ok s" and "manager_pool s m"
    and "Poll (manager_callbacks prof) cursor now s m = Some (Answered (Inr (bytes, nxt)), s', m')"
    and "bytes \<noteq> []" and "unacked (mux s) = [] \<or> cursor \<noteq> unackedBase (mux s)"
  shows "answers_with (CarrierBatchBytes (limits s)) (mux s) bytes (mux s') \<and> nxt = cursor + 1 \<and>
     Poll (manager_callbacks prof') cursor later s' m' =
       Some (Answered (Inr (bytes, nxt)), s'\<lparr>lastActivity := later\<rparr>, m')"
proof -
  note open_s = Poll_open [OF assms(3)]
  obtain c i lane where f: "poll_start cursor (mux s) = Fresh c i lane"
    using poll_start_fresh [OF assms(3) _ _ assms(5)] open_s by blast
  have "delivered (CarrierBatchBytes (limits s)) cursor (mux s) bytes nxt (mux s')"
    using mgr_Poll_ok(3) [OF assms(1-3) _ _ f] open_s by (simp add: poll_result_def)
  note d = delivered_answers [OF this assms(4)]
  have "usesCarrierLanes s' = usesCarrierLanes s"
    using mgr_Poll_ok(2) [OF assms(1-3)] same_session_lanes by (auto simp: moved_with_def)
  moreover have "\<not> closed s'"
    using assms(3) open_s f
    by (auto simp: Poll_def poll_loop_def Let_def bind_eq_Some_conv releasePending_def split: if_splits prod.splits)
  ultimately show ?thesis
    using d open_s assms(4) by (simp add: Poll_def poll_start_def Let_def)
qed

subsection \<open>A session with something to send\<close>

definition close_item :: queuedFrame where
  "close_item = \<lparr>encoded = [3, 0, 0, 5, 0, 0, 0, 0], typeCode = Close, streamID = 5, cost = 8 + queueItemCost\<rparr>"

definition sending_session :: "poll_id option \<Rightarrow> session" where
  "sending_session waiter = (newSession sample_profile ''192.0.2.1'' Default_Limits 5)\<lparr>
     mux := (newCarrierLane 0)\<lparr>pendingFrames := [close_item], notify := True, superseded := waiter\<rparr>,
     pendingCost := 8 + queueItemCost, pendingItems := 1\<rparr>"

definition sending_manager :: ledger where
  "sending_manager = (new_ledger Default_Limits 5)\<lparr>pendingGlobalCost := 8 + queueItemCost, pendingGlobalItems := 1\<rparr>"

lemma close_item_ok: "queued_ok close_item"
  by (simp add: queued_ok_def close_item_def frame_of_def frame_bytes_def frame_header_def PutUint32_def)

lemma sending_fields [simp]:
  "limits (sending_session w) = Default_Limits" "closed (sending_session w) = False"
  "usesCarrierLanes (sending_session w) = False" "next_ref (sending_session w) = 2"
  "streams (sending_session w) = []" "carrierLanes (sending_session w) = []" "detached (sending_session w) = []"
  "mux (sending_session w) = (newCarrierLane 0)\<lparr>pendingFrames := [close_item], notify := True, superseded := w\<rparr>"
  "pendingCost (sending_session w) = 8 + queueItemCost" "pendingItems (sending_session w) = 1"
  "lastActivity (sending_session w) = 5"
  by (simp_all add: sending_session_def newSession_def Let_def usesCarrierLanes_def sample_profile_def WithDefault_def)

lemma sending_session_ok:
  assumes "w \<noteq> None \<longrightarrow> poll_cursor (the w) = 0"
  shows "session_ok (sending_session w)"
proof -
  have "ring_ok (sending_session w) \<and> finished (sending_session w) = False \<and> closedStreams (sending_session w) = {}"
    using Default_Limits_ok
    by (simp add: ring_ok_def sending_session_def newSession_def Let_def limits_ok_def)
  then show ?thesis
    using Default_Limits_ok close_item_ok assms
    by (simp add: session_ok_def session_inv_def streams_ok_def lanes_ok_def held_cost_def held_items_def
        all_vals_def lane_ok_def queue_ok_def windows_ok_def newCarrierLane_def lane_cost_def lane_items_def
        close_item_def)
qed

lemma sending_pool: "manager_pool (sending_session w) sending_manager"
  using Default_Limits_ok
  by (simp add: in_pool_def sending_manager_def ledger_ok_def new_ledger_def limits_ok_def Default_Limits_def)

lemma sending_Poll:
  "Poll (manager_callbacks sample_profile) 0 7 (sending_session None) sending_manager =
     Some (Answered (Inr ([3, 0, 0, 5, 0, 0, 0, 0], 1)),
       snd (the (Poll (manager_callbacks sample_profile) 0 7 (sending_session None) sending_manager)))"
  by (simp add: Poll_def poll_start_def releasePending_def poll_loop_def poll_take_def takeDownBatch_def
      newCarrierLane_def Let_def Default_Limits_def close_item_def)

theorem Poll_delivers_witness:
  "\<exists>s' (m' :: ledger). Poll (manager_callbacks sample_profile) 0 9 s' m' =
     Some (Answered (Inr ([3, 0, 0, 5, 0, 0, 0, 0], 1)), s'\<lparr>lastActivity := 9\<rparr>, m')"
proof -
  obtain s' m' where "Poll (manager_callbacks sample_profile) 0 7 (sending_session None) sending_manager =
     Some (Answered (Inr ([3, 0, 0, 5, 0, 0, 0, 0], 1)), s', m')"
    using sending_Poll by (metis prod.collapse)
  from Poll_delivers [OF sending_session_ok sending_pool this, of sample_profile 9]
  show ?thesis by (auto simp: newCarrierLane_def)
qed

subsection \<open>Lanes\<close>

lemma PollLane_open:
  assumes "PollLane cb k cursor now s e = Some (Answered (Inr (bytes, nxt, over)), s', e')"
  shows "usesCarrierLanes s" "\<not> closed s" "k \<le> MaxStreamID"
  using assms by (auto simp: PollLane_def split: if_splits)

text \<open>
  A poll of a lane delivers the lane's queue in the same way. A new batch holds the front
  of what is queued on that lane, for every stream and in order, and the same poll repeated
  returns the same batch. An answer with bytes never says that the lane has ended.
\<close>
theorem PollLane_delivers:
  assumes "session_ok s" and "manager_pool s m" and "map_of (carrierLanes s) k = Some lane"
    and "PollLane (manager_callbacks prof) k cursor now s m = Some (Answered (Inr (bytes, nxt, over)), s', m')"
    and "bytes \<noteq> []" and "unacked lane = [] \<or> cursor \<noteq> unackedBase lane"
  shows "\<exists>lane'. map_of (carrierLanes s') k = Some lane' \<and> \<not> over \<and> nxt = cursor + 1 \<and>
     answers_with (CarrierBatchBytes (limits s)) lane bytes lane' \<and>
     PollLane (manager_callbacks prof') k cursor later s' m' =
       Some (Answered (Inr (bytes, nxt, False)), s'\<lparr>lastActivity := later\<rparr>, m')"
proof -
  note open_s = PollLane_open [OF assms(4)]
  obtain c i l where f: "poll_start cursor lane = Fresh c i l"
    using assms(4,6) open_s by (auto simp: PollLane_def assms(3) poll_start_def Let_def split: if_splits)
  obtain lane' where l: "map_of (carrierLanes s') k = Some lane'"
    and r: "delivered (CarrierBatchBytes (limits s)) cursor lane bytes nxt lane'" "over \<longrightarrow> bytes = []"
    and mv: "manager_moved s m s' m'"
    using mgr.PollLane_ok [OF assms(1,2), of prof k cursor now] open_s f assms(3)
    unfolding assms(4) by (auto simp: lane_result_def)
  note d = delivered_answers [OF r(1) assms(5)]
  have "usesCarrierLanes s'" using mv open_s(1) same_session_lanes by (auto simp: moved_with_def)
  moreover have "\<not> closed s'"
    using assms(4) open_s f
    by (auto simp: PollLane_def poll_lane_loop_def store_lane_def Let_def bind_eq_Some_conv releasePending_def
        assms(3) split: if_splits prod.splits)
  ultimately show ?thesis
    using d r(2) assms(5) open_s(3) by (intro exI [of _ lane']) (simp add: PollLane_def l poll_start_def Let_def)
qed

definition sending_lanes :: session where
  "sending_lanes = (newSession (sample_profile\<lparr>Carrier_Mode := CarrierHTTPSLanes\<rparr>) ''192.0.2.1'' Default_Limits 5)\<lparr>
     carrierLanes := [(0, (newCarrierLane 1)\<lparr>pendingFrames := [close_item], notify := True\<rparr>)],
     pendingCost := 8 + queueItemCost, pendingItems := 1\<rparr>"

lemma sending_lanes_fields [simp]:
  "limits sending_lanes = Default_Limits" "closed sending_lanes = False"
  "usesCarrierLanes sending_lanes = True" "streams sending_lanes = []" "detached sending_lanes = []"
  "carrierLanes sending_lanes = [(0, (newCarrierLane 1)\<lparr>pendingFrames := [close_item], notify := True\<rparr>)]"
  "mux sending_lanes = newCarrierLane 0" "pendingCost sending_lanes = 8 + queueItemCost"
  "pendingItems sending_lanes = 1" "next_ref sending_lanes = 2"
  by (simp_all add: sending_lanes_def newSession_def Let_def usesCarrierLanes_def WithDefault_def)

lemma sending_lanes_ok: "session_ok sending_lanes"
proof -
  have "ring_ok sending_lanes \<and> finished sending_lanes = False"
    using Default_Limits_ok
    by (simp add: ring_ok_def sending_lanes_def newSession_def Let_def limits_ok_def)
  then show ?thesis
    using Default_Limits_ok close_item_ok
    by (simp add: session_ok_def session_inv_def streams_ok_def lanes_ok_def held_cost_def held_items_def
        all_vals_def lane_ok_def queue_ok_def windows_ok_def newCarrierLane_def lane_cost_def lane_items_def
        close_item_def keys_def)
qed

lemma sending_lanes_pool: "manager_pool sending_lanes sending_manager"
  using Default_Limits_ok
  by (simp add: in_pool_def sending_manager_def ledger_ok_def new_ledger_def limits_ok_def Default_Limits_def)

lemma sending_PollLane:
  "\<exists>s' m'. PollLane (manager_callbacks sample_profile) 0 0 7 sending_lanes sending_manager =
     Some (Answered (Inr ([3, 0, 0, 5, 0, 0, 0, 0], 1, False)), s', m')"
  by (simp add: PollLane_def poll_start_def releasePending_def poll_lane_loop_def poll_take_def takeDownBatch_def
      newCarrierLane_def Let_def Default_Limits_def close_item_def)

theorem PollLane_delivers_witness:
  "\<exists>s' (m' :: ledger). PollLane (manager_callbacks sample_profile) 0 0 9 s' m' =
     Some (Answered (Inr ([3, 0, 0, 5, 0, 0, 0, 0], 1, False)), s'\<lparr>lastActivity := 9\<rparr>, m')"
proof -
  obtain s' m' where p: "PollLane (manager_callbacks sample_profile) 0 0 7 sending_lanes sending_manager =
     Some (Answered (Inr ([3, 0, 0, 5, 0, 0, 0, 0], 1, False)), s', m')"
    using sending_PollLane by blast
  have l: "map_of (carrierLanes sending_lanes) 0 =
      Some ((newCarrierLane 1)\<lparr>pendingFrames := [close_item], notify := True\<rparr>)" by simp
  from PollLane_delivers [OF sending_lanes_ok sending_lanes_pool l p, of sample_profile 9]
  show ?thesis by (auto simp: newCarrierLane_def)
qed

subsection \<open>Acknowledging\<close>

lemma poll_loop_pending:
  "poll_loop cb cursor mine s e = (r, s', e') \<Longrightarrow>
     pendingCost s' = pendingCost s \<and> pendingItems s' = pendingItems s"
  by (auto simp: poll_loop_def split: if_splits prod.splits)

text \<open>
  A poll with the cursor after the batch acknowledges it, and only that gives its bytes
  back: the session's and the manager's pending cost and items fall by exactly what the batch
  was charged, whatever the poll then does, and the batch is forgotten.
\<close>
theorem Poll_acknowledges:
  assumes "session_ok s" and "manager_pool s m" and "\<not> usesCarrierLanes s" and "\<not> closed s"
    and "unacked (mux s) \<noteq> []"
  shows "ok_with (Poll (manager_callbacks prof) (unackedBase (mux s) + 1) now s m) (\<lambda>(r, s', m').
     pendingCost s' = pendingCost s - unackedCost (mux s) \<and>
     pendingItems s' = pendingItems s - unackedItems (mux s) \<and>
     pendingGlobalCost m' = pendingGlobalCost m - unackedCost (mux s) \<and>
     pendingGlobalItems m' = pendingGlobalItems m - unackedItems (mux s) \<and>
     r \<noteq> Answered (Inr (unacked (mux s), unackedBase (mux s) + 1)))"
proof -
  have l: "lane_ok (mux s)" using assms(1) by (rule mgr.session_ok_mux_lane)
  then have dc: "downCursor (mux s) = unackedBase (mux s) + 1" using assms(5) by (simp add: lane_ok_def)
  have "unackedBase (mux s) + 1 \<noteq> unackedBase (mux s)" by simp
  then have f: "poll_start (unackedBase (mux s) + 1) (mux s) = Fresh (unackedCost (mux s)) (unackedItems (mux s))
      ((mux s)\<lparr>unacked := [], unackedCost := 0, unackedItems := 0\<rparr>)"
    using assms(5) dc by (simp add: poll_start_def)
  obtain r s' m' where p: "Poll (manager_callbacks prof) (unackedBase (mux s) + 1) now s m = Some (r, s', m')"
    and mv: "manager_moved s m s' m'"
    and res: "poll_result (CarrierBatchBytes (limits s)) (unackedBase (mux s) + 1)
      (PollId (next_ref s) (unackedBase (mux s) + 1)) False (mux s) r (mux s')"
    using mgr.Poll_ok [OF assms(1,2), of prof "unackedBase (mux s) + 1" now] assms(3,4) f
    by (auto simp: ok_with_Ex)
  have c: "pendingCost s' = pendingCost s - unackedCost (mux s)" "pendingItems s' = pendingItems s - unackedItems (mux s)"
    using p assms(3,4)
    by (auto simp: Poll_def f Let_def bind_eq_Some_conv releasePending_def dest!: poll_loop_pending split: if_splits)
  have "r \<noteq> Answered (Inr (unacked (mux s), unackedBase (mux s) + 1))"
    using res assms(5) by (auto simp: poll_result_def delivered_def)
  then show ?thesis using p c mv by (simp add: moved_with_def)
qed

definition unacked_session :: session where
  "unacked_session = (sending_session None)\<lparr>
     mux := (newCarrierLane 0)\<lparr>unacked := encoded close_item, unackedCost := 8 + queueItemCost,
       unackedItems := 1, downCursor := 1\<rparr>\<rparr>"

lemma unacked_fields [simp]:
  "limits unacked_session = Default_Limits" "closed unacked_session = False"
  "usesCarrierLanes unacked_session = False" "streams unacked_session = []"
  "carrierLanes unacked_session = []" "detached unacked_session = []"
  "mux unacked_session = (newCarrierLane 0)\<lparr>unacked := encoded close_item, unackedCost := 8 + queueItemCost,
       unackedItems := 1, downCursor := 1\<rparr>"
  "pendingCost unacked_session = 8 + queueItemCost" "pendingItems unacked_session = 1"
  by (simp_all add: unacked_session_def) (simp add: sending_session_def newSession_def Let_def usesCarrierLanes_def sample_profile_def WithDefault_def)

lemma unacked_session_ok: "session_ok unacked_session"
proof -
  have "ring_ok unacked_session \<and> finished unacked_session = False"
    using Default_Limits_ok
    by (simp add: ring_ok_def unacked_session_def sending_session_def newSession_def Let_def limits_ok_def)
  then show ?thesis
    using Default_Limits_ok
    by (simp add: session_ok_def session_inv_def streams_ok_def lanes_ok_def held_cost_def held_items_def
        all_vals_def lane_ok_def queue_ok_def windows_ok_def newCarrierLane_def lane_cost_def lane_items_def
        close_item_def)
qed

theorem Poll_acknowledges_witness:
  "ok_with (Poll (manager_callbacks sample_profile) 1 9 unacked_session sending_manager)
     (\<lambda>(r, s', m'). pendingCost s' = 0 \<and> pendingGlobalCost m' = 0)"
proof -
  have "manager_pool unacked_session sending_manager"
    using sending_pool [of None] by (simp add: in_pool_def)
  from Poll_acknowledges [OF unacked_session_ok this, of sample_profile 9] show ?thesis
    by (auto elim!: ok_with_mono simp: newCarrierLane_def close_item_def sending_manager_def)
qed

subsection \<open>Waiting\<close>

text \<open>
  C15: no wakeup is lost. Whenever a poll waits on a well-formed session and there are frames
  queued, the poll's signal is pending, and when the poll takes it, it answers with a batch of
  those frames and the next cursor; when instead the session has been closed, the signal is
  pending too, and the poll ends with the session's error.
\<close>
theorem parked_poll_is_woken:
  assumes "session_ok s" and "manager_pool s m" and "superseded (mux s) = Some mine"
    and "pendingFrames (mux s) \<noteq> [] \<or> closed s"
  shows "notify (mux s) \<and> (\<exists>answer s' m'.
     poll_wake (manager_callbacks prof) Signalled (poll_cursor mine) mine now s m = (Answered answer, s', m') \<and>
     (if pendingFrames (mux s) \<noteq> []
      then \<exists>bytes. answer = Inr (bytes, poll_cursor mine + 1) \<and> bytes \<noteq> [] \<and>
        answers_with (CarrierBatchBytes (limits s)) (mux s) bytes (mux s')
      else answer = Inl PollClosed))"
proof -
  have n: "notify (mux s)"
    using assms mgr.session_ok_mux_lane [OF assms(1)] by (auto simp: session_ok_def lane_ok_def)
  obtain r s' m' where p: "poll_wake (manager_callbacks prof) Signalled (poll_cursor mine) mine now s m = (r, s', m')"
    using prod_cases3 by blast
  have res: "poll_result (CarrierBatchBytes (limits s)) (poll_cursor mine) mine (closed s) (mux s) r (mux s')"
    using mgr.poll_wake_ok [OF assms(1,2) refl p] by simp
  show ?thesis
  proof (cases "pendingFrames (mux s) = []")
    case True
    then have "r = Answered (Inl PollClosed)"
      using p assms(3,4) by (auto simp: poll_wake_def poll_loop_def Let_def)
    then show ?thesis using n p True by simp
  next
    case False
    obtain bytes lane where t: "poll_take (CarrierBatchBytes (limits s)) (poll_cursor mine) ((mux s)\<lparr>notify := False\<rparr>) = (bytes, lane)"
      by fastforce
    have l: "lane_ok (idle ((mux s)\<lparr>notify := False\<rparr>))" "unacked (mux s) = []" "downCursor (mux s) = poll_cursor mine"
      using mgr.session_ok_mux_lane [OF assms(1)] assms(3) lane_ok_notify_idle by (auto simp: lane_ok_def)
    have k: "bytes \<noteq> []" "downCursor lane = poll_cursor mine + 1"
      using poll_take_ok(5,8) [OF l(1) _ _ _ t] l(2,3) False by simp_all
    have r: "r = Answered (Inr (bytes, poll_cursor mine + 1))"
      using p assms(3) False t k(2) by (simp add: poll_wake_def poll_loop_def Let_def)
    have "delivered (CarrierBatchBytes (limits s)) (poll_cursor mine) (mux s) bytes (poll_cursor mine + 1) (mux s')"
      using res by (simp add: r poll_result_def)
    from delivered_answers(1) [OF this k(1)] show ?thesis using n p r k(1) False by auto
  qed
qed

theorem parked_poll_is_woken_witness:
  "\<exists>bytes s' m'. poll_wake (manager_callbacks sample_profile) Signalled 0 (PollId 1 0) 9
     (sending_session (Some (PollId 1 0))) sending_manager = (Answered (Inr (bytes, 1)), s', m') \<and> bytes \<noteq> []"
proof -
  have ok: "session_ok (sending_session (Some (PollId 1 0)))" by (rule sending_session_ok) simp
  have w: "superseded (mux (sending_session (Some (PollId 1 0)))) = Some (PollId 1 0)" by simp
  show ?thesis
    using parked_poll_is_woken [OF ok sending_pool w, of sample_profile 9] by auto
qed

text \<open>
  The newest poll wins. When a poll waits and a second poll with the same cursor comes and
  waits too, the first one, however its wait ends, answers without bytes and with the cursor it
  came with, takes no frame, leaves the second one in place, and passes on a signal so that the
  second one looks at the queue again.
\<close>
theorem newest_poll_wins:
  assumes "Poll cb cursor now s e = Some (Parked first, s1, e1)"
    and "Poll cb cursor later s1 e1 = Some (Parked second, s2, e2)"
    and "w = Replaced \<or> w = Deadline \<or> w = Signalled"
  shows "\<exists>s3. poll_wake cb w cursor first t s2 e2 = (Answered (Inr ([], cursor)), s3, e2) \<and>
     first \<noteq> second \<and> superseded (mux s3) = Some second \<and> pendingFrames (mux s3) = pendingFrames (mux s2) \<and>
     notify (mux s3)"
proof -
  have parked: "first' = PollId (next_ref t) cursor \<and> next_ref t' = Suc (next_ref t) \<and> superseded (mux t') = Some first'"
    if "Poll cb cursor n t f = Some (Parked first', t', f')" for n t f first' t' f'
    using that
    by (auto simp: Poll_def poll_loop_def Let_def bind_eq_Some_conv releasePending_def
        split: if_splits poll_start.splits prod.splits)
  note p1 = parked [OF assms(1)] and p2 = parked [OF assms(2)]
  have "first \<noteq> second" using p1 p2 by simp
  then show ?thesis
    using p2 assms(3) by (auto simp: poll_wake_def poll_loop_def raise_signal_def Let_def)
qed

definition quiet_session :: session where
  "quiet_session = newSession sample_profile ''192.0.2.1'' Default_Limits 5"

lemma quiet_polls:
  "\<exists>s1 s2. Poll (manager_callbacks sample_profile) 0 6 quiet_session (new_ledger Default_Limits 5) =
       Some (Parked (PollId 2 0), s1, new_ledger Default_Limits 5) \<and>
     Poll (manager_callbacks sample_profile) 0 7 s1 (new_ledger Default_Limits 5) =
       Some (Parked (PollId 3 0), s2, new_ledger Default_Limits 5)"
  by (simp add: Poll_def poll_start_def releasePending_def poll_loop_def quiet_session_def newSession_def
      newCarrierLane_def Let_def usesCarrierLanes_def sample_profile_def WithDefault_def)

theorem newest_poll_wins_witness:
  "\<exists>s2 s3 (m :: ledger). poll_wake (manager_callbacks sample_profile) Deadline 0 (PollId 2 0) 30 s2 m =
     (Answered (Inr ([], 0)), s3, m) \<and> superseded (mux s3) = Some (PollId 3 0)"
proof -
  obtain s1 s2 where p: "Poll (manager_callbacks sample_profile) 0 6 quiet_session (new_ledger Default_Limits 5) =
       Some (Parked (PollId 2 0), s1, new_ledger Default_Limits 5)"
     "Poll (manager_callbacks sample_profile) 0 7 s1 (new_ledger Default_Limits 5) =
       Some (Parked (PollId 3 0), s2, new_ledger Default_Limits 5)"
    using quiet_polls by blast
  from newest_poll_wins [OF p, of Deadline 30] show ?thesis by blast
qed

text \<open>
  A poll on a lane that is evicted ends. When a lane is released from an open session,
  its queue is dropped, its cost goes back to the session, and a poll that waits on it has a
  pending signal; woken, it answers without bytes that the lane has ended.
\<close>
theorem evicted_lane_poll_ends:
  assumes "releaseLane cb k lane s e = Some (s', e')" and "map_of (carrierLanes s) k = Some lane"
    and "superseded lane = Some mine" and "\<not> closed s"
  shows "pendingCost s' = pendingCost s - lane_cost lane \<and> pendingItems s' = pendingItems s - lane_items lane \<and>
     (\<exists>left. held_lane k (laneRef lane) s' = Some left \<and> notify left \<and>
       (\<exists>s''. poll_lane_wake cb Signalled k (laneRef lane) (poll_cursor mine) mine now s' e' =
          Some (Answered (Inr ([], poll_cursor mine, True)), s'', e')))"
proof -
  obtain s1 where rel: "(if lane_cost lane \<noteq> 0 \<or> lane_items lane \<noteq> 0
      then releasePending cb (lane_cost lane) (lane_items lane) s e else Some (s, e)) = Some (s1, e')"
    and s': "s' = s1\<lparr>carrierLanes := AList.delete k (carrierLanes s1),
               detached := AList.update (laneRef lane) (clear_lane lane) (detached s1)\<rparr>"
    using assms(1) unfolding releaseLane_def Let_def queue_cost_def [symmetric] lane_cost_def [symmetric]
      lane_items_def [symmetric]
    by (auto simp: bind_eq_Some_conv)
  have r: "pendingCost s1 = pendingCost s - lane_cost lane" "pendingItems s1 = pendingItems s - lane_items lane"
      "closed s1 = closed s"
    using rel by (auto simp: releasePending_def bind_eq_Some_conv split: if_splits)
  have n: "map_of (carrierLanes s') k = None" by (simp add: s' delete_conv)
  then have h: "held_lane k (laneRef lane) s' = Some (clear_lane lane)" "\<not> lane_in_map k (laneRef lane) s'"
    by (simp_all add: held_lane_def lane_in_map_def s' update_conv)
  have w: "\<exists>s''. poll_lane_wake cb Signalled k (laneRef lane) (poll_cursor mine) mine now s' e' =
      Some (Answered (Inr ([], poll_cursor mine, True)), s'', e')"
    using h assms(3,4) r(3) s'
    by (auto simp: poll_lane_wake_def poll_lane_loop_def clear_lane_def Let_def)
  then show ?thesis using h r by (auto simp: s' clear_lane_def)
qed

theorem evicted_lane_poll_ends_witness:
  "\<exists>s' m' s''. releaseLane (manager_callbacks sample_profile) 0
       ((newCarrierLane 1)\<lparr>pendingFrames := [close_item], superseded := Some (PollId 2 0)\<rparr>)
       (sending_lanes\<lparr>carrierLanes := [(0, (newCarrierLane 1)\<lparr>pendingFrames := [close_item],
          superseded := Some (PollId 2 0)\<rparr>)]\<rparr>) sending_manager = Some (s', m') \<and>
     poll_lane_wake (manager_callbacks sample_profile) Signalled 0 1 0 (PollId 2 0) 9 s' m' =
       Some (Answered (Inr ([], 0, True)), s'', m')"
proof -
  let ?lane = "(newCarrierLane 1)\<lparr>pendingFrames := [close_item], superseded := Some (PollId 2 0)\<rparr>"
  let ?s = "sending_lanes\<lparr>carrierLanes := [(0, ?lane)]\<rparr>"
  have "\<exists>s' m'. releaseLane (manager_callbacks sample_profile) 0 ?lane ?s sending_manager = Some (s', m')"
    by (simp add: releaseLane_def Let_def releasePending_def close_item_def newCarrierLane_def
        manager_callbacks_def changePendingBudget_def addPending_def sending_manager_def)
  then obtain s' m' where r: "releaseLane (manager_callbacks sample_profile) 0 ?lane ?s sending_manager = Some (s', m')"
    by blast
  from evicted_lane_poll_ends [OF r, of "PollId 2 0" 9] show ?thesis
    using r by (auto simp: newCarrierLane_def)
qed

end
