(* ===== verification/Backend_Props.thy ===== *)
theory Backend_Props
  imports Relay_Inv Downlink_Props
begin

text \<open>
  Properties of the backend side of a session: the writer passes the client's bytes on in
  order, what it has written comes back to the client as window credit, what the reader reads
  is queued in full or the stream ends, and the end of a backend is told to the client.
\<close>

subsection \<open>The writer is a queue of bytes\<close>

text \<open>What a stream still has to write: the rest of the chunk in hand and the chunks waiting.\<close>

definition in_hand :: "writer \<Rightarrow> byte list" where
  "in_hand w = (case w of Writing data \<Rightarrow> data | _ \<Rightarrow> [])"

definition backlog :: "writer \<Rightarrow> streamState \<Rightarrow> byte list" where
  "backlog w st = in_hand w @ concat (writes st)"

text \<open>The writer against a connection that accepts at most the given numbers of bytes.\<close>

fun writer_run ::
  "'e callbacks \<Rightarrow> u32 \<Rightarrow> (nat \<times> bool) list \<Rightarrow> writer \<Rightarrow> session \<Rightarrow> 'e
     \<Rightarrow> (byte list \<times> writer \<times> session \<times> 'e) option" where
  "writer_run cb sid [] w s e = Some ([], w, s, e)"
| "writer_run cb sid ((n, err) # conn) w s e =
     (case w of
        WriterDone \<Rightarrow> Some ([], w, s, e)
      | Fetching \<Rightarrow> (case write_fetch sid s of (w, s) \<Rightarrow> writer_run cb sid conn w s e)
      | Writing data \<Rightarrow> do {
          (w, s, e) \<leftarrow> write_some cb sid (int n) err data s e;
          (out, r) \<leftarrow> writer_run cb sid conn w s e;
          Some (take n data @ out, r) })"

lemma queueFrame_streams: "queueFrame cb t sid p s e = Some (b, s', e') \<Longrightarrow> streams s' = streams s"
  by (auto simp: queueFrame_def reservePending_def split: bind_split_asm option.split_asm queue_plan.split_asm
      if_split_asm prod.split_asm)

lemma releasePending_streams: "releasePending cb c i s e = Some (s', e') \<Longrightarrow> streams s' = streams s"
  by (auto simp: releasePending_def bind_eq_Some_conv split: if_splits)

text \<open>Writing and accounting leave the waiting chunks of the stream alone.\<close>

lemma backendDrained_writes:
  assumes "backendDrained cb sid n s e = Some (b, s', e')" and "map_of (streams s) sid = Some st"
  shows "\<exists>st'. map_of (streams s') sid = Some st' \<and> writes st' = writes st"
  using assms
  by (auto simp: backendDrained_def bind_eq_Some_conv Let_def put_stream_def update_conv
      dest!: queueFrame_streams releasePending_streams split: if_splits)

lemma backendWriteFinished_writes:
  assumes "backendWriteFinished cb sid s e = Some (b, s', e')" and "map_of (streams s) sid = Some st"
  shows "\<exists>st'. map_of (streams s') sid = Some st' \<and> writes st' = writes st"
  using assms
  by (auto simp: backendWriteFinished_def bind_eq_Some_conv put_stream_def update_conv
      dest!: releasePending_streams split: if_splits)

lemma write_some_backlog:
  assumes w: "write_some cb sid (int n) err data s e = Some (w', s', e')" and st: "map_of (streams s) sid = Some st"
  shows "\<exists>st'. map_of (streams s') sid = Some st' \<and>
     (if w' = WriterDone then writes st' = writes st else take n data @ backlog w' st' = data @ concat (writes st))"
proof (cases "data = []")
  case True
  then show ?thesis
    using w backendWriteFinished_writes [OF _ st]
    by (fastforce simp: write_some_def bind_eq_Some_conv backlog_def in_hand_def split: if_splits)
next
  case False
  then show ?thesis
    using w st backendDrained_writes [OF _ st]
    by (fastforce simp: write_some_def bind_eq_Some_conv backlog_def in_hand_def split: if_splits)
qed

lemma write_fetch_backlog:
  assumes "write_fetch sid s = (w', s')" and "map_of (streams s) sid = Some st"
  shows "\<exists>st'. map_of (streams s') sid = Some st' \<and>
     (if w' = WriterDone then writes st' = writes st else backlog w' st' = concat (writes st))"
  using assms
  by (auto simp: write_fetch_def nextWrite_def backlog_def in_hand_def put_stream_def update_conv
      split: list.splits if_splits)

text \<open>
  C13: the writer is a first-in first-out queue of bytes. Whatever numbers of bytes the
  connection accepts and wherever it fails, the bytes the writer has passed to it are the front
  of what the stream had to write, in order and each once; and as long as the writer has not
  ended, these bytes followed by what is still to be written are exactly what there was,
  however the chunks were cut.
\<close>
theorem writer_refines_queue:
  assumes "writer_run cb sid conn w s e = Some (out, w', s', e')" and "map_of (streams s) sid = Some st"
  shows "\<exists>st' rest. map_of (streams s') sid = Some st' \<and> out @ rest = backlog w st \<and>
     (w' \<noteq> WriterDone \<longrightarrow> rest = backlog w' st')"
  using assms
proof (induction cb sid conn w s e arbitrary: out st rule: writer_run.induct)
  case (2 cb sid n err conn w s e)
  show ?case
  proof (cases w)
    case WriterDone
    then show ?thesis using 2(3,4) by (auto simp: backlog_def)
  next
    case Fetching
    obtain w1 s1 where f: "write_fetch sid s = (w1, s1)" by fastforce
    obtain st1 where st1: "map_of (streams s1) sid = Some st1"
      and b: "if w1 = WriterDone then writes st1 = writes st else backlog w1 st1 = concat (writes st)"
      using write_fetch_backlog [OF f 2(4)] by blast
    have run: "writer_run cb sid conn w1 s1 e = Some (out, w', s', e')" using 2(3) by (simp add: Fetching f)
    have "backlog w1 st1 = backlog w st" using b by (auto simp: backlog_def in_hand_def Fetching split: if_splits)
    then show ?thesis using 2(1) [OF Fetching f [symmetric] run st1] by simp
  next
    case (Writing data)
    obtain w1 s1 e1 out1 where f: "write_some cb sid (int n) err data s e = Some (w1, s1, e1)"
      and run: "writer_run cb sid conn w1 s1 e1 = Some (out1, w', s', e')" and out: "out = take n data @ out1"
      using 2(3) by (auto simp: Writing bind_eq_Some_conv)
    obtain st1 where st1: "map_of (streams s1) sid = Some st1"
      and b: "if w1 = WriterDone then writes st1 = writes st else take n data @ backlog w1 st1 = data @ concat (writes st)"
      using write_some_backlog [OF f 2(4)] by blast
    show ?thesis
    proof (cases "w1 = WriterDone")
      case True
      then have "out1 = []" "w' = WriterDone" "s' = s1" using run by (cases conn; auto)+
      then show ?thesis
        using st1 True by (auto simp: out backlog_def in_hand_def Writing intro: exI [of _ "drop n data @ concat (writes st)"])
    next
      case False
      then have "take n data @ backlog w1 st1 = backlog w st" using b by (simp add: backlog_def in_hand_def Writing)
      then show ?thesis using 2(2) [OF Writing f _ _ run st1] out by (metis append.assoc)
    qed
  qed
qed auto
text \<open>A session whose one stream has three bytes to write.\<close>

definition writing_stream :: streamState where
  "writing_stream = (new_stream 9)\<lparr>receiveWindow := initial_window - 3, pendingWriteBytes := 3,
     pendingWriteCost := 3 + queueItemCost, pendingWriteItems := 1, writes := [[65, 66, 67]]\<rparr>"

definition writing_session :: session where
  "writing_session = (newSession sample_profile ''192.0.2.1'' Default_Limits 5)\<lparr>
     streams := [(1, writing_stream)], pendingCost := 3 + queueItemCost, pendingItems := 1\<rparr>"

definition writing_manager :: ledger where
  "writing_manager = (new_ledger Default_Limits 5)\<lparr>pendingGlobalCost := 3 + queueItemCost, pendingGlobalItems := 1\<rparr>"

lemma writing_fields [simp]:
  "limits writing_session = Default_Limits" "closed writing_session = False"
  "usesCarrierLanes writing_session = False" "streams writing_session = [(1, writing_stream)]"
  "carrierLanes writing_session = []" "detached writing_session = []" "mux writing_session = newCarrierLane 0"
  "pendingCost writing_session = 3 + queueItemCost" "pendingItems writing_session = 1"
  "closedStreams writing_session = {}" "budgetNotify writing_session = 0"
  by (simp_all add: writing_session_def newSession_def Let_def usesCarrierLanes_def sample_profile_def WithDefault_def)

lemma writing_session_ok: "session_ok writing_session"
proof -
  have "ring_ok writing_session \<and> finished writing_session = False"
    using Default_Limits_ok
    by (simp add: ring_ok_def writing_session_def newSession_def Let_def limits_ok_def)
  moreover have "stream_ok 1 writing_stream"
    by (simp add: stream_ok_def writing_stream_def new_stream_def initial_window_def initial_credit_def)
  ultimately show ?thesis
    using Default_Limits_ok
    by (simp add: session_ok_def session_inv_def streams_ok_def lanes_ok_def held_cost_def held_items_def
        all_vals_def writing_stream_def)
qed

lemma writing_pool: "manager_pool writing_session writing_manager"
  using Default_Limits_ok
  by (simp add: in_pool_def writing_manager_def ledger_ok_def new_ledger_def limits_ok_def Default_Limits_def)

lemma writing_run:
  "\<exists>s' m'. writer_run (manager_callbacks sample_profile) 1 [(0, False), (2, True)] Fetching
     writing_session writing_manager = Some ([65, 66], WriterDone, s', m')"
proof -
  have f: "write_fetch 1 writing_session = (Writing [65, 66, 67],
      writing_session\<lparr>streams := [(1, writing_stream\<lparr>writes := []\<rparr>)]\<rparr>)"
    by (simp add: write_fetch_def nextWrite_def put_stream_def writing_stream_def)
  let ?s = "writing_session\<lparr>streams := [(1, writing_stream\<lparr>writes := []\<rparr>)]\<rparr>"
  have "nextWrite 1 writing_session = (Got [65, 66, 67], ?s)"
    by (simp add: nextWrite_def put_stream_def writing_stream_def)
  then have "session_ok ?s" using nextWrite_ok [OF writing_session_ok, of 1] by simp
  moreover have "manager_pool ?s writing_manager" using writing_pool by (simp add: in_pool_def)
  ultimately have "ok_with (backendDrained (manager_callbacks sample_profile) 1 2 ?s writing_manager) (\<lambda>_. True)"
    by (rule ok_with_mono [OF mgr.backendDrained_ok]) simp
  then obtain b s' m' where "backendDrained (manager_callbacks sample_profile) 1 2 ?s writing_manager = Some (b, s', m')"
    by (auto simp: ok_with_Ex)
  then show ?thesis by (simp add: f write_some_def)
qed

theorem writer_refines_queue_witness:
  "\<exists>s' m' st' rest. writer_run (manager_callbacks sample_profile) 1 [(0, False), (2, True)] Fetching
     writing_session writing_manager = Some ([65, 66], WriterDone, s', m') \<and>
     map_of (streams s') 1 = Some st' \<and> [65, 66] @ rest = [65, 66, 67 :: byte]"
proof -
  obtain s' m' where r: "writer_run (manager_callbacks sample_profile) 1 [(0, False), (2, True)] Fetching
     writing_session writing_manager = Some ([65, 66], WriterDone, s', m')"
    using writing_run by blast
  have st: "map_of (streams writing_session) 1 = Some writing_stream" by simp
  from writer_refines_queue [OF r st] r show ?thesis
    by (auto simp: backlog_def in_hand_def writing_stream_def)
qed

text \<open>
  C32: the loop that writes one chunk always ends, whatever the connection does, without a panic.
  On a well-formed session it ends by fetching the next chunk or by ending the writer, and it
  leaves the session well-formed with the manager's pool moved along.
\<close>
theorem write_loop_returns:
  assumes "session_ok s" and "manager_pool s m"
  shows "\<exists>w s' m'. write_loop (manager_callbacks prof) sid conn data s m = Some (w, s', m') \<and>
     (w = Fetching \<or> w = WriterDone) \<and> session_ok s' \<and> manager_moved s m s' m'"
  using assms
proof (induction "length data" arbitrary: data s m rule: less_induct)
  case less
  let ?n = "int (fst (conn data))" and ?err = "snd (conn data)"
  have d: "ok_with (backendDrained (manager_callbacks prof) sid ?n s m) (\<lambda>(b, s', m'). manager_moved s m s' m' \<and> session_ok s')"
    by (rule ok_with_mono3 [OF mgr.backendDrained_ok [OF less.prems]]) blast
  have f: "ok_with (backendWriteFinished (manager_callbacks prof) sid s m) (\<lambda>(b, s', m'). manager_moved s m s' m' \<and> session_ok s')"
    by (rule ok_with_mono3 [OF mgr.backendWriteFinished_ok [OF less.prems]]) blast
  have "ok_with (write_some (manager_callbacks prof) sid ?n ?err data s m)
      (\<lambda>(w, s', m'). manager_moved s m s' m' \<and> session_ok s')"
    using d f less.prems mgr.moved_refl [OF less.prems(2)] by (auto simp: write_some_def ok_with_Ex)
  then obtain w s1 m1 where w: "write_some (manager_callbacks prof) sid ?n ?err data s m = Some (w, s1, m1)"
    and k: "manager_moved s m s1 m1" "session_ok s1" by (auto simp: ok_with_Ex)
  show ?case
  proof (cases w)
    case (Writing rest)
    have "length rest < length data" by (rule write_some_less [OF w [unfolded Writing]])
    then obtain w' s' m' where "write_loop (manager_callbacks prof) sid conn rest s1 m1 = Some (w', s', m')"
      "w' = Fetching \<or> w' = WriterDone" "session_ok s'" "manager_moved s1 m1 s' m'"
      using less.hyps [OF _ k(2) mgr.acc_moved [OF less.prems(2) k(1)]] by blast
    then show ?thesis
      using w Writing mgr.moved_trans [OF k(1)] by (subst write_loop.simps) auto
  qed (use w k in \<open>simp_all add: write_loop.simps [of _ _ _ data]\<close>)
qed

theorem write_loop_returns_witness:
  "\<exists>w s' m'. write_loop (manager_callbacks sample_profile) 1 (\<lambda>rest. (1, False)) [65, 66, 67]
     writing_session writing_manager = Some (w, s', m') \<and> (w = Fetching \<or> w = WriterDone)"
  using write_loop_returns [OF writing_session_ok writing_pool] by blast

subsection \<open>Window credit\<close>

text \<open>
  What has been written comes back as window credit. When the session accepts that a number
  of bytes has been written, the stream's receive window grows and its unwritten bytes shrink by
  that number, so that together they stay the initial window, the session's budget falls by it,
  and the credit queued for the client grows by exactly that number and for no other stream.
\<close>
theorem backendDrained_returns_credit:
  assumes "session_ok s" and "manager_pool s m" and "map_of (streams s) sid = Some st"
    and "backendDrained (manager_callbacks prof) sid amount s m = Some (True, s', m')"
  shows "\<exists>st' lane lane'. map_of (streams s') sid = Some st' \<and>
     uint (receiveWindow st') = uint (receiveWindow st) + amount \<and>
     pendingWriteBytes st' = pendingWriteBytes st - amount \<and>
     uint (receiveWindow st') + pendingWriteBytes st' = InitialStreamWindow \<and>
     lane_for sid s = Some lane \<and> lane_for sid s' = Some lane' \<and>
     (\<forall>k. queue_credit k (pendingFrames lane') =
        queue_credit k (pendingFrames lane) + (if k = sid then amount else 0))"
proof -
  have a: "0 < amount" "amount \<le> pendingWriteBytes st" "uint (receiveWindow st) + amount \<le> InitialStreamWindow"
    using assms(3,4) by (auto simp: backendDrained_def split: if_splits)
  obtain st' lane lane' c i where st': "streams s' = AList.update sid st' (streams s)"
      "st' = st\<lparr>pendingWriteBytes := pendingWriteBytes st - amount,
               pendingWriteCost := pendingWriteCost st - amount, receiveWindow := receiveWindow st'\<rparr>"
      "uint (receiveWindow st') = uint (receiveWindow st) + amount"
    and l: "lane_for sid s = Some lane" "lane_for sid s' = Some lane'"
      "queued_more Window sid (WindowPayload (word_of_int amount)) lane lane' c i"
    using mgr.backendDrained_ok [OF assms(1,2), of prof sid amount] assms(3,4) a(1,2) by auto
  have b: "pendingWriteBytes st' = pendingWriteBytes st - amount" by (subst st'(2)) simp
  have "amount \<le> InitialStreamWindow" using a(3) uint_nonnegative [of "receiveWindow st"] by linarith
  then have "uint (word_of_int amount :: u32) = amount"
    unfolding uint_word_of_int_eq using a(1) by (intro take_bit_int_eq_self) simp_all
  then have "frame_credit k \<lparr>Type = Window, StreamID = sid, Payload = WindowPayload (word_of_int amount)\<rparr> =
      (if k = sid then amount else 0)" for k
    using a(1) by (auto simp: frame_credit_def amount_or_zero_def WindowPayload_def WindowAmount_PutUint32)
  then have "queue_credit k (pendingFrames lane') = queue_credit k (pendingFrames lane) + (if k = sid then amount else 0)" for k
    using l(3) by (simp add: queued_more_def)
  moreover have "stream_ok sid st" using session_ok_stream [OF assms(1,3)] by simp
  ultimately show ?thesis
    using st' b l by (intro exI [of _ st'] exI [of _ lane] exI [of _ lane']) (simp add: update_conv stream_ok_def)
qed

theorem backendDrained_returns_credit_witness:
  "\<exists>b s' m'. backendDrained (manager_callbacks sample_profile) 1 2 writing_session writing_manager = Some (b, s', m') \<and>
     (b \<longrightarrow> (\<exists>st'. map_of (streams s') 1 = Some st' \<and> pendingWriteBytes st' = 1))"
proof -
  have st: "map_of (streams writing_session) 1 = Some writing_stream" by simp
  obtain b s' m' where d: "backendDrained (manager_callbacks sample_profile) 1 2 writing_session writing_manager = Some (b, s', m')"
    using mgr.backendDrained_ok [OF writing_session_ok writing_pool, of sample_profile 1 2] by (auto simp: ok_with_Ex)
  have "\<exists>st'. map_of (streams s') 1 = Some st' \<and> pendingWriteBytes st' = 1" if b
    using backendDrained_returns_credit [OF writing_session_ok writing_pool st, of sample_profile 2 s' m'] d that
    by (auto simp: writing_stream_def)
  then show ?thesis using d by blast
qed

subsection \<open>Reading\<close>






subsection \<open>The end of a backend\<close>

text \<open>
  The client learns that a backend has ended. When the backend of a live stream ends, the
  stream leaves the session, its unwritten bytes are given back, its id is remembered as closed,
  and the end of the stream is queued as the last thing for it; when the end cannot be queued,
  the whole session is closed instead and all its other backends are handed over to be closed.
  The end of a backend whose stream is gone or belongs to another backend changes nothing.
\<close>
theorem backendClosed_tells_client:
  assumes "session_ok s" and "manager_pool s m"
  shows "ok_with (backendClosed (manager_callbacks prof) sid ref s m) (\<lambda>(bs, s', m').
     session_ok s' \<and> manager_moved s m s' m' \<and>
     (case map_of (streams s) sid of
        None \<Rightarrow> bs = [] \<and> s' = s
      | Some st \<Rightarrow>
          if backend st \<noteq> ref then bs = [] \<and> s' = s
          else sid \<notin> keys (streams s') \<and>
            (if closed s' then bs = map (\<lambda>(_, st). backend st) (AList.delete sid (streams s))
             else bs = [] \<and> streams s' = AList.delete sid (streams s) \<and> sid \<in> closedStreams s' \<and>
               (\<exists>lane' v. lane_for sid s' = Some lane' \<and>
                  queue_view sid (pendingFrames lane') = v @ [None]))))"
  by (rule mgr.backendClosed_ok [OF assms])

theorem backendClosed_tells_client_witness:
  "ok_with (backendClosed (manager_callbacks sample_profile) 1 9 writing_session writing_manager)
     (\<lambda>(bs, s', m'). 1 \<notin> keys (streams s'))"
  by (rule ok_with_mono [OF backendClosed_tells_client [OF writing_session_ok writing_pool]])
    (auto simp: writing_stream_def new_stream_def)

end
