(* ===== verification/Manager_Props.thy ===== *)
theory Manager_Props
  imports Relay_Props
begin

text \<open>
  Properties of the manager's operations: a create request can be retried, tokens work from
  their issue until they expire, ending a session leaves a token that can be closed again, the
  clean-up and the shutdown close exactly the sessions they should, and the limits on bootstraps
  and on rates do what their configuration says.
\<close>

subsection \<open>Creating a session\<close>

lemma bootstraps_release [simp]: "bootstraps (releaseUnusedBootstrap b m) = bootstraps m"
  by (simp add: releaseUnusedBootstrap_def Let_def)

lemma clock_release [simp]: "clock (releaseUnusedBootstrap b m) = clock m"
  by (simp add: releaseUnusedBootstrap_def Let_def)

text \<open>What a successful request leaves behind: a used entry for its body and its result.\<close>

lemma Create_success:
  assumes "Create token ip bytes random m = (Inr res, m')"
  shows "\<exists>th entry ref. ParseHello bytes = None \<and> tokenHash token = Some th \<and>
     map_of (bootstraps m') th = Some entry \<and> used entry \<and> bs_session entry = Some ref \<and>
     bodyDigest entry = Sum256 bytes \<and> \<not> clock m' > expires entry \<and>
     res = create_result (sessionToken entry) ref"
  using assms
  by (auto simp: Create_def Let_def update_conv split: option.splits prod.splits if_splits)

text \<open>
  Creating a session can be retried. Once a create request has succeeded, the same request
  answers with the same token, the same welcome and the same session, from any client address
  and without using randomness, and changes nothing. So a lost answer costs no second session.
\<close>
theorem Create_retry:
  assumes "Create token ip bytes random m = (Inr res, m')"
  shows "Create token ip' bytes random' m' = (Inr res, m')"
proof -
  obtain th entry ref where h: "ParseHello bytes = None" "tokenHash token = Some th"
      "map_of (bootstraps m') th = Some entry" "used entry" "bs_session entry = Some ref"
      "bodyDigest entry = Sum256 bytes" "\<not> clock m' > expires entry" "res = create_result (sessionToken entry) ref"
    using Create_success [OF assms] by blast
  then show ?thesis by (simp add: Create_def Let_def)
qed

subsection \<open>Bootstraps\<close>

lemma newToken_hash: "newToken key kind random = Some (token, h) \<Longrightarrow>
    (\<exists>nonce. random = Some nonce \<and> (length nonce = 16 \<longrightarrow> tokenHash token = Some h))"
  by (auto simp: newToken_def Let_def tokenHash_EncodeToString)

text \<open>
  A bootstrap that was issued is known until it expires. After the issue the token is found,
  it is found as long as the clock is not past the configured lifetime, and then no longer.
\<close>
theorem IssueBootstrap_known:
  assumes "IssueBootstrap prof ip random m = (Inr token, m')" and "\<forall>nonce. random = Some nonce \<longrightarrow> length nonce = 16"
  shows "HasBootstrap token (m'\<lparr>clock := clock m + d\<rparr>) \<longleftrightarrow> d \<le> BootstrapLifetime (config_timeouts m)"
proof -
  obtain h where t: "newToken (tokenKey m) TokenBootstrap random = Some (token, h)"
    and e: "\<exists>b. map_of (bootstraps m') h = Some b \<and> expires b = clock m + BootstrapLifetime (config_timeouts m)"
  proof -
    have c: "config_timeouts (removeExpiredBootstraps now m) = config_timeouts m" for now
    proof -
      have "config_timeouts (remove_bootstraps P es m) = config_timeouts m" for P es
        by (induction P es m rule: remove_bootstraps.induct)
          (simp_all add: removeBootstrap_def releaseUnusedBootstrap_def Let_def)
      then show ?thesis by (simp add: removeExpiredBootstraps_def Let_def)
    qed
    have v: "config_timeouts m2 = config_timeouts m1" if "evictOldestUnusedBootstrap m1 = (b, m2)" for m1 b m2
      using that by (auto simp: evictOldestUnusedBootstrap_def removeBootstrap_def releaseUnusedBootstrap_def
          Let_def split: option.splits)
    show ?thesis
      using assms(1) that
      by (auto simp: IssueBootstrap_def Let_def c update_conv dest: v
          split: option.splits prod.splits if_splits)
  qed
  then have "tokenHash token = Some h" using newToken_hash [OF t] assms(2) by auto
  then show ?thesis using e by (auto simp: HasBootstrap_def)
qed
subsection \<open>A manager with one bootstrap\<close>

definition sample_token :: string where
  "sample_token = EncodeToString (replicate 32 1)"

definition sample_entry :: bootstrap where
  "sample_entry = \<lparr>expires = 100, bs_profile = resolve_profile Default_Limits relay_profile, issuanceIP = ''192.0.2.1'',
     bodyDigest = replicate 32 0, sessionToken = [], bs_session = None, used = False\<rparr>"

definition sample_manager :: manager where
  "sample_manager = (NewManager Default_Limits Default_Timeouts [relay_profile] (replicate 32 0) 5)\<lparr>
     bootstraps := AList.update (Sum256 (replicate 32 1)) sample_entry [],
     bootstrapsPerIP := bump Map.empty ''192.0.2.1''\<rparr>"

lemma sample_tokenHash: "tokenHash sample_token = Some (Sum256 (replicate 32 1))"
  by (simp add: sample_token_def tokenHash_EncodeToString)

lemma first_takeRate:
  "1 \<le> burst \<Longrightarrow> burst \<le> 2 ^ 53 \<Longrightarrow>
     takeRate zero_rate now perMinute burst = (\<lparr>tokens = of_int (burst - 1), last_take = now\<rparr>, True)"
  using f64_of_int [of burst] f64_of_int [of "burst - 1"] by (simp add: takeRate_def zero_rate_def Let_def)

abbreviation hello_body :: "byte list" where
  "hello_body \<equiv> [0x10, 0, 0, 0, 0, 0, 0, 1, 1]"

lemma hello_body_ok: "ParseHello hello_body = None"
proof -
  have "ParseAll hello_body MaxPayload = Inr [\<lparr>Type = Hello, StreamID = 0, Payload = [1]\<rparr>]"
    by (simp add: parse_all_iff encode_batch_eq frame_bytes_def frame_header_def PutUint32_def payload_limit_def)
  then show ?thesis by (simp add: ParseHello_def)
qed

text \<open>Redeeming the bootstrap creates the session object 0.\<close>

definition sample_session :: session where
  "sample_session = newSession (bs_profile sample_entry) ''192.0.2.1''
     (session_limits Default_Limits (Profile_Limits (bs_profile sample_entry))) 5"

lemma release_fields [simp]:
  "sessions (releaseUnusedBootstrap b m) = sessions m" "objs (releaseUnusedBootstrap b m) = objs m"
  "config_timeouts (releaseUnusedBootstrap b m) = config_timeouts m"
  by (simp_all add: releaseUnusedBootstrap_def Let_def)

lemma create_fields:
  "Profile_Limits (bs_profile sample_entry) = WithDefaults (Profile_Limits relay_profile) Default_Limits"
  "MaxSessions_p (WithDefaults (Profile_Limits relay_profile) Default_Limits) = 128"
  "NewSessionsBurst_p (WithDefaults (Profile_Limits relay_profile) Default_Limits) = 128"
  "allowProfileRateLocked zero_rate (\<lambda>_. zero_rate) name now g 128 q 128 =
      (\<lparr>tokens = of_int 127, last_take = now\<rparr>, (\<lambda>_. zero_rate)(name := \<lparr>tokens = of_int 127, last_take = now\<rparr>), True)"
  "NewSessionsBurst Default_Limits = 128" "MaxSessionsGlobal Default_Limits = 128" "MaxSessionsPerIP Default_Limits = 0"
  using first_takeRate [of 128]
  by (simp_all add: sample_entry_def resolve_profile_def relay_profile_def WithDefaults_def Default_Limits_def
      default_to_def minInt_def Let_def allowProfileRateLocked_def)

definition created_manager :: manager where
  "created_manager = snd (Create sample_token ''192.0.2.1'' hello_body (Some (replicate 16 3)) sample_manager)"

lemma sample_Create:
  "\<exists>res. Create sample_token ''192.0.2.1'' hello_body (Some (replicate 16 3)) sample_manager = (Inr res, created_manager)"
  "sessions created_manager = [(Sum256 (replicate 16 3 @ tokenMAC (replicate 32 0) TokenSession (replicate 16 3)), 0)]"
  "map_of (objs created_manager) 0 = Some sample_session"
  "config_timeouts created_manager = Default_Timeouts"
proof -
  have m: "map_of (bootstraps sample_manager) (Sum256 (replicate 32 1)) = Some sample_entry"
    "clock sample_manager = 5" "mgr_closed sample_manager = False" "sessions sample_manager = []"
    "config_limits sample_manager = Default_Limits" "sessionsPerProfile sample_manager = Map.empty"
    "sessionRate sample_manager = zero_rate" "profileSessionRates sample_manager = (\<lambda>_. zero_rate)"
    "objs sample_manager = []" "next_obj sample_manager = 0" "tokenKey sample_manager = replicate 32 0"
    "config_timeouts sample_manager = Default_Timeouts"
    by (simp_all add: sample_manager_def)
  have e: "expires sample_entry = 100" "used sample_entry = False" by (simp_all add: sample_entry_def)
  note eval = Create_def hello_body_ok sample_tokenHash Let_def m e create_fields count_of_def newToken_def
    created_manager_def
  show "\<exists>res. Create sample_token ''192.0.2.1'' hello_body (Some (replicate 16 3)) sample_manager = (Inr res, created_manager)"
    by (simp add: eval)
  show "sessions created_manager =
      [(Sum256 (replicate 16 3 @ tokenMAC (replicate 32 0) TokenSession (replicate 16 3)), 0)]"
    "config_timeouts created_manager = Default_Timeouts"
    by (simp_all add: eval)
  show "map_of (objs created_manager) 0 = Some sample_session" by (simp add: eval sample_session_def)
qed

lemma sample_manager_ok: "manager_ok sample_manager"
proof -
  have ok: "manager_ok (mgr sample_start)"
    using reachable_ok [OF relay_profile_accepted sample_start_reachable] by (simp add: relay_ok_def)
  have "manager_ok ((mgr sample_start)\<lparr>
     bootstraps := AList.update (Sum256 (replicate 32 1)) sample_entry (bootstraps (mgr sample_start)),
     bootstrapsPerIP := bump (bootstrapsPerIP (mgr sample_start)) (issuanceIP sample_entry)\<rparr>)"
    by (rule add_bootstrap_ok [OF ok]) (simp_all add: keys_def sample_entry_def Default_Limits_def)
  then show ?thesis by (simp add: sample_manager_def sample_entry_def)
qed

lemma created_manager_ok: "manager_ok created_manager"
proof -
  obtain res where "Create sample_token ''192.0.2.1'' hello_body (Some (replicate 16 3)) sample_manager =
      (Inr res, created_manager)"
    using sample_Create(1) by blast
  then show ?thesis by (rule Create_ok [OF sample_manager_ok, rotated]) (simp add: sample_manager_def keys_def)
qed

lemma created_table: "snd ` set (sessions created_manager) = {0}"
  by (simp add: sample_Create(2))

lemma created_obj: "obj created_manager 0 = sample_session"
  by (simp add: obj_def sample_Create(3))

theorem Create_retry_witness:
  "\<exists>res m'. Create sample_token ''192.0.2.1'' hello_body (Some (replicate 16 3)) sample_manager = (Inr res, m') \<and>
     Create sample_token ''198.51.100.7'' hello_body None m' = (Inr res, m')"
  using sample_Create(1) Create_retry by blast

lemma sample_issued:
  "\<exists>token m'. IssueBootstrap (Some relay_profile) ''192.0.2.1'' (Some (replicate 16 3)) (mgr sample_start) = (Inr token, m') \<and>
     tokenHash token = Some (Sum256 (replicate 16 3 @ tokenMAC (replicate 32 0) TokenBootstrap (replicate 16 3))) \<and>
     bootstraps m' = [(Sum256 (replicate 16 3 @ tokenMAC (replicate 32 0) TokenBootstrap (replicate 16 3)),
       sample_entry\<lparr>expires := 5 + BootstrapLifetime Default_Timeouts\<rparr>)] \<and>
     clock m' = 5 \<and> mgr_closed m' = False \<and> sessions m' = [] \<and>
     config_limits m' = Default_Limits \<and> sessionsPerProfile m' = Map.empty \<and>
     sessionRate m' = zero_rate \<and> profileSessionRates m' = (\<lambda>_. zero_rate) \<and>
     objs m' = [] \<and> next_obj m' = 0 \<and> tokenKey m' = replicate 32 0"
proof -
  have c: "MatchCapability (Capability relay_profile) (mgr sample_start) =
      Some (resolve_profile Default_Limits relay_profile)"
    by (simp add: MatchCapability_def resolve_profile_def relay_profile_def)
  have r: "allowRateLocked zero_rate 5 g 256 = (\<lparr>tokens = of_int 255, last_take = 5\<rparr>, True)" for g
    using first_takeRate [of 256] by (simp add: allowRateLocked_def)
  have d: "NewBootstrapsBurst Default_Limits = 256" "MaxBootstrapsGlobal Default_Limits = 512"
      "MaxBootstrapsPerIP Default_Limits = 0"
    by (simp_all add: Default_Limits_def)
  show ?thesis
    using c by (simp add: IssueBootstrap_def newToken_def Let_def removeExpiredBootstraps_def r d sample_entry_def
        tokenHash_EncodeToString)
qed

theorem IssueBootstrap_known_witness:
  "\<exists>token m'. IssueBootstrap (Some relay_profile) ''192.0.2.1'' (Some (replicate 16 3)) (mgr sample_start) = (Inr token, m') \<and>
     HasBootstrap token (m'\<lparr>clock := 5 + 1\<rparr>)"
proof -
  obtain token m' where i: "IssueBootstrap (Some relay_profile) ''192.0.2.1'' (Some (replicate 16 3))
      (mgr sample_start) = (Inr token, m')"
    using sample_issued by blast
  have "config_timeouts (mgr sample_start) = Default_Timeouts" by simp
  then show ?thesis
    using IssueBootstrap_known [OF i, of 1] i by (simp add: Default_Timeouts_def Second_def)
qed

subsection \<open>Which bootstrap is evicted\<close>

lemma oldest_unused_least:
  assumes "oldest_unused es start = Some (h, b)" and "\<And>h' b'. start = Some (h', b') \<Longrightarrow> \<not> used b'"
  shows "\<not> used b \<and> (\<forall>h' b'. (h', b') \<in> set es \<longrightarrow> \<not> used b' \<longrightarrow> expires b \<le> expires b') \<and>
     (\<forall>h' b'. start = Some (h', b') \<longrightarrow> expires b \<le> expires b')"
  using assms
proof (induction es start rule: oldest_unused.induct)
  case (2 k c es oldest)
  let ?o = "if used c \<or> (case oldest of None \<Rightarrow> False | Some (_, o') \<Rightarrow> \<not> expires c < expires o')
        then oldest else Some (k, c)"
  have o: "\<not> used b'" if "?o = Some (h', b')" for h' b'
    using that 2(3) by (auto split: if_splits option.splits)
  have r: "oldest_unused es ?o = Some (h, b)" using 2(2) by simp
  have ih: "\<not> used b \<and> (\<forall>h' b'. (h', b') \<in> set es \<longrightarrow> \<not> used b' \<longrightarrow> expires b \<le> expires b') \<and>
     (\<forall>h' b'. ?o = Some (h', b') \<longrightarrow> expires b \<le> expires b')"
    by (rule 2(1) [OF r]) (rule o)
  have "expires b \<le> expires c" if "\<not> used c"
    using ih that by (auto split: if_splits option.splits)
  moreover have "expires b \<le> expires b'" if "oldest = Some (h', b')" for h' b'
    using ih that by (auto split: if_splits)
  ultimately show ?case using ih by auto
qed auto

text \<open>
  When the table of bootstraps is full, the one that makes room is an unused one that
  expires first among all unused ones; a used bootstrap, which a client may still retry, is
  never evicted, and when all are used nothing is.
\<close>
theorem evicts_oldest_unused:
  assumes "manager_ok m" and "evictOldestUnusedBootstrap m = (room, m')"
  shows "if room then \<exists>h b. map_of (bootstraps m) h = Some b \<and> \<not> used b \<and>
        (\<forall>h' b'. map_of (bootstraps m) h' = Some b' \<longrightarrow> \<not> used b' \<longrightarrow> expires b \<le> expires b') \<and>
        bootstraps m' = AList.delete h (bootstraps m)
     else m' = m \<and> (\<forall>h b. map_of (bootstraps m) h = Some b \<longrightarrow> used b)"
proof (cases "oldest_unused (bootstraps m) None")
  case None
  then have "list_all (\<lambda>(h, b). used b) (bootstraps m)" using oldest_unused_None by blast
  then show ?thesis
    using assms(2) None by (fastforce simp: evictOldestUnusedBootstrap_def list_all_iff dest: map_of_SomeD)
next
  case (Some hb)
  obtain h b where hb: "hb = (h, b)" by fastforce
  have d: "distinct_keys (bootstraps m)" using assms(1) by (simp add: manager_ok_def bootstraps_ok_def)
  have "(h, b) \<in> set (bootstraps m)" using oldest_unused_in [OF Some [unfolded hb]] by simp
  then have "map_of (bootstraps m) h = Some b" by (rule map_of_self [OF d])
  moreover have "bootstraps m' = AList.delete h (bootstraps m)" "room"
    using assms(2) Some by (auto simp: evictOldestUnusedBootstrap_def hb removeBootstrap_def Let_def)
  moreover have "\<not> used b \<and> (\<forall>h' b'. (h', b') \<in> set (bootstraps m) \<longrightarrow> \<not> used b' \<longrightarrow> expires b \<le> expires b')"
    using oldest_unused_least [OF Some [unfolded hb]] by blast
  ultimately show ?thesis by (simp, intro exI [of _ h] exI [of _ b]) (auto dest: map_of_SomeD)
qed

theorem evicts_oldest_unused_witness:
  "\<exists>m'. evictOldestUnusedBootstrap (mgr sample_start) = (False, m') \<and> m' = mgr sample_start"
proof -
  have ok: "manager_ok (mgr sample_start)"
    using reachable_ok [OF relay_profile_accepted sample_start_reachable] by (simp add: relay_ok_def)
  obtain m' where e: "evictOldestUnusedBootstrap (mgr sample_start) = (False, m')"
    by (simp add: evictOldestUnusedBootstrap_def)
  from evicts_oldest_unused [OF ok e] show ?thesis using e by simp
qed

subsection \<open>Closing sessions\<close>

text \<open>Closing some objects closes these and no others.\<close>

lemma close_object_closes:
  assumes ok: "manager_ok m" and c: "close_object ref m = Some (bs, m')"
  shows "closed (obj m' ref)" "k \<noteq> ref \<Longrightarrow> obj m' k = obj m k"
proof -
  obtain s s1 m1 where s: "map_of (objs m) ref = Some s"
    and k: "closeLocked (manager_callbacks (profile s)) s m = Some (bs, s1, m1)"
    and m': "m' = m1\<lparr>objs := AList.update ref s1 (objs m1)\<rparr>"
    using c by (auto simp: close_object_def on_object_def bind_eq_Some_conv)
  have f: "same_tables m m1"
    using mgr_at.protocolFailure_ok [of s "ledger_frame m" m "profile s"] object_in_pool [OF ok s] ok k
    by (simp add: same_tables_def protocolFailure_def in_pool_def manager_ok_def moved_with_def)
  show "closed (obj m' ref)" using closeLocked_closes [OF k] by (simp add: m' obj_def update_conv)
  show "k \<noteq> ref \<Longrightarrow> obj m' k = obj m k"
    using same_tables_fields(12) [OF f] by (simp add: m' obj_def update_conv)
qed

lemma close_objects_closes:
  assumes "manager_ok m" and "distinct refs" and "close_objects P refs m = Some (bs, m')"
  shows "obj m' ref = obj m ref \<or> ref \<in> set refs \<and> P (obj m ref)"
    and "ref \<in> set refs \<Longrightarrow> P (obj m ref) \<Longrightarrow> closed (obj m' ref)"
proof -
  have "(obj m' ref = obj m ref \<or> ref \<in> set refs \<and> P (obj m ref)) \<and>
     (ref \<in> set refs \<longrightarrow> P (obj m ref) \<longrightarrow> closed (obj m' ref))"
    using assms
  proof (induction refs arbitrary: m bs)
    case (Cons r refs)
    obtain s b1 m1 b2 where s: "map_of (objs m) r = Some s"
      and a: "(if P s then close_object r m else Some ([], m)) = Some (b1, m1)"
      and b: "close_objects P refs m1 = Some (b2, m')"
      using Cons.prems(3) by (auto simp: bind_eq_Some_conv)
    have os: "obj m r = s" by (simp add: obj_def s)
    have m1: "manager_ok m1" using a close_object_books(2) [OF Cons.prems(1)] Cons.prems(1) by (auto split: if_splits)
    have one: "k \<noteq> r \<Longrightarrow> obj m1 k = obj m k" "P s \<Longrightarrow> closed (obj m1 r)" "\<not> P s \<Longrightarrow> m1 = m" for k
      using a close_object_closes [OF Cons.prems(1)] by (auto split: if_splits)
    have ih: "(obj m' ref = obj m1 ref \<or> ref \<in> set refs \<and> P (obj m1 ref)) \<and>
       (ref \<in> set refs \<longrightarrow> P (obj m1 ref) \<longrightarrow> closed (obj m' ref))"
      using Cons.IH [OF m1 _ b] Cons.prems(2) by simp
    show ?case using ih one os Cons.prems(2) by (cases "ref = r") auto
  qed simp
  then show "obj m' ref = obj m ref \<or> ref \<in> set refs \<and> P (obj m ref)"
    and "ref \<in> set refs \<Longrightarrow> P (obj m ref) \<Longrightarrow> closed (obj m' ref)" by blast+
qed

lemma table_refs: "manager_ok m \<Longrightarrow> distinct (map snd (sessions m))"
  by (simp add: manager_ok_def table_ok_def)

text \<open>
  One tick of the clean-up closes exactly the idle sessions. Afterwards a session of the
  table is closed if it was closed before or its last activity is longer ago than the grace
  period, and a session that is neither is left as it was.
\<close>
theorem cleanup_closes_idle:
  assumes "manager_ok m"
  shows "ok_with (cleanup_tick m) (\<lambda>(bs, m').
     (\<forall>ref \<in> snd ` set (sessions m).
        (time_sub (clock m) (lastActivity (obj m ref)) > ReconnectGrace (config_timeouts m) \<longrightarrow> closed (obj m' ref)) \<and>
        (time_sub (clock m) (lastActivity (obj m ref)) \<le> ReconnectGrace (config_timeouts m) \<longrightarrow> obj m' ref = obj m ref)))"
proof -
  let ?m = "removeExpiredBootstraps (clock m) m"
  obtain bs m' where c: "cleanup_tick m = Some (bs, m')"
    using cleanup_tick_ok [OF assms] by (auto simp: ok_with_Ex)
  have ok: "manager_ok ?m" by (rule removeExpired_ok(1) [OF assms])
  obtain b p cl where sh: "?m = m\<lparr>bootstraps := b, bootstrapsPerIP := p, closedTokens := cl\<rparr>"
    using removeExpired_ok(2) [OF assms] by blast
  have f: "sessions ?m = sessions m" "obj ?m = obj m" "config_timeouts ?m = config_timeouts m"
    unfolding sh by (simp_all add: obj_def fun_eq_iff)
  have k: "close_objects (\<lambda>s. time_sub (clock m) (lastActivity s) > ReconnectGrace (config_timeouts m))
      (map snd (sessions m)) ?m = Some (bs, m')"
    using c by (simp add: cleanup_tick_def Let_def f)
  have d: "distinct (map snd (sessions m))" by (rule table_refs [OF assms])
  show ?thesis
    unfolding c ok_with_simps prod.case
  proof
    fix ref assume "ref \<in> snd ` set (sessions m)"
    then show "(time_sub (clock m) (lastActivity (obj m ref)) > ReconnectGrace (config_timeouts m) \<longrightarrow> closed (obj m' ref)) \<and>
        (time_sub (clock m) (lastActivity (obj m ref)) \<le> ReconnectGrace (config_timeouts m) \<longrightarrow> obj m' ref = obj m ref)"
      using close_objects_closes [OF ok d k, of ref] f(2) by auto
  qed
qed

text \<open>
  After a shutdown the manager is closed for good: every session of its table is closed, no
  stream is granted any more, and neither bootstraps nor new sessions are handed out.
\<close>
theorem Shutdown_closes_all:
  assumes "manager_ok m" and "\<not> mgr_closed m"
  shows "ok_with (Shutdown_manager m) (\<lambda>(bs, m').
     mgr_closed m' \<and> (\<forall>ref \<in> snd ` set (sessions m'). closed (obj m' ref)) \<and>
     acquire_stream prof m' = (False, m') \<and>
     (\<forall>token. fst (IssueBootstrap p ip random m') \<noteq> Inr token) \<and>
     (\<forall>th entry. tokenHash token = Some th \<longrightarrow> map_of (bootstraps m') th = Some entry \<longrightarrow> \<not> used entry \<longrightarrow>
        (\<forall>res. fst (Create token ip bytes random m') \<noteq> Inr res)))"
proof -
  let ?m = "m\<lparr>mgr_closed := True\<rparr>"
  obtain bs m' where c: "Shutdown_manager m = Some (bs, m')" "manager_ok m'"
    using Shutdown_manager_ok [OF assms(1)] by (auto simp: ok_with_Ex)
  have ok: "manager_ok ?m" using assms(1) by simp
  have k: "close_objects (\<lambda>_. True) (map snd (sessions ?m)) ?m = Some (bs, m')"
    using c assms(2) by (simp add: Shutdown_manager_def)
  have "set (map snd (sessions ?m)) \<subseteq> keys (objs ?m)" using sessions_have_objects [OF ok] by simp
  from close_objects_ok [OF ok this, of "\<lambda>_. True"] have same: "same_manager ?m m'" unfolding k by simp
  have s: "sessions m' = sessions m" "mgr_closed m'" using same_manager_fields [OF same] by simp_all
  have d: "distinct (map snd (sessions ?m))" using table_refs [OF ok] .
  have "closed (obj m' ref)" if "ref \<in> snd ` set (sessions m')" for ref
    using close_objects_closes(2) [OF ok d k, of ref] that s(1) by simp
  moreover have "fst (IssueBootstrap p ip random m') \<noteq> Inr t" for t
    using s(2) by (simp add: IssueBootstrap_def split: option.split prod.split)
  moreover have "fst (Create token ip bytes random m') \<noteq> Inr res"
    if "tokenHash token = Some th" "map_of (bootstraps m') th = Some entry" "\<not> used entry" for th entry res
    using that s(2) by (simp add: Create_def Let_def split: option.split)
  ultimately show ?thesis using c s(2) by (simp add: acquire_stream_def)
qed

theorem cleanup_closes_idle_witness:
  "closed (obj created_manager 0) = False \<and>
     ok_with (cleanup_tick (created_manager\<lparr>clock := 10 ^ 15\<rparr>)) (\<lambda>(bs, m'). closed (obj m' 0))"
proof -
  have s: "lastActivity sample_session = 5" "closed sample_session = False"
    by (simp_all add: sample_session_def newSession_def Let_def)
  let ?m = "created_manager\<lparr>clock := 10 ^ 15\<rparr>"
  have f: "snd ` set (sessions ?m) = {0}" "obj ?m 0 = sample_session" "clock ?m = 10 ^ 15"
    "config_timeouts ?m = Default_Timeouts"
    using sample_Create(3,4) created_table by (simp_all add: obj_def)
  have late: "time_sub (10 ^ 15) 5 > ReconnectGrace Default_Timeouts"
    by (simp add: time_sub_def Default_Timeouts_def Second_def)
  have "manager_ok ?m" using created_manager_ok by simp
  then have "ok_with (cleanup_tick ?m) (\<lambda>(bs, m'). closed (obj m' 0))"
  proof (rule ok_with_mono [OF cleanup_closes_idle], goal_cases)
    case (1 x)
    then show ?case using late unfolding f by (cases x) (simp add: s created_obj)
  qed
  then show ?thesis using created_obj s(2) by simp
qed

theorem Shutdown_closes_all_witness:
  "ok_with (Shutdown_manager (created_manager\<lparr>mgr_closed := False\<rparr>))
     (\<lambda>(bs, m'). mgr_closed m' \<and> (\<forall>ref \<in> snd ` set (sessions m'). closed (obj m' ref)))"
proof -
  let ?m = "created_manager\<lparr>mgr_closed := False\<rparr>"
  have "manager_ok ?m" "\<not> mgr_closed ?m" using created_manager_ok by simp_all
  note closes = Shutdown_closes_all [OF this, where prof = relay_profile and p = None and ip = "[]" and random = None
      and token = "[]" and bytes = "[]"]
  show ?thesis
  proof (rule ok_with_mono [OF closes], goal_cases)
    case (1 x)
    then show ?case by (cases x) simp
  qed
qed

text \<open>
  Ending a session can be repeated. When a session object has finished, its token is no
  longer accepted for the session, and closing it once more succeeds and changes nothing, as
  long as the token is remembered; closing a token that was never issued fails.
\<close>
theorem finished_token_remembered:
  assumes "manager_ok m" and "tokenHash token = Some h" and "map_of (sessions m) h = Some ref"
    and "map_of (objs m) ref = Some s"
  shows "Get_session token (sessionFinished ref s m) = Inl ErrAuthentication \<and>
     CloseToken token (sessionFinished ref s m) = Some (None, [], sessionFinished ref s m)"
proof -
  have d: "distinct_keys (sessions m)" "distinct (map snd (sessions m))"
    using assms(1) by (simp_all add: manager_ok_def table_ok_def)
  have i: "(h, ref) \<in> set (sessions m)" using assms(3) by (rule map_of_SomeD)
  obtain h' where f: "find (\<lambda>(_, r). r = ref) (sessions m) = Some (h', ref)"
  proof (cases "find (\<lambda>(_, r). r = ref) (sessions m)")
    case None
    then show ?thesis using i by (auto simp: find_None_iff)
  next
    case (Some e)
    then have "snd e = ref" unfolding find_Some_iff by (elim exE conjE) (simp add: case_prod_beta)
    then have "e = (fst e, ref)" by (cases e) simp
    then show ?thesis using Some that [of "fst e"] by simp
  qed
  then have "(h', ref) \<in> set (sessions m)"
    unfolding find_Some_iff by (elim exE conjE) (simp add: nth_mem)
  then have h': "h' = h" using d(2) i by (metis (mono_tags, lifting) distinct_map inj_onD prod.inject snd_conv)
  have rem: "sessions (remove_bootstraps P es m1) = sessions m1"
    "closedTokens (remove_bootstraps P es m1) = closedTokens m1" for P es m1
    by (induction P es m1 rule: remove_bootstraps.induct)
      (simp_all add: removeBootstrap_def releaseUnusedBootstrap_def Let_def)
  have "map_of (sessions (sessionFinished ref s m)) h = None"
    "map_of (closedTokens (sessionFinished ref s m)) h \<noteq> None"
    by (simp_all add: sessionFinished_def f h' rem Let_def update_conv delete_conv)
  then show ?thesis using assms(2) by (simp add: Get_session_def CloseToken_def)
qed

theorem finished_token_remembered_witness:
  "CloseToken (EncodeToString (replicate 16 3 @ tokenMAC (replicate 32 0) TokenSession (replicate 16 3)))
     (sessionFinished 0 sample_session created_manager) = Some (None, [], sessionFinished 0 sample_session created_manager)"
proof -
  let ?b = "replicate 16 3 @ tokenMAC (replicate 32 0) TokenSession (replicate 16 3)"
  have t: "tokenHash (EncodeToString ?b) = Some (Sum256 ?b)" by (rule tokenHash_EncodeToString) simp
  have h: "map_of (sessions created_manager) (Sum256 ?b) = Some 0" by (simp add: sample_Create(2))
  show ?thesis using finished_token_remembered [OF created_manager_ok t h sample_Create(3)] by blast
qed

subsection \<open>Rates\<close>

text \<open>The answers to \<open>n\<close> requests that reach a bucket at the same instant.\<close>

fun takes_at :: "int \<Rightarrow> int \<Rightarrow> int \<Rightarrow> nat \<Rightarrow> rateState \<Rightarrow> bool list" where
  "takes_at now perMinute burst 0 state = []"
| "takes_at now perMinute burst (Suc n) state =
     (case takeRate state now perMinute burst of
        (state, allowed) \<Rightarrow> allowed # takes_at now perMinute burst n state)"

lemma same_instant_takeRate:
  assumes "0 \<le> k" and "k \<le> burst" and "burst \<le> 2 ^ 53" and "now \<noteq> 0"
  shows "takeRate \<lparr>tokens = of_int k, last_take = now\<rparr> now perMinute burst =
     (if k < 1 then (\<lparr>tokens = of_int k, last_take = now\<rparr>, False)
      else (\<lparr>tokens = of_int (k - 1), last_take = now\<rparr>, True))"
proof -
  have z: "Seconds (time_sub now now) = 0" by (simp add: Seconds_def time_sub_def)
  have f: "f64 (of_int burst) = of_int burst" "f64 (of_int k) = of_int k"
    "k \<ge> 1 \<Longrightarrow> f64 (of_int k - 1) = of_int (k - 1)"
    using assms f64_of_int [of burst] f64_of_int [of k] f64_of_int [of "k - 1"] by simp_all
  show ?thesis
    using assms z f by (auto simp: takeRate_def Let_def)
qed

lemma takes_at_full:
  assumes "0 \<le> k" and "k \<le> burst" and "burst \<le> 2 ^ 53" and "now \<noteq> 0"
  shows "takes_at now perMinute burst n \<lparr>tokens = of_int k, last_take = now\<rparr> =
     map (\<lambda>i. int i < k) [0..<n]"
  using assms
proof (induction n arbitrary: k)
  case (Suc n)
  have m: "[0..<Suc n] = 0 # map Suc [0..<n]" by (simp only: upt_conv_Cons zero_less_Suc map_Suc_upt)
  show ?case
  proof (cases "k < 1")
    case True
    then have "k = 0" using Suc.prems(1) by simp
    then show ?thesis using Suc.IH [of 0] Suc.prems same_instant_takeRate [of 0 burst now perMinute]
      unfolding m by simp
  next
    case False
    then have "takes_at now perMinute burst n \<lparr>tokens = of_int (k - 1), last_take = now\<rparr> =
        map (\<lambda>i. int i < k - 1) [0..<n]"
      using Suc.IH [of "k - 1"] Suc.prems by simp
    then show ?thesis using same_instant_takeRate [OF Suc.prems, of perMinute] False
      unfolding m by (auto simp: comp_def)
  qed
qed simp

text \<open>
  A rate limit lets a burst through and no more. Of the requests that reach an unused bucket
  at one instant exactly the first \<open>burst\<close> are allowed, whatever the rate per minute, in the
  floating point arithmetic of the code.
\<close>
theorem burst_exact:
  assumes "1 \<le> burst" and "burst \<le> 2 ^ 53" and "now \<noteq> 0"
  shows "takes_at now perMinute burst n zero_rate = map (\<lambda>i. int i < burst) [0..<n]"
proof (cases n)
  case (Suc k)
  have m: "[0..<Suc k] = 0 # map Suc [0..<k]" by (simp only: upt_conv_Cons zero_less_Suc map_Suc_upt)
  have "takes_at now perMinute burst k \<lparr>tokens = of_int (burst - 1), last_take = now\<rparr> =
      map (\<lambda>i. int i < burst - 1) [0..<k]"
    by (rule takes_at_full) (use assms in simp_all)
  then show ?thesis
    using assms(1,2) unfolding Suc m by (auto simp: first_takeRate comp_def)
qed simp

theorem burst_exact_witness: "takes_at 5 600 2 4 zero_rate = [True, True, False, False]"
  using burst_exact [of 2 5 600 4] by (simp add: upt_conv_Cons)

subsection \<open>A budget the validation accepts\<close>

text \<open>
  A budget that passes the validation can leave no room for data. When the control reserve
  of all sessions together is exactly the global pending limit, \<open>ValidateBudget\<close> accepts the
  configuration, but then the limit for data is zero bytes, and the manager refuses every uplink
  and downlink reservation of every session, however little is pending.
\<close>
theorem accepted_budget_without_data:
  assumes "ledger_ok m" and "ValidateBudget (config_limits m) = Some None"
    and "fst (pendingControlReserve (config_limits m)) * MaxSessionsGlobal (config_limits m) = MaxPendingGlobal (config_limits m)"
    and "0 < c" and "0 \<le> i" and "cls \<noteq> PendingControl"
  shows "\<exists>m'. changePendingBudget c i cls m = Some (False, m')"
proof -
  obtain rc ri where r: "pendingControlReserve (config_limits m) = (rc, ri)" by fastforce
  obtain cl il where b: "budgetLimits cls (config_limits m) = (cl, il)" by fastforce
  have "cl = 0"
    using b assms(3,6) by (auto simp: budgetLimits_def dataBudgetLimits_def r Let_def split: if_splits)
  then show ?thesis using changePendingBudget_positive [OF assms(1) _ b] assms(4) by simp
qed

definition tight_limits :: Limits where
  "tight_limits = Default_Limits\<lparr>MaxPendingPerSession := 13721600, MaxPendingGlobal := 13721600\<rparr>"

theorem accepted_budget_without_data_witness:
  "validate_limits tight_limits Default_Timeouts = None \<and> ValidateBudget tight_limits = Some None \<and>
   (\<exists>m'. changePendingBudget 1 0 PendingUplink (new_ledger tight_limits 5) = Some (False, m'))"
proof -
  have v: "validate_limits tight_limits Default_Timeouts = None"
    by (simp add: validate_limits_def tight_limits_def Default_Limits_def Default_Timeouts_def Second_def)
  have r: "pendingControlReserve tight_limits = (107200, 400)"
    by (simp add: tight_limits_def Default_Limits_def pendingControlReserve_def Let_def)
  have l: "MaxPendingGlobal tight_limits = 13721600" "MaxSessionsGlobal tight_limits = 128"
    "MaxPendingItemsGlobal tight_limits = 262144"
    by (simp_all add: tight_limits_def Default_Limits_def)
  have b: "ValidateBudget tight_limits = Some None" by (simp add: ValidateBudget_def r l)
  have c: "config_limits (new_ledger tight_limits 5) = tight_limits" by (simp add: new_ledger_def)
  have "ledger_ok (new_ledger tight_limits 5)" by (rule new_ledger_ok [OF validate_limits_ok [OF v]])
  from accepted_budget_without_data [OF this, of 1 0 PendingUplink] show ?thesis
    by (simp add: v b c r l)
qed

subsection \<open>Capabilities\<close>

text \<open>
  The loop that compares a capability with every profile, without stopping early, finds the
  same profile as a search. When the capabilities of the profiles differ, as loading them
  ensures, the result is the one profile that has the capability, and there is a result for no
  other value.
\<close>
theorem MatchCapability_finds:
  assumes "distinct (map Capability (config_profiles m))"
    and "\<forall>p \<in> set (config_profiles m). length (Capability p) = 32"
  shows "MatchCapability v m = find (\<lambda>p. Capability p = v) (config_profiles m)"
proof -
  define look where "look p matched = (if Capability p = v then Some p else matched)"
    for p :: Profile and matched
  have hit: "look p matched = Some p" if "Capability p = v" for p matched
    using that by (simp add: look_def)
  have miss: "look p matched = matched" if "v \<noteq> Capability p" for p matched
    using that by (simp add: look_def)
  have keep: "fold look ps start = start" if "v \<notin> Capability ` set ps" for ps start
    using that by (induction ps arbitrary: start) (simp_all add: miss)
  have loop: "fold look ps None = find (\<lambda>p. Capability p = v) ps"
    if "distinct (map Capability ps)" for ps
    using that
  proof (induction ps)
    case (Cons p ps)
    then show ?case by (cases "v = Capability p") (simp_all add: hit miss keep)
  qed simp
  have looks: "(\<lambda>p matched. if Capability p = v then Some p else matched) = look"
    by (intro ext) (simp add: look_def)
  show ?thesis
  proof (cases "length v = 32")
    case True
    then show ?thesis using loop [OF assms(1)] by (simp only: MatchCapability_def looks) simp
  next
    case False
    then have "find (\<lambda>p. Capability p = v) (config_profiles m) = None"
      using assms(2) by (auto simp: find_None_iff)
    then show ?thesis using False by (simp add: MatchCapability_def)
  qed
qed

theorem MatchCapability_finds_witness:
  "MatchCapability (replicate 32 7) (mgr sample_start) = Some (resolve_profile Default_Limits relay_profile)"
proof -
  have p: "config_profiles (mgr sample_start) = [resolve_profile Default_Limits relay_profile]" by simp
  have c: "Capability (resolve_profile Default_Limits relay_profile) = replicate 32 7"
    by (simp add: resolve_profile_def relay_profile_def)
  have "distinct (map Capability (config_profiles (mgr sample_start)))"
    "\<forall>p \<in> set (config_profiles (mgr sample_start)). length (Capability p) = 32"
    by (simp_all add: p c)
  from MatchCapability_finds [OF this] show ?thesis by (simp add: p c)
qed

subsection \<open>Well-formed sessions\<close>

text \<open>
  C12: the sessions stay well-formed. In every reachable state of the relay and for every session
  object, a live stream has a valid identifier that is not remembered as closed, its receive
  window and its unwritten bytes add up to the initial window, its cost is its bytes and one
  item cost per chunk, the remembered identifiers are bounded and without repetition, a closed
  session holds no stream and no budget, and otherwise the session's budget counters are what its
  streams and its queues hold.
\<close>
theorem relay_sessions_typed:
  assumes "accepted lims tms profs" and "reachable lims tms profs key now r"
    and "map_of (objs (mgr r)) ref = Some s"
  shows "(\<forall>sid st. map_of (streams s) sid = Some st \<longrightarrow>
       sid \<noteq> 0 \<and> sid \<le> MaxStreamID \<and> sid \<notin> closedStreams s \<and> 0 \<le> pendingWriteBytes st \<and>
       uint (receiveWindow st) + pendingWriteBytes st = InitialStreamWindow \<and>
       pendingWriteCost st = pendingWriteBytes st + queueItemCost * pendingWriteItems st) \<and>
     distinct (closedOrder s) \<and> set (closedOrder s) = closedStreams s \<and>
     len (closedOrder s) \<le> MaxClosedStreamIDs (limits s) \<and>
     (closed s \<longrightarrow> streams s = [] \<and> pendingCost s = 0 \<and> pendingItems s = 0) \<and>
     pendingCost s = sum_vals pendingWriteCost (streams s) + lane_cost (mux s) +
       sum_vals lane_cost (carrierLanes s) \<and>
     pendingItems s = sum_vals pendingWriteItems (streams s) + lane_items (mux s) +
       sum_vals lane_items (carrierLanes s)"
proof -
  have "session_ok s"
    using reachable_ok [OF assms(1,2)] assms(3)
    by (auto simp: relay_ok_def manager_ok_def objects_ok_def dest: all_valsD)
  then have ring: "ring_ok s" and st: "streams_ok s"
    and held: "pendingCost s = held_cost s" "pendingItems s = held_items s"
    and cl: "closed s \<longrightarrow> pendingCost s = 0 \<and> pendingItems s = 0"
    by (auto simp: session_ok_def session_inv_def)
  have "sid \<noteq> 0 \<and> sid \<le> MaxStreamID \<and> sid \<notin> closedStreams s \<and> 0 \<le> pendingWriteBytes v \<and>
       uint (receiveWindow v) + pendingWriteBytes v = InitialStreamWindow \<and>
       pendingWriteCost v = pendingWriteBytes v + queueItemCost * pendingWriteItems v"
    if "map_of (streams s) sid = Some v" for sid v
    using st that map_of_keys [OF that] by (auto simp: streams_ok_def stream_ok_def dest: all_valsD)
  then show ?thesis
    using ring st held cl by (simp add: ring_ok_def streams_ok_def held_cost_def held_items_def)
qed

lemma sample_relay_session:
  "\<exists>r. sample_reachable r \<and> map_of (objs (mgr r)) 0 \<noteq> None"
proof -
  let ?h = "replicate 16 3 :: byte list"
  obtain token m where i: "IssueBootstrap (Some relay_profile) ''192.0.2.1'' (Some ?h) (mgr sample_start) = (Inr token, m)"
    and th: "tokenHash token = Some (Sum256 (?h @ tokenMAC (replicate 32 0) TokenBootstrap ?h))"
    and m: "bootstraps m = [(Sum256 (?h @ tokenMAC (replicate 32 0) TokenBootstrap ?h),
       sample_entry\<lparr>expires := 5 + BootstrapLifetime Default_Timeouts\<rparr>)]"
      "clock m = 5" "mgr_closed m = False" "sessions m = []"
      "config_limits m = Default_Limits" "sessionsPerProfile m = Map.empty"
      "sessionRate m = zero_rate" "profileSessionRates m = (\<lambda>_. zero_rate)"
      "objs m = []" "next_obj m = 0" "tokenKey m = replicate 32 0"
    using sample_issued by auto
  have i': "snd (IssueBootstrap (Some relay_profile) ''192.0.2.1'' (Some ?h)
      (NewManager Default_Limits Default_Timeouts [relay_profile] (replicate 32 0) 5)) = m"
    using i by simp
  have step1: "sample_reachable (sample_start\<lparr>mgr := m\<rparr>)"
    by (rule reachable.more [OF sample_start_reachable, of "Issues (Some relay_profile) ''192.0.2.1'' (Some ?h)"],
        rule relay_step.step)
      (simp_all add: relay_exec_def enabled_def fresh_token_def newToken_def Let_def i')
  let ?m = "snd (Create token ''192.0.2.1'' hello_body (Some ?h) m)"
  have step2: "sample_reachable (sample_start\<lparr>mgr := ?m\<rparr>)"
    by (rule reachable.more [OF step1, of "Creates token ''192.0.2.1'' hello_body (Some ?h)"],
        rule relay_step.step)
      (simp_all add: relay_exec_def enabled_def fresh_token_def newToken_def Let_def m)
  have e: "used sample_entry = False" "\<not> BootstrapLifetime Default_Timeouts < 0"
    by (simp_all add: sample_entry_def Default_Timeouts_def Second_def)
  have "map_of (objs ?m) 0 \<noteq> None"
    using e by (simp add: Create_def hello_body_ok th Let_def m create_fields newToken_def count_of_def)
  then show ?thesis using step2 by (intro exI [of _ "sample_start\<lparr>mgr := ?m\<rparr>"]) simp
qed

theorem relay_sessions_typed_witness:
  "\<exists>r s. sample_reachable r \<and> map_of (objs (mgr r)) 0 = Some s \<and> distinct (closedOrder s)"
proof -
  obtain r s where r: "sample_reachable r" "map_of (objs (mgr r)) 0 = Some s"
    using sample_relay_session by blast
  from relay_sessions_typed [OF relay_profile_accepted r] show ?thesis using r by blast
qed

end
