(* ===== verification/Text.thy ===== *)
theory Text
  imports Token
begin

text \<open>
  What the server uses of Go's \<open>strings\<close>, \<open>strconv\<close>, \<open>path\<close> and \<open>url\<close> packages, and its own
  parsers of header values: \<open>canonicalUint\<close>, \<open>bearerToken\<close> and \<open>webSocketCredentials\<close> of
  \<open>internal/server/server.go\<close>.
\<close>

subsection \<open>Strings\<close>

definition HasPrefix :: "string \<Rightarrow> string \<Rightarrow> bool" where
  "HasPrefix s p \<longleftrightarrow> take (length p) s = p"

definition TrimPrefix :: "string \<Rightarrow> string \<Rightarrow> string" where
  "TrimPrefix s p = (if HasPrefix s p then drop (length p) s else s)"

text \<open>\<open>strings.Cut\<close> at a single character.\<close>

fun Cut :: "string \<Rightarrow> char \<Rightarrow> (string \<times> string) option" where
  "Cut [] c = None"
| "Cut (x # xs) c =
     (if x = c then Some ([], xs) else map_option (\<lambda>(a, b). (x # a, b)) (Cut xs c))"

text \<open>\<open>strings.Split\<close> at a single character.\<close>

fun Split :: "char \<Rightarrow> string \<Rightarrow> string list" where
  "Split c [] = [[]]"
| "Split c (x # xs) =
     (if x = c then [] # Split c xs
      else (case Split c xs of [] \<Rightarrow> [[x]] | y # ys \<Rightarrow> (x # y) # ys))"

text \<open>
  \<open>strings.TrimSpace\<close>: the white space of Unicode, in UTF-8.
\<close>

definition spaces :: "string list" where
  "spaces = map (map char_of) ([[9 :: nat], [10], [11], [12], [13], [32], [0xC2, 0x85], [0xC2, 0xA0],
     [0xE1, 0x9A, 0x80]] @ map (\<lambda>n. [0xE2, 0x80, 0x80 + n]) [0..<11] @
     [[0xE2, 0x80, 0xA8], [0xE2, 0x80, 0xA9], [0xE2, 0x80, 0xAF], [0xE2, 0x81, 0x9F], [0xE3, 0x80, 0x80]])"

function trim_front :: "string list \<Rightarrow> string \<Rightarrow> string" where
  "trim_front ws s =
     (case find (\<lambda>w. w \<noteq> [] \<and> HasPrefix s w) ws of
        None \<Rightarrow> s
      | Some w \<Rightarrow> trim_front ws (drop (length w) s))"
  by pat_completeness auto
termination
proof (relation "measure (\<lambda>(ws, s). length s)")
  fix ws :: "string list" and s w :: string
  assume "find (\<lambda>w. w \<noteq> [] \<and> HasPrefix s w) ws = Some w"
  then have "w \<noteq> [] \<and> take (length w) s = w" by (auto simp: find_Some_iff HasPrefix_def)
  then have "s \<noteq> []" "length w \<noteq> 0" by auto
  then show "((ws, drop (length w) s), (ws, s)) \<in> measure (\<lambda>(ws, s). length s)" by simp
qed simp

declare trim_front.simps [simp del]

definition TrimSpace :: "string \<Rightarrow> string" where
  "TrimSpace s = rev (trim_front (map rev spaces) (rev (trim_front spaces s)))"

lemma HasPrefix_append [simp]: "HasPrefix (p @ s) p"
  by (simp add: HasPrefix_def)

lemma TrimPrefix_append [simp]: "TrimPrefix (p @ s) p = s"
  by (simp add: TrimPrefix_def)

lemma HasPrefix_iff: "HasPrefix s p \<longleftrightarrow> (\<exists>r. s = p @ r)"
  by (metis HasPrefix_def HasPrefix_append append_take_drop_id)

lemma HasPrefixE: "HasPrefix s p \<Longrightarrow> (s = p @ TrimPrefix s p \<Longrightarrow> P) \<Longrightarrow> P"
  by (metis HasPrefix_iff TrimPrefix_append)

lemma Cut_Some_iff: "Cut s c = Some (a, b) \<longleftrightarrow> s = a @ c # b \<and> c \<notin> set a"
  by (induction s arbitrary: a b) (auto simp: Cons_eq_append_conv)

lemma Cut_None_iff: "Cut s c = None \<longleftrightarrow> c \<notin> set s"
  by (induction s) auto

subsection \<open>Hexadecimal digits\<close>

definition unhex :: "char \<Rightarrow> nat option" where
  "unhex c = (let n = of_char c :: nat in
     if 48 \<le> n \<and> n \<le> 57 then Some (n - 48)
     else if 97 \<le> n \<and> n \<le> 102 then Some (n - 87)
     else if 65 \<le> n \<and> n \<le> 70 then Some (n - 55) else None)"

subsection \<open>Decimal numbers\<close>

definition digit_char :: "nat \<Rightarrow> char" where
  "digit_char d = char_of (48 + d)"

definition char_digit :: "char \<Rightarrow> nat option" where
  "char_digit c = (let n = of_char c in if 48 \<le> n \<and> n \<le> 57 then Some (n - 48) else None)"

text \<open>\<open>strconv.FormatUint(n, 10)\<close>.\<close>

function FormatUint :: "nat \<Rightarrow> string" where
  "FormatUint n = (if n < 10 then [digit_char n] else FormatUint (n div 10) @ [digit_char (n mod 10)])"
  by pat_completeness auto
termination
  by (relation "measure id") auto

declare FormatUint.simps [simp del]

fun decimal :: "nat \<Rightarrow> string \<Rightarrow> nat option" where
  "decimal acc [] = Some acc"
| "decimal acc (c # cs) =
     (case char_digit c of None \<Rightarrow> None | Some d \<Rightarrow> decimal (acc * 10 + d) cs)"

text \<open>\<open>strconv.ParseUint(value, 10, 64)\<close>: digits only, and at most \<open>2 ^ 64 - 1\<close>.\<close>

definition ParseUint :: "string \<Rightarrow> nat option" where
  "ParseUint s =
     (if s = [] then None
      else case decimal 0 s of None \<Rightarrow> None | Some n \<Rightarrow> if n < 2 ^ 64 then Some n else None)"

definition canonicalUint :: "string \<Rightarrow> u64 option" where
  "canonicalUint s =
     (if s = [] \<or> (length s > 1 \<and> s ! 0 = CHR ''0'') \<or> HasPrefix s ''+'' then None
      else case ParseUint s of
        None \<Rightarrow> None
      | Some n \<Rightarrow> if FormatUint n = s then Some (word_of_nat n) else None)"

lemma char_digit_char: "d < 10 \<Longrightarrow> char_digit (digit_char d) = Some d"
  by (simp add: char_digit_def digit_char_def)

lemma decimal_append: "decimal acc (s @ t) = Option.bind (decimal acc s) (\<lambda>n. decimal n t)"
  by (induction s arbitrary: acc) (auto split: option.splits)

lemma decimal_FormatUint: "decimal 0 (FormatUint n) = Some n"
proof (induction n rule: FormatUint.induct)
  case (1 n)
  show ?case
    by (subst FormatUint.simps) (use 1 in \<open>auto simp: decimal_append char_digit_char\<close>)
qed

lemma FormatUint_inject [simp]: "FormatUint n = FormatUint m \<longleftrightarrow> n = m"
  by (metis decimal_FormatUint option.inject)

lemma FormatUint_not_Nil [simp]: "FormatUint n \<noteq> []"
  by (subst FormatUint.simps) simp

lemma of_char_digit_char: "d < 10 \<Longrightarrow> of_char (digit_char d) = 48 + d"
  by (simp add: digit_char_def)

lemma FormatUint_digits: "c \<in> set (FormatUint n) \<Longrightarrow> 48 \<le> (of_char c :: nat) \<and> of_char c \<le> (57 :: nat)"
proof (induction n rule: FormatUint.induct)
  case (1 n)
  then show ?case
    by (subst (asm) (2) FormatUint.simps) (auto simp: of_char_digit_char split: if_splits)
qed

lemma digit_char_zero: "d < 10 \<Longrightarrow> digit_char d = CHR ''0'' \<longleftrightarrow> d = 0"
proof -
  assume "d < 10"
  have "digit_char d = CHR ''0'' \<longleftrightarrow> (of_char (digit_char d) :: nat) = of_char (CHR ''0'')"
    by (simp only: of_char_eq_iff)
  then show ?thesis using \<open>d < 10\<close> by (simp add: of_char_digit_char)
qed

lemma FormatUint_hd: "n \<noteq> 0 \<Longrightarrow> hd (FormatUint n) \<noteq> CHR ''0''"
proof (induction n rule: FormatUint.induct)
  case (1 n)
  show ?case
    by (subst FormatUint.simps) (use 1 in \<open>auto simp: digit_char_zero\<close>)
qed

lemma FormatUint_no_zero: "length (FormatUint n) > 1 \<Longrightarrow> FormatUint n ! 0 \<noteq> CHR ''0''"
  by (metis FormatUint.simps FormatUint_hd FormatUint_not_Nil One_nat_def hd_conv_nth length_Cons less_irrefl
      list.size(3) zero_less_numeral)

lemma FormatUint_no_plus: "\<not> HasPrefix (FormatUint n) ''+''"
  using FormatUint_digits [of "CHR ''+''" n] by (auto simp: HasPrefix_iff)

lemma canonicalUint_FormatUint: "canonicalUint (FormatUint (unat w)) = Some w"
proof -
  have "unat w < 2 ^ 64" using unsigned_less [of w] by simp
  then have "ParseUint (FormatUint (unat w)) = Some (unat w)"
    by (simp add: ParseUint_def decimal_FormatUint)
  moreover have "\<not> (length (FormatUint (unat w)) > 1 \<and> FormatUint (unat w) ! 0 = CHR ''0'')"
    using FormatUint_no_zero by blast
  ultimately show ?thesis by (simp add: canonicalUint_def FormatUint_no_plus)
qed

lemma canonicalUint_Some: "canonicalUint s = Some w \<Longrightarrow> s = FormatUint (unat w)"
  by (auto simp: canonicalUint_def ParseUint_def unat_of_nat split: if_splits option.splits)

text \<open>
  A number in a header has one spelling. A header value is read as the number \<open>w\<close> exactly
  when it is the decimal representation of \<open>w\<close>: signs, leading zeros, spaces, and numbers that
  do not fit in 64 bits are refused, and every 64-bit number can be sent.
\<close>
theorem canonicalUint_exact: "canonicalUint s = Some w \<longleftrightarrow> s = FormatUint (unat w)"
  using canonicalUint_FormatUint canonicalUint_Some by blast

subsection \<open>Credentials\<close>

definition bearerToken :: "string \<Rightarrow> string option" where
  "bearerToken s =
     (if \<not> HasPrefix s ''Bearer '' \<or> count_list s (CHR '' '') \<noteq> 1 then None
      else
        let token = TrimPrefix s ''Bearer '' in
        case DecodeString token of
          None \<Rightarrow> None
        | Some decoded \<Rightarrow>
            if length decoded = 32 \<and> EncodeToString decoded = token then Some token else None)"

definition webSocketProtocolPrefix :: string where
  "webSocketProtocolPrefix = ''tproxy-v1.''"

definition webSocketLaneProtocolPrefix :: string where
  "webSocketLaneProtocolPrefix = ''tproxy-lane-v1.''"

text \<open>The token, the lane, and whether the protocol names a lane.\<close>

definition webSocketCredentials :: "string \<Rightarrow> (string \<times> u32 \<times> bool) option" where
  "webSocketCredentials protocol =
     (if HasPrefix protocol webSocketProtocolPrefix then
        (let token = TrimPrefix protocol webSocketProtocolPrefix in
         if token \<noteq> [] then Some (token, 0, False) else None)
      else if \<not> HasPrefix protocol webSocketLaneProtocolPrefix then None
      else
        case Cut (TrimPrefix protocol webSocketLaneProtocolPrefix) (CHR ''.'') of
          None \<Rightarrow> None
        | Some (token, laneText) \<Rightarrow>
            if token = [] then None
            else
              (case canonicalUint laneText of
                 None \<Rightarrow> None
               | Some lane \<Rightarrow>
                   if lane = 0 \<or> lane > ucast MaxStreamID then None
                   else Some (token, ucast lane, True)))"

lemma sextet_char_not_space: "n < 64 \<Longrightarrow> sextet_char n \<noteq> CHR '' ''"
  using char_sextet_char(1) [of n] by (auto simp: char_sextet_def code_sextet_def)

lemma set_EncodeToString: "c \<in> set (EncodeToString bytes) \<Longrightarrow> \<exists>n < 64. c = sextet_char n"
proof -
  assume c: "c \<in> set (EncodeToString bytes)"
  have "unat b < 256" for b :: byte using unsigned_less [of b] by simp
  then have "list_all (\<lambda>a. a < 256) (map unat bytes)" by (simp add: list_all_iff)
  then have "list_all (\<lambda>x. x < 64) (to_sextets (map unat bytes))" by (rule to_sextets_bound)
  with c show ?thesis by (auto simp: EncodeToString_def list_all_iff)
qed

lemma EncodeToString_no_space: "CHR '' '' \<notin> set (EncodeToString bytes)"
  using set_EncodeToString sextet_char_not_space by metis

lemma bearer_spaces: "count_list (''Bearer '' @ t) (CHR '' '') = Suc (count_list t (CHR '' ''))"
  by simp

text \<open>
  An authorization header names a token exactly when it is the word \<open>Bearer\<close>, one space
  and the canonical spelling of 32 bytes.
\<close>
theorem bearerToken_exact:
  "bearerToken s = Some token \<longleftrightarrow>
     s = ''Bearer '' @ token \<and> (\<exists>bytes. length bytes = 32 \<and> token = EncodeToString bytes)"
proof
  assume "bearerToken s = Some token"
  then show "s = ''Bearer '' @ token \<and> (\<exists>bytes. length bytes = 32 \<and> token = EncodeToString bytes)"
    by (auto simp: bearerToken_def Let_def split: if_splits option.splits elim: HasPrefixE)
next
  assume "s = ''Bearer '' @ token \<and> (\<exists>bytes. length bytes = 32 \<and> token = EncodeToString bytes)"
  then obtain bytes where b: "s = ''Bearer '' @ EncodeToString bytes" "length bytes = 32"
    "token = EncodeToString bytes" by auto
  have "count_list s (CHR '' '') = 1"
    unfolding b(1) bearer_spaces using EncodeToString_no_space by (simp add: count_list_0_iff)
  moreover have "HasPrefix s ''Bearer ''" "TrimPrefix s ''Bearer '' = token"
    unfolding b(1,3) by (rule HasPrefix_append TrimPrefix_append)+
  ultimately show "bearerToken s = Some token" using b(2,3) by (simp add: bearerToken_def)
qed

lemma lane_number:
  assumes "lane \<le> ucast MaxStreamID"
  shows "unat (ucast (lane :: u64) :: u32) = unat lane"
proof -
  have "unat lane \<le> unat (ucast MaxStreamID :: u64)" using assms by (simp add: word_le_nat_alt)
  then have "unat lane < 2 ^ LENGTH(32)" by simp
  then show ?thesis by (simp add: unsigned_ucast_eq take_bit_nat_eq_self)
qed

text \<open>
  The sub-protocol of a web socket names a token and a lane in one way. A lane carrier is
  recognized exactly when the text is the prefix, a nonempty token without a dot, a dot and the
  decimal number of a lane between 1 and the greatest stream id; a carrier without a lane
  exactly when it is the other prefix and a nonempty token.
\<close>
theorem webSocketCredentials_exact:
  "webSocketCredentials protocol = Some (token, lane, lanes) \<longleftrightarrow>
     token \<noteq> [] \<and>
     (if lanes then protocol = webSocketLaneProtocolPrefix @ token @ CHR ''.'' # FormatUint (unat lane) \<and>
          CHR ''.'' \<notin> set token \<and> 0 < lane \<and> lane \<le> MaxStreamID
      else protocol = webSocketProtocolPrefix @ token \<and> lane = 0)"
  (is "?L \<longleftrightarrow> ?R")
proof
  assume ?L
  show ?R
  proof (cases "HasPrefix protocol webSocketProtocolPrefix")
    case True
    with \<open>?L\<close> show ?thesis
      by (auto simp: webSocketCredentials_def Let_def split: if_splits elim: HasPrefixE)
  next
    case False
    with \<open>?L\<close> obtain laneText w where p: "HasPrefix protocol webSocketLaneProtocolPrefix"
      "Cut (TrimPrefix protocol webSocketLaneProtocolPrefix) (CHR ''.'') = Some (token, laneText)"
      "token \<noteq> []" "canonicalUint laneText = Some w" "w \<noteq> 0" "w \<le> ucast MaxStreamID"
      "lane = ucast w" "lanes"
      by (auto simp: webSocketCredentials_def split: if_splits option.splits)
    have u: "unat lane = unat w" unfolding p(7) using p(6) by (rule lane_number)
    have "protocol = webSocketLaneProtocolPrefix @ token @ CHR ''.'' # FormatUint (unat lane)"
      using p(1,2) canonicalUint_Some [OF p(4)] u by (metis Cut_Some_iff HasPrefixE)
    moreover have "0 < lane" using p(5) u by (metis unat_eq_zero word_gt_0)
    moreover have "lane \<le> MaxStreamID" using p(6) u by (simp add: word_le_nat_alt)
    ultimately show ?thesis using p(2,3,8) by (auto simp: Cut_Some_iff)
  qed
next
  assume ?R
  show ?L
  proof (cases lanes)
    case False
    with \<open>?R\<close> show ?thesis by (simp add: webSocketCredentials_def)
  next
    case True
    define w :: u64 where "w = ucast lane"
    have "unat lane < 2 ^ 32" using unsigned_less [of lane] by simp
    then have "unat lane < 2 ^ LENGTH(64)" by simp
    then have u: "unat w = unat lane" by (simp add: w_def unsigned_ucast_eq take_bit_nat_eq_self)
    have l: "0 < lane" "lane \<le> MaxStreamID" "CHR ''.'' \<notin> set token" "token \<noteq> []"
      and p: "protocol = webSocketLaneProtocolPrefix @ token @ CHR ''.'' # FormatUint (unat w)"
      using \<open>?R\<close> True u by auto
    have "\<not> HasPrefix protocol webSocketProtocolPrefix"
      by (simp add: p HasPrefix_def webSocketProtocolPrefix_def webSocketLaneProtocolPrefix_def)
    moreover have "Cut (token @ CHR ''.'' # FormatUint (unat w)) (CHR ''.'') = Some (token, FormatUint (unat w))"
      using l(3) by (simp add: Cut_Some_iff)
    moreover have "w \<noteq> 0" using l(1) u by (metis unat_eq_zero word_gt_0)
    moreover have m: "\<not> w > ucast MaxStreamID" using l(2) u by (simp add: word_le_nat_alt not_less)
    moreover have "ucast w = lane"
      using lane_number [of w] m u by (simp add: word_unat_eq_iff not_less)
    ultimately show ?thesis
      using True l(4) canonicalUint_FormatUint [of w] by (simp add: webSocketCredentials_def p)
  qed
qed

end
