(* ===== verification/Net.thy ===== *)
theory Net
  imports Text
begin

text \<open>
  What the relay uses of Go's \<open>net\<close> package: \<open>SplitHostPort\<close>, \<open>ParseIP\<close>, \<open>IP.String\<close> and
  \<open>IP.IsLoopback\<close>, and on top of them the address of a client (\<open>clientIP\<close> of
  \<open>internal/server/server.go\<close>). An address is its 16 bytes, an IPv4 address the mapped one.
\<close>

subsection \<open>Hosts and ports\<close>

fun last_index :: "char \<Rightarrow> string \<Rightarrow> nat option" where
  "last_index c [] = None"
| "last_index c (x # xs) =
     (case last_index c xs of Some i \<Rightarrow> Some (Suc i) | None \<Rightarrow> if x = c then Some 0 else None)"

fun first_index :: "char \<Rightarrow> string \<Rightarrow> nat option" where
  "first_index c [] = None"
| "first_index c (x # xs) = (if x = c then Some 0 else map_option Suc (first_index c xs))"

definition SplitHostPort :: "string \<Rightarrow> (string \<times> string) option" where
  "SplitHostPort s =
     (case last_index (CHR '':'') s of
        None \<Rightarrow> None
      | Some i \<Rightarrow>
          (case (if s ! 0 = CHR ''['' then
                   (case first_index (CHR '']'') s of
                      None \<Rightarrow> None
                    | Some e \<Rightarrow> if e + 1 = i then Some (take (e - 1) (drop 1 s), 1, e + 1) else None)
                 else if CHR '':'' \<in> set (take i s) then None
                 else Some (take i s, 0, 0)) of
             None \<Rightarrow> None
           | Some (host, j, k) \<Rightarrow>
               if CHR ''['' \<in> set (drop j s) \<or> CHR '']'' \<in> set (drop k s) then None
               else Some (host, drop (i + 1) s)))"

subsection \<open>Parsing addresses\<close>

text \<open>The digits and dots of an IPv4 address: at the start of a field or not, the value so far.\<close>

fun v4_loop :: "string \<Rightarrow> bool \<Rightarrow> nat \<Rightarrow> nat \<Rightarrow> byte list \<Rightarrow> byte list option" where
  "v4_loop [] at_dot val digits ip = (if length ip < 3 then None else Some (ip @ [word_of_nat val]))"
| "v4_loop (c # cs) at_dot val digits ip =
     (case char_digit c of
        Some d \<Rightarrow>
          if digits = 1 \<and> val = 0 then None
          else if val * 10 + d > 255 then None
          else v4_loop cs False (val * 10 + d) (digits + 1) ip
      | None \<Rightarrow>
          if c \<noteq> CHR ''.'' \<or> at_dot \<or> cs = [] \<or> length ip = 3 then None
          else v4_loop cs True 0 0 (ip @ [word_of_nat val]))"

definition parse_v4 :: "string \<Rightarrow> byte list option" where
  "parse_v4 s = v4_loop s True 0 0 []"

text \<open>The hexadecimal digits at the front: their number, their value and what follows.\<close>

fun hex_group :: "string \<Rightarrow> nat \<Rightarrow> nat \<Rightarrow> (nat \<times> nat \<times> string) option" where
  "hex_group [] off acc = Some (off, acc, [])"
| "hex_group (c # cs) off acc =
     (case unhex c of
        None \<Rightarrow> Some (off, acc, c # cs)
      | Some d \<Rightarrow>
          if off > 3 \<or> acc * 16 + d > 65535 then None else hex_group cs (off + 1) (acc * 16 + d))"

definition group_bytes :: "nat \<Rightarrow> byte list" where
  "group_bytes g = [word_of_nat (g div 256), word_of_nat (g mod 256)]"

text \<open>The bytes so far, where the double colon was, and what is left.\<close>

function v6_loop :: "string \<Rightarrow> byte list \<Rightarrow> nat option \<Rightarrow> (byte list \<times> nat option \<times> string) option" where
  "v6_loop s ip el =
     (if length ip \<ge> 16 then Some (ip, el, s)
      else case hex_group s 0 0 of
        None \<Rightarrow> None
      | Some (off, acc, rest) \<Rightarrow>
          if off = 0 then None
          else if rest \<noteq> [] \<and> hd rest = CHR ''.'' then
            (if el = None \<and> length ip \<noteq> 12 \<or> length ip + 4 > 16 then None
             else map_option (\<lambda>b. (ip @ b, el, [])) (parse_v4 s))
          else if rest = [] then Some (ip @ group_bytes acc, el, [])
          else if hd rest \<noteq> CHR '':'' \<or> tl rest = [] then None
          else if hd (tl rest) = CHR '':'' then
            (if el \<noteq> None then None
             else if tl (tl rest) = [] then Some (ip @ group_bytes acc, Some (length ip + 2), [])
             else v6_loop (tl (tl rest)) (ip @ group_bytes acc) (Some (length ip + 2)))
          else v6_loop (tl rest) (ip @ group_bytes acc) el)"
  by pat_completeness auto
termination by (relation "measure (\<lambda>(s, ip, el). 16 - length ip)") (auto simp: group_bytes_def)

declare v6_loop.simps [simp del]

definition expand :: "(byte list \<times> nat option \<times> string) option \<Rightarrow> byte list option" where
  "expand r =
     (case r of
        None \<Rightarrow> None
      | Some (ip, el, s) \<Rightarrow>
          if s \<noteq> [] then None
          else if length ip < 16 then
            (case el of None \<Rightarrow> None
             | Some e \<Rightarrow> Some (take e ip @ replicate (16 - length ip) 0 @ drop e ip))
          else if el \<noteq> None then None else Some ip)"

definition parse_v6 :: "string \<Rightarrow> byte list option" where
  "parse_v6 s =
     (if HasPrefix s ''::'' then
        (if drop 2 s = [] then Some (replicate 16 0) else expand (v6_loop (drop 2 s) [] (Some 0)))
      else expand (v6_loop s [] None))"

definition v4_in_v6 :: "byte list" where
  "v4_in_v6 = replicate 10 0 @ [255, 255]"

text \<open>\<open>net.ParseIP\<close>: the first dot or colon decides; an address with a zone is refused.\<close>

definition ParseIP :: "string \<Rightarrow> byte list option" where
  "ParseIP s =
     (if CHR ''%'' \<in> set s then None
      else case find (\<lambda>c. c = CHR ''.'' \<or> c = CHR '':'') s of
        None \<Rightarrow> None
      | Some c \<Rightarrow> if c = CHR ''.'' then map_option ((@) v4_in_v6) (parse_v4 s) else parse_v6 s)"

subsection \<open>Printing addresses\<close>

fun joined :: "string \<Rightarrow> string list \<Rightarrow> string" where
  "joined sep [] = []"
| "joined sep [x] = x"
| "joined sep (x # y # xs) = x @ sep @ joined sep (y # xs)"

definition hex_char :: "nat \<Rightarrow> char" where
  "hex_char d = char_of (if d < 10 then 48 + d else 87 + d)"

function hex_number :: "nat \<Rightarrow> string" where
  "hex_number n = (if n < 16 then [hex_char n] else hex_number (n div 16) @ [hex_char (n mod 16)])"
  by pat_completeness auto
termination by (relation "measure id") auto

declare hex_number.simps [simp del]

fun groups_of :: "byte list \<Rightarrow> nat list" where
  "groups_of (a # b # rest) = (unat a * 256 + unat b) # groups_of rest"
| "groups_of _ = []"

text \<open>The first longest run of zeros, from its start to its end.\<close>

function zero_run :: "nat \<Rightarrow> nat \<times> nat \<Rightarrow> nat list \<Rightarrow> nat \<times> nat" where
  "zero_run i e gs =
     (if gs = [] then e
      else
        let n = length (takeWhile (\<lambda>g. g = 0) gs) in
        if n > snd e - fst e then zero_run (i + n + 1) (i, i + n) (drop (n + 1) gs)
        else zero_run (i + 1) e (tl gs))"
  by pat_completeness auto
termination by (relation "measure (\<lambda>(i, e, gs). length gs)") auto

declare zero_run.simps [simp del]

definition IP_String :: "byte list \<Rightarrow> string" where
  "IP_String ip =
     (if take 12 ip = v4_in_v6 then joined ''.'' (map (\<lambda>b. FormatUint (unat b)) (drop 12 ip))
      else
        let gs = groups_of ip; e = zero_run 0 (0, 0) gs in
        if snd e - fst e < 2 then joined '':'' (map hex_number gs)
        else joined '':'' (map hex_number (take (fst e) gs)) @ ''::'' @
          joined '':'' (map hex_number (drop (snd e) gs)))"

definition IsLoopback :: "byte list \<Rightarrow> bool" where
  "IsLoopback ip \<longleftrightarrow>
     (if take 12 ip = v4_in_v6 then ip ! 12 = 127 else ip = replicate 15 0 @ [1])"

subsection \<open>Parsing what was printed\<close>

lemma unhex_hex_char: "d < 16 \<Longrightarrow> unhex (hex_char d) = Some d"
  by (auto simp: unhex_def hex_char_def)

lemma hex_char_plain:
  assumes "d < 16"
  shows "hex_char d \<noteq> CHR '':''" and "hex_char d \<noteq> CHR ''.''" and "hex_char d \<noteq> CHR ''%''"
  using unhex_hex_char [OF assms] by (auto simp: unhex_def)

lemma hex_number_digits: "c \<in> set (hex_number n) \<Longrightarrow> \<exists>d < 16. c = hex_char d"
proof (induction n rule: hex_number.induct)
  case (1 n)
  have m: "n mod 16 < 16" by simp
  show ?case
  proof (cases "n < 16")
    case True
    then have "c = hex_char n" using 1(2) by (simp add: hex_number.simps [of n])
    with True show ?thesis by blast
  next
    case False
    then consider "c \<in> set (hex_number (n div 16))" | "c = hex_char (n mod 16)"
      using 1(2) by (auto simp: hex_number.simps [of n])
    then show ?thesis using 1(1) [OF False] m by cases blast+
  qed
qed

lemma hex_number_plain:
  "CHR '':'' \<notin> set (hex_number n)" "CHR ''.'' \<notin> set (hex_number n)" "CHR ''%'' \<notin> set (hex_number n)"
  using hex_number_digits hex_char_plain by metis+

lemma hex_number_not_Nil [simp]: "hex_number n \<noteq> []"
  by (subst hex_number.simps) simp

lemma hex_group_digit:
  assumes "d < 16"
  shows "hex_group (hex_char d # s) off acc =
     (if off > 3 \<or> acc * 16 + d > 65535 then None else hex_group s (off + 1) (acc * 16 + d))"
  by (simp add: unhex_hex_char [OF assms])

lemma hex_group_end: "s = [] \<or> unhex (hd s) = None \<Longrightarrow> hex_group s off acc = Some (off, acc, s)"
  by (cases s) auto

lemma hex_group_number:
  assumes "g < 65536" and "s = [] \<or> unhex (hd s) = None"
  shows "\<exists>off > 0. hex_group (hex_number g @ s) 0 0 = Some (off, g, s)"
proof -
  have e: "hex_group s off acc = Some (off, acc, s)" for off acc using assms(2) by (rule hex_group_end)
  have d: "n mod 16 < 16" "(n div 16) * 16 + n mod 16 = n" for n :: nat by auto
  have b: "g div 16 < 4096" "g div 16 div 16 < 256" "g div 16 div 16 div 16 < 16" using assms(1) by auto
  consider "g < 16" | "16 \<le> g" "g div 16 < 16" | "16 \<le> g" "16 \<le> g div 16" "g div 16 div 16 < 16"
    | "16 \<le> g" "16 \<le> g div 16" "16 \<le> g div 16 div 16"
    by linarith
  then show ?thesis
  proof cases
    case 1
    then show ?thesis by (subst hex_number.simps) (simp add: hex_group_digit e del: hex_group.simps)
  next
    case 2
    then have "hex_number g = [hex_char (g div 16), hex_char (g mod 16)]"
      by (subst hex_number.simps, subst hex_number.simps) simp
    then show ?thesis using 2 assms(1) by (simp add: hex_group_digit e d del: hex_group.simps)
  next
    case 3
    then have "hex_number g = [hex_char (g div 16 div 16), hex_char (g div 16 mod 16), hex_char (g mod 16)]"
      by (subst hex_number.simps, subst hex_number.simps, subst hex_number.simps) simp
    then show ?thesis using 3 assms(1) b by (simp only: append_Cons append_Nil) (simp add: hex_group_digit e d del: hex_group.simps div_mult2_eq [symmetric])
  next
    case 4
    then have "hex_number g = [hex_char (g div 16 div 16 div 16), hex_char (g div 16 div 16 mod 16),
        hex_char (g div 16 mod 16), hex_char (g mod 16)]"
      using b by (subst hex_number.simps, subst hex_number.simps, subst hex_number.simps, subst hex_number.simps) simp
    then show ?thesis using 4 assms(1) b by (simp only: append_Cons append_Nil) (simp add: hex_group_digit e d del: hex_group.simps)
  qed
qed

lemma hd_hex_number: "hd (hex_number g @ s) \<noteq> CHR '':''"
  using hex_number_plain(1) [of g] hd_in_set [of "hex_number g"] by (metis hd_append2 hex_number_not_Nil)

lemmas hd_hex_number_only = hd_hex_number [where s = "[]", simplified]

lemma length_group_bytes [simp]: "length (group_bytes g) = 2"
  by (simp add: group_bytes_def)

text \<open>The reader's loop on one number, and what follows it.\<close>

lemma v6_loop_number:
  assumes "g < 65536" "length ip < 16" "rest = [] \<or> hd rest = CHR '':''"
  shows "v6_loop (hex_number g @ rest) ip el =
     (if rest = [] then Some (ip @ group_bytes g, el, [])
      else if tl rest = [] then None
      else if hd (tl rest) = CHR '':'' then
        (if el \<noteq> None then None
         else if tl (tl rest) = [] then Some (ip @ group_bytes g, Some (length ip + 2), [])
         else v6_loop (tl (tl rest)) (ip @ group_bytes g) (Some (length ip + 2)))
      else v6_loop (tl rest) (ip @ group_bytes g) el)"
proof -
  have "unhex (CHR '':'') = None" by (simp add: unhex_def)
  with assms(3) have "rest = [] \<or> unhex (hd rest) = None" by auto
  from hex_group_number [OF assms(1) this]
  obtain off where h: "off > 0" "hex_group (hex_number g @ rest) 0 0 = Some (off, g, rest)" by blast
  have "hd rest \<noteq> CHR ''.''" if "rest \<noteq> []" using assms(3) that by auto
  then show ?thesis
    using assms h by (subst v6_loop.simps) auto
qed

definition bytes_of :: "nat list \<Rightarrow> byte list" where
  "bytes_of gs = concat (map group_bytes gs)"

lemma bytes_of_simps [simp]: "bytes_of [] = []" "bytes_of (g # gs) = group_bytes g @ bytes_of gs"
  "bytes_of (gs @ hs) = bytes_of gs @ bytes_of hs"
  by (simp_all add: bytes_of_def)

lemma length_bytes_of [simp]: "length (bytes_of gs) = 2 * length gs"
  by (induction gs) simp_all

lemma joined_not_Nil: "gs \<noteq> [] \<Longrightarrow> joined '':'' (map hex_number gs) \<noteq> []"
  by (cases gs rule: remdups_adj.cases) auto

lemma hd_joined: "gs \<noteq> [] \<Longrightarrow> hd (joined '':'' (map hex_number gs) @ s) \<noteq> CHR '':''"
  by (cases gs rule: remdups_adj.cases) (simp_all add: hd_hex_number hd_hex_number_only)

lemma v6_loop_joined:
  assumes "gs \<noteq> []" "\<forall>g \<in> set gs. g < 65536" "length ip + 2 * length gs \<le> 16"
  shows "v6_loop (joined '':'' (map hex_number gs)) ip el = Some (ip @ bytes_of gs, el, [])"
  using assms
proof (induction gs arbitrary: ip rule: induct_list012)
  case (2 g)
  then show ?case using v6_loop_number [of g ip "[]" el] by simp
next
  case (3 g h gs)
  have "v6_loop (joined '':'' (map hex_number (g # h # gs))) ip el =
      v6_loop (joined '':'' (map hex_number (h # gs))) (ip @ group_bytes g) el"
    using v6_loop_number [of g ip "'':'' @ joined '':'' (map hex_number (h # gs))" el] 3(4,5)
      hd_joined [of "h # gs" "[]"] joined_not_Nil [of "h # gs"] by simp
  then show ?case using 3(2) [of "ip @ group_bytes g"] 3(4,5) by simp
qed simp

lemma v6_loop_joined_gap:
  assumes "gs \<noteq> []" "\<forall>g \<in> set gs. g < 65536" "length ip + 2 * length gs \<le> 16"
  shows "v6_loop (joined '':'' (map hex_number gs) @ ''::'' @ s) ip None =
     (if s = [] then Some (ip @ bytes_of gs, Some (length ip + 2 * length gs), [])
      else v6_loop s (ip @ bytes_of gs) (Some (length ip + 2 * length gs)))"
  using assms
proof (induction gs arbitrary: ip rule: induct_list012)
  case (2 g)
  then show ?case using v6_loop_number [of g ip "''::'' @ s" None] by simp
next
  case (3 g h gs)
  have "v6_loop (joined '':'' (map hex_number (g # h # gs)) @ ''::'' @ s) ip None =
      v6_loop (joined '':'' (map hex_number (h # gs)) @ ''::'' @ s) (ip @ group_bytes g) None"
    using v6_loop_number [of g ip "'':'' @ joined '':'' (map hex_number (h # gs)) @ ''::'' @ s" None] 3(4,5)
      hd_joined [of "h # gs" "''::'' @ s"] joined_not_Nil [of "h # gs"] by simp
  then show ?case using 3(2) [of "ip @ group_bytes g"] 3(4,5) by simp
qed simp

lemma zero_run_valid:
  assumes "gs = drop i all" "fst e \<le> snd e" "snd e \<le> length all" "\<forall>j. fst e \<le> j \<longrightarrow> j < snd e \<longrightarrow> all ! j = 0"
  shows "fst (zero_run i e gs) \<le> snd (zero_run i e gs) \<and> snd (zero_run i e gs) \<le> length all \<and>
     (\<forall>j. fst (zero_run i e gs) \<le> j \<longrightarrow> j < snd (zero_run i e gs) \<longrightarrow> all ! j = 0)"
  using assms
proof (induction i e gs rule: zero_run.induct)
  case (1 i e gs)
  show ?case
  proof (cases "gs = []")
    case True
    then show ?thesis using 1(4-6) by (simp add: zero_run.simps [of i e "[]"])
  next
    case False
    define n where "n = length (takeWhile (\<lambda>g. g = 0) gs)"
    have n: "i + n \<le> length all" "all ! (i + j) = 0" if "j < n" for j
    proof -
      have l: "n \<le> length gs" by (simp add: n_def length_takeWhile_le)
      have "length gs = length all - i" "i < length all" using 1(3) False by auto
      with l show "i + n \<le> length all" by simp
      have "gs ! j = 0" using that nth_mem [of j "takeWhile (\<lambda>g. g = 0) gs"]
        by (auto simp: n_def takeWhile_nth dest: set_takeWhileD)
      moreover have "gs ! j = all ! (i + j)" using 1(3) \<open>i < length all\<close> by simp
      ultimately show "all ! (i + j) = 0" by simp
    qed
    have nlen: "i + n \<le> length all"
    proof -
      have "n \<le> length gs" by (simp add: n_def length_takeWhile_le)
      then show ?thesis using 1(3) False by (cases "i < length all") auto
    qed
    show ?thesis
    proof (cases "n > snd e - fst e")
      case True
      have z: "zero_run i e gs = zero_run (i + n + 1) (i, i + n) (drop (n + 1) gs)"
        using False True by (subst zero_run.simps) (simp add: n_def Let_def)
      have d: "drop (n + 1) gs = drop (i + n + 1) all" using 1(3) by (simp add: ac_simps)
      have "all ! j = 0" if "i \<le> j" "j < i + n" for j using n(2) [of "j - i"] that by simp
      then show ?thesis unfolding z
        by (intro 1(1) [OF False n_def True d]) (use nlen in auto)
    next
      case small: False
      have z: "zero_run i e gs = zero_run (i + 1) e (tl gs)"
        using False small by (subst zero_run.simps) (simp add: n_def Let_def)
      have d: "tl gs = drop (i + 1) all" using 1(3) by (simp add: drop_Suc tl_drop)
      show ?thesis unfolding z by (rule 1(2) [OF False n_def small d 1(4-6)])
    qed
  qed
qed

lemma word_of_nat_byte: "word_of_nat (unat (b :: byte)) = b"
  by simp

lemma group_bytes_pair: "group_bytes (unat a * 256 + unat b) = [a, b]"
proof -
  have "unat b < 256" using unsigned_less [of b] by simp
  then have "(unat a * 256 + unat b) div 256 = unat a" "(unat a * 256 + unat b) mod 256 = unat b" by auto
  then show ?thesis by (simp add: group_bytes_def)
qed

lemma bytes_of_groups: "even (length ip) \<Longrightarrow> bytes_of (groups_of ip) = ip"
  by (induction ip rule: groups_of.induct) (simp_all add: group_bytes_pair)

lemma length_groups_of: "length (groups_of ip) = length ip div 2"
  by (induction ip rule: groups_of.induct) simp_all

lemma groups_of_less: "g \<in> set (groups_of ip) \<Longrightarrow> g < 65536"
proof (induction ip rule: groups_of.induct)
  case (1 a b rest)
  have "unat a < 256" "unat b < 256" using unsigned_less [of a] unsigned_less [of b] by simp_all
  then have "unat a * 256 + unat b < 65536" by auto
  with 1 show ?case by auto
qed simp_all

lemma bytes_of_zeros: "bytes_of (replicate n 0) = replicate (2 * n) 0"
  by (induction n) (simp_all add: group_bytes_def)

lemma parse_v6_groups:
  assumes "length gs = 8" "\<forall>g \<in> set gs. g < 65536"
  shows "parse_v6 (joined '':'' (map hex_number gs)) = Some (bytes_of gs)"
proof -
  have ne: "gs \<noteq> []" using assms(1) by auto
  then have "\<not> HasPrefix (joined '':'' (map hex_number gs)) ''::''"
    using hd_joined [OF ne, of "[]"] by (auto simp: HasPrefix_iff)
  then show ?thesis
    using v6_loop_joined [OF ne assms(2), of "[]" None] assms(1) by (simp add: parse_v6_def expand_def)
qed

text \<open>Eight groups with a gap of at least two zeros.\<close>

lemma parse_v6_gap:
  assumes "length front + n + length rear = 8" "n > 0" "\<forall>g \<in> set (front @ rear). g < 65536"
  shows "parse_v6 (joined '':'' (map hex_number front) @ ''::'' @ joined '':'' (map hex_number rear)) =
     Some (bytes_of (front @ replicate n 0 @ rear))"
proof (cases "front = []")
  case True
  show ?thesis
  proof (cases "rear = []")
    case True
    with \<open>front = []\<close> assms(1) show ?thesis by (simp add: parse_v6_def bytes_of_zeros HasPrefix_def)
  next
    case False
    have "16 - length rear * 2 = 2 * n" using assms(1) \<open>front = []\<close> by simp
    with False \<open>front = []\<close> assms show ?thesis
      using v6_loop_joined [OF False, of "[]" "Some 0"] joined_not_Nil [OF False]
      by (simp add: parse_v6_def expand_def HasPrefix_def bytes_of_zeros mult.commute)
  qed
next
  case False
  let ?u = "joined '':'' (map hex_number rear)"
  have "\<not> HasPrefix (joined '':'' (map hex_number front) @ ''::'' @ ?u) ''::''"
    using hd_joined [OF False, of "''::'' @ ?u"] by (auto simp: HasPrefix_iff)
  moreover have "v6_loop (joined '':'' (map hex_number front) @ ''::'' @ ?u) [] None =
      Some (bytes_of front @ bytes_of rear, Some (2 * length front), [])"
  proof (cases "rear = []")
    case True
    then show ?thesis using v6_loop_joined_gap [OF False, of "[]" "?u"] assms by simp
  next
    case b: False
    then show ?thesis
      using v6_loop_joined_gap [OF False, of "[]" "?u"] joined_not_Nil [OF b]
        v6_loop_joined [OF b, of "bytes_of front" "Some (2 * length front)"] assms by simp
  qed
  moreover have "16 - 2 * (length front + length rear) = 2 * n" "length front + length rear < 8"
    using assms(1,2) by auto
  ultimately show ?thesis
    by (simp add: parse_v6_def expand_def bytes_of_zeros algebra_simps)
qed

lemma find_first:
  assumes "CHR ''.'' \<notin> set s" "CHR '':'' \<in> set s"
  shows "find (\<lambda>c. c = CHR ''.'' \<or> c = CHR '':'') s = Some (CHR '':'')"
  using assms by (induction s) auto

lemma set_joined: "c \<in> set (joined sep xs) \<Longrightarrow> c \<in> set sep \<or> (\<exists>x \<in> set xs. c \<in> set x)"
  by (induction sep xs rule: joined.induct) auto

lemma plain_joined:
  "CHR ''.'' \<notin> set (joined '':'' (map hex_number gs))" "CHR ''%'' \<notin> set (joined '':'' (map hex_number gs))"
  using set_joined [of _ "'':''" "map hex_number gs"] hex_number_plain by fastforce+

lemma ParseIP_v6:
  assumes "length ip = 16" "take 12 ip \<noteq> v4_in_v6"
  shows "ParseIP (IP_String ip) = Some ip"
proof -
  define gs where "gs = groups_of ip"
  define e where "e = zero_run 0 (0, 0) gs"
  have gs: "length gs = 8" "\<forall>g \<in> set gs. g < 65536" "bytes_of gs = ip"
    using assms(1) by (auto simp: gs_def length_groups_of groups_of_less bytes_of_groups)
  have e: "fst e \<le> snd e" "snd e \<le> 8" "\<forall>j. fst e \<le> j \<longrightarrow> j < snd e \<longrightarrow> gs ! j = 0"
    using zero_run_valid [of gs 0 gs "(0, 0)"] gs(1) by (auto simp: e_def)
  show ?thesis
  proof (cases "snd e - fst e < 2")
    case True
    then have s: "IP_String ip = joined '':'' (map hex_number gs)"
      using assms(2) by (simp add: IP_String_def Let_def gs_def [symmetric] e_def [symmetric])
    obtain g h rest where "gs = g # h # rest" using gs(1) by (auto simp: numeral_eq_Suc length_Suc_conv)
    then have "CHR '':'' \<in> set (joined '':'' (map hex_number gs))" by simp
    then show ?thesis
      unfolding s ParseIP_def using plain_joined [of gs] parse_v6_groups [OF gs(1,2)]
      by (simp add: find_first gs(3))
  next
    case False
    define front where "front = take (fst e) gs"
    define rear where "rear = drop (snd e) gs"
    let ?s = "joined '':'' (map hex_number front) @ ''::'' @ joined '':'' (map hex_number rear)"
    have s: "IP_String ip = ?s"
      using assms(2) False
      by (simp add: IP_String_def Let_def gs_def [symmetric] e_def [symmetric] front_def rear_def)
    have "take (snd e - fst e) (drop (fst e) gs) = replicate (snd e - fst e) 0"
      using e gs(1) by (intro nth_equalityI) auto
    then have split: "gs = front @ replicate (snd e - fst e) 0 @ rear"
      using e(1) by (metis append_take_drop_id rear_def drop_drop front_def le_add_diff_inverse2)
    have "parse_v6 ?s = Some (bytes_of (front @ replicate (snd e - fst e) 0 @ rear))"
    proof (rule parse_v6_gap)
      show "length front + (snd e - fst e) + length rear = 8" using e gs(1) by (simp add: front_def rear_def)
      show "\<forall>g \<in> set (front @ rear). g < 65536"
        using gs(2) by (auto simp: front_def rear_def dest: in_set_takeD in_set_dropD)
    qed (use False in simp)
    moreover have "find (\<lambda>c. c = CHR ''.'' \<or> c = CHR '':'') ?s = Some (CHR '':'')"
      by (rule find_first) (use plain_joined in auto)
    moreover have "CHR ''%'' \<notin> set ?s" using plain_joined by auto
    ultimately show ?thesis unfolding s ParseIP_def using gs(3) split by simp
  qed
qed

lemma char_digit_dot: "char_digit (CHR ''.'') = None"
  by (simp add: char_digit_def)

lemma v4_loop_number:
  assumes "n < 256" "rest = [] \<or> hd rest = CHR ''.''"
  shows "\<exists>digits > 0. v4_loop (FormatUint n @ rest) at_dot 0 0 ip = v4_loop rest False n digits ip"
proof -
  have d: "v4_loop (digit_char k # s) at_dot v q ip =
      (if q = 1 \<and> v = 0 then None else if v * 10 + k > 255 then None
       else v4_loop s False (v * 10 + k) (q + 1) ip)" if "k < 10" for k s at_dot v q
    using that by (simp add: char_digit_char)
  consider "n < 10" | "10 \<le> n" "n < 100" | "100 \<le> n" by linarith
  then show ?thesis
  proof cases
    case 1
    then show ?thesis
      using assms(1) by (intro exI [of _ 1]) (simp add: FormatUint.simps [of n] d del: v4_loop.simps)
  next
    case 2
    then have "FormatUint n = [digit_char (n div 10), digit_char (n mod 10)]"
      by (simp add: FormatUint.simps [of n] FormatUint.simps [of "n div 10"])
    moreover have "n div 10 < 10" "n div 10 \<noteq> 0" "n div 10 * 10 + n mod 10 = n" using 2 by auto
    ultimately show ?thesis using assms(1) by (intro exI [of _ "Suc 1"]) (simp add: d del: v4_loop.simps)
  next
    case 3
    have k: "10 \<le> n div 10" "n div 10 < 26" using 3 assms(1) by linarith+
    have t: "10 \<le> n div 10" "n div 10 div 10 < 10" "n div 10 div 10 \<noteq> 0" "n div 10 < 26"
      using k by linarith+
    then have "FormatUint n = [digit_char (n div 10 div 10), digit_char (n div 10 mod 10), digit_char (n mod 10)]"
      by (simp only: FormatUint.simps [of n] FormatUint.simps [of "n div 10"] FormatUint.simps [of "n div 10 div 10"]) simp
    moreover have "n div 10 div 10 * 10 + n div 10 mod 10 = n div 10" "n div 10 * 10 + n mod 10 = n"
      by (rule div_mult_mod_eq)+
    ultimately show ?thesis
      using assms(1) t by (intro exI [of _ "Suc (Suc 1)"]) (simp add: d del: v4_loop.simps)
  qed
qed

lemma v4_loop_field:
  assumes "n < 256" "length ip < 3" "rest \<noteq> []"
  shows "v4_loop (FormatUint n @ CHR ''.'' # rest) at_dot 0 0 ip = v4_loop rest True 0 0 (ip @ [word_of_nat n])"
  using v4_loop_number [OF assms(1), of "CHR ''.'' # rest" at_dot ip] assms(2,3) by (auto simp: char_digit_dot)

lemma v4_loop_last:
  assumes "n < 256" "length ip = 3"
  shows "v4_loop (FormatUint n) at_dot 0 0 ip = Some (ip @ [word_of_nat n])"
  using v4_loop_number [OF assms(1), of "[]" at_dot ip] assms(2) by auto

lemma parse_v4_printed:
  assumes "length b = 4"
  shows "parse_v4 (joined ''.'' (map (\<lambda>b. FormatUint (unat b)) b)) = Some b"
proof -
  obtain w x y z where b: "b = [w, x, y, z]" using assms by (auto simp: numeral_eq_Suc length_Suc_conv)
  have u: "unat v < 256" for v :: byte using unsigned_less [of v] by simp
  show ?thesis by (simp add: b parse_v4_def v4_loop_field v4_loop_last u)
qed

lemma FormatUint_plain:
  "CHR ''.'' \<notin> set (FormatUint n)" "CHR '':'' \<notin> set (FormatUint n)" "CHR ''%'' \<notin> set (FormatUint n)"
  using FormatUint_digits [of _ n] by fastforce+

lemma ParseIP_v4:
  assumes "length ip = 16" "take 12 ip = v4_in_v6"
  shows "ParseIP (IP_String ip) = Some ip"
proof -
  let ?s = "joined ''.'' (map (\<lambda>b. FormatUint (unat b)) (drop 12 ip))"
  have l: "length (drop 12 ip) = 4" using assms(1) by simp
  then obtain w x rest where "drop 12 ip = w # x # rest" by (cases "drop 12 ip" rule: remdups_adj.cases) auto
  then have dot: "CHR ''.'' \<in> set ?s" by simp
  have other: "CHR '':'' \<notin> set ?s" "CHR ''%'' \<notin> set ?s"
    using set_joined [of _ "''.''" "map (\<lambda>b. FormatUint (unat b)) (drop 12 ip)"] FormatUint_plain by fastforce+
  have "find (\<lambda>c. c = CHR ''.'' \<or> c = CHR '':'') s = Some (CHR ''.'')"
    if "CHR ''.'' \<in> set s" "CHR '':'' \<notin> set s" for s
    using that by (induction s) auto
  then have "ParseIP ?s = Some (v4_in_v6 @ drop 12 ip)"
    using parse_v4_printed [OF l] dot other by (simp add: ParseIP_def)
  then show ?thesis using assms(2) by (simp add: IP_String_def) (metis append_take_drop_id)
qed

text \<open>Printing an address and parsing it again gives the same address, whatever run of zeros it has.\<close>

lemma ParseIP_IP_String: "length ip = 16 \<Longrightarrow> ParseIP (IP_String ip) = Some ip"
  using ParseIP_v4 ParseIP_v6 by blast

lemma v4_loop_length: "v4_loop s at_dot val digits ip = Some r \<Longrightarrow> length ip \<le> 3 \<Longrightarrow> length r = 4"
proof (induction s at_dot val digits ip rule: v4_loop.induct)
  case (1 at_dot val digits ip)
  then show ?case by (auto split: if_splits)
next
  case (2 c cs at_dot val digits ip)
  then show ?case by (cases "char_digit c") (auto split: if_splits)
qed

lemma v6_loop_length:
  "v6_loop s ip el = Some (ip', el', s') \<Longrightarrow> even (length ip) \<Longrightarrow> length ip \<le> 16 \<Longrightarrow> length ip' \<le> 16"
proof (induction "16 - length ip" arbitrary: s ip el rule: less_induct)
  case less
  show ?case
  proof (cases "length ip \<ge> 16")
    case True
    then show ?thesis using less(2,4) by (simp add: v6_loop.simps [of s])
  next
    case False
    then have l: "length ip + 2 \<le> 16" using less(3) by presburger
    have ih: "length ip' \<le> 16" if "v6_loop t (ip @ group_bytes acc) l = Some (ip', el', s')" for t acc l
      by (rule less(1) [OF _ that]) (use l less(3) in \<open>auto simp: group_bytes_def\<close>)
    obtain off acc rest where h: "hex_group s 0 0 = Some (off, acc, rest)"
      using less(2) False by (subst (asm) v6_loop.simps) (auto split: option.splits)
    have e: "v6_loop s ip el = (if off = 0 then None
          else if rest \<noteq> [] \<and> hd rest = CHR ''.'' then
            (if el = None \<and> length ip \<noteq> 12 \<or> length ip + 4 > 16 then None
             else map_option (\<lambda>b. (ip @ b, el, [])) (parse_v4 s))
          else if rest = [] then Some (ip @ group_bytes acc, el, [])
          else if hd rest \<noteq> CHR '':'' \<or> tl rest = [] then None
          else if hd (tl rest) = CHR '':'' then
            (if el \<noteq> None then None
             else if tl (tl rest) = [] then Some (ip @ group_bytes acc, Some (length ip + 2), [])
             else v6_loop (tl (tl rest)) (ip @ group_bytes acc) (Some (length ip + 2)))
          else v6_loop (tl rest) (ip @ group_bytes acc) el)"
      using False h by (subst v6_loop.simps) simp
    have v4: "length r = 4" if "parse_v4 s = Some r" for r
      using that v4_loop_length by (fastforce simp: parse_v4_def)
    have g: "length (ip @ group_bytes acc) \<le> 16" using l by (simp add: group_bytes_def)
    show ?thesis using less(2) g ih unfolding e by (auto dest: v4 split: if_splits)
  qed
qed

lemma ParseIP_length: "ParseIP s = Some ip \<Longrightarrow> length ip = 16"
proof -
  have e: "length r = 16" if "expand (v6_loop s [] el) = Some r" for s el r
    using that by (auto simp: expand_def split: option.splits if_splits dest!: v6_loop_length)
  assume "ParseIP s = Some ip"
  then show ?thesis
    by (auto simp: ParseIP_def v4_in_v6_def parse_v4_def parse_v6_def dest: v4_loop_length e
        split: if_splits option.splits)
qed

end
