(* ===== verification/Secrets.thy ===== *)
theory Secrets
  imports Text Manager_Inv
begin

text \<open>
  Detection of the relay's secrets in a request (\<open>internal/server/secrets.go\<close>). A request that
  carries a token the relay issued or a capability of a profile, anywhere in its metadata, is
  kept from the public site.
\<close>

subsection \<open>The request\<close>

text \<open>
  What the server reads of a request. The parts of the URL are what \<open>net/url\<close> made of it and
  are independent of each other here. The header is a map from canonical names to the values
  in order. A request of a server always has a body; \<open>Broken\<close> is one whose reading fails.
\<close>

datatype body = Bytes "byte list" | Broken

record request =
  Method :: string
  Host :: string
  URL_Path :: string
  EscapedPath :: string
  RawQuery :: string
  ForceQuery :: bool
  URL_String :: string
  Header :: "(string, string list) assoc"
  RemoteAddr :: string
  ContentLength :: int
  Body :: body

definition char_upper :: "char \<Rightarrow> char" where
  "char_upper c = (let n = of_char c :: nat in if 97 \<le> n \<and> n \<le> 122 then char_of (n - 32) else c)"

definition char_lower :: "char \<Rightarrow> char" where
  "char_lower c = (let n = of_char c :: nat in if 65 \<le> n \<and> n \<le> 90 then char_of (n + 32) else c)"

text \<open>\<open>CanonicalMIMEHeaderKey\<close> on a name that is a valid token, as all constants of the code are.\<close>

fun canonical_from :: "bool \<Rightarrow> string \<Rightarrow> string" where
  "canonical_from up [] = []"
| "canonical_from up (c # cs) =
     (if up then char_upper c else char_lower c) # canonical_from (c = CHR ''-'') cs"

definition Header_Values :: "request \<Rightarrow> string \<Rightarrow> string list" where
  "Header_Values r name =
     (case map_of (Header r) (canonical_from True name) of None \<Rightarrow> [] | Some vs \<Rightarrow> vs)"

definition Header_Get :: "request \<Rightarrow> string \<Rightarrow> string" where
  "Header_Get r name = (case Header_Values r name of [] \<Rightarrow> [] | v # _ \<Rightarrow> v)"

subsection \<open>Scanning a text\<close>

definition base64Byte :: "char \<Rightarrow> bool" where
  "base64Byte c \<longleftrightarrow> (let n = of_char c :: nat in
     97 \<le> n \<and> n \<le> 122 \<or> 65 \<le> n \<and> n \<le> 90 \<or> 48 \<le> n \<and> n \<le> 57 \<or> n = 45 \<or> n = 95)"

text \<open>\<open>url.PathUnescape\<close> of a percent sign and two characters.\<close>

definition PathUnescape3 :: "char \<Rightarrow> char \<Rightarrow> char option" where
  "PathUnescape3 x y =
     (case (unhex x, unhex y) of (Some a, Some b) \<Rightarrow> Some (char_of (a * 16 + b)) | _ \<Rightarrow> None)"

fun decode_escapes :: "string \<Rightarrow> string" where
  "decode_escapes (c # x # y # rest) =
     (if c = CHR ''%'' then
        (case PathUnescape3 x y of
           Some v \<Rightarrow> v # decode_escapes rest
         | None \<Rightarrow> c # decode_escapes (x # y # rest))
      else c # decode_escapes (x # y # rest))"
| "decode_escapes (c # rest) = c # decode_escapes rest"
| "decode_escapes [] = []"

text \<open>The windows of 43 characters from \<open>start\<close> that end at \<open>stop\<close> or before.\<close>

function windows :: "(string \<Rightarrow> bool) \<Rightarrow> string \<Rightarrow> nat \<Rightarrow> nat \<Rightarrow> bool" where
  "windows hit str start stop =
     (if start + 43 \<le> stop then hit (take 43 (drop start str)) \<or> windows hit str (start + 1) stop
      else False)"
  by pat_completeness auto
termination by (relation "measure (\<lambda>(hit, str, start, stop). stop - start)") auto

function scan :: "(string \<Rightarrow> bool) \<Rightarrow> string \<Rightarrow> nat \<Rightarrow> nat \<Rightarrow> bool" where
  "scan hit str start i =
     (if i > length str then False
      else if i < length str \<and> base64Byte (str ! i) then scan hit str start (i + 1)
      else windows hit str start i \<or> scan hit str (i + 1) (i + 1))"
  by pat_completeness auto
termination by (relation "measure (\<lambda>(hit, str, start, i). Suc (length str) - i)") auto

declare windows.simps [simp del] scan.simps [simp del]

definition secret_candidate :: "'a manager_scheme \<Rightarrow> string \<Rightarrow> bool" where
  "secret_candidate m candidate \<longleftrightarrow>
     ClassifyToken (tokenKey m) candidate \<noteq> TokenExternal \<or>
     (case DecodeString candidate of None \<Rightarrow> False | Some v \<Rightarrow> MatchCapability v m \<noteq> None)"

definition containsSecret :: "'a manager_scheme \<Rightarrow> string \<Rightarrow> bool" where
  "containsSecret m str =
     (let str = (if CHR ''%'' \<in> set str then decode_escapes str else str) in
      scan (secret_candidate m) str 0 0)"

subsection \<open>Scanning a request\<close>

definition legacyCarrierCredential :: "request \<Rightarrow> bool" where
  "legacyCarrierCredential r \<longleftrightarrow>
     list_ex (\<lambda>v. bearerToken v \<noteq> None) (Header_Values r ''Authorization'') \<or>
     list_ex (\<lambda>v. list_ex (\<lambda>protocol.
        (case webSocketCredentials (TrimSpace protocol) of
           None \<Rightarrow> False
         | Some (token, _, _) \<Rightarrow> bearerToken (''Bearer '' @ token) \<noteq> None)) (Split (CHR '','') v))
       (Header_Values r ''Sec-WebSocket-Protocol'')"

definition hasInternalSecret :: "bool \<Rightarrow> 'a manager_scheme \<Rightarrow> request \<Rightarrow> bool" where
  "hasInternalSecret legacyTokenDrain m r \<longleftrightarrow>
     legacyTokenDrain \<and> legacyCarrierCredential r \<or>
     containsSecret m (URL_String r) \<or> containsSecret m (Host r) \<or>
     list_ex (\<lambda>(name, vs). containsSecret m name \<or> list_ex (containsSecret m) vs) (Header r)"

text \<open>\<open>base64.RawURLEncoding.Strict()\<close>: as the lenient decoder, but the unused bits must be zero.\<close>

definition StrictDecode :: "string \<Rightarrow> byte list option" where
  "StrictDecode str =
     (case DecodeString str of
        None \<Rightarrow> None
      | Some v \<Rightarrow>
          if EncodeToString v = filter (\<lambda>c. c \<noteq> CHR 0x0A \<and> c \<noteq> CHR 0x0D) str then Some v else None)"

definition bridgeProfile :: "string \<Rightarrow> 'a manager_scheme \<Rightarrow> request \<Rightarrow> Profile option" where
  "bridgeProfile base m r =
     (if Method r \<noteq> ''GET'' \<or> EscapedPath r \<noteq> base \<or> length (RawQuery r) \<noteq> length ''bridge='' + 43 \<or>
         \<not> HasPrefix (RawQuery r) ''bridge='' then None
      else case StrictDecode (TrimPrefix (RawQuery r) ''bridge='') of
        None \<Rightarrow> None
      | Some v \<Rightarrow> MatchCapability v m)"

subsection \<open>What the scan finds\<close>

text \<open>The specification of the scan: a window of 43 base64 characters anywhere in the text.\<close>

definition found :: "(string \<Rightarrow> bool) \<Rightarrow> string \<Rightarrow> nat \<Rightarrow> bool" where
  "found hit str start \<longleftrightarrow>
     (\<exists>k \<ge> start. k + 43 \<le> length str \<and> (\<forall>j < 43. base64Byte (str ! (k + j))) \<and>
        hit (take 43 (drop k str)))"

lemma windows_iff:
  "windows hit str start stop \<longleftrightarrow> (\<exists>k \<ge> start. k + 43 \<le> stop \<and> hit (take 43 (drop k str)))"
proof (induction hit str start stop rule: windows.induct)
  case (1 hit str start stop)
  show ?case
  proof (cases "start + 43 \<le> stop")
    case True
    have "windows hit str start stop \<longleftrightarrow>
        hit (take 43 (drop start str)) \<or> windows hit str (start + 1) stop"
      using True by (subst windows.simps) simp
    also have "\<dots> \<longleftrightarrow> (\<exists>k \<ge> start. k + 43 \<le> stop \<and> hit (take 43 (drop k str)))"
      unfolding 1 [OF True] using True by (metis Suc_eq_plus1 Suc_leD le_antisym not_less_eq_eq order_refl)
    finally show ?thesis .
  next
    case False
    then show ?thesis by (subst windows.simps) auto
  qed
qed

lemma scan_found:
  assumes "i \<le> length str + 1" "start \<le> i" "\<forall>j. start \<le> j \<longrightarrow> j < i \<longrightarrow> base64Byte (str ! j)"
    "i = length str + 1 \<longrightarrow> start = i"
  shows "scan hit str start i \<longleftrightarrow> found hit str start"
  using assms
proof (induction hit str start i rule: scan.induct)
  case (1 hit str start i)
  show ?case
  proof (cases "i > length str")
    case True
    with 1(3-6) show ?thesis by (subst scan.simps) (auto simp: found_def)
  next
    case in_text: False
    show ?thesis
    proof (cases "i < length str \<and> base64Byte (str ! i)")
      case True
      then have "scan hit str start i = scan hit str start (i + 1)"
        using in_text by (subst scan.simps) simp
      moreover have "scan hit str start (i + 1) = found hit str start"
        by (rule 1(1)) (use 1(3-6) True in \<open>auto simp: less_Suc_eq\<close>)
      ultimately show ?thesis by simp
    next
      case False
      have "scan hit str start i = (windows hit str start i \<or> scan hit str (i + 1) (i + 1))"
        using in_text False by (subst scan.simps) auto
      moreover have "scan hit str (i + 1) (i + 1) = found hit str (i + 1)"
        by (rule 1(2)) (use in_text False in auto)
      moreover have "found hit str start \<longleftrightarrow> windows hit str start i \<or> found hit str (i + 1)"
      proof
        assume "found hit str start"
        then obtain k where k: "start \<le> k" "k + 43 \<le> length str" "\<forall>j < 43. base64Byte (str ! (k + j))"
          "hit (take 43 (drop k str))" by (auto simp: found_def)
        have "\<not> (k \<le> i \<and> i < k + 43)"
        proof
          assume c: "k \<le> i \<and> i < k + 43"
          then have "base64Byte (str ! (k + (i - k)))" using k(3) by (metis add_less_imp_less_left le_add_diff_inverse)
          with c k(2) False show False by auto
        qed
        then consider "k + 43 \<le> i" | "i + 1 \<le> k" by linarith
        then show "windows hit str start i \<or> found hit str (i + 1)"
          by cases (use k in \<open>auto simp: windows_iff found_def\<close>)
      next
        assume "windows hit str start i \<or> found hit str (i + 1)"
        then show "found hit str start"
        proof
          assume "windows hit str start i"
          then obtain k where k: "start \<le> k" "k + 43 \<le> i" "hit (take 43 (drop k str))"
            by (auto simp: windows_iff)
          then show ?thesis using 1(5) in_text by (auto simp: found_def intro!: exI [of _ k])
        next
          assume "found hit str (i + 1)"
          then obtain k where k: "i + 1 \<le> k" "k + 43 \<le> length str"
            "\<forall>j < 43. base64Byte (str ! (k + j))" "hit (take 43 (drop k str))"
            by (auto simp: found_def)
          from k(1) 1(4) have "start \<le> k" by linarith
          with k(2-4) show ?thesis unfolding found_def by blast
        qed
      qed
      ultimately show ?thesis by simp
    qed
  qed
qed

lemma found_append:
  "found hit str 0 \<longleftrightarrow>
     (\<exists>a w b. str = a @ w @ b \<and> length w = 43 \<and> list_all base64Byte w \<and> hit w)"
proof
  assume "found hit str 0"
  then obtain k where k: "k + 43 \<le> length str" "\<forall>j < 43. base64Byte (str ! (k + j))"
    "hit (take 43 (drop k str))" by (auto simp: found_def)
  have "str = take k str @ take 43 (drop k str) @ drop 43 (drop k str)"
    by (simp only: append_take_drop_id)
  moreover have "length (take 43 (drop k str)) = 43" using k(1) by simp
  moreover have "list_all base64Byte (take 43 (drop k str))"
    using k(1,2) by (simp add: list_all_length)
  ultimately show "\<exists>a w b. str = a @ w @ b \<and> length w = 43 \<and> list_all base64Byte w \<and> hit w"
    using k(3) by blast
next
  assume "\<exists>a w b. str = a @ w @ b \<and> length w = 43 \<and> list_all base64Byte w \<and> hit w"
  then obtain a w b where w: "str = a @ w @ b" "length w = 43" "list_all base64Byte w" "hit w" by blast
  have "base64Byte (str ! (length a + j))" if "j < 43" for j
    using w(1-3) that by (simp add: list_all_length nth_append)
  then show "found hit str 0"
    unfolding found_def using w by (intro exI [of _ "length a"]) auto
qed

lemma scan_iff:
  "scan hit str 0 0 \<longleftrightarrow>
     (\<exists>a w b. str = a @ w @ b \<and> length w = 43 \<and> list_all base64Byte w \<and> hit w)"
  using scan_found [of 0 str 0 hit] by (simp add: found_append)

definition unescaped :: "string \<Rightarrow> string" where
  "unescaped str = (if CHR ''%'' \<in> set str then decode_escapes str else str)"

lemma containsSecret_iff:
  "containsSecret m str \<longleftrightarrow>
     (\<exists>a w b. unescaped str = a @ w @ b \<and> length w = 43 \<and> list_all base64Byte w \<and> secret_candidate m w)"
  by (simp add: containsSecret_def unescaped_def scan_iff)

text \<open>
  C34: the scan of a text, with its one pass and its two indices, misses nothing. It reports a
  secret exactly when, after the escapes are decoded, 43 consecutive characters of the base64
  alphabet somewhere in the text are a token the relay's key classifies or decode to the
  capability of a profile, whatever stands before and after them.
\<close>
theorem containsSecret_exact:
  "containsSecret m str \<longleftrightarrow>
     (\<exists>a w b. (if CHR ''%'' \<in> set str then decode_escapes str else str) = a @ w @ b \<and> length w = 43 \<and>
        list_all base64Byte w \<and>
        (ClassifyToken (tokenKey m) w \<in> {TokenBootstrap, TokenSession} \<or>
         (\<exists>v. DecodeString w = Some v \<and> MatchCapability v m \<noteq> None)))"
  unfolding containsSecret_iff unescaped_def secret_candidate_def
  by (intro iff_exI conj_cong refl) (auto split: option.splits intro: TokenClass.exhaust)

subsection \<open>Escapes\<close>

lemma decode_escapes_plain: "CHR ''%'' \<notin> set str \<Longrightarrow> decode_escapes str = str"
  by (induction str rule: decode_escapes.induct) auto

lemma unescaped_eq: "unescaped str = decode_escapes str"
  by (simp add: unescaped_def decode_escapes_plain)

lemma decode_escapes_Cons: "c \<noteq> CHR ''%'' \<Longrightarrow> decode_escapes (c # str) = c # decode_escapes str"
  by (cases str rule: decode_escapes.cases; cases "tl str") (auto split: list.splits)

text \<open>An escape that starts in a prefix ends in it when none of its last two characters is a percent sign.\<close>

lemma decode_escapes_append:
  assumes "CHR ''%'' \<notin> set (take 2 (rev a))"
  shows "decode_escapes (a @ b) = decode_escapes a @ decode_escapes b"
  using assms
proof (induction a rule: decode_escapes.induct)
  case (1 c x y rest)
  have sub: "set (take 2 (rev tail)) \<subseteq> set (take 2 (rev (front @ tail)))" for front tail :: string
    by auto
  have t: "CHR ''%'' \<notin> set (take 2 (rev rest))" "CHR ''%'' \<notin> set (take 2 (rev (x # y # rest)))"
    using sub [of rest "[c, x, y]"] sub [of "x # y # rest" "[c]"] 1(4) by auto
  show ?case using 1(1) [OF _ _ t(2)] 1(2) [OF _ _ t(1)] 1(3) [OF _ t(2)] by (auto split: option.splits)
qed (auto simp: decode_escapes_Cons)

subsection \<open>The relay's secrets\<close>

text \<open>
  The texts only the relay can have made: the tokens of either kind and the capabilities of the
  profiles. Nothing is said about a token being known still; provenance is enough.
\<close>

definition authentic :: "'a manager_scheme \<Rightarrow> string \<Rightarrow> bool" where
  "authentic m s \<longleftrightarrow>
     (\<exists>kind nonce h. kind \<noteq> TokenExternal \<and> length nonce = 16 \<and>
        newToken (tokenKey m) kind (Some nonce) = Some (s, h)) \<or>
     (\<exists>p \<in> set (config_profiles m). length (Capability p) = 32 \<and> s = EncodeToString (Capability p))"

lemma base64Byte_sextet_char: "n < 64 \<Longrightarrow> base64Byte (sextet_char n)"
  using char_sextet_char(1) [of n]
  by (auto simp: char_sextet_def code_sextet_def base64Byte_def Let_def split: if_splits)

lemma base64_EncodeToString: "list_all base64Byte (EncodeToString bytes)"
  using set_EncodeToString base64Byte_sextet_char by (fastforce simp: list_all_iff)

lemma MatchCapability_Some_iff:
  "MatchCapability v m \<noteq> None \<longleftrightarrow> length v = 32 \<and> v \<in> Capability ` set (config_profiles m)"
proof -
  have "fold (\<lambda>p matched. if Capability p = v then Some p else matched) ps start \<noteq> None \<longleftrightarrow>
      start \<noteq> None \<or> v \<in> Capability ` set ps" for ps and start :: "Profile option"
    by (induction ps arbitrary: start) auto
  then show ?thesis by (simp add: MatchCapability_def)
qed

lemma ClassifyToken_issued:
  assumes "kind \<noteq> TokenExternal" "length nonce = 16"
  shows "ClassifyToken key (EncodeToString (nonce @ tokenMAC key kind nonce)) \<noteq> TokenExternal"
  using assms by (cases kind) (simp_all add: ClassifyToken_def)

lemma authentic_candidate:
  assumes "authentic m s"
  shows "length s = 43" and "list_all base64Byte s" and "secret_candidate m s"
proof -
  from assms obtain bytes where b: "s = EncodeToString bytes" "length bytes = 32"
    by (auto simp: authentic_def newToken_def Let_def)
  show "length s = 43" using b by (simp add: length_EncodeToString)
  show "list_all base64Byte s" by (simp add: b base64_EncodeToString)
  from assms show "secret_candidate m s"
    unfolding authentic_def
  proof (elim disjE exE bexE conjE)
    fix kind nonce h
    assume "kind \<noteq> TokenExternal" "length nonce = 16" "newToken (tokenKey m) kind (Some nonce) = Some (s, h)"
    then show ?thesis
      using ClassifyToken_issued [of kind nonce "tokenKey m"] by (auto simp: secret_candidate_def newToken_def Let_def)
  next
    fix p assume p: "p \<in> set (config_profiles m)" "length (Capability p) = 32" "s = EncodeToString (Capability p)"
    then have "MatchCapability (Capability p) m \<noteq> None" unfolding MatchCapability_Some_iff by blast
    with p(3) show ?thesis by (auto simp: secret_candidate_def)
  qed
qed

lemma base64_no_percent: "list_all base64Byte s \<Longrightarrow> CHR ''%'' \<notin> set s"
  by (auto simp: list_all_iff base64Byte_def)

lemma authentic_found:
  assumes "authentic m s" and "CHR ''%'' \<notin> set (take 2 (rev before))"
  shows "containsSecret m (before @ s @ after)"
proof -
  note s = authentic_candidate [OF assms(1)]
  have "CHR ''%'' \<notin> set s" using s(2) by (rule base64_no_percent)
  then have "CHR ''%'' \<notin> set (take 2 (rev s))" by (auto dest: in_set_takeD)
  then have "decode_escapes (before @ s @ after) = decode_escapes before @ s @ decode_escapes after"
    using assms(2) \<open>CHR ''%'' \<notin> set s\<close> by (simp add: decode_escapes_append decode_escapes_plain)
  then show ?thesis unfolding containsSecret_iff unescaped_eq using s by blast
qed

text \<open>
  An authentic secret is found wherever it stands. A token the relay issued, expired or
  not, or the capability of a profile is detected in every text that contains it, whatever
  comes before and after it and with whatever malformed escapes, as long as no percent sign
  stands directly or one character before it.
\<close>
theorem authentic_secret_detected:
  assumes "authentic m s" and "CHR ''%'' \<notin> set (take 2 (rev before))"
  shows "containsSecret m (before @ s @ after)"
  using assms by (rule authentic_found)

definition keyed_manager :: manager where
  "keyed_manager = NewManager Default_Limits Default_Timeouts [] (replicate 32 7) 5"

definition keyed_token :: string where
  "keyed_token = EncodeToString (replicate 16 0 @ tokenMAC (replicate 32 7) TokenBootstrap (replicate 16 0))"

lemma keyed_key: "tokenKey keyed_manager = replicate 32 7"
  by (simp only: keyed_manager_def NewManager_def) (simp add: manager.defs ledger.defs new_ledger_def)

lemma keyed_token_head: "\<exists>rest. keyed_token = ''AA'' @ rest"
proof -
  have "map unat (replicate 16 0 @ tokenMAC (replicate 32 7) TokenBootstrap (replicate 16 0)) =
      0 # 0 # 0 # map unat (replicate 13 (0 :: byte) @ tokenMAC (replicate 32 7) TokenBootstrap (replicate 16 0))"
    by (simp add: numeral_eq_Suc)
  moreover have "char_of (65 :: nat) = CHR ''A''"
    by (simp add: eq_commute [of "char_of 65"] char_of_eq_iff)
  ultimately show ?thesis by (simp add: keyed_token_def EncodeToString_def sextet_char_def sextet_code_def)
qed

lemma keyed_authentic: "authentic keyed_manager keyed_token"
proof -
  have "newToken (tokenKey keyed_manager) TokenBootstrap (Some (replicate 16 0)) =
      Some (keyed_token, Sum256 (replicate 16 0 @ tokenMAC (replicate 32 7) TokenBootstrap (replicate 16 0)))"
    by (simp add: newToken_def Let_def keyed_token_def keyed_key)
  then show ?thesis
    unfolding authentic_def
    by (intro disjI1 exI [of _ TokenBootstrap] exI [of _ "replicate 16 0"] exI) (intro conjI, simp_all)
qed

theorem authentic_secret_detected_witness:
  "containsSecret keyed_manager (''/wrong?x=%zz&bridge='' @ keyed_token @ ''%4'')"
  by (rule authentic_secret_detected [OF keyed_authentic]) simp

text \<open>
  C35: an escape that overlaps a secret hides it. When a percent sign stands directly before a
  secret whose first two characters are hexadecimal digits, decoding the escape eats them, and
  the scan of a text that holds the whole secret literally reports nothing.
\<close>
theorem overlapping_escape_hides_secret:
  assumes "authentic m s" and "unhex (s ! 0) \<noteq> None" and "unhex (s ! 1) \<noteq> None"
  shows "\<not> containsSecret m (CHR ''%'' # s)"
proof -
  obtain x y rest where s: "s = x # y # rest"
    using authentic_candidate(1) [OF assms(1)] by (auto simp: numeral_eq_Suc length_Suc_conv)
  obtain v where v: "PathUnescape3 x y = Some v" using assms(2,3) s by (auto simp: PathUnescape3_def)
  have "length (decode_escapes t) \<le> length t" for t
    by (induction t rule: decode_escapes.induct) (auto split: option.splits)
  from this [of rest] have "length (unescaped (CHR ''%'' # s)) \<le> 42"
    using authentic_candidate(1) [OF assms(1)] by (simp add: unescaped_def s v)
  then show ?thesis unfolding containsSecret_iff by auto
qed

theorem overlapping_escape_hides_secret_witness: "\<not> containsSecret keyed_manager (CHR ''%'' # keyed_token)"
proof -
  obtain rest where r: "keyed_token = ''AA'' @ rest" using keyed_token_head by blast
  show ?thesis
    by (rule overlapping_escape_hides_secret [OF keyed_authentic]) (simp_all add: r unhex_def)
qed

end
