(* ===== verification/Server.thy ===== *)
theory Server
  imports Net Secrets Relay_Inv
begin

text \<open>
  The HTTP server (\<open>internal/server/server.go\<close>): routing, the checks of a request and the
  answers. A handler takes the manager and returns the answer, the backends the request started
  and the manager, or \<open>None\<close> for a panic. The random bytes, the result of the upgrade of a web
  socket and the content of the bridge page are arguments or stay abstract, and so is
  \<open>mime.ParseMediaType\<close>: \<open>binaryContentType\<close> is an argument.
\<close>

subsection \<open>Answers\<close>

text \<open>
  \<open>Public\<close> hands the request to the public site. \<open>Page\<close> is the bridge page with its token and
  carrier mode. \<open>Polling\<close> is a poll that waits, \<open>Socket\<close> a web socket after the upgrade, with the
  session and the lane. \<open>NoReply\<close> leaves the connection to a client that has gone.
\<close>

datatype response =
    Reply nat "(string \<times> string) list" "byte list"
  | Public
  | Page string string
  | Polling nat "u32 option" poll_id
  | Socket nat "u32 option"
  | NoReply

definition text_bytes :: "string \<Rightarrow> byte list" where
  "text_bytes s = map (\<lambda>c. word_of_nat (of_char c)) s"

text \<open>\<open>http.NotFound\<close> after the \<open>Cache-Control\<close> header.\<close>

definition not_found :: response where
  "not_found = Reply 404
     [(''Cache-Control'', ''no-store''), (''Content-Type'', ''text/plain; charset=utf-8''),
      (''X-Content-Type-Options'', ''nosniff'')]
     (text_bytes ''404 page not found'' @ [10])"

definition retry_later :: response where
  "retry_later = Reply 503 [(''Cache-Control'', ''no-store''), (''Retry-After'', ''1'')] []"

type_synonym handled = "((response \<times> running list) \<times> manager) option"

definition quiet :: "response \<Rightarrow> manager \<Rightarrow> handled" where
  "quiet answer m = Some ((answer, []), m)"

definition rejected :: "manager \<Rightarrow> handled" where
  "rejected m = quiet not_found m"

subsection \<open>Reading a request\<close>

definition clientIP_of :: "request \<Rightarrow> string option" where
  "clientIP_of r =
     do {
       (host, _) \<leftarrow> SplitHostPort (RemoteAddr r);
       peer \<leftarrow> ParseIP host;
       if \<not> IsLoopback peer then None
       else
         let forwarded = Header_Get r ''X-Forwarded-For'' in
         if forwarded = [] then Some (IP_String peer)
         else if CHR '','' \<in> set forwarded \<or> TrimSpace forwarded \<noteq> forwarded then None
         else map_option IP_String (ParseIP forwarded)
     }"

definition maxCreateBodyBytes :: int where
  "maxCreateBodyBytes = 64"

definition readBody :: "request \<Rightarrow> int \<Rightarrow> byte list option" where
  "readBody r limit =
     (case Body r of
        Broken \<Rightarrow> None
      | Bytes bytes \<Rightarrow> if len bytes > limit \<or> bytes = [] then None else Some bytes)"

definition emptyBody :: "request \<Rightarrow> bool" where
  "emptyBody r =
     (if ContentLength r > 0 then False
      else case Body r of Broken \<Rightarrow> True | Bytes bytes \<Rightarrow> bytes = [])"

definition transportSuffix :: "string \<Rightarrow> string \<Rightarrow> string option" where
  "transportSuffix base path =
     (if \<not> HasPrefix path base then None
      else
        let suffix = drop (length base) path in
        if suffix = ''api/v1/session'' \<or> suffix = ''api/v1/up'' \<or> suffix = ''api/v1/down'' \<or> suffix = ''api/v1/ws''
        then Some suffix else None)"

text \<open>The number of a lane in the header, at most the greatest stream id.\<close>

definition lane_header :: "request \<Rightarrow> u32 option" where
  "lane_header r =
     (case canonicalUint (Header_Get r ''X-Lane-ID'') of
        None \<Rightarrow> None
      | Some lane \<Rightarrow> if lane > ucast MaxStreamID then None else Some (ucast lane))"

subsection \<open>Uplink\<close>

definition up_reply :: "session_error + u64 \<Rightarrow> response" where
  "up_reply result =
     (case result of
        Inl err \<Rightarrow> if err = ErrBackpressure \<or> err = ErrConcurrent then retry_later else not_found
      | Inr ack \<Rightarrow>
          Reply 204 [(''Cache-Control'', ''no-store''), (''X-Up-Ack'', FormatUint (unat ack))] [])"

text \<open>An uplink batch on the session object, through its lane if it has lanes.\<close>

definition up_call ::
  "nat \<Rightarrow> u32 option \<Rightarrow> u64 \<Rightarrow> byte list \<Rightarrow> manager
     \<Rightarrow> (((session_error + u64) \<times> running list) \<times> manager) option" where
  "up_call ref lane sequence bytes m =
     do {
       ((res, a), m) \<leftarrow> on_object ref (\<lambda>cb s e. do {
         (res, a, s, e) \<leftarrow> (case lane of
            None \<Rightarrow> ProcessUp cb sequence bytes (clock m) s e
          | Some k \<Rightarrow> ProcessUpLane cb k sequence bytes (clock m) s e);
         Some ((res, a), s, e) }) m;
       Some ((res, started ref (opened a)), m)
     }"

definition serveUp :: "(string \<Rightarrow> bool) \<Rightarrow> request \<Rightarrow> string \<Rightarrow> manager \<Rightarrow> handled" where
  "serveUp binary r token m =
     (if Method r \<noteq> ''POST'' \<or> \<not> binary (Header_Get r ''Content-Type'') then rejected m
      else case canonicalUint (Header_Get r ''X-Up-Seq'') of
        None \<Rightarrow> rejected m
      | Some sequence \<Rightarrow>
      if sequence = 0 then rejected m
      else case Get_session token m of
        Inl _ \<Rightarrow> rejected m
      | Inr ref \<Rightarrow>
      (case readBody r (MaxBodyBytes (config_limits m)) of
         None \<Rightarrow> rejected m
       | Some bytes \<Rightarrow> do {
           s \<leftarrow> map_of (objs m) ref;
           if carrier s = CarrierHTTPS then
             (if Header_Get r ''X-Lane-ID'' \<noteq> [] then rejected m
              else do {
                ((res, bs), m) \<leftarrow> up_call ref None sequence bytes m;
                Some ((up_reply res, bs), m) })
           else if carrier s = CarrierHTTPSLanes then
             (case lane_header r of
                None \<Rightarrow> rejected m
              | Some lane \<Rightarrow> do {
                  ((res, bs), m) \<leftarrow> up_call ref (Some lane) sequence bytes m;
                  Some ((up_reply res, bs), m) })
           else rejected m }))"

subsection \<open>Downlink\<close>

definition down_reply :: "poll_error + (byte list \<times> u64 \<times> bool) \<Rightarrow> response" where
  "down_reply result =
     (case result of
        Inl err \<Rightarrow> if err = PollCancelled then NoReply else not_found
      | Inr (bytes, nxt, laneClosed) \<Rightarrow>
          let headers = [(''Cache-Control'', ''no-store''), (''X-Down-Cursor'', FormatUint (unat nxt))] @
                (if laneClosed then [(''X-Lane-Closed'', ''1'')] else [])
          in if bytes = [] then Reply 204 headers []
             else Reply 200 (headers @ [(''Content-Type'', ''application/octet-stream''),
                    (''Content-Length'', FormatUint (length bytes))]) bytes)"

text \<open>
  A poll of the session object. A failed cursor check closes the session, or releases the lane,
  and is an error of the protocol.
\<close>

definition mux_answer :: "(byte list \<times> u64) poll_outcome \<Rightarrow> lane_answer" where
  "mux_answer outcome =
     (case outcome of
        Answered (Inl err) \<Rightarrow> Answered (Inl err)
      | Answered (Inr (bytes, nxt)) \<Rightarrow> Answered (Inr (bytes, nxt, False))
      | PollFailure \<Rightarrow> PollFailure
      | Parked mine \<Rightarrow> Parked mine)"

definition down_call :: "nat \<Rightarrow> u32 option \<Rightarrow> u64 \<Rightarrow> manager \<Rightarrow> (lane_answer \<times> manager) option" where
  "down_call ref lane cursor m =
     on_object ref (\<lambda>cb s e.
       case lane of
         None \<Rightarrow> do {
           (outcome, s, e) \<leftarrow> Poll cb cursor (clock m) s e;
           (_, s, e) \<leftarrow> (if outcome = PollFailure then protocolFailure cb s e else Some ([], s, e));
           Some (mux_answer outcome, s, e) }
       | Some k \<Rightarrow> do {
           (outcome, s, e) \<leftarrow> PollLane cb k cursor (clock m) s e;
           (_, s, e) \<leftarrow> (if outcome = PollFailure then laneProtocolFailure cb k (clock m) s e
                        else Some ([], s, e));
           Some (outcome, s, e) }) m"

definition down_response :: "nat \<Rightarrow> u32 option \<Rightarrow> lane_answer \<Rightarrow> response" where
  "down_response ref lane outcome =
     (case outcome of
        Answered result \<Rightarrow> down_reply result
      | PollFailure \<Rightarrow> not_found
      | Parked mine \<Rightarrow> Polling ref lane mine)"

definition serveDown :: "request \<Rightarrow> string \<Rightarrow> manager \<Rightarrow> handled" where
  "serveDown r token m =
     (if Method r \<noteq> ''POST'' \<or> Header_Get r ''Content-Type'' \<noteq> [] then rejected m
      else case canonicalUint (Header_Get r ''X-Down-Cursor'') of
        None \<Rightarrow> rejected m
      | Some cursor \<Rightarrow>
      case Get_session token m of
        Inl _ \<Rightarrow> rejected m
      | Inr ref \<Rightarrow>
      if \<not> emptyBody r then rejected m
      else do {
        s \<leftarrow> map_of (objs m) ref;
        if carrier s = CarrierHTTPS then
          (if Header_Get r ''X-Lane-ID'' \<noteq> [] then rejected m
           else do {
             (outcome, m) \<leftarrow> down_call ref None cursor m;
             quiet (down_response ref None outcome) m })
        else if carrier s = CarrierHTTPSLanes then
          (case lane_header r of
             None \<Rightarrow> rejected m
           | Some lane \<Rightarrow> do {
               (outcome, m) \<leftarrow> down_call ref (Some lane) cursor m;
               quiet (down_response ref (Some lane) outcome) m })
        else rejected m })"

subsection \<open>Creating and ending a session\<close>

definition create_reply :: "CreateResult \<Rightarrow> CarrierMode \<Rightarrow> response" where
  "create_reply result mode =
     Reply 200 [(''Content-Type'', ''application/octet-stream''), (''Cache-Control'', ''no-store''),
       (''X-Session-Token'', created_token result), (''X-Carrier-Mode'', mode), (''X-Down-Cursor'', ''0''),
       (''Content-Length'', FormatUint (length (created_welcome result)))] (created_welcome result)"

definition serveSession ::
  "(string \<Rightarrow> bool) \<Rightarrow> byte list option \<Rightarrow> request \<Rightarrow> string \<Rightarrow> string \<Rightarrow> manager \<Rightarrow> handled" where
  "serveSession binary random r token ip m =
     (if Method r = ''DELETE'' then
        (if \<not> emptyBody r \<or> Header_Get r ''Content-Type'' \<noteq> [] then rejected m
         else do {
           (err, _, m) \<leftarrow> CloseToken token m;
           if err \<noteq> None then rejected m
           else quiet (Reply 204 [(''Cache-Control'', ''no-store'')] []) m })
      else if Method r \<noteq> ''POST'' \<or> \<not> binary (Header_Get r ''Content-Type'') then rejected m
      else if \<not> HasBootstrap token m then rejected m
      else case readBody r maxCreateBodyBytes of
        None \<Rightarrow> rejected m
      | Some bytes \<Rightarrow>
          (case Create token ip bytes random m of
             (Inl err, m) \<Rightarrow> if err = ErrLimit then quiet retry_later m else rejected m
           | (Inr result, m) \<Rightarrow> do {
               s \<leftarrow> map_of (objs m) (created_session result);
               quiet (create_reply result (carrier s)) m }))"

subsection \<open>Web sockets\<close>

text \<open>
  The checks and the acquisition; \<open>upgraded\<close> is the outcome of the upgrade, after which a
  session, or its lane, that is not used is ended again. \<open>protocols\<close> are the sub-protocols the
  web socket library finds in the request.
\<close>

definition socket_ended :: "nat \<Rightarrow> u32 option \<Rightarrow> manager \<Rightarrow> manager option" where
  "socket_ended ref lane m =
     (case lane of
        None \<Rightarrow> map_option snd (close_object ref m)
      | Some k \<Rightarrow> map_option snd (on_object ref (\<lambda>cb s e. ReleaseWebSocketLane cb k (clock m) s e) m))"

definition serveWebSocket :: "bool \<Rightarrow> string list \<Rightarrow> request \<Rightarrow> manager \<Rightarrow> handled" where
  "serveWebSocket upgraded protocols r m =
     (if Method r \<noteq> ''GET'' \<or> Header_Get r ''Authorization'' \<noteq> [] then rejected m
      else if length protocols \<noteq> 1 then rejected m
      else case webSocketCredentials (hd protocols) of
        None \<Rightarrow> rejected m
      | Some (token, laneID, lanes) \<Rightarrow>
      if bearerToken (''Bearer '' @ token) = None then rejected m
      else case Get_session token m of
        Inl _ \<Rightarrow> rejected m
      | Inr ref \<Rightarrow> do {
          s \<leftarrow> map_of (objs m) ref;
          if lanes \<and> carrier s \<noteq> CarrierWebSocketLanes \<or> \<not> lanes \<and> carrier s \<noteq> CarrierWebSocket then rejected m
          else if \<not> emptyBody r then rejected m
          else do {
            let lane = (if lanes then Some laneID else None);
            (acquired, m) \<leftarrow> on_object ref (\<lambda>cb s e.
              case lane of
                None \<Rightarrow> (case AcquireWebSocket s of (ok, s) \<Rightarrow> Some (ok, s, e))
              | Some k \<Rightarrow> (case AcquireWebSocketLane k (clock m) s of (ok, s) \<Rightarrow> Some (ok, s, e))) m;
            if \<not> acquired then rejected m
            else if \<not> upgraded then do { m \<leftarrow> socket_ended ref lane m; quiet NoReply m }
            else quiet (Socket ref lane) m } })"

subsection \<open>Routing\<close>

record server =
  PublicHostname :: string
  server_base :: string
  LegacyTokenDrain :: bool

text \<open>What the surroundings contribute to a request.\<close>

record surroundings =
  binaryContentType :: "string \<Rightarrow> bool"
  random_bytes :: "byte list option"
  page_rendered :: bool
  subprotocols :: "string list"
  upgrade_works :: bool

definition serveAPI :: "surroundings \<Rightarrow> request \<Rightarrow> string \<Rightarrow> manager \<Rightarrow> handled" where
  "serveAPI env r suffix m =
     (if RawQuery r \<noteq> [] \<or> ForceQuery r \<or> length (Header_Values r ''Authorization'') > 1 \<or>
         length (Header_Values r ''Sec-WebSocket-Protocol'') > 1 \<or>
         (Header_Get r ''Cookie'' \<noteq> [] \<and> suffix \<noteq> ''api/v1/ws'')
      then rejected m
      else case clientIP_of r of
        None \<Rightarrow> rejected m
      | Some ip \<Rightarrow>
      if suffix = ''api/v1/ws'' then serveWebSocket (upgrade_works env) (subprotocols env) r m
      else case bearerToken (Header_Get r ''Authorization'') of
        None \<Rightarrow> rejected m
      | Some token \<Rightarrow>
          if suffix = ''api/v1/session''
          then serveSession (binaryContentType env) (random_bytes env) r token ip m
          else if suffix = ''api/v1/up'' then serveUp (binaryContentType env) r token m
          else if suffix = ''api/v1/down'' then serveDown r token m
          else rejected m)"

definition serveBridge :: "surroundings \<Rightarrow> request \<Rightarrow> Profile \<Rightarrow> manager \<Rightarrow> handled" where
  "serveBridge env r prof m =
     (case clientIP_of r of
        None \<Rightarrow> rejected m
      | Some ip \<Rightarrow>
          (case IssueBootstrap (Some prof) ip (random_bytes env) m of
             (Inl _, m) \<Rightarrow> rejected m
           | (Inr token, m) \<Rightarrow>
               if page_rendered env then quiet (Page token (WithDefault (Carrier_Mode prof))) m
               else rejected m))"

definition serveHTTP :: "server \<Rightarrow> surroundings \<Rightarrow> request \<Rightarrow> manager \<Rightarrow> handled" where
  "serveHTTP srv env r m =
     (if \<not> hasInternalSecret (LegacyTokenDrain srv) m r then quiet Public m
      else if Host r \<noteq> PublicHostname srv \<and> Host r \<noteq> PublicHostname srv @ '':443'' then rejected m
      else case transportSuffix (server_base srv) (URL_Path r) of
        Some suffix \<Rightarrow>
          if EscapedPath r = URL_Path r then serveAPI env r suffix m
          else
            (case bridgeProfile (server_base srv) m r of
               Some p \<Rightarrow> serveBridge env r p m
             | None \<Rightarrow> rejected m)
      | None \<Rightarrow>
          (case bridgeProfile (server_base srv) m r of
             Some p \<Rightarrow> serveBridge env r p m
           | None \<Rightarrow> rejected m))"

end
