(* ===== verification/Server_Inv.thy ===== *)
theory Server_Inv
  imports Server
begin

text \<open>
  The server keeps the relay in the states it can reach. Every handler does to the sessions what
  at most two events of the relay do, and all its answers are produced: nothing in it panics.
\<close>

definition after :: "relay \<Rightarrow> running list \<Rightarrow> manager \<Rightarrow> relay" where
  "after R bs m = R\<lparr>mgr := m, backends := backends R @ bs\<rparr>"

lemma after_mgr: "after R [] m = R\<lparr>mgr := m\<rparr>"
  by (simp add: after_def)

lemma after_after [simp]: "after (after R [] m) bs m' = after R bs m'"
  by (simp add: after_def)

text \<open>A handler that answers and leaves the relay in a state with the property.\<close>

definition serves :: "(relay \<Rightarrow> bool) \<Rightarrow> relay \<Rightarrow> handled \<Rightarrow> bool" where
  "serves ok R h \<longleftrightarrow> ok_with h (\<lambda>((answer, bs), m). ok (after R bs m))"

lemma after_same [simp]: "after R [] (mgr R) = R"
  by (simp add: after_def)

lemma mgr_after [simp]: "mgr (after R bs m) = m"
  by (simp add: after_def)

lemma serves_quiet [simp]: "serves ok R (quiet answer m) \<longleftrightarrow> ok (after R [] m)"
  by (simp add: serves_def quiet_def)

lemma serves_rejected [simp]: "serves ok R (rejected m) \<longleftrightarrow> ok (after R [] m)"
  by (simp add: rejected_def)

lemma serves_bind: "ok_with x (\<lambda>r. serves ok R (f r)) \<Longrightarrow> serves ok R (x \<bind> f)"
  by (cases x) (auto simp: serves_def)

text \<open>The session of a create result is an object of the manager.\<close>

lemma Create_object:
  assumes "manager_ok m" and "Create token ip bytes random m = (Inr result, m')"
  shows "\<exists>s. map_of (objs m') (created_session result) = Some s"
proof -
  have old: "\<exists>s. map_of (objs m) ref = Some s"
    if "map_of (bootstraps m) h = Some entry" "used entry" "bs_session entry = Some ref" for h entry ref
  proof -
    have "entry_ok (set (config_profiles m)) (snd ` set (sessions m)) entry"
      using assms(1) that(1) by (auto simp: manager_ok_def bootstraps_ok_def dest: all_valsD)
    then have "ref \<in> snd ` set (sessions m)" using that(2,3) by (auto simp: entry_ok_def)
    moreover have "snd ` set (sessions m) \<subseteq> keys (objs m)"
      using assms(1) by (simp add: manager_ok_def table_ok_def)
    ultimately have "ref \<in> keys (objs m)" by (rule rev_subsetD)
    then show ?thesis by (simp add: keys_iff_map_of)
  qed
  show ?thesis
    using assms(2) old
    by (auto simp: Create_def Let_def create_result_def releaseUnusedBootstrap_def
        split: option.splits if_splits prod.splits)
qed

definition opens_none :: "session_event \<Rightarrow> bool" where
  "opens_none ev \<longleftrightarrow> (case ev of Up _ _ \<Rightarrow> False | UpLane _ _ _ \<Rightarrow> False | _ \<Rightarrow> True)"

lemma opens_none_exec:
  "session_exec ev now cb s e = Some (out, s', e') \<Longrightarrow> opens_none ev \<Longrightarrow> started ref (fst out) = []"
  by (cases ev) (auto simp: session_exec_def opens_none_def started_def bind_eq_Some_conv split: prod.splits)

text \<open>What has to hold of a request: new tokens are new, and a batch evicts no tombstone it mentions.\<close>

definition request_possible :: "surroundings \<Rightarrow> request \<Rightarrow> manager \<Rightarrow> bool" where
  "request_possible env r m \<longleftrightarrow>
     fresh_token TokenBootstrap (random_bytes env) (bootstraps m) m \<and>
     fresh_token TokenSession (random_bytes env) (sessions m) m \<and>
     (\<forall>ref s bytes q. map_of (objs m) ref = Some s \<longrightarrow> Body r = Bytes bytes \<longrightarrow> session_enabled (Up q bytes) s)"

text \<open>What the handlers need of the states: possible events run and stay inside.\<close>

locale relay_states =
  fixes ok :: "relay \<Rightarrow> bool" and lims :: Limits and profs :: "Profile list"
  assumes event: "ok R \<Longrightarrow> enabled ev R \<Longrightarrow> \<exists>R'. relay_exec ev R = Some R' \<and> ok R'"
    and sound: "ok R \<Longrightarrow> relay_ok (lims, profs) R"
begin

lemma session_object:
  assumes "ok R" "Get_session token (mgr R) = Inr ref"
  shows "\<exists>s. map_of (objs (mgr R)) ref = Some s"
proof -
  have "snd ` set (sessions (mgr R)) \<subseteq> keys (objs (mgr R))"
    using sound [OF assms(1)] by (simp add: relay_ok_def manager_ok_def table_ok_def)
  moreover obtain h where "map_of (sessions (mgr R)) h = Some ref"
    using assms(2) by (auto simp: Get_session_def split: option.splits)
  then have "ref \<in> snd ` set (sessions (mgr R))" by (force dest: map_of_SomeD)
  ultimately have "ref \<in> keys (objs (mgr R))" by (rule subsetD)
  then show ?thesis by (simp add: keys_iff_map_of)
qed

text \<open>An operation on a session object that does what an event does.\<close>

lemma on_session:
  assumes "ok R" "map_of (objs (mgr R)) ref = Some s" "session_enabled ev s"
    and same: "\<And>cb e. map_option snd (session_exec ev (clock (mgr R)) cb s e) = map_option snd (f cb s e)"
    and opened: "\<And>cb e out s' e' res. session_exec ev (clock (mgr R)) cb s e = Some (out, s', e') \<Longrightarrow>
       f cb s e = Some (res, s', e') \<Longrightarrow> started ref (fst out) = bs res"
  shows "ok_with (on_object ref f (mgr R)) (\<lambda>(res, m). ok (after R (bs res) m))"
proof -
  let ?cb = "manager_callbacks (profile s)" and ?m = "mgr R"
  have "enabled (OnSession ref ev) R" using assms(2,3) by (simp add: enabled_def)
  from event [OF assms(1) this] obtain R' where R': "relay_exec (OnSession ref ev) R = Some R'" "ok R'" by blast
  then obtain out s' m' where x: "session_exec ev (clock ?m) ?cb s ?m = Some (out, s', m')"
    and r: "R' = after R (started ref (fst out)) (m'\<lparr>objs := AList.update ref s' (objs m')\<rparr>)"
    using assms(2) by (auto simp: relay_exec_def on_object_def after_def bind_eq_Some_conv Let_def)
  have "map_option snd (f ?cb s ?m) = Some (s', m')" using same [of ?cb ?m] x by simp
  then obtain res where f: "f ?cb s ?m = Some (res, s', m')" by auto
  then show ?thesis using R'(2) assms(2) opened [OF x f] by (simp add: on_object_def r)
qed

lemma up_call_ok:
  assumes "ok R" "map_of (objs (mgr R)) ref = Some s"
    and "lane = None \<longrightarrow> session_enabled (Up q bytes) s"
  shows "ok_with (up_call ref lane q bytes (mgr R)) (\<lambda>((res, bs), m). ok (after R bs m))"
proof -
  let ?ev = "case lane of None \<Rightarrow> Up q bytes | Some k \<Rightarrow> UpLane k q bytes"
  have "session_enabled ?ev s" using assms(3) by (cases lane) (simp_all add: session_enabled_def)
  from on_session [OF assms(1,2) this, where bs = "\<lambda>(res, a). started ref (opened a)" and
    f = "\<lambda>cb s e. do {
         (res, a, s, e) \<leftarrow> (case lane of
            None \<Rightarrow> ProcessUp cb q bytes (clock (mgr R)) s e
          | Some k \<Rightarrow> ProcessUpLane cb k q bytes (clock (mgr R)) s e);
         Some ((res, a), s, e) }"]
  show ?thesis
    unfolding up_call_def
    by (cases lane) (auto simp: ok_with_bind session_exec_def case_prod_beta' map_option_bind comp_def
        bind_eq_Some_conv elim!: ok_with_mono)
qed

lemma on_session_quiet:
  assumes "ok R" "map_of (objs (mgr R)) ref = Some s" "session_enabled ev s" "opens_none ev"
    and "\<And>cb e. map_option snd (session_exec ev (clock (mgr R)) cb s e) = map_option snd (f cb s e)"
  shows "ok_with (on_object ref f (mgr R)) (\<lambda>(_, m). ok (after R [] m))"
proof (rule on_session [OF assms(1-3), of f "\<lambda>_. []"])
  show "map_option snd (session_exec ev (clock (mgr R)) cb s e) = map_option snd (f cb s e)" for cb e
    by (rule assms(5))
qed (rule opens_none_exec [OF _ assms(4)])

lemma down_call_ok:
  assumes "ok R" "map_of (objs (mgr R)) ref = Some s"
  shows "ok_with (down_call ref lane cursor (mgr R)) (\<lambda>(_, m). ok (after R [] m))"
  unfolding down_call_def
proof (rule on_session_quiet [OF assms, where ev = "case lane of None \<Rightarrow> Polls cursor | Some k \<Rightarrow> PollsLane k cursor"])
qed (cases lane; simp add: session_enabled_def opens_none_def session_exec_def case_prod_beta'
    map_option_bind comp_def)+

lemma acquire_ok:
  assumes "ok R" "map_of (objs (mgr R)) ref = Some s"
  shows "ok_with (on_object ref (\<lambda>cb s e.
              case lane of
                None \<Rightarrow> (case AcquireWebSocket s of (ok, s) \<Rightarrow> Some (ok, s, e))
              | Some k \<Rightarrow> (case AcquireWebSocketLane k (clock (mgr R)) s of (ok, s) \<Rightarrow> Some (ok, s, e))) (mgr R))
     (\<lambda>(_, m). ok (after R [] m))"
proof (rule on_session_quiet [OF assms, where ev = "case lane of None \<Rightarrow> TakesSocket | Some k \<Rightarrow> TakesLaneSocket k"])
qed (cases lane; simp add: session_enabled_def opens_none_def session_exec_def case_prod_beta')+

lemma socket_ended_ok:
  assumes "ok R" "map_of (objs (mgr R)) ref = Some s"
  shows "ok_with (socket_ended ref lane (mgr R)) (\<lambda>m. ok (after R [] m))"
proof (cases lane)
  case None
  have "ok_with (on_object ref closeLocked (mgr R)) (\<lambda>(_, m). ok (after R [] m))"
    by (rule on_session_quiet [OF assms, where ev = Ends])
      (simp_all add: session_enabled_def opens_none_def session_exec_def case_prod_beta' map_option_bind comp_def
        map_option_case split: option.split)
  then show ?thesis by (simp add: None socket_ended_def close_object_def ok_with_map case_prod_beta')
next
  case (Some k)
  have "ok_with (on_object ref (\<lambda>cb s e. ReleaseWebSocketLane cb k (clock (mgr R)) s e) (mgr R))
      (\<lambda>(_, m). ok (after R [] m))"
    by (rule on_session_quiet [OF assms, where ev = "DropsLaneSocket k"])
      (simp_all add: session_enabled_def opens_none_def session_exec_def case_prod_beta' map_option_bind comp_def
        map_option_case split: option.split)
  then show ?thesis by (simp add: Some socket_ended_def ok_with_map case_prod_beta')
qed

lemma event_ok: "ok R \<Longrightarrow> enabled ev R \<Longrightarrow> ok_with (relay_exec ev R) ok"
  using event by (auto simp: ok_with_Ex)

lemma serveUp_ok:
  assumes "ok R" and safe: "\<And>ref s bytes q. map_of (objs (mgr R)) ref = Some s \<Longrightarrow> Body r = Bytes bytes \<Longrightarrow>
      session_enabled (Up q bytes) s"
  shows "serves ok R (serveUp binary r token (mgr R))"
proof (cases "canonicalUint (Header_Get r ''X-Up-Seq'')")
  case (Some q)
  show ?thesis
  proof (cases "Get_session token (mgr R)")
    case (Inr ref)
    obtain s where s: "map_of (objs (mgr R)) ref = Some s" using session_object [OF assms(1) Inr] by blast
    have u: "ok_with (up_call ref lane q bytes (mgr R)) (\<lambda>((res, bs), m). ok (after R bs m))"
      if "readBody r limit = Some bytes" for lane bytes limit
      using up_call_ok [OF assms(1) s, of lane q bytes] safe [OF s, of bytes q] that
      by (auto simp: readBody_def split: body.splits if_splits)
    show ?thesis
      using assms(1) by (auto simp: serveUp_def Some Inr s serves_def ok_with_bind case_prod_beta'
          quiet_def rejected_def split: option.splits dest!: u elim!: ok_with_mono)
  qed (use assms(1) in \<open>simp add: serveUp_def Some\<close>)
qed (use assms(1) in \<open>simp add: serveUp_def\<close>)

lemma serveDown_ok:
  assumes "ok R"
  shows "serves ok R (serveDown r token (mgr R))"
proof (cases "canonicalUint (Header_Get r ''X-Down-Cursor'')")
  case (Some q)
  show ?thesis
  proof (cases "Get_session token (mgr R)")
    case (Inr ref)
    obtain s where s: "map_of (objs (mgr R)) ref = Some s" using session_object [OF assms(1) Inr] by blast
    have "ok_with (down_call ref lane q (mgr R)) (\<lambda>(_, m). ok (after R [] m))" for lane
      by (rule down_call_ok [OF assms(1) s])
    then have d: "serves ok R (do { (outcome, m) \<leftarrow> down_call ref lane q (mgr R); quiet (f outcome) m })" for lane f
      by (intro serves_bind) (simp add: case_prod_beta')
    show ?thesis
      using assms(1) d by (auto simp: serveDown_def Some Inr s split: option.splits)
  qed (use assms(1) in \<open>simp add: serveDown_def Some\<close>)
qed (use assms(1) in \<open>simp add: serveDown_def\<close>)

lemma serveSession_ok:
  assumes "ok R" and fresh: "fresh_token TokenSession random (sessions (mgr R)) (mgr R)"
  shows "serves ok R (serveSession binary random r token ip (mgr R))"
proof -
  have "enabled (ClosesToken token) R" by (simp add: enabled_def)
  from event_ok [OF assms(1) this]
  have c: "ok_with (CloseToken token (mgr R)) (\<lambda>(err, bs, m). ok (after R [] m))"
    by (auto simp: relay_exec_def Let_def ok_with_bind after_mgr elim!: ok_with_mono)
  then have close: "serves ok R (CloseToken token (mgr R) \<bind> (\<lambda>(err, _, m).
      if err \<noteq> None then rejected m else quiet answer m))" for answer
    by (intro serves_bind) (auto elim!: ok_with_mono)
  have create: "ok (after R [] m)" "\<And>res. out = Inr res \<Longrightarrow> \<exists>s. map_of (objs m) (created_session res) = Some s"
    if "Create token ip bytes random (mgr R) = (out, m)" for bytes out m
  proof -
    have "enabled (Creates token ip bytes random) R" using fresh by (simp add: enabled_def Let_def)
    from event_ok [OF assms(1) this] that show "ok (after R [] m)"
      by (simp add: relay_exec_def Let_def after_mgr)
    show "\<exists>s. map_of (objs m) (created_session res) = Some s" if "out = Inr res" for res
      using Create_object [of "mgr R"] sound [OF assms(1)] \<open>Create token ip bytes random (mgr R) = (out, m)\<close> that
      by (auto simp: relay_ok_def)
  qed
  have "serves ok R (case Create token ip bytes random (mgr R) of
             (Inl err, m) \<Rightarrow> if err = ErrLimit then quiet retry_later m else rejected m
           | (Inr result, m) \<Rightarrow> do {
               s \<leftarrow> map_of (objs m) (created_session result);
               quiet (create_reply result (carrier s)) m })" for bytes
    using create [of bytes] by (cases "Create token ip bytes random (mgr R)") (fastforce split: sum.splits)
  then show ?thesis
    using assms(1) close unfolding serveSession_def by (auto split: option.splits)
qed

lemma serveWebSocket_ok:
  assumes "ok R"
  shows "serves ok R (serveWebSocket upgraded protocols r (mgr R))"
proof (cases "webSocketCredentials (hd protocols)")
  case (Some c)
  obtain token laneID lanes where c: "c = (token, laneID, lanes)" by (cases c)
  show ?thesis
  proof (cases "Get_session token (mgr R)")
    case (Inr ref)
    obtain s where s: "map_of (objs (mgr R)) ref = Some s" using session_object [OF assms(1) Inr] by blast
    define lane where "lane = (if lanes then Some laneID else None)"
    let ?acquire = "on_object ref (\<lambda>cb s e.
              case lane of
                None \<Rightarrow> (case AcquireWebSocket s of (ok, s) \<Rightarrow> Some (ok, s, e))
              | Some k \<Rightarrow> (case AcquireWebSocketLane k (clock (mgr R)) s of (ok, s) \<Rightarrow> Some (ok, s, e))) (mgr R)"
    have "serves ok R (?acquire \<bind> (\<lambda>(acquired, m).
            if \<not> acquired then rejected m
            else if \<not> upgraded then do { m \<leftarrow> socket_ended ref lane m; quiet NoReply m }
            else quiet (Socket ref lane) m))"
    proof (intro serves_bind)
      have "ok_with ?acquire (\<lambda>(_, m). ok (after R [] m))" by (rule acquire_ok [OF assms s])
      then show "ok_with ?acquire (\<lambda>r. serves ok R (case r of (acquired, m) \<Rightarrow>
            if \<not> acquired then rejected m
            else if \<not> upgraded then do { m \<leftarrow> socket_ended ref lane m; quiet NoReply m }
            else quiet (Socket ref lane) m))"
      proof (rule ok_with_mono)
        fix res assume r: "?acquire = Some res" "case res of (_, m) \<Rightarrow> ok (after R [] m)"
        obtain acquired m where res: "res = (acquired, m)" by (cases res)
        have o: "ok (after R [] m)" using r(2) by (simp add: res)
        obtain s' where s': "map_of (objs (mgr (after R [] m))) ref = Some s'"
          using r(1) by (auto simp: res on_object_def bind_eq_Some_conv)
        have "ok_with (socket_ended ref lane m) (\<lambda>m'. ok (after R [] m'))"
          using socket_ended_ok [OF o s'] by simp
        then show "serves ok R (case res of (acquired, m) \<Rightarrow>
            if \<not> acquired then rejected m
            else if \<not> upgraded then do { m \<leftarrow> socket_ended ref lane m; quiet NoReply m }
            else quiet (Socket ref lane) m)"
          using o by (auto simp: res intro!: serves_bind)
      qed
    qed
    then show ?thesis
      using assms unfolding lane_def by (cases lanes) (simp_all add: serveWebSocket_def Some c Inr s Let_def cong: if_cong)
  qed (use assms in \<open>simp add: serveWebSocket_def Some c\<close>)
qed (use assms in \<open>simp add: serveWebSocket_def\<close>)

lemma serveBridge_ok:
  assumes "ok R" and fresh: "fresh_token TokenBootstrap (random_bytes env) (bootstraps (mgr R)) (mgr R)"
  shows "serves ok R (serveBridge env r p (mgr R))"
proof -
  have "ok (after R [] m)" if "IssueBootstrap (Some p) ip (random_bytes env) (mgr R) = (out, m)" for ip out m
  proof -
    have "enabled (Issues (Some p) ip (random_bytes env)) R" using fresh by (simp add: enabled_def Let_def)
    from event_ok [OF assms(1) this] that show ?thesis by (simp add: relay_exec_def Let_def after_mgr)
  qed
  then show ?thesis using assms(1) by (auto simp: serveBridge_def split: option.splits prod.splits sum.splits)
qed

lemma serveHTTP_ok:
  assumes "ok R" and "request_possible env r (mgr R)"
  shows "serves ok R (serveHTTP srv env r (mgr R))"
proof -
  have p: "fresh_token TokenBootstrap (random_bytes env) (bootstraps (mgr R)) (mgr R)"
    "fresh_token TokenSession (random_bytes env) (sessions (mgr R)) (mgr R)"
    "\<And>ref s bytes q. map_of (objs (mgr R)) ref = Some s \<Longrightarrow> Body r = Bytes bytes \<Longrightarrow> session_enabled (Up q bytes) s"
    using assms(2) by (auto simp: request_possible_def)
  have api: "serves ok R (serveAPI env r suffix (mgr R))" for suffix
    using assms(1) serveUp_ok [OF assms(1) p(3)] serveDown_ok [OF assms(1)] serveSession_ok [OF assms(1) p(2)]
      serveWebSocket_ok [OF assms(1)]
    by (auto simp: serveAPI_def split: option.splits)
  show ?thesis
    using assms(1) api serveBridge_ok [OF assms(1) p(1)] by (auto simp: serveHTTP_def split: option.splits)
qed

end

text \<open>The reachable states of a relay under an accepted configuration.\<close>

definition reachable_from :: "Limits \<times> Timeouts \<times> Profile list \<times> byte list \<times> int \<Rightarrow> relay \<Rightarrow> bool" where
  "reachable_from cfg R \<longleftrightarrow>
     (case cfg of (lims, tms, profs, key, now) \<Rightarrow>
        accepted lims tms profs \<and> reachable lims tms profs key now R)"

interpretation srv: relay_states "reachable_from cfg" "fst cfg" "map (resolve_profile (fst cfg)) (fst (snd (snd cfg)))"
proof -
  obtain lims tms profs key now where cfg: "cfg = (lims, tms, profs, key, now)" by (cases cfg)
  have sound: "relay_ok (lims, map (resolve_profile lims) profs) R" if "reachable_from cfg R" for R
    using that reachable_ok by (auto simp: cfg reachable_from_def)
  have "\<exists>R'. relay_exec ev R = Some R' \<and> reachable_from cfg R'" if "reachable_from cfg R" "enabled ev R" for R ev
  proof -
    from sound [OF that(1)] have "relay_ok (lims, map (resolve_profile lims) profs) R" .
    from relay_event_ok [OF this that(2)] obtain R' where "relay_exec ev R = Some R'"
      by (auto simp: ok_with_Ex)
    then show ?thesis using that by (auto simp: cfg reachable_from_def intro: reachable.more relay_step.intros)
  qed
  with sound show "relay_states (reachable_from cfg) (fst cfg) (map (resolve_profile (fst cfg)) (fst (snd (snd cfg))))"
    by unfold_locales (auto simp: cfg)
qed

end
