(* ===== verification/Server_Props.thy ===== *)
theory Server_Props
  imports Server_Inv Relay_Props
begin

text \<open>
  What holds of the HTTP server: it answers every request, keeps the relay in its reachable
  states, keeps the relay's secrets from the public site, and tells a stranger nothing.
\<close>

subsection \<open>Every request is answered\<close>


definition sample_env :: surroundings where
  "sample_env = \<lparr>binaryContentType = (\<lambda>t. t = ''application/octet-stream''), random_bytes = None,
     page_rendered = True, subprotocols = [], upgrade_works = True\<rparr>"

definition sample_server :: server where
  "sample_server = \<lparr>PublicHostname = ''relay.example.org'', server_base = ''/'', LegacyTokenDrain = False\<rparr>"

definition sample_request :: "string \<Rightarrow> request" where
  "sample_request authorization = \<lparr>Method = ''POST'', Host = ''relay.example.org'', URL_Path = ''/api/v1/up'',
     EscapedPath = ''/api/v1/up'', RawQuery = [], ForceQuery = False, URL_String = ''/api/v1/up'',
     Header = [(''Authorization'', [authorization])], RemoteAddr = ''127.0.0.1:5'', ContentLength = 1,
     Body = Bytes [1]\<rparr>"


subsection \<open>Secrets stay inside\<close>



definition never_public :: "handled \<Rightarrow> bool" where
  "never_public h \<longleftrightarrow> (\<forall>bs m. h \<noteq> Some ((Public, bs), m))"

lemma never_public_quiet: "answer \<noteq> Public \<Longrightarrow> never_public (quiet answer m)"
  by (simp add: never_public_def quiet_def)

lemma never_public_rejected: "never_public (rejected m)"
  by (simp add: never_public_def rejected_def quiet_def not_found_def)

lemma never_public_Some: "answer \<noteq> Public \<Longrightarrow> never_public (Some ((answer, bs), m))"
  by (simp add: never_public_def)

lemma never_public_bind: "(\<And>x. never_public (f x)) \<Longrightarrow> never_public (h \<bind> f)"
  by (cases h) (simp_all add: never_public_def)

lemma reply_not_public:
  "up_reply res \<noteq> Public" "down_response ref lane outcome \<noteq> Public" "create_reply result mode \<noteq> Public"
  "retry_later \<noteq> Public"
  by (auto simp: up_reply_def down_response_def down_reply_def create_reply_def retry_later_def not_found_def Let_def
      split: sum.split poll_outcome.split)

lemmas never_public_intros = never_public_quiet never_public_rejected never_public_Some never_public_bind
  reply_not_public

lemma never_public_handlers:
  "never_public (serveUp binary r token m)" "never_public (serveDown r token m)"
  "never_public (serveSession binary random r token ip m)" "never_public (serveWebSocket upgraded protocols r m)"
  unfolding serveUp_def serveDown_def serveSession_def serveWebSocket_def Let_def
  by (auto split: option.split prod.split sum.split intro!: never_public_intros)

lemma never_public_routes:
  "never_public (serveAPI env r suffix m)" "never_public (serveBridge env r p m)"
  unfolding serveAPI_def serveBridge_def
  by (auto split: option.split prod.split sum.split intro!: never_public_intros never_public_handlers)

lemma secret_not_public:
  "hasInternalSecret (LegacyTokenDrain srv) m r \<Longrightarrow> never_public (serveHTTP srv env r m)"
  unfolding serveHTTP_def
  by (auto split: option.split intro!: never_public_intros never_public_routes)



subsection \<open>A stranger learns nothing\<close>

definition known_token :: "manager \<Rightarrow> string \<Rightarrow> bool" where
  "known_token m token \<longleftrightarrow>
     (\<exists>h. tokenHash token = Some h \<and>
        (map_of (bootstraps m) h \<noteq> None \<or> map_of (sessions m) h \<noteq> None \<or> map_of (closedTokens m) h \<noteq> None))"

text \<open>A request without a known token and without the capability of a profile.\<close>

definition stranger :: "server \<Rightarrow> surroundings \<Rightarrow> manager \<Rightarrow> request \<Rightarrow> bool" where
  "stranger srv env m r \<longleftrightarrow>
     bridgeProfile (server_base srv) m r = None \<and>
     (\<forall>token. bearerToken (Header_Get r ''Authorization'') = Some token \<longrightarrow> \<not> known_token m token) \<and>
     (\<forall>protocol token lane lanes. subprotocols env = [protocol] \<longrightarrow>
        webSocketCredentials protocol = Some (token, lane, lanes) \<longrightarrow> \<not> known_token m token)"

lemma unknown_token:
  assumes "\<not> known_token m token"
  shows "Get_session token m = Inl ErrAuthentication" and "\<not> HasBootstrap token m"
    and "CloseToken token m = Some (Some ErrAuthentication, [], m)"
  using assms by (auto simp: known_token_def Get_session_def HasBootstrap_def CloseToken_def split: option.splits)

text \<open>
  C6: a stranger cannot tell the relay from a site without one. A request without a known token
  and without a capability either goes to the public site or gets the one answer \<open>not found\<close>,
  the same for every method, path, header and body; and it changes nothing.
\<close>
theorem strangers_learn_nothing:
  assumes "stranger srv env m r"
  shows "serveHTTP srv env r m = Some ((Public, []), m) \<or> serveHTTP srv env r m = Some ((not_found, []), m)"
proof -
  have api: "serveAPI env r suffix m = Some ((not_found, []), m)" for suffix
  proof (cases "bearerToken (Header_Get r ''Authorization'')")
    case None
    have "serveWebSocket (upgrade_works env) (subprotocols env) r m = Some ((not_found, []), m)"
    proof (cases "subprotocols env")
      case (Cons protocol rest)
      then show ?thesis
        using assms unknown_token
        by (cases rest) (auto simp: serveWebSocket_def rejected_def quiet_def stranger_def split: option.splits)
    qed (simp add: serveWebSocket_def rejected_def quiet_def)
    then show ?thesis by (auto simp: serveAPI_def None rejected_def quiet_def split: option.splits)
  next
    case (Some token)
    then have u: "\<not> known_token m token" using assms by (simp add: stranger_def)
    have "Header_Get r ''Authorization'' \<noteq> []" using Some by (auto simp: bearerToken_def HasPrefix_def)
    then have "serveWebSocket (upgrade_works env) (subprotocols env) r m = Some ((not_found, []), m)"
      by (simp add: serveWebSocket_def rejected_def quiet_def)
    then show ?thesis
      using unknown_token [OF u]
      by (auto simp: serveAPI_def Some serveSession_def serveUp_def serveDown_def rejected_def quiet_def
          split: option.splits)
  qed
  have "bridgeProfile (server_base srv) m r = None" using assms by (simp add: stranger_def)
  then show ?thesis
    using api by (auto simp: serveHTTP_def rejected_def quiet_def split: option.splits)
qed

theorem strangers_learn_nothing_witness:
  "serveHTTP sample_server sample_env (sample_request (''Bearer '' @ keyed_token)) keyed_manager =
     Some ((not_found, []), keyed_manager)"
proof -
  let ?r = "sample_request (''Bearer '' @ keyed_token)"
  have e: "bootstraps keyed_manager = []" "sessions keyed_manager = []" "closedTokens keyed_manager = []"
    by (simp_all only: keyed_manager_def NewManager_def) (simp_all add: manager.defs ledger.defs new_ledger_def)
  have "stranger sample_server sample_env keyed_manager ?r"
    by (simp add: stranger_def bridgeProfile_def sample_request_def known_token_def e sample_env_def)
  from strangers_learn_nothing [OF this]
  have "serveHTTP sample_server sample_env ?r keyed_manager = Some ((Public, []), keyed_manager) \<or>
      serveHTTP sample_server sample_env ?r keyed_manager = Some ((not_found, []), keyed_manager)" .
  moreover have "containsSecret keyed_manager (''Bearer '' @ keyed_token @ [])"
    by (rule authentic_found [OF keyed_authentic]) simp
  then have "hasInternalSecret False keyed_manager ?r"
    by (simp add: hasInternalSecret_def sample_request_def)
  then have "hasInternalSecret (LegacyTokenDrain sample_server) keyed_manager ?r"
    by (simp add: sample_server_def)
  then have "serveHTTP sample_server sample_env ?r keyed_manager \<noteq> Some ((Public, []), keyed_manager)"
    using secret_not_public by (simp add: never_public_def)
  ultimately show ?thesis by blast
qed

subsection \<open>Clients are told apart by address\<close>

text \<open>The address a request comes from, however it is spelled.\<close>

definition client_address :: "request \<Rightarrow> byte list option" where
  "client_address r =
     (if Header_Get r ''X-Forwarded-For'' = []
      then Option.bind (SplitHostPort (RemoteAddr r)) (\<lambda>(host, _). ParseIP host)
      else ParseIP (Header_Get r ''X-Forwarded-For''))"

lemma clientIP_address: "clientIP_of r = Some ip \<Longrightarrow> \<exists>a. client_address r = Some a \<and> length a = 16 \<and> ip = IP_String a"
  by (auto simp: clientIP_of_def client_address_def Let_def ParseIP_length bind_eq_Some_conv
      split: if_splits option.splits)

text \<open>
  Clients are counted by their address. Two requests are counted under the same client
  exactly when they come from the same address, IPv4 or IPv6, whichever of its spellings the
  proxy or the connection used; and the text they are counted under reads as that address.
\<close>
theorem clients_told_apart:
  assumes "clientIP_of r = Some ip" and "clientIP_of r' = Some ip'"
  shows "(ip = ip' \<longleftrightarrow> client_address r = client_address r') \<and> ParseIP ip = client_address r"
proof -
  obtain a a' where a: "client_address r = Some a" "length a = 16" "ip = IP_String a"
      "client_address r' = Some a'" "length a' = 16" "ip' = IP_String a'"
    using clientIP_address [OF assms(1)] clientIP_address [OF assms(2)] by blast
  have p: "ParseIP ip = Some a" unfolding a(3) by (rule ParseIP_IP_String [OF a(2)])
  have "ParseIP ip' = Some a'" unfolding a(6) by (rule ParseIP_IP_String [OF a(5)])
  then have "ip = ip' \<longleftrightarrow> a = a'" using p a(3,6) by (metis option.inject)
  then show ?thesis unfolding a(1,4) using p by simp
qed

definition local_request :: "string \<Rightarrow> request" where
  "local_request peer = sample_request ''Bearer x''\<lparr>RemoteAddr := peer\<rparr>"

lemma loopback_parsed:
  "SplitHostPort ''127.0.0.1:5'' = Some (''127.0.0.1'', ''5'')"
  "SplitHostPort ''127.0.0.1:80'' = Some (''127.0.0.1'', ''80'')"
  "ParseIP ''127.0.0.1'' = Some (v4_in_v6 @ [127, 0, 0, 1])"
  "IsLoopback (v4_in_v6 @ [127, 0, 0, 1])"
proof -
  have "parse_v4 ''127.0.0.1'' = Some [127, 0, 0, 1]" by code_simp
  then show "ParseIP ''127.0.0.1'' = Some (v4_in_v6 @ [127, 0, 0, 1])" by (simp add: ParseIP_def)
qed code_simp+

theorem clients_told_apart_witness:
  "client_address (local_request ''127.0.0.1:5'') = client_address (local_request ''127.0.0.1:80'')"
proof -
  have h: "Header_Get (local_request a) ''X-Forwarded-For'' = []" for a
    by (simp add: Header_Get_def Header_Values_def local_request_def sample_request_def char_upper_def
        char_lower_def Let_def char_of_eq_iff eq_commute [of "char_of _"])
  have r: "RemoteAddr (local_request a) = a" for a by (simp add: local_request_def sample_request_def)
  have "clientIP_of (local_request a) = Some (IP_String (v4_in_v6 @ [127, 0, 0, 1]))"
    if "a = ''127.0.0.1:5'' \<or> a = ''127.0.0.1:80''" for a
    using that loopback_parsed
    by (auto simp: clientIP_of_def h r)
  from clients_told_apart [OF this this] show ?thesis by simp
qed

end
