(* ===== verification/Socket.thy ===== *)
theory Socket
  imports Server_Inv Downlink_Props
begin

text \<open>
  The two loops of a web socket (\<open>readWebSocket\<close> and \<open>writeWebSocket\<close> of
  \<open>internal/server/server.go\<close>) as machines over a session. The messages, the outcome of a write
  and the ends of the waits are inputs.
\<close>

subsection \<open>The reader\<close>

text \<open>
  \<open>Receives q\<close> waits for a message, which it will submit as batch \<open>q\<close>; \<open>Holds q bytes\<close> waits
  for the next attempt with a batch that met back-pressure.
\<close>

datatype socket_reader = Receives u64 | Holds u64 "byte list" | ReaderOver

definition socket_submit ::
  "'e callbacks \<Rightarrow> u32 option \<Rightarrow> u64 \<Rightarrow> byte list \<Rightarrow> int \<Rightarrow> session \<Rightarrow> 'e
     \<Rightarrow> (socket_reader \<times> application \<times> session \<times> 'e) option" where
  "socket_submit cb lane sequence bytes now s e =
     do {
       (res, a, s, e) \<leftarrow> (case lane of
          None \<Rightarrow> ProcessUp cb sequence bytes now s e
        | Some k \<Rightarrow> ProcessUpLane cb k sequence bytes now s e);
       Some (if res = Inr sequence then Receives (sequence + 1)
             else if res = Inl ErrBackpressure then Holds sequence bytes
             else ReaderOver, a, s, e)
     }"

text \<open>A message, the tick of 50 milliseconds, and the ends: a failed read, the context, the deadline.\<close>

datatype socket_input = Message bool "byte list" | Tick | ReadStops

definition socket_read ::
  "'e callbacks \<Rightarrow> u32 option \<Rightarrow> socket_input \<Rightarrow> int \<Rightarrow> socket_reader \<Rightarrow> session \<Rightarrow> 'e
     \<Rightarrow> (socket_reader \<times> application \<times> session \<times> 'e) option" where
  "socket_read cb lane input now rd s e =
     (case (rd, input) of
        (Receives sequence, Message binary bytes) \<Rightarrow>
          if \<not> binary \<or> bytes = [] then Some (ReaderOver, no_effects, s, e)
          else socket_submit cb lane sequence bytes now s e
      | (Holds sequence bytes, Tick) \<Rightarrow> socket_submit cb lane sequence bytes now s e
      | (_, ReadStops) \<Rightarrow> Some (ReaderOver, no_effects, s, e)
      | _ \<Rightarrow> Some (rd, no_effects, s, e))"

subsection \<open>The writer\<close>





subsection \<open>Batches in step\<close>






subsection \<open>Cursors in step\<close>










end
