(* ===== verification/Paths.thy ===== *)
theory Paths
  imports Net
begin

text \<open>
  Slash-separated paths as Go's \<open>path\<close> and \<open>filepath\<close> packages treat them on Unix: \<open>Clean\<close>,
  \<open>Ext\<close>, \<open>Dir\<close>, \<open>Join\<close> and \<open>IsAbs\<close>. \<open>Clean\<close> is written over the segments of a path.
\<close>

subsection \<open>Segments\<close>

text \<open>A segment is dropped when it is empty or a dot; a double dot removes the segment before it.\<close>

definition clean_step :: "bool \<Rightarrow> string list \<Rightarrow> string \<Rightarrow> string list" where
  "clean_step rooted stack seg =
     (if seg = [] \<or> seg = ''.'' then stack
      else if seg = ''..'' then
        (if stack \<noteq> [] \<and> last stack \<noteq> ''..'' then butlast stack
         else if rooted then stack else stack @ [seg])
      else stack @ [seg])"

definition Clean :: "string \<Rightarrow> string" where
  "Clean p =
     (if p = [] then ''.''
      else
        let rooted = (hd p = CHR ''/'');
            stack = foldl (clean_step rooted) [] (Split (CHR ''/'') p)
        in if rooted then ''/'' @ joined ''/'' stack
           else if stack = [] then ''.'' else joined ''/'' stack)"

definition IsAbs :: "string \<Rightarrow> bool" where
  "IsAbs p \<longleftrightarrow> HasPrefix p ''/''"

text \<open>Everything up to the last slash.\<close>

definition Dir :: "string \<Rightarrow> string" where
  "Dir p = Clean (rev (dropWhile (\<lambda>c. c \<noteq> CHR ''/'') (rev p)))"

definition Join2 :: "string \<Rightarrow> string \<Rightarrow> string" where
  "Join2 a b =
     (if a = [] then (if b = [] then [] else Clean b)
      else if b = [] then Clean a else Clean (a @ ''/'' @ b))"

text \<open>The suffix from the last dot of the last segment.\<close>

definition Ext :: "string \<Rightarrow> string" where
  "Ext p =
     (let name = takeWhile (\<lambda>c. c \<noteq> CHR ''/'') (rev p) in
      if CHR ''.'' \<in> set name then CHR ''.'' # rev (takeWhile (\<lambda>c. c \<noteq> CHR ''.'') name) else [])"

subsection \<open>Canonical paths\<close>

text \<open>A segment that stands for itself.\<close>

definition plain_segment :: "string \<Rightarrow> bool" where
  "plain_segment seg \<longleftrightarrow> seg \<noteq> [] \<and> seg \<noteq> ''.'' \<and> seg \<noteq> ''..'' \<and> CHR ''/'' \<notin> set seg"

lemma Split_not_Nil [simp]: "Split c s \<noteq> []"
  by (induction c s rule: Split.induct) (auto split: list.splits)

lemma Split_plain [simp]: "c \<notin> set s \<Longrightarrow> Split c s = [s]"
  by (induction s) auto

lemma Split_segment: "c \<notin> set s \<Longrightarrow> Split c (s @ c # rest) = s # Split c rest"
  by (induction s) auto

lemma Split_no_sep: "seg \<in> set (Split c s) \<Longrightarrow> c \<notin> set seg"
  by (induction c s arbitrary: seg rule: Split.induct) (auto split: if_splits list.splits)

lemma Split_joined:
  "segs \<noteq> [] \<Longrightarrow> \<forall>seg \<in> set segs. c \<notin> set seg \<Longrightarrow> Split c (joined [c] segs) = segs"
proof (induction segs)
  case (Cons x xs)
  then show ?case using Split_segment [of c x] by (cases xs) auto
qed simp

lemma joined_Split: "joined ''/'' (Split (CHR ''/'') s) = s"
proof (induction s)
  case (Cons x s)
  obtain y ys where s: "Split (CHR ''/'') s = y # ys" by (cases "Split (CHR ''/'') s") simp_all
  with Cons show ?case by (cases ys) auto
qed simp

text \<open>Cleaning leaves only plain segments and, in a relative path, double dots in front.\<close>

lemma clean_step_plain:
  assumes "\<forall>seg \<in> set stack. plain_segment seg" and "CHR ''/'' \<notin> set seg"
  shows "\<forall>seg \<in> set (clean_step True stack seg). plain_segment seg"
  using assms by (auto simp: clean_step_def plain_segment_def dest: in_set_butlastD)

lemma clean_fold_plain:
  "\<forall>seg \<in> set stack. plain_segment seg \<Longrightarrow> \<forall>seg \<in> set segs. CHR ''/'' \<notin> set seg \<Longrightarrow>
     \<forall>seg \<in> set (foldl (clean_step True) stack segs). plain_segment seg"
proof (induction segs arbitrary: stack)
  case (Cons seg segs)
  show ?case
    using Cons.IH [OF clean_step_plain [OF Cons.prems(1), of seg]] Cons.prems(2) by simp
qed simp

lemma clean_fold_id:
  "\<forall>seg \<in> set segs. plain_segment seg \<Longrightarrow> foldl (clean_step rooted) stack segs = stack @ segs"
  by (induction segs arbitrary: stack) (auto simp: clean_step_def plain_segment_def)

text \<open>
  The rooted paths that cleaning leaves alone: the root, and the nonempty sequences of plain
  segments.
\<close>

lemma Clean_rooted_iff:
  "p \<noteq> [] \<Longrightarrow> hd p = CHR ''/'' \<Longrightarrow>
     Clean p = p \<longleftrightarrow> (\<exists>segs. p = ''/'' @ joined ''/'' segs \<and> (\<forall>seg \<in> set segs. plain_segment seg))"
proof (intro iffI)
  assume p: "p \<noteq> []" "hd p = CHR ''/''" and c: "Clean p = p"
  let ?segs = "foldl (clean_step True) [] (Split (CHR ''/'') p)"
  have "\<forall>seg \<in> set ?segs. plain_segment seg"
    by (rule clean_fold_plain) (auto dest: Split_no_sep)
  moreover have "p = ''/'' @ joined ''/'' ?segs" using c p by (simp add: Clean_def Let_def)
  ultimately show "\<exists>segs. p = ''/'' @ joined ''/'' segs \<and> (\<forall>seg \<in> set segs. plain_segment seg)" by blast
next
  assume p: "p \<noteq> []" "hd p = CHR ''/''"
    and "\<exists>segs. p = ''/'' @ joined ''/'' segs \<and> (\<forall>seg \<in> set segs. plain_segment seg)"
  then obtain segs where s: "p = ''/'' @ joined ''/'' segs" "\<forall>seg \<in> set segs. plain_segment seg" by blast
  show "Clean p = p"
  proof (cases "segs = []")
    case True
    then show ?thesis by (simp add: s Clean_def clean_step_def)
  next
    case False
    have "\<forall>seg \<in> set segs. CHR ''/'' \<notin> set seg" using s(2) by (simp add: plain_segment_def)
    then have "Split (CHR ''/'') p = [] # segs" using False by (simp add: s(1) Split_joined)
    then show ?thesis using s p by (simp add: Clean_def clean_fold_id clean_step_def)
  qed
qed

end
