(* ===== verification/Startup.thy ===== *)
theory Startup
  imports Paths Server_Props
begin

text \<open>
  The rest of \<open>internal/config/config.go\<close>: host names, addresses, secrets and capabilities, the
  validation of a whole configuration, the profiles file and \<open>Load\<close>. What JSON decodes to, what
  the file system says and what \<open>url.Parse\<close> returns are arguments.
\<close>

unbundle bit_operations_syntax

subsection \<open>Host names\<close>

datatype load_error =
    BadStaticRoutes | NotDNSName | NotIPOrSingleLabel | NotASCII | BadLabel | BadHostCharacter
  | HostNotLowercase | BasePathError config_error | BadAddress | NotLoopback | BadPort | SameListen
  | PublicDirOrUpstream | NotADirectory | NoIndex | NotHTTP | ExtraURLParts | NoProfilesFile
  | LimitsError config_error | DecodeFailed | TrailingData | OneOverrideOnly | ProfilesUnreadable
  | ProfilesTooOpen | ProfileCount | BadProfileName | DuplicateProfile string | BackendError string load_error
  | BadCarrierMode string | ProfileLimitsError string config_error | SecretError string
  | DuplicateCapability string

definition label_char :: "char \<Rightarrow> bool" where
  "label_char c \<longleftrightarrow> is_lower c \<or> is_digit c \<or> c = CHR ''-''"

fun labels_error :: "string list \<Rightarrow> load_error option" where
  "labels_error [] = None"
| "labels_error (label # rest) =
     (if label = [] \<or> length label > 63 \<or> hd label = CHR ''-'' \<or> last label = CHR ''-'' then Some BadLabel
      else if \<not> list_all label_char label then Some BadHostCharacter
      else labels_error rest)"

definition ValidateHostname :: "string \<Rightarrow> load_error option" where
  "ValidateHostname host =
     (if host = [] \<or> length host > 253 \<or> last host = CHR ''.'' \<or>
         list_ex (\<lambda>c. c \<in> set '':/@?#[]'') host
      then Some NotDNSName
      else if ParseIP host \<noteq> None \<or> CHR ''.'' \<notin> set host then Some NotIPOrSingleLabel
      else if list_ex (\<lambda>c. (of_char c :: nat) > 127) host then Some NotASCII
      else labels_error (Split (CHR ''.'') host))"

subsection \<open>Addresses\<close>

text \<open>\<open>strconv.Atoi\<close>: an optional sign and digits that fit 64 bits.\<close>

definition Atoi :: "string \<Rightarrow> int option" where
  "Atoi s =
     (let (negative, digits) =
        (if HasPrefix s ''-'' then (True, drop 1 s)
         else if HasPrefix s ''+'' then (False, drop 1 s) else (False, s)) in
      if digits = [] then None
      else case decimal 0 digits of
        None \<Rightarrow> None
      | Some n \<Rightarrow>
          let value = (if negative then - int n else int n) in
          if - (2 ^ 63) \<le> value \<and> value < 2 ^ 63 then Some value else None)"

definition validateLoopbackAddress :: "string \<Rightarrow> load_error option" where
  "validateLoopbackAddress addr =
     (case SplitHostPort addr of
        None \<Rightarrow> Some BadAddress
      | Some (host, port) \<Rightarrow>
          (case ParseIP host of
             None \<Rightarrow> Some NotLoopback
           | Some ip \<Rightarrow>
               if \<not> IsLoopback ip then Some NotLoopback
               else case Atoi port of
                 None \<Rightarrow> Some BadPort
               | Some value \<Rightarrow> if value < 1 \<or> value > 65535 then Some BadPort else None))"

record url =
  Scheme :: string
  has_user :: bool
  url_Path :: string
  url_RawQuery :: string
  Fragment :: string
  url_Host :: string

definition validatePublicUpstream :: "url option \<Rightarrow> load_error option" where
  "validatePublicUpstream parsed =
     (case parsed of
        None \<Rightarrow> Some BadAddress
      | Some u \<Rightarrow>
          if Scheme u \<noteq> ''http'' then Some NotHTTP
          else if has_user u \<or> url_Path u \<noteq> [] \<or> url_RawQuery u \<noteq> [] \<or> Fragment u \<noteq> [] then Some ExtraURLParts
          else validateLoopbackAddress (url_Host u))"

subsection \<open>Secrets and capabilities\<close>

text \<open>\<open>hex.DecodeString\<close>, and the padded \<open>base64.URLEncoding\<close>.\<close>

fun hex_bytes :: "string \<Rightarrow> byte list option" where
  "hex_bytes [] = Some []"
| "hex_bytes [x] = None"
| "hex_bytes (x # y # rest) =
     (case (unhex x, unhex y) of
        (Some a, Some b) \<Rightarrow> map_option (\<lambda>bs. word_of_nat (a * 16 + b) # bs) (hex_bytes rest)
      | _ \<Rightarrow> None)"

definition DecodePadded :: "string \<Rightarrow> byte list option" where
  "DecodePadded str =
     (let t = filter (\<lambda>c. c \<noteq> CHR 0x0A \<and> c \<noteq> CHR 0x0D) str in
      if length t mod 4 \<noteq> 0 then None
      else if t \<noteq> [] \<and> last t = CHR ''='' then
        DecodeString (if last (butlast t) = CHR ''='' then butlast (butlast t) else butlast t)
      else DecodeString t)"

definition DecodeSecret :: "string \<Rightarrow> byte list option" where
  "DecodeSecret str =
     (let value = TrimSpace str;
          decoded =
            (if length value = 32 \<or> length value = 34 then hex_bytes value
             else case DecodeString value of Some v \<Rightarrow> Some v | None \<Rightarrow> DecodePadded value)
      in case decoded of
        None \<Rightarrow> None
      | Some v \<Rightarrow>
          if length v \<noteq> 16 \<and> length v \<noteq> 17 then None
          else if length v = 17 \<and> hd v \<noteq> 0xdd then None
          else Some v)"

definition ascii_bytes :: "string \<Rightarrow> byte list" where
  "ascii_bytes s = map (\<lambda>c. word_of_nat (of_char c)) s"

definition capabilityContext :: string where
  "capabilityContext = ''tdesktop-web-proxy-bridge-v1'' @ [CHR 0x0A]"

definition capabilityContextV2 :: string where
  "capabilityContextV2 = ''tdesktop-web-proxy-bridge-v2'' @ [CHR 0x0A]"

text \<open>What the capability authenticates.\<close>

definition capability_message :: "string \<Rightarrow> string \<Rightarrow> string" where
  "capability_message host basePath =
     (if basePath = [] then capabilityContext @ host
      else capabilityContextV2 @ host @ [CHR 0x0A] @ basePath)"

definition DeriveCapability :: "string \<Rightarrow> string \<Rightarrow> byte list \<Rightarrow> byte list" where
  "DeriveCapability host basePath secret = hmac_sha256 secret (ascii_bytes (capability_message host basePath))"

definition CapabilityString :: "byte list \<Rightarrow> string" where
  "CapabilityString capability = EncodeToString capability"

subsection \<open>The profiles file\<close>

record profileInput =
  in_Name :: string
  in_Secret :: string
  in_Backend :: string
  in_CarrierMode :: CarrierMode
  in_Limits :: ProfileLimits

definition load_profile ::
  "string \<Rightarrow> string \<Rightarrow> Limits \<Rightarrow> Profile list \<Rightarrow> profileInput \<Rightarrow> load_error + Profile" where
  "load_profile host basePath lims result input =
     (let name = in_Name input; mode = WithDefault (in_CarrierMode input) in
      if name = [] \<or> length name > 64 then Inl BadProfileName
      else if name \<in> set (map Name result) then Inl (DuplicateProfile name)
      else case validateLoopbackAddress (in_Backend input) of Some e \<Rightarrow> Inl (BackendError name e) | None \<Rightarrow>
      if \<not> Valid mode then Inl (BadCarrierMode name)
      else case validateProfileLimits (in_Limits input) lims of
        Some e \<Rightarrow> Inl (ProfileLimitsError name e)
      | None \<Rightarrow>
      (case DecodeSecret (in_Secret input) of
         None \<Rightarrow> Inl (SecretError name)
       | Some secret \<Rightarrow>
           let capability = DeriveCapability host basePath secret in
           if capability \<in> set (map Capability result) then Inl (DuplicateCapability name)
           else Inr \<lparr>Name = name, Backend = in_Backend input, Carrier_Mode = mode,
             Capability = capability, Profile_Limits = WithDefaults (in_Limits input) lims\<rparr>))"

fun load_loop ::
  "string \<Rightarrow> string \<Rightarrow> Limits \<Rightarrow> Profile list \<Rightarrow> profileInput list \<Rightarrow> load_error + Profile list" where
  "load_loop host basePath lims result [] = Inr result"
| "load_loop host basePath lims result (input # rest) =
     (case load_profile host basePath lims result input of
        Inl e \<Rightarrow> Inl e
      | Inr p \<Rightarrow> load_loop host basePath lims (result @ [p]) rest)"

text \<open>
  The state of the file: \<open>None\<close> when it cannot be read, else its permission bits for group and
  others, whether it is a credential of the service manager, and what it decodes to.
\<close>

record profiles_source =
  extraPermissions :: nat
  systemdCredential :: bool
  decoded_profiles :: "profileInput list option"
  trailing_data :: bool

definition loadProfiles ::
  "profiles_source option \<Rightarrow> string \<Rightarrow> string \<Rightarrow> Limits \<Rightarrow> load_error + Profile list" where
  "loadProfiles src host basePath lims =
     (case src of
        None \<Rightarrow> Inl ProfilesUnreadable
      | Some f \<Rightarrow>
          let credentialReadOnly = systemdCredential f \<and> extraPermissions f AND 27 = 0 in
          if extraPermissions f \<noteq> 0 \<and> \<not> credentialReadOnly then Inl ProfilesTooOpen
          else case decoded_profiles f of
            None \<Rightarrow> Inl DecodeFailed
          | Some inputs \<Rightarrow>
              if trailing_data f then Inl TrailingData
              else if inputs = [] \<or> len inputs > MaxProfiles lims then Inl ProfileCount
              else load_loop host basePath lims [] inputs)"

subsection \<open>The configuration\<close>

record configuration =
  cfg_PublicHostname :: string
  cfg_BasePath :: string
  cfg_Listen :: string
  cfg_AdminListen :: string
  cfg_PublicDir :: string
  cfg_PublicUpstream :: string
  cfg_StaticRoutes :: string
  cfg_TokenKeyFile :: string
  cfg_ProfilesFile :: string
  cfg_EnablePprof :: bool
  cfg_Limits :: Limits
  cfg_Timeouts :: Timeouts
  cfg_Profiles :: "Profile list"

definition Defaults :: configuration where
  "Defaults = \<lparr>cfg_PublicHostname = [], cfg_BasePath = [], cfg_Listen = ''127.0.0.1:8080'',
     cfg_AdminListen = ''127.0.0.1:8081'', cfg_PublicDir = [], cfg_PublicUpstream = [],
     cfg_StaticRoutes = ''legacy'', cfg_TokenKeyFile = ''token.key'', cfg_ProfilesFile = [],
     cfg_EnablePprof = False, cfg_Limits = Default_Limits, cfg_Timeouts = Default_Timeouts,
     cfg_Profiles = []\<rparr>"

text \<open>The file system and the URL parser, as far as the start asks them.\<close>

record host_system =
  is_directory :: "string \<Rightarrow> bool"
  file_exists :: "string \<Rightarrow> bool"
  url_Parse :: "string \<Rightarrow> url option"
  profiles_at :: "string \<Rightarrow> profiles_source option"

definition validate :: "host_system \<Rightarrow> configuration \<Rightarrow> load_error option" where
  "validate sys c =
     (if cfg_StaticRoutes c \<noteq> ''exact'' \<and> cfg_StaticRoutes c \<noteq> ''legacy'' then Some BadStaticRoutes
      else case ValidateHostname (cfg_PublicHostname c) of Some e \<Rightarrow> Some e | None \<Rightarrow>
      if cfg_PublicHostname c \<noteq> map char_lower (cfg_PublicHostname c) then Some HostNotLowercase
      else case ValidateBasePath (cfg_BasePath c) of Some e \<Rightarrow> Some (BasePathError e) | None \<Rightarrow>
      case validateLoopbackAddress (cfg_Listen c) of Some e \<Rightarrow> Some e | None \<Rightarrow>
      case validateLoopbackAddress (cfg_AdminListen c) of Some e \<Rightarrow> Some e | None \<Rightarrow>
      if cfg_Listen c = cfg_AdminListen c then Some SameListen
      else if (cfg_PublicDir c = []) = (cfg_PublicUpstream c = []) then Some PublicDirOrUpstream
      else case
        (if cfg_PublicDir c \<noteq> [] then
           (if \<not> is_directory sys (cfg_PublicDir c) then Some NotADirectory
            else if \<not> file_exists sys (Join2 (cfg_PublicDir c) ''index.html'') then Some NoIndex else None)
         else validatePublicUpstream (url_Parse sys (cfg_PublicUpstream c)))
      of Some e \<Rightarrow> Some e | None \<Rightarrow>
      if cfg_ProfilesFile c = [] then Some NoProfilesFile
      else map_option LimitsError (validate_limits (cfg_Limits c) (cfg_Timeouts c)))"

text \<open>\<open>beside\<close> places a relative path next to the configuration file.\<close>

definition beside :: "string \<Rightarrow> string \<Rightarrow> string" where
  "beside path p = (if \<not> IsAbs p then Join2 (Dir path) p else p)"

text \<open>
  \<open>input\<close> is the configuration JSON decodes to on top of the defaults, and whether data
  trails it; it has no profiles yet.
\<close>

definition Load ::
  "host_system \<Rightarrow> string \<Rightarrow> string list \<Rightarrow> (configuration \<times> bool) option \<Rightarrow> load_error + configuration" where
  "Load sys path profilesOverride input =
     (case input of
        None \<Rightarrow> Inl DecodeFailed
      | Some (c, trailing) \<Rightarrow>
          if trailing then Inl TrailingData
          else
            let c = c\<lparr>cfg_PublicDir :=
                    (if cfg_PublicDir c \<noteq> [] then beside path (cfg_PublicDir c) else []),
                  cfg_ProfilesFile :=
                    (if cfg_ProfilesFile c \<noteq> [] then beside path (cfg_ProfilesFile c) else []),
                  cfg_TokenKeyFile := beside path (cfg_TokenKeyFile c)\<rparr>
            in if length profilesOverride > 1 then Inl OneOverrideOnly
               else
                 let c = (if length profilesOverride = 1 \<and> hd profilesOverride \<noteq> []
                          then c\<lparr>cfg_ProfilesFile := hd profilesOverride\<rparr> else c)
                 in (case validate sys c of
                       Some e \<Rightarrow> Inl e
                     | None \<Rightarrow>
                         (case loadProfiles (profiles_at sys (cfg_ProfilesFile c)) (cfg_PublicHostname c)
                                 (cfg_BasePath c) (cfg_Limits c) of
                            Inl e \<Rightarrow> Inl e
                          | Inr profs \<Rightarrow> Inr (c\<lparr>cfg_Profiles := profs\<rparr>))))"

subsection \<open>What a profiles file yields\<close>

text \<open>Limits that were resolved once resolve to themselves and pass the check again.\<close>

lemma default_to_set: "0 < v \<Longrightarrow> default_to v d = v"
  by (simp add: default_to_def)

lemma WithDefaults_resolved:
  assumes "profile_limits_ok p g"
  shows "WithDefaults p g = p"
proof -
  have "0 < MaxSessions_p p" "0 < MaxStreams_p p" "0 < MaxBackendDialsInFlight_p p"
    "0 < NewSessionsPerMinute_p p" "0 < NewSessionsBurst_p p" "0 < NewStreamsPerMinute_p p"
    "0 < NewStreamsBurst_p p" "0 < MaxStreamsPerSession_p p" "0 < MaxPendingPerSession_p p"
    using assms by (simp_all add: profile_limits_ok_def)
  then show ?thesis by (simp add: WithDefaults_def default_to_set)
qed

lemma resolved_valid: "profile_limits_ok p g \<Longrightarrow> validateProfileLimits p g = None"
  unfolding validateProfileLimits_def first_violation_None [THEN iffD2] WithDefaults_resolved
  by (simp add: first_violation_None profile_limits_ok_def)

definition profile_loaded :: "string \<Rightarrow> string \<Rightarrow> Limits \<Rightarrow> profileInput \<Rightarrow> Profile \<Rightarrow> bool" where
  "profile_loaded host basePath lims input p \<longleftrightarrow>
     Name p = in_Name input \<and> Name p \<noteq> [] \<and> length (Name p) \<le> 64 \<and>
     Backend p = in_Backend input \<and> validateLoopbackAddress (Backend p) = None \<and>
     Carrier_Mode p = WithDefault (in_CarrierMode input) \<and> Valid (Carrier_Mode p) \<and>
     validateProfileLimits (in_Limits input) lims = None \<and>
     Profile_Limits p = WithDefaults (in_Limits input) lims \<and>
     (\<exists>secret. DecodeSecret (in_Secret input) = Some secret \<and>
        Capability p = DeriveCapability host basePath secret)"

lemma load_profile_Inr:
  "load_profile host basePath lims result input = Inr p \<longleftrightarrow>
     profile_loaded host basePath lims input p \<and>
     Name p \<notin> set (map Name result) \<and> Capability p \<notin> set (map Capability result)"
  by (cases p) (auto simp: load_profile_def profile_loaded_def Let_def split: option.splits)

lemma load_loop_Inr:
  "load_loop host basePath lims result inputs = Inr profs \<longleftrightarrow>
     (\<exists>loaded. profs = result @ loaded \<and> list_all2 (profile_loaded host basePath lims) inputs loaded \<and>
        distinct (map Name loaded) \<and> distinct (map Capability loaded) \<and>
        set (map Name result) \<inter> set (map Name loaded) = {} \<and>
        set (map Capability result) \<inter> set (map Capability loaded) = {})"
proof (induction inputs arbitrary: result)
  case Nil
  then show ?case by auto
next
  case (Cons input rest)
  show ?case
  proof (cases "load_profile host basePath lims result input")
    case (Inl e)
    have "Name p \<in> set (map Name result) \<or> Capability p \<in> set (map Capability result)"
      if "profile_loaded host basePath lims input p" for p
      using Inl that load_profile_Inr [of host basePath lims result input p] by auto
    then show ?thesis by (fastforce simp: Inl list_all2_Cons1)
  next
    case (Inr p)
    note ok = Inr [unfolded load_profile_Inr]
    show ?thesis (is "_ = (\<exists>loaded. ?R loaded)")
    proof
      assume "load_loop host basePath lims result (input # rest) = Inr profs"
      then obtain loaded where "profs = (result @ [p]) @ loaded"
        "list_all2 (profile_loaded host basePath lims) rest loaded"
        "distinct (map Name loaded)" "distinct (map Capability loaded)"
        "set (map Name (result @ [p])) \<inter> set (map Name loaded) = {}"
        "set (map Capability (result @ [p])) \<inter> set (map Capability loaded) = {}"
        unfolding load_loop.simps Inr sum.case Cons.IH by blast
      then have "?R (p # loaded)" using ok by auto
      then show "\<exists>loaded. ?R loaded" ..
    next
      assume "\<exists>loaded. ?R loaded"
      then obtain z zs where z: "?R (z # zs)" by (auto simp: list_all2_Cons1)
      then have "load_profile host basePath lims result input = Inr z"
        unfolding load_profile_Inr by auto
      then have "z = p" using Inr by simp
      then show "load_loop host basePath lims result (input # rest) = Inr profs"
        unfolding load_loop.simps Inr sum.case Cons.IH using z by (intro exI [of _ zs]) auto
    qed
  qed
qed

lemma loadProfiles_Inr:
  assumes "loadProfiles src host basePath lims = Inr profs"
  shows "\<exists>inputs. list_all2 (profile_loaded host basePath lims) inputs profs" and "profs \<noteq> []"
    and "len profs \<le> MaxProfiles lims" and "distinct (map Name profs)" and "distinct (map Capability profs)"
proof -
  obtain inputs where i: "load_loop host basePath lims [] inputs = Inr profs" "inputs \<noteq> []" "len inputs \<le> MaxProfiles lims"
    using assms by (auto simp: loadProfiles_def Let_def split: option.splits if_splits)
  then have l: "list_all2 (profile_loaded host basePath lims) inputs profs" "distinct (map Name profs)"
    "distinct (map Capability profs)" by (auto simp: load_loop_Inr)
  then show "\<exists>inputs. list_all2 (profile_loaded host basePath lims) inputs profs" "profs \<noteq> []"
    "len profs \<le> MaxProfiles lims" "distinct (map Name profs)" "distinct (map Capability profs)"
    using i(2,3) list_all2_lengthD [OF l(1)] by auto
qed

lemma Load_Inr:
  assumes "Load sys path ovr input = Inr c"
  shows "validate sys (c\<lparr>cfg_Profiles := ps\<rparr>) = None"
    and "\<exists>src. loadProfiles src (cfg_PublicHostname c) (cfg_BasePath c) (cfg_Limits c) = Inr (cfg_Profiles c)"
proof -
  obtain c0 where v: "validate sys c0 = None"
    and p: "loadProfiles (profiles_at sys (cfg_ProfilesFile c0)) (cfg_PublicHostname c0) (cfg_BasePath c0)
       (cfg_Limits c0) = Inr (cfg_Profiles c)" and c: "c = c0\<lparr>cfg_Profiles := cfg_Profiles c\<rparr>"
    using assms
    by (auto simp: Load_def Let_def simp del: configuration.update_convs split: option.splits if_splits sum.splits prod.splits)
  have "validate sys (c0\<lparr>cfg_Profiles := ps\<rparr>) = validate sys c0"
  proof (cases c0)
    case (fields a b c d e f g h i j k l m)
    show ?thesis unfolding validate_def fields configuration.update_convs configuration.select_convs ..
  qed
  then have "validate sys (c0\<lparr>cfg_Profiles := ps\<rparr>) = None" using v by simp
  moreover have "c\<lparr>cfg_Profiles := ps\<rparr> = c0\<lparr>cfg_Profiles := ps\<rparr>" by (subst c) simp
  ultimately show "validate sys (c\<lparr>cfg_Profiles := ps\<rparr>) = None" by simp
  have "cfg_PublicHostname c0 = cfg_PublicHostname c" "cfg_BasePath c0 = cfg_BasePath c" "cfg_Limits c0 = cfg_Limits c"
    by (subst c, simp)+
  then show "\<exists>src. loadProfiles src (cfg_PublicHostname c) (cfg_BasePath c) (cfg_Limits c) = Inr (cfg_Profiles c)"
    using p by auto
qed

lemma validate_limits_part:
  "validate sys c = None \<Longrightarrow> validate_limits (cfg_Limits c) (cfg_Timeouts c) = None"
  by (auto simp: validate_def split: if_splits option.splits)

text \<open>What loads meets the hypotheses of the relay's theorems.\<close>

lemma Load_accepted:
  assumes "Load sys path ovr input = Inr c"
  shows "accepted (cfg_Limits c) (cfg_Timeouts c) (cfg_Profiles c)" and "distinct (map Name (cfg_Profiles c))"
    and "distinct (map Capability (cfg_Profiles c))"
    and "list_all (\<lambda>p. validateLoopbackAddress (Backend p) = None) (cfg_Profiles c)"
proof -
  obtain src where l: "loadProfiles src (cfg_PublicHostname c) (cfg_BasePath c) (cfg_Limits c) = Inr (cfg_Profiles c)"
    using Load_Inr(2) [OF assms] by blast
  note f = loadProfiles_Inr [OF l]
  have "c\<lparr>cfg_Profiles := cfg_Profiles c\<rparr> = c" by simp
  then have v: "validate_limits (cfg_Limits c) (cfg_Timeouts c) = None"
    using validate_limits_part [of sys c] Load_Inr(1) [OF assms, of "cfg_Profiles c"] by simp
  have each: "profile_limits_ok (Profile_Limits p) (cfg_Limits c)" "validateLoopbackAddress (Backend p) = None"
    if "p \<in> set (cfg_Profiles c)" for p
    using f(1) that WithDefaults_ok [OF v] by (auto simp: list_all2_conv_all_nth in_set_conv_nth profile_loaded_def)
  show "accepted (cfg_Limits c) (cfg_Timeouts c) (cfg_Profiles c)"
    using f v each(1) resolved_valid by (auto simp: accepted_def list_all_iff)
  show "distinct (map Name (cfg_Profiles c))" "distinct (map Capability (cfg_Profiles c))" by (rule f)+
  show "list_all (\<lambda>p. validateLoopbackAddress (Backend p) = None) (cfg_Profiles c)"
    using each(2) by (simp add: list_all_iff)
qed

text \<open>
  What loads can be run. Whenever \<open>Load\<close> accepts a configuration, its limits, its time-outs
  and the profiles it read are accepted in the sense of the relay's theorems, the profiles have
  different names and different capabilities and only loopback backends; and a relay started
  with it runs every event that can happen, in every state it can reach, without a panic.
\<close>
theorem loaded_relay_safe:
  assumes "Load sys path ovr input = Inr c"
  shows "accepted (cfg_Limits c) (cfg_Timeouts c) (cfg_Profiles c) \<and>
     distinct (map Name (cfg_Profiles c)) \<and> distinct (map Capability (cfg_Profiles c)) \<and>
     list_all (\<lambda>p. validateLoopbackAddress (Backend p) = None) (cfg_Profiles c) \<and>
     (\<forall>key now R ev. reachable (cfg_Limits c) (cfg_Timeouts c) (cfg_Profiles c) key now R \<longrightarrow> enabled ev R \<longrightarrow>
        (\<exists>R'. relay_exec ev R = Some R' \<and>
           reachable (cfg_Limits c) (cfg_Timeouts c) (cfg_Profiles c) key now R'))"
proof -
  note a = Load_accepted [OF assms]
  have "\<exists>R'. relay_exec ev R = Some R' \<and> reachable (cfg_Limits c) (cfg_Timeouts c) (cfg_Profiles c) key now R'"
    if "reachable (cfg_Limits c) (cfg_Timeouts c) (cfg_Profiles c) key now R" "enabled ev R" for key now R ev
  proof -
    have "ok_with (relay_exec ev R) (\<lambda>_. True)"
      by (rule ok_with_mono [OF relay_event_ok [OF reachable_ok [OF a(1) that(1)] that(2)]]) simp
    then obtain R' where "relay_exec ev R = Some R'" by (auto simp: ok_with_Ex)
    then show ?thesis using that by (auto intro: reachable.more relay_step.step)
  qed
  then show ?thesis using a by blast
qed

subsection \<open>A configuration that loads\<close>

text \<open>Trimming leaves a text alone that neither starts nor ends with white space.\<close>

definition graphic :: "char \<Rightarrow> bool" where
  "graphic c \<longleftrightarrow> 33 \<le> (of_char c :: nat) \<and> (of_char c :: nat) < 128"

lemma spaces_ends:
  assumes "w \<in> set spaces"
  shows "w \<noteq> []" and "\<not> graphic (hd w)" and "\<not> graphic (last w)"
proof -
  have "w \<noteq> [] \<and> \<not> graphic (hd w) \<and> \<not> graphic (last w)"
    using assms unfolding spaces_def set_map set_append image_Un
  proof (elim UnE)
    assume "w \<in> map char_of ` (\<lambda>n. [0xE2, 0x80, 0x80 + n]) ` set [0..<11]"
    then show ?thesis by (auto simp: graphic_def)
  qed (auto simp: graphic_def)
  then show "w \<noteq> []" "\<not> graphic (hd w)" "\<not> graphic (last w)" by auto
qed

lemma trim_front_graphic:
  assumes "\<forall>w \<in> set ws. w \<noteq> [] \<and> \<not> graphic (hd w)" and "s = [] \<or> graphic (hd s)"
  shows "trim_front ws s = s"
proof -
  have "\<not> HasPrefix s w" if "w \<in> set ws" for w
    using assms that by (cases w) (auto simp: HasPrefix_iff)
  then have "find (\<lambda>w. w \<noteq> [] \<and> HasPrefix s w) ws = None" by (auto simp: find_None_iff)
  then show ?thesis by (simp add: trim_front.simps)
qed

lemma TrimSpace_graphic:
  assumes "s = [] \<or> graphic (hd s) \<and> graphic (last s)"
  shows "TrimSpace s = s"
proof -
  have "trim_front spaces s = s"
    by (rule trim_front_graphic) (use assms spaces_ends in auto)
  moreover have "trim_front (map rev spaces) (rev s) = rev s"
    by (rule trim_front_graphic) (use assms spaces_ends in \<open>auto simp: hd_rev\<close>)
  ultimately show ?thesis by (simp add: TrimSpace_def)
qed

lemma loopback_addresses:
  "validateLoopbackAddress ''127.0.0.1:5'' = None" "validateLoopbackAddress ''127.0.0.1:80'' = None"
proof -
  have "Atoi ''5'' = Some 5" "Atoi ''80'' = Some 80" by code_simp+
  then show "validateLoopbackAddress ''127.0.0.1:5'' = None" "validateLoopbackAddress ''127.0.0.1:80'' = None"
    by (simp_all add: validateLoopbackAddress_def loopback_parsed)
qed

lemma example_host: "ValidateHostname ''relay.example.org'' = None"
proof -
  have "ParseIP ''relay.example.org'' = None" by (simp add: ParseIP_def parse_v4_def char_digit_def)
  then show ?thesis by (simp add: ValidateHostname_def label_char_def)
qed

abbreviation example_secret :: string where
  "example_secret \<equiv> ''00112233445566778899aabbccddeeff''"

lemma example_secret_decoded: "\<exists>v. DecodeSecret example_secret = Some v"
proof -
  have t: "TrimSpace example_secret = example_secret" by (rule TrimSpace_graphic) (simp add: graphic_def)
  show ?thesis by (simp add: DecodeSecret_def t unhex_def Let_def)
qed

definition example_input :: profileInput where
  "example_input = \<lparr>in_Name = ''home'', in_Secret = example_secret, in_Backend = ''127.0.0.1:5'',
     in_CarrierMode = [], in_Limits = ProfileLimits.make 0 0 0 0 0 0 0 0 0\<rparr>"

definition example_source :: profiles_source where
  "example_source = \<lparr>extraPermissions = 0, systemdCredential = False,
     decoded_profiles = Some [example_input], trailing_data = False\<rparr>"

definition example_system :: host_system where
  "example_system = \<lparr>is_directory = (\<lambda>_. True), file_exists = (\<lambda>_. True), url_Parse = (\<lambda>_. None),
     profiles_at = (\<lambda>_. Some example_source)\<rparr>"

definition example_configuration :: configuration where
  "example_configuration = Defaults\<lparr>cfg_PublicHostname := ''relay.example.org'', cfg_PublicDir := ''/srv'',
     cfg_ProfilesFile := ''/etc/p.json'', cfg_Listen := ''127.0.0.1:5'', cfg_AdminListen := ''127.0.0.1:80''\<rparr>"

lemma example_loads: "\<exists>c. Load example_system ''/etc/c.json'' [] (Some (example_configuration, False)) = Inr c"
proof -
  obtain v where v: "DecodeSecret example_secret = Some v" using example_secret_decoded by blast
  have l: "validateProfileLimits (ProfileLimits.make 0 0 0 0 0 0 0 0 0) Default_Limits = None"
    using relay_profile_accepted by (simp add: accepted_def relay_profile_def ProfileLimits.defs)
  have g: "validate_limits Default_Limits Default_Timeouts = None"
    using relay_profile_accepted by (simp add: accepted_def)
  have p: "\<exists>ps. loadProfiles (Some example_source) ''relay.example.org'' [] Default_Limits = Inr ps"
    by (simp add: loadProfiles_def example_source_def example_input_def load_profile_def Let_def
        loopback_addresses WithDefault_def Valid_def l v) (simp add: Default_Limits_def)
  have val: "validate example_system c = None"
    if "cfg_PublicHostname c = ''relay.example.org''" "cfg_PublicDir c = ''/srv''" "cfg_ProfilesFile c = ''/etc/p.json''"
      "cfg_Listen c = ''127.0.0.1:5''" "cfg_AdminListen c = ''127.0.0.1:80''" "cfg_PublicUpstream c = []"
      "cfg_BasePath c = []" "cfg_StaticRoutes c = ''legacy''" "cfg_Limits c = Default_Limits"
      "cfg_Timeouts c = Default_Timeouts" for c
    by (simp add: validate_def that example_host loopback_addresses g ValidateBasePath_def char_lower_def
        example_system_def)
  show ?thesis
    using p by (auto simp: Load_def Let_def val example_configuration_def Defaults_def beside_def IsAbs_def HasPrefix_def
        example_system_def [symmetric]) (simp_all add: example_system_def)
qed

theorem loaded_relay_safe_witness:
  "\<exists>c. Load example_system ''/etc/c.json'' [] (Some (example_configuration, False)) = Inr c \<and>
     accepted (cfg_Limits c) (cfg_Timeouts c) (cfg_Profiles c)"
proof -
  obtain c where c: "Load example_system ''/etc/c.json'' [] (Some (example_configuration, False)) = Inr c"
    using example_loads by blast
  from loaded_relay_safe [OF c] show ?thesis using c by blast
qed

subsection \<open>Host names in exact form\<close>

definition dns_label :: "string \<Rightarrow> bool" where
  "dns_label label \<longleftrightarrow> label \<noteq> [] \<and> length label \<le> 63 \<and> list_all label_char label \<and>
     hd label \<noteq> CHR ''-'' \<and> last label \<noteq> CHR ''-''"

lemma labels_error_None: "labels_error labels = None \<longleftrightarrow> list_all dns_label labels"
  by (induction labels) (auto simp: dns_label_def)

lemma Split_split_on: "Split c s = split_on c s"
  by (induction s) (auto split: list.splits)

lemma Split_chars: "c \<in> set s \<Longrightarrow> c \<noteq> sep \<Longrightarrow> \<exists>seg \<in> set (Split sep s). c \<in> set seg"
proof (induction s)
  case (Cons x s)
  obtain y ys where "Split sep s = y # ys" by (cases "Split sep s") simp_all
  with Cons show ?case by auto
qed simp

lemma Split_two: "2 \<le> length (Split c s) \<longleftrightarrow> c \<in> set s"
proof (induction s)
  case (Cons x s)
  have "1 \<le> length (Split c s)" by (cases "Split c s") simp_all
  with Cons show ?case by (auto split: list.splits)
qed simp

text \<open>
  The public host name is a name of the DNS. It is accepted exactly when it has at most 253
  characters and at least two labels, every label has 1 to 63 lower-case letters, digits and
  dashes and neither starts nor ends with a dash, and it is not an IP address.
\<close>
theorem ValidateHostname_exact:
  "ValidateHostname host = None \<longleftrightarrow>
     length host \<le> 253 \<and> 2 \<le> length (Split (CHR ''.'') host) \<and>
     list_all dns_label (Split (CHR ''.'') host) \<and> ParseIP host = None"
proof -
  have ok: "host \<noteq> [] \<and> last host \<noteq> CHR ''.'' \<and> \<not> list_ex (\<lambda>c. c \<in> set '':/@?#[]'') host \<and>
      \<not> list_ex (\<lambda>c. (of_char c :: nat) > 127) host"
    if d: "list_all dns_label (Split (CHR ''.'') host)"
  proof -
    have ne: "host \<noteq> []" using d by (auto simp: dns_label_def)
    have "[] \<notin> set (Split (CHR ''.'') host)" using d by (auto simp: list_all_iff dns_label_def)
    then have "last host \<noteq> CHR ''.''"
      using split_on_last [of host "CHR ''.''"] ne last_in_set [OF split_on_nonempty]
      unfolding Split_split_on by metis
    moreover have "label_char c \<or> c = CHR ''.''" if "c \<in> set host" for c
      using Split_chars [OF that] d by (fastforce simp: list_all_iff dns_label_def)
    then have "c \<notin> set '':/@?#[]'' \<and> (of_char c :: nat) \<le> 127" if "c \<in> set host" for c
      using that by (force simp: label_char_def)
    then have "\<not> list_ex (\<lambda>c. c \<in> set '':/@?#[]'') host" "\<not> list_ex (\<lambda>c. (of_char c :: nat) > 127) host"
      unfolding list_ex_iff by (metis linorder_not_less)+
    ultimately show ?thesis using ne by blast
  qed
  show ?thesis
    using ok Split_two [of "CHR ''.''" host] by (auto simp: ValidateHostname_def labels_error_None)
qed

subsection \<open>Capabilities are bound to their place\<close>

lemma ascii_bytes_inj: "ascii_bytes s = ascii_bytes t \<longleftrightarrow> s = t"
proof -
  have "c = d" if "word_of_nat (of_char c) = (word_of_nat (of_char d) :: byte)" for c d :: char
  proof -
    have "(of_char c :: nat) < 256" "(of_char d :: nat) < 256" by (simp_all add: of_char_def)
    moreover have "unat (word_of_nat (of_char c) :: byte) = unat (word_of_nat (of_char d) :: byte)" using that by simp
    ultimately show ?thesis by (simp add: unat_of_nat)
  qed
  then have "inj (\<lambda>c :: char. word_of_nat (of_char c) :: byte)" by (auto intro: injI)
  then show ?thesis by (simp add: ascii_bytes_def inj_map_eq_map)
qed

lemma hostname_no_newline: "ValidateHostname host = None \<Longrightarrow> CHR 0x0A \<notin> set host"
proof
  assume v: "ValidateHostname host = None" and n: "CHR 0x0A \<in> set host"
  obtain label where "label \<in> set (Split (CHR ''.'') host)" "CHR 0x0A \<in> set label" using Split_chars [OF n] by auto
  moreover from v have "list_all dns_label (Split (CHR ''.'') host)"
    by (auto simp: ValidateHostname_def labels_error_None split: if_splits)
  ultimately have "label_char (CHR 0x0A)" by (auto simp: list_all_iff dns_label_def)
  then show False by (simp add: label_char_def)
qed

text \<open>
  C27: a capability is bound to its place. For valid host names, what the capability of a key
  authenticates is the same for two relays exactly when they have the same host and the same
  base path; so a capability minted for one prefix authenticates nothing at another prefix or
  at the root, unless HMAC-SHA256 collides.
\<close>
theorem capability_bound:
  assumes "ValidateHostname host = None" and "ValidateHostname host' = None"
  shows "ascii_bytes (capability_message host base) = ascii_bytes (capability_message host' base') \<longleftrightarrow>
     host = host' \<and> base = base'"
proof -
  have n: "CHR 0x0A \<notin> set host" "CHR 0x0A \<notin> set host'"
    by (rule hostname_no_newline, rule assms)+
  have cut: "Cut (h @ CHR 0x0A # b) (CHR 0x0A) = Some (h, b)" if "CHR 0x0A \<notin> set h" for h b
    using that by (simp add: Cut_Some_iff)
  have "host @ CHR 0x0A # base = host' @ CHR 0x0A # base' \<longleftrightarrow> host = host' \<and> base = base'"
    using cut [OF n(1), of base] cut [OF n(2), of base'] by (metis option.inject prod.inject)
  then have "capability_message host base = capability_message host' base' \<longleftrightarrow> host = host' \<and> base = base'"
    by (auto simp: capability_message_def capabilityContext_def capabilityContextV2_def)
  then show ?thesis by (simp add: ascii_bytes_inj)
qed

theorem capability_bound_witness:
  "ascii_bytes (capability_message ''relay.example.org'' []) \<noteq>
     ascii_bytes (capability_message ''relay.example.org'' ''hidden'')"
  by (simp add: capability_bound [OF example_host example_host])

end
