(* ===== verification/Site.thy ===== *)
theory Site
  imports Paths Server_Props
begin

text \<open>
  The pages that need no secret: the public site (\<open>internal/server/site.go\<close> and \<open>servePublic\<close> of
  \<open>server.go\<close>), from the files of a directory read at the start, and the admin pages
  (\<open>serveReady\<close>, \<open>serveMetrics\<close>). The files the walk of the directory finds, the table of media
  types and the outcome of dialling a backend are arguments; \<open>http.ServeContent\<close> and the reverse
  proxy answer on their own (\<open>Content\<close>, \<open>Proxied\<close>).
\<close>

subsection \<open>The files\<close>

record staticEntry =
  entry_body :: "byte list"
  contentType :: string
  modTime :: int
  etag :: string

record staticSite =
  entries :: "(string, staticEntry) assoc"
  index_entry :: staticEntry
  notFound_entry :: staticEntry

text \<open>A regular file below the root: its relative name, its content and its time.\<close>

type_synonym site_file = "string \<times> byte list \<times> int"

definition hex_string :: "byte list \<Rightarrow> string" where
  "hex_string bytes = concat (map (\<lambda>b. [hex_char (unat b div 16), hex_char (unat b mod 16)]) bytes)"

definition contentTypeFor :: "(string \<Rightarrow> string) \<Rightarrow> string \<Rightarrow> string" where
  "contentTypeFor mime relative =
     (let t = mime (Ext relative) in if t \<noteq> [] then t else ''application/octet-stream'')"

definition file_entry :: "(string \<Rightarrow> string) \<Rightarrow> site_file \<Rightarrow> staticEntry" where
  "file_entry mime item =
     (case item of (relative, data, time) \<Rightarrow>
        \<lparr>entry_body = data, contentType = contentTypeFor mime relative, modTime = time,
          etag = CHR 0x22 # hex_string (Sum256 data) @ [CHR 0x22]\<rparr>)"

definition add_file ::
  "(string \<Rightarrow> string) \<Rightarrow> (string, staticEntry) assoc \<Rightarrow> site_file \<Rightarrow> (string, staticEntry) assoc" where
  "add_file mime es item =
     (if fst item = ''.'' \<or> HasPrefix (fst item) ''../'' then es
      else AList.update (''/'' @ fst item) (file_entry mime item) es)"

definition loadStaticSite :: "(string \<Rightarrow> string) \<Rightarrow> site_file list option \<Rightarrow> staticSite option" where
  "loadStaticSite mime walk =
     (case walk of
        None \<Rightarrow> None
      | Some files \<Rightarrow>
          let es = foldl (add_file mime) [] files in
          (case map_of es ''/index.html'' of
             None \<Rightarrow> None
           | Some index \<Rightarrow> Some \<lparr>entries = es, index_entry = index,
               notFound_entry = (case map_of es ''/404.html'' of None \<Rightarrow> index | Some e \<Rightarrow> e)\<rparr>))"

subsection \<open>The public site\<close>

definition resolve :: "staticSite \<Rightarrow> string \<Rightarrow> bool \<Rightarrow> staticEntry option" where
  "resolve site requestPath legacyRoutes =
     (if requestPath = [] \<or> hd requestPath \<noteq> CHR ''/'' then None
      else if Clean requestPath \<noteq> requestPath \<or> CHR 0x5C \<in> set requestPath then None
      else case map_of (entries site) requestPath of
        Some entry \<Rightarrow> Some entry
      | None \<Rightarrow>
          if \<not> legacyRoutes then None
          else if requestPath = ''/favicon.ico'' then map_of (entries site) ''/favicon.svg''
          else if Ext requestPath = [] then map_of (entries site) (requestPath @ ''.html'')
          else None)"

datatype public_answer = Content staticEntry | Missing "(string \<times> string) list" "byte list" | Proxied

definition serveEntry :: "request \<Rightarrow> staticEntry \<Rightarrow> bool \<Rightarrow> public_answer" where
  "serveEntry r entry ok =
     (if ok then Content entry
      else Missing [(''Content-Type'', contentType entry),
             (''Content-Length'', FormatUint (length (entry_body entry)))]
             (if Method r = ''HEAD'' then [] else entry_body entry))"

text \<open>\<open>None\<close> stands for a public site that is another server, reached by the reverse proxy.\<close>

definition servePublic :: "staticSite option \<Rightarrow> string \<Rightarrow> request \<Rightarrow> public_answer" where
  "servePublic public staticRoutes r =
     (case public of
        None \<Rightarrow> Proxied
      | Some site \<Rightarrow>
          if Method r = ''GET'' \<or> Method r = ''HEAD'' then
            (if URL_Path r = ''/'' then serveEntry r (index_entry site) True
             else case resolve site (URL_Path r) (staticRoutes = ''legacy'') of
               Some entry \<Rightarrow> serveEntry r entry True
             | None \<Rightarrow> serveEntry r (notFound_entry site) False)
          else serveEntry r (notFound_entry site) False)"

subsection \<open>What the public site shows\<close>

text \<open>The names a walk of a directory gives: plain segments, here without a backslash.\<close>

definition file_name :: "string \<Rightarrow> bool" where
  "file_name relative \<longleftrightarrow>
     (\<exists>segs. segs \<noteq> [] \<and> (\<forall>seg \<in> set segs. plain_segment seg) \<and> relative = joined ''/'' segs) \<and>
     CHR 0x5C \<notin> set relative"

lemma file_name_path:
  assumes "file_name relative"
  shows "Clean (''/'' @ relative) = ''/'' @ relative" and "CHR 0x5C \<notin> set (''/'' @ relative)"
    and "relative \<noteq> []" "relative \<noteq> ''.''" "\<not> HasPrefix relative ''../''"
proof -
  obtain segs where s: "segs \<noteq> []" "\<forall>seg \<in> set segs. plain_segment seg" "relative = joined ''/'' segs"
    using assms by (auto simp: file_name_def)
  have sp: "Split (CHR ''/'') relative = segs" unfolding s(3) by (rule Split_joined) (use s in \<open>auto simp: plain_segment_def\<close>)
  show "Clean (''/'' @ relative) = ''/'' @ relative"
    using s Clean_rooted_iff [of "''/'' @ relative"] by auto
  show "CHR 0x5C \<notin> set (''/'' @ relative)" using assms by (simp add: file_name_def)
  have pl: "\<forall>seg \<in> set (Split (CHR ''/'') relative). plain_segment seg" unfolding sp by (rule s(2))
  show "relative \<noteq> []"
  proof
    assume "relative = []"
    with pl show False by (simp add: plain_segment_def)
  qed
  show "relative \<noteq> ''.''"
  proof
    assume "relative = ''.''"
    with pl show False by (simp add: plain_segment_def)
  qed
  show "\<not> HasPrefix relative ''../''"
  proof
    assume "HasPrefix relative ''../''"
    then obtain rest where "relative = ''../'' @ rest" by (auto simp: HasPrefix_iff)
    with pl show False by (simp add: plain_segment_def)
  qed
qed

lemma map_of_add_files:
  assumes "\<forall>item \<in> set files. file_name (fst item)"
  shows "map_of (foldl (add_file mime) es files) path =
     (case find (\<lambda>item. ''/'' @ fst item = path) (rev files) of
        Some item \<Rightarrow> Some (file_entry mime item) | None \<Rightarrow> map_of es path)"
  using assms
proof (induction files rule: rev_induct)
  case (snoc item files)
  then have n: "file_name (fst item)" by simp
  have a: "add_file mime es item = AList.update (''/'' @ fst item) (file_entry mime item) es" for es
    using file_name_path(4,5) [OF n] by (simp add: add_file_def)
  have ih: "map_of (foldl (add_file mime) es files) path =
     (case find (\<lambda>item. ''/'' @ fst item = path) (rev files) of
        Some item \<Rightarrow> Some (file_entry mime item) | None \<Rightarrow> map_of es path)"
    by (rule snoc.IH) (use snoc.prems in simp)
  show ?case unfolding foldl_append foldl.simps a update_conv' by (simp add: ih)
qed simp

lemma find_distinct:
  "distinct (map f ys) \<Longrightarrow> x \<in> set ys \<Longrightarrow> find (\<lambda>y. f y = f x) ys = Some x"
  by (induction ys) (auto simp: rev_image_eqI)

text \<open>
  C25: with exact routes the public site shows the files of its directory and nothing else. A
  \<open>GET\<close> or \<open>HEAD\<close> of a path is answered with the content of a file exactly when the path is the
  name of the file behind a slash, spelled without empty, dot or double-dot segments, or the path is
  the root and the file is the index; every other path and every other method gets the page
  for missing files.
\<close>
theorem public_site_exact:
  assumes "loadStaticSite mime (Some files) = Some site"
    and "\<forall>item \<in> set files. file_name (fst item)" and "distinct (map fst files)"
  shows "servePublic (Some site) ''exact'' r = Content e \<longleftrightarrow>
     (Method r = ''GET'' \<or> Method r = ''HEAD'') \<and>
     (\<exists>item \<in> set files. e = file_entry mime item \<and>
        (URL_Path r = ''/'' @ fst item \<or> URL_Path r = ''/'' \<and> fst item = ''index.html''))"
proof -
  have look: "map_of (entries site) path =
      map_option (file_entry mime) (find (\<lambda>item. ''/'' @ fst item = path) (rev files))" for path
    using assms(1) map_of_add_files [OF assms(2), of mime "[]"]
    by (auto simp: loadStaticSite_def Let_def split: option.splits)
  have entry: "map_of (entries site) path = Some e \<longleftrightarrow>
      (\<exists>item \<in> set files. e = file_entry mime item \<and> path = ''/'' @ fst item)" for path
  proof
    assume "map_of (entries site) path = Some e"
    then show "\<exists>item \<in> set files. e = file_entry mime item \<and> path = ''/'' @ fst item"
      unfolding look by (auto simp: find_Some_iff) (metis length_rev nth_mem set_rev)
  next
    assume "\<exists>item \<in> set files. e = file_entry mime item \<and> path = ''/'' @ fst item"
    then obtain item where f: "item \<in> set files" "e = file_entry mime item" "path = ''/'' @ fst item" by blast
    have "find (\<lambda>y. fst y = fst item) (rev files) = Some item"
      by (rule find_distinct) (use assms(3) f(1) in \<open>simp_all add: rev_map [symmetric]\<close>)
    then show "map_of (entries site) path = Some e" unfolding look f(3) by (simp add: f(2))
  qed
  have root: "index_entry site = e \<longleftrightarrow> (\<exists>item \<in> set files. e = file_entry mime item \<and> fst item = ''index.html'')"
    using assms(1) entry [of "''/index.html''"] by (auto simp: loadStaticSite_def Let_def split: option.splits)
  have named: "resolve site path False = Some e \<longleftrightarrow> map_of (entries site) path = Some e" for path
  proof
    assume "map_of (entries site) path = Some e"
    moreover from this obtain item where "item \<in> set files" "path = ''/'' @ fst item" using entry by blast
    ultimately show "resolve site path False = Some e"
      using file_name_path(1,2) [of "fst item"] assms(2) by (auto simp: resolve_def)
  qed (auto simp: resolve_def split: if_splits option.splits)
  have ne: "([], d) \<notin> set files" for d
    using assms(2) file_name_path(3) by fastforce
  have shown: "servePublic (Some site) ''exact'' r = Content e \<longleftrightarrow> (Method r = ''GET'' \<or> Method r = ''HEAD'') \<and>
      (if URL_Path r = ''/'' then index_entry site = e else resolve site (URL_Path r) False = Some e)"
    by (auto simp: servePublic_def serveEntry_def split: option.splits)
  show ?thesis
    unfolding shown root named entry using ne by auto
qed

definition sample_files :: "site_file list" where
  "sample_files = [(''index.html'', [60], 1), (''a/b.css'', [], 2)]"

lemma sample_names: "file_name ''index.html''" "file_name ''a/b.css''"
proof -
  have "plain_segment ''index.html''" "plain_segment ''a''" "plain_segment ''b.css''" by (simp_all add: plain_segment_def)
  then show "file_name ''index.html''" "file_name ''a/b.css''"
    unfolding file_name_def
    by (auto intro: exI [of _ "[''index.html'']"] exI [of _ "[''a'', ''b.css'']"])
qed

definition style_request :: request where
  "style_request = (sample_request [])\<lparr>Method := ''GET'', URL_Path := ''/a/b.css''\<rparr>"

theorem public_site_exact_witness:
  "\<exists>site. loadStaticSite (\<lambda>_. []) (Some sample_files) = Some site \<and>
     servePublic (Some site) ''exact'' style_request = Content (file_entry (\<lambda>_. []) (''a/b.css'', [], 2)) \<and>
     servePublic (Some site) ''exact'' (sample_request []) \<noteq> Content (index_entry site)"
proof -
  obtain site where l: "loadStaticSite (\<lambda>_. []) (Some sample_files) = Some site"
    by (auto simp: loadStaticSite_def sample_files_def add_file_def HasPrefix_def update_conv' Let_def)
  have names: "\<forall>item \<in> set sample_files. file_name (fst item)" "distinct (map fst sample_files)"
    using sample_names by (auto simp: sample_files_def)
  have "servePublic (Some site) ''exact'' style_request = Content (file_entry (\<lambda>_. []) (''a/b.css'', [], 2))"
    using public_site_exact [OF l names, of style_request]
    by (simp add: style_request_def sample_files_def)
  moreover have "servePublic (Some site) ''exact'' (sample_request []) \<noteq> Content (index_entry site)"
    using public_site_exact [OF l names, of "sample_request []"] by (simp add: sample_request_def)
  ultimately show ?thesis using l by blast
qed

subsection \<open>The admin pages\<close>

text \<open>\<open>http.Error\<close>.\<close>

definition plain_error :: "nat \<Rightarrow> string \<Rightarrow> response" where
  "plain_error status message = Reply status
     [(''Content-Type'', ''text/plain; charset=utf-8''), (''X-Content-Type-Options'', ''nosniff'')]
     (text_bytes message @ [10])"

definition method_refused :: response where
  "method_refused = plain_error 405 ''method not allowed''"

definition serveHealth :: "request \<Rightarrow> response" where
  "serveHealth r =
     (if Method r \<noteq> ''GET'' then method_refused
      else Reply 200 [(''Content-Type'', ''text/plain; charset=utf-8'')] (text_bytes ''ok'' @ [10]))"

text \<open>\<open>dials\<close> tells whether a backend address answers within the time-out.\<close>

definition serveReady :: "(string \<Rightarrow> bool) \<Rightarrow> request \<Rightarrow> manager \<Rightarrow> response" where
  "serveReady dials r m =
     (if Method r \<noteq> ''GET'' then method_refused
      else if \<not> list_all (\<lambda>p. dials (Backend p)) (config_profiles m)
      then plain_error 503 ''backend unavailable''
      else Reply 200 [(''Content-Type'', ''text/plain; charset=utf-8'')] (text_bytes ''ready'' @ [10]))"

definition format_int :: "int \<Rightarrow> string" where
  "format_int n = (if n < 0 then CHR ''-'' # FormatUint (nat (- n)) else FormatUint (nat n))"

definition metric_lines :: "manager \<Rightarrow> (string \<times> string) list" where
  "metric_lines m =
     (let metrics = report_metrics m; capacity = report_capacity m; u = (\<lambda>w :: u64. FormatUint (unat w)) in
      [(''tproxy_sessions_live'', format_int (Sessions_c capacity)),
       (''tproxy_streams_live'', format_int (Streams_c capacity)),
       (''tproxy_backend_dials_in_flight'', format_int (BackendDialsInFlight_c capacity)),
       (''tproxy_pending_bytes'', format_int (PendingBytes_c capacity)),
       (''tproxy_pending_items'', format_int (PendingItems_c capacity)),
       (''tproxy_sessions_created_total'', u (SessionsCreated_m metrics)),
       (''tproxy_sessions_closed_total'', u (SessionsClosed_m metrics)),
       (''tproxy_streams_opened_total'', u (StreamsOpened_m metrics)),
       (''tproxy_streams_rejected_total'', u (StreamsRejected_m metrics)),
       (''tproxy_backend_dial_failures_total'', u (BackendDialFailures_m metrics)),
       (''tproxy_bytes_up_total'', u (BytesUp_m metrics)),
       (''tproxy_bytes_down_total'', u (BytesDown_m metrics)),
       (''tproxy_limit_hits_total'', u (LimitHits_m metrics))])"

definition serveMetrics :: "request \<Rightarrow> manager \<Rightarrow> response" where
  "serveMetrics r m =
     (if Method r \<noteq> ''GET'' then method_refused
      else Reply 200 [(''Content-Type'', ''text/plain; version=0.0.4'')]
        (concat (map (\<lambda>(name, value). text_bytes (name @ '' '' @ value) @ [10]) (metric_lines m))))"

lemma format_int_len: "format_int (len xs) = FormatUint (length xs)"
  by (simp add: format_int_def)

text \<open>
  The metrics tell the truth. In every reachable state of the relay the page of metrics
  reports as live streams the number of backends that run, as dials in flight the number of
  those that still dial, as live sessions the length of the table, and as pending bytes and
  items the sums over all sessions, each as a decimal number.
\<close>
theorem metrics_tell_truth:
  assumes "accepted lims tms profs" and "reachable lims tms profs key now R"
  shows "map_of (metric_lines (mgr R)) ''tproxy_streams_live'' = Some (FormatUint (length (backends R))) \<and>
     map_of (metric_lines (mgr R)) ''tproxy_backend_dials_in_flight'' =
       Some (FormatUint (length (filter (\<lambda>b. run_stage b = Dialing) (backends R)))) \<and>
     map_of (metric_lines (mgr R)) ''tproxy_sessions_live'' = Some (FormatUint (length (sessions (mgr R)))) \<and>
     map_of (metric_lines (mgr R)) ''tproxy_pending_bytes'' = Some (format_int (sum_vals pendingCost (objs (mgr R)))) \<and>
     map_of (metric_lines (mgr R)) ''tproxy_pending_items'' = Some (format_int (sum_vals pendingItems (objs (mgr R))))"
proof -
  note ok = reachable_ok [OF assms]
  have "pendingGlobalCost (mgr R) = sum_vals pendingCost (objs (mgr R))"
    "pendingGlobalItems (mgr R) = sum_vals pendingItems (objs (mgr R))"
    using ok by (simp_all add: relay_ok_def manager_ok_def objects_ok_def)
  then show ?thesis
    using relay_counts(1,2) [OF ok]
    by (simp add: metric_lines_def Let_def report_capacity_def format_int_len)
qed

theorem metrics_tell_truth_witness:
  "map_of (metric_lines (mgr sample_start)) ''tproxy_streams_live'' = Some ''0''"
  using metrics_tell_truth [OF relay_profile_accepted sample_start_reachable]
  by (simp add: FormatUint.simps [of 0] digit_char_def char_of_eq_iff)

end
