(* ===== verification/Bridge.thy ===== *)
theory Bridge
  imports Startup Site
begin

text \<open>
  The bridge page (\<open>internal/bridge/page.go\<close>): the checks of \<open>Render\<close>, the values it puts into the
  document, and the security policy of the page. The document itself, a page of HTML and
  JavaScript kept as a constant, is an argument: nothing here depends on its text.
\<close>

subsection \<open>Go's replacement and JSON strings\<close>

text \<open>\<open>strings.ReplaceAll\<close> of a text that is not empty, and \<open>strings.Contains\<close>.\<close>

function ReplaceAll :: "string \<Rightarrow> string \<Rightarrow> string \<Rightarrow> string" where
  "ReplaceAll [] old new = []"
| "ReplaceAll (c # cs) old new =
     (if HasPrefix (c # cs) old then new @ ReplaceAll (drop (length old - 1) cs) old new
      else c # ReplaceAll cs old new)"
  by pat_completeness auto
termination by (relation "measure (\<lambda>(s, old, new). length s)") auto

fun Contains :: "string \<Rightarrow> string \<Rightarrow> bool" where
  "Contains [] sub \<longleftrightarrow> sub = []"
| "Contains (c # cs) sub \<longleftrightarrow> HasPrefix (c # cs) sub \<or> Contains cs sub"

text \<open>\<open>json.Marshal\<close> of a string of ASCII characters, as all strings here are.\<close>

definition json_char :: "char \<Rightarrow> string" where
  "json_char c =
     (let n = of_char c :: nat; escape = CHR 0x5C in
      if n = 0x22 \<or> n = 0x5C then [escape, c]
      else if n = 8 then [escape, CHR ''b'']
      else if n = 9 then [escape, CHR ''t'']
      else if n = 10 then [escape, CHR ''n'']
      else if n = 12 then [escape, CHR ''f'']
      else if n = 13 then [escape, CHR ''r'']
      else if n < 32 \<or> n = 38 \<or> n = 60 \<or> n = 62
      then [escape] @ ''u00'' @ [hex_char (n div 16), hex_char (n mod 16)]
      else [c])"

definition json_string :: "string \<Rightarrow> string" where
  "json_string s = [CHR 0x22] @ concat (map json_char s) @ [CHR 0x22]"

subsection \<open>The page\<close>

datatype bridge_error = BadHost load_error | BadBase config_error | BadBatch | BadCarrierMode | NoRandomness | TemplateFailed

record page =
  page_Body :: string
  page_Nonce :: string
  page_CSP :: string

definition quoted :: "string \<Rightarrow> string" where
  "quoted s = [CHR 0x27] @ s @ [CHR 0x27]"

definition directives :: "string \<Rightarrow> string \<Rightarrow> string list" where
  "directives hostname nonce =
     [''default-src '' @ quoted ''none'',
      ''base-uri '' @ quoted ''none'',
      ''child-src '' @ quoted ''none'',
      ''connect-src '' @ quoted ''self'' @ '' wss://'' @ hostname,
      ''font-src '' @ quoted ''none'',
      ''form-action '' @ quoted ''none'',
      ''frame-ancestors http://127.0.0.1:*'',
      ''frame-src '' @ quoted ''none'',
      ''img-src '' @ quoted ''none'',
      ''manifest-src '' @ quoted ''none'',
      ''media-src '' @ quoted ''none'',
      ''object-src '' @ quoted ''none'',
      ''script-src '' @ quoted (''nonce-'' @ nonce),
      ''style-src '' @ quoted ''none'',
      ''worker-src '' @ quoted ''none'',
      ''sandbox allow-same-origin allow-scripts'']"

definition placeholders :: "string list" where
  "placeholders = [''__NONCE__'', ''__RELAY_BASE__'', ''__BOOTSTRAP__'', ''__CARRIER_MODE__'', ''__BATCH_LIMIT__'']"

text \<open>The values go into the document one after the other.\<close>

definition fill_document :: "string \<Rightarrow> string \<Rightarrow> string \<Rightarrow> string \<Rightarrow> string \<Rightarrow> CarrierMode \<Rightarrow> int \<Rightarrow> string" where
  "fill_document document nonce hostname basePath bootstrapToken carrierMode batchBytes =
     (let body = ReplaceAll document ''__NONCE__'' nonce;
          body = ReplaceAll body ''__RELAY_BASE__'' (json_string (''https://'' @ hostname @ Base basePath));
          body = ReplaceAll body ''__BOOTSTRAP__'' (json_string bootstrapToken);
          body = ReplaceAll body ''__CARRIER_MODE__'' (json_string carrierMode)
      in ReplaceAll body ''__BATCH_LIMIT__'' (format_int batchBytes))"

definition Render ::
  "string \<Rightarrow> string \<Rightarrow> string \<Rightarrow> string \<Rightarrow> CarrierMode \<Rightarrow> int \<Rightarrow> byte list option \<Rightarrow> bridge_error + page" where
  "Render document hostname basePath bootstrapToken carrierMode batchBytes random =
     (case ValidateHostname hostname of Some e \<Rightarrow> Inl (BadHost e) | None \<Rightarrow>
      case ValidateBasePath basePath of Some e \<Rightarrow> Inl (BadBase e) | None \<Rightarrow>
      if batchBytes \<le> 0 \<or> batchBytes > MaxCarrierBatchBytes then Inl BadBatch
      else if \<not> Valid carrierMode then Inl BadCarrierMode
      else case random of None \<Rightarrow> Inl NoRandomness | Some nonceBytes \<Rightarrow>
      let nonce = EncodeToString nonceBytes;
          body = fill_document document nonce hostname basePath bootstrapToken carrierMode batchBytes
      in if list_ex (Contains body) placeholders then Inl TemplateFailed
         else Inr \<lparr>page_Body = body, page_Nonce = nonce,
           page_CSP = joined ''; '' (directives hostname nonce)\<rparr>)"

definition PermissionsPolicy :: string where
  "PermissionsPolicy = joined '', '' (map (\<lambda>feature. feature @ ''=()'')
     [''accelerometer'', ''autoplay'', ''camera'', ''clipboard-read'', ''clipboard-write'', ''display-capture'',
      ''encrypted-media'', ''fullscreen'', ''geolocation'', ''gyroscope'', ''hid'', ''idle-detection'', ''magnetometer'',
      ''microphone'', ''midi'', ''payment'', ''picture-in-picture'', ''publickey-credentials-create'',
      ''publickey-credentials-get'', ''screen-wake-lock'', ''serial'', ''usb'', ''web-share'', ''xr-spatial-tracking''])"

text \<open>The answer of \<open>serveBridge\<close> with a page that was rendered.\<close>

definition bridge_reply :: "page \<Rightarrow> response" where
  "bridge_reply page = Reply 200
     [(''Content-Type'', ''text/html; charset=utf-8''),
      (''Content-Security-Policy'', page_CSP page),
      (''Cache-Control'', ''no-store''),
      (''Referrer-Policy'', ''no-referrer''),
      (''X-Content-Type-Options'', ''nosniff''),
      (''X-DNS-Prefetch-Control'', ''off''),
      (''Permissions-Policy'', PermissionsPolicy),
      (''Content-Length'', FormatUint (length (page_Body page)))]
     (text_bytes (page_Body page))"

subsection \<open>The policy cannot be stretched\<close>

lemma host_character:
  assumes "ValidateHostname host = None" and "c \<in> set host"
  shows "c = CHR ''.'' \<or> label_char c"
proof (rule ccontr)
  assume n: "\<not> (c = CHR ''.'' \<or> label_char c)"
  then obtain label where "label \<in> set (Split (CHR ''.'') host)" "c \<in> set label" using Split_chars [OF assms(2)] by auto
  moreover have "list_all dns_label (Split (CHR ''.'') host)"
    using assms(1) by (auto simp: ValidateHostname_def labels_error_None split: if_splits)
  ultimately show False using n by (auto simp: list_all_iff dns_label_def)
qed

lemma sextet_plain: "n < 64 \<Longrightarrow> sextet_char n \<noteq> CHR '';'' \<and> sextet_char n \<noteq> CHR '' ''"
proof -
  have "char_sextet CHR '';'' = None" "char_sextet CHR '' '' = None" by code_simp+
  then show "n < 64 \<Longrightarrow> sextet_char n \<noteq> CHR '';'' \<and> sextet_char n \<noteq> CHR '' ''"
    using char_sextet_char(1) [of n] by auto
qed

lemma nonce_plain: "CHR '';'' \<notin> set (EncodeToString bs) \<and> CHR '' '' \<notin> set (EncodeToString bs)"
proof -
  have "unat b < 256" for b :: byte using unsigned_less [of b] by simp
  then have "list_all (\<lambda>x. x < 64) (to_sextets (map unat bs))" by (intro to_sextets_bound) (simp add: list_all_iff)
  then show ?thesis by (auto simp: EncodeToString_def list_all_iff) (metis sextet_plain)+
qed

lemma host_plain: "ValidateHostname host = None \<Longrightarrow> CHR '';'' \<notin> set host \<and> CHR '' '' \<notin> set host"
  using host_character [of host "CHR '';''"] host_character [of host "CHR '' ''"] by (auto simp: label_char_def)

lemma Split_joined_spaced:
  "ds \<noteq> [] \<Longrightarrow> \<forall>d \<in> set ds. CHR '';'' \<notin> set d \<Longrightarrow>
     Split (CHR '';'') (joined ''; '' ds) = hd ds # map (\<lambda>d. '' '' @ d) (tl ds)"
proof (induction ds)
  case (Cons d ds)
  show ?case
  proof (cases ds)
    case (Cons e es)
    then have "Split (CHR '';'') (joined ''; '' ds) = e # map (\<lambda>d. '' '' @ d) es" using Cons.IH Cons.prems by simp
    moreover have "Split c (CHR '' '' # s) = (case Split c s of [] \<Rightarrow> [] | y # ys \<Rightarrow> ('' '' @ y) # ys)"
      if "c \<noteq> CHR '' ''" for c s
      using that by (cases "Split c s") auto
    ultimately have "Split (CHR '';'') (CHR '' '' # joined ''; '' ds) = ('' '' @ e) # map (\<lambda>d. '' '' @ d) es" by simp
    then show ?thesis using Split_segment [of "CHR '';''" d] Cons Cons.prems by simp
  qed (use Cons.prems Split_segment [of "CHR '';''" d "[]"] in simp)
qed simp

text \<open>
  C20: the policy of the page is the one that was meant. Whatever the host name, the random bytes
  and the document, a browser that splits the policy of a rendered page at its semicolons finds
  the sixteen directives and no other; the page may connect to its own host only, in the words
  of that directive, and only a script with the nonce of the random bytes runs.
\<close>
theorem page_policy_exact:
  assumes "Render document host basePath token mode batch random = Inr page"
  shows "let ds = directives host (page_Nonce page) in
     Split (CHR '';'') (page_CSP page) = hd ds # map (\<lambda>d. '' '' @ d) (tl ds) \<and> length ds = 16 \<and>
     Split (CHR '' '') (ds ! 3) = [''connect-src'', quoted ''self'', ''wss://'' @ host] \<and>
     Split (CHR '' '') (ds ! 12) = [''script-src'', quoted (''nonce-'' @ page_Nonce page)] \<and>
     DecodeString (page_Nonce page) = random"
proof -
  obtain bytes where r: "random = Some bytes" and v: "ValidateHostname host = None"
    and p: "page_Nonce page = EncodeToString bytes" "page_CSP page = joined ''; '' (directives host (EncodeToString bytes))"
    using assms by (auto simp: Render_def Let_def split: option.splits if_splits)
  let ?n = "EncodeToString bytes"
  have s: "Split (CHR '' '') w = [w]" if "CHR '' '' \<notin> set w" for w
    using that by (induction w) auto
  have h: "CHR '' '' \<notin> set (''wss://'' @ host)" "CHR '' '' \<notin> set (quoted (''nonce-'' @ ?n))"
    using host_plain [OF v] nonce_plain [of bytes] by (simp_all add: quoted_def)
  have "\<forall>d \<in> set (directives host ?n). CHR '';'' \<notin> set d"
    using host_plain [OF v] nonce_plain [of bytes] by (simp add: directives_def quoted_def)
  then have "Split (CHR '';'') (page_CSP page) = hd (directives host ?n) # map (\<lambda>d. '' '' @ d) (tl (directives host ?n))"
    unfolding p(2) by (rule Split_joined_spaced [rotated]) (simp add: directives_def)
  moreover have "Split (CHR '' '') (directives host ?n ! 3) = [''connect-src'', quoted ''self'', ''wss://'' @ host]"
    using s [OF h(1)] by (simp add: directives_def quoted_def)
  moreover have "Split (CHR '' '') (directives host ?n ! 12) = [''script-src'', quoted (''nonce-'' @ ?n)]"
    using s [OF h(2)] by (simp add: directives_def)
  ultimately show ?thesis by (simp add: Let_def p(1) r directives_def [of host] length_Cons)
qed

text \<open>A document that uses every value.\<close>

definition short_document :: string where
  "short_document = ''n=__NONCE__;r=__RELAY_BASE__;b=__BOOTSTRAP__;c=__CARRIER_MODE__;l=__BATCH_LIMIT__''"

lemma Render_filled:
  assumes "ValidateBasePath basePath = None"
  shows "Render document ''relay.example.org'' basePath ''t'' ''https'' 512 (Some [0, 0, 0]) =
     (let body = fill_document document ''AAAA'' ''relay.example.org'' basePath ''t'' ''https'' 512 in
      if list_ex (Contains body) placeholders then Inl TemplateFailed
      else Inr \<lparr>page_Body = body, page_Nonce = ''AAAA'', page_CSP = joined ''; '' (directives ''relay.example.org'' ''AAAA'')\<rparr>)"
proof -
  have "EncodeToString [0, 0, 0] = ''AAAA''" by code_simp
  then show ?thesis by (simp add: Render_def example_host assms Valid_def Let_def)
qed

theorem page_policy_exact_witness:
  "\<exists>page. Render short_document ''relay.example.org'' [] ''t'' ''https'' 512 (Some [0, 0, 0]) = Inr page \<and>
     DecodeString (page_Nonce page) = Some [0, 0, 0]"
proof -
  have b: "ValidateBasePath [] = None" by (simp add: ValidateBasePath_def)
  have "\<not> list_ex (Contains (fill_document short_document ''AAAA'' ''relay.example.org'' [] ''t'' ''https'' 512)) placeholders"
    by code_simp
  then obtain page where p: "Render short_document ''relay.example.org'' [] ''t'' ''https'' 512 (Some [0, 0, 0]) = Inr page"
    by (simp add: Render_filled [OF b])
  from page_policy_exact [OF p] p show ?thesis by (auto simp: Let_def)
qed

subsection \<open>Base paths that look like placeholders\<close>

text \<open>
  A base path can be taken for a placeholder. The base paths \<open>a__BATCH_LIMIT__\<close> and
  \<open>a__NONCE__\<close> are valid; with the first the page is rendered with the address of another path,
  the number of bytes in place of the marker, and with the second no page is rendered at all.
\<close>
theorem base_path_rewritten:
  "ValidateBasePath ''a__BATCH_LIMIT__'' = None \<and> ValidateBasePath ''a__NONCE__'' = None \<and>
   (\<exists>page. Render ''r=__RELAY_BASE__'' ''relay.example.org'' ''a__BATCH_LIMIT__'' ''t'' ''https'' 512 (Some [0, 0, 0]) = Inr page \<and>
      page_Body page = ''r='' @ json_string ''https://relay.example.org/a512/'') \<and>
   Render ''r=__RELAY_BASE__'' ''relay.example.org'' ''a__NONCE__'' ''t'' ''https'' 512 (Some [0, 0, 0]) = Inl TemplateFailed"
proof -
  let ?filled = "\<lambda>basePath. fill_document ''r=__RELAY_BASE__'' ''AAAA'' ''relay.example.org'' basePath ''t'' ''https'' 512"
  have v: "ValidateBasePath ''a__BATCH_LIMIT__'' = None" "ValidateBasePath ''a__NONCE__'' = None" by code_simp+
  have "\<not> list_ex (Contains (?filled ''a__BATCH_LIMIT__'')) placeholders"
    "?filled ''a__BATCH_LIMIT__'' = ''r='' @ json_string ''https://relay.example.org/a512/''"
    "list_ex (Contains (?filled ''a__NONCE__'')) placeholders"
    by code_simp+
  then show ?thesis by (simp add: Render_filled v)
qed

end
