(* ===== verification/Boot.thy ===== *)
theory Boot
  imports Bridge
begin

text \<open>
  The start of the relay: the file of the token key (\<open>internal/config/token_key.go\<close>), \<open>New\<close> of
  \<open>server.go\<close> and the part of \<open>main\<close> (\<open>cmd/tproxy-server/main.go\<close>) up to the verdict of \<open>-check\<close>.
  What runs afterwards is the relay of the earlier theories.
\<close>

subsection \<open>The token key\<close>




subsection \<open>The server\<close>





subsection \<open>A relay that starts\<close>






end
