(* ===== verification/Keys.thy ===== *)
theory Keys
  imports Site
begin

text \<open>
  The key store of the panel (\<open>keys-panel/store.go\<close>): the profiles file, the list of backends, one
  environment file per backend with the secrets it serves, and the services that are restarted
  when they change. The state of the machine is explicit. Every operation of the system that can
  fail takes its outcome from the list \<open>outcomes\<close>; when the list is used up all goes well. A file
  of JSON is what it decodes to.
\<close>

subsection \<open>The machine\<close>

record KeyProfile =
  kp_Name :: string
  kp_Secret :: string
  kp_Backend :: string
  kp_CarrierMode :: string
  kp_Limits :: string

record KeyMeta =
  km_Label :: string
  km_Group :: string
  km_Note :: string
  km_Created :: string

record BackendInfo =
  Address :: string
  Unit :: string
  EnvFile :: string

text \<open>
  A profiles file is absent, or it has what \<open>LoadProfiles\<close> decodes, which refuses unknown fields
  and reads the first value only, and what \<open>json.Unmarshal\<close> decodes, which refuses trailing data.
\<close>

datatype profiles_content = Absent | Decodes "KeyProfile list option" "KeyProfile list option"

text \<open>
  The list of backends is \<open>None\<close> when its file cannot be read and \<open>Some None\<close> when it is
  malformed. \<open>restarts\<close> lists the units restarted so far.
\<close>

record deployment =
  profiles_file :: profiles_content
  meta_file :: "(string, KeyMeta) assoc option"
  env_files :: "string \<Rightarrow> string option"
  backends_file :: "BackendInfo list option option"
  relay_max_profiles :: "int option"
  restarts :: "string list"
  outcomes :: "bool list"
  randoms :: "byte list option list"

datatype panel_error =
    NoKeyRemains | OverMaxProfiles int | BadName string | BadSecret string | BadCarrier string
  | NameTwice string | SecretTwice string | UnknownBackend string | OverSecrets string
  | BackendsMalformed | NoBackends | Unreadable | SystemError | RelayRejected
  | UnitFailed string | RelayFailed | NotReady | RolledBack panel_error
  | RollbackFailed panel_error panel_error
  | BackendsFull | ProvisioningFailed | StillFull | RandomError
  | NoKeysRequested | KeyExists string | NoSuchKey string | LastKey

definition attempt :: "deployment \<Rightarrow> bool \<times> deployment" where
  "attempt d = (case outcomes d of [] \<Rightarrow> (True, d) | ok # rest \<Rightarrow> (ok, d\<lparr>outcomes := rest\<rparr>))"

text \<open>That many steps, up to the first that fails.\<close>

fun attempts :: "nat \<Rightarrow> deployment \<Rightarrow> bool \<times> deployment" where
  "attempts 0 d = (True, d)"
| "attempts (Suc n) d = (case attempt d of (ok, d) \<Rightarrow> if ok then attempts n d else (False, d))"

text \<open>
  \<open>writeFileAtomic\<close> creates, writes and protects a temporary file, gives it to the group if the
  group can be found, flushes and closes it; only then \<open>put\<close> replaces the file by it.
\<close>

definition writeFileAtomic ::
  "bool \<Rightarrow> (deployment \<Rightarrow> deployment) \<Rightarrow> deployment \<Rightarrow> bool \<times> deployment" where
  "writeFileAtomic grouped put d =
     (case attempts 3 d of (ok, d) \<Rightarrow>
      if \<not> ok then (False, d)
      else case (if grouped then
                   (case attempt d of (known, d) \<Rightarrow> if known then attempt d else (True, d))
                 else (True, d)) of (ok, d) \<Rightarrow>
      if \<not> ok then (False, d)
      else case attempts 3 d of (ok, d) \<Rightarrow> if ok then (True, put d) else (False, d))"

subsection \<open>Backends\<close>

definition maxSecretsPerBackend :: nat where
  "maxSecretsPerBackend = 16"

definition default_backend :: BackendInfo where
  "default_backend = \<lparr>Address = ''127.0.0.1:2398'', Unit = ''mtproxy.service'',
     EnvFile = ''/etc/mtproxy/mtproxy-keys.env''\<rparr>"

definition LoadBackends :: "deployment \<Rightarrow> panel_error + BackendInfo list" where
  "LoadBackends d =
     (case backends_file d of
        None \<Rightarrow> Inr [default_backend]
      | Some None \<Rightarrow> Inl BackendsMalformed
      | Some (Some bs) \<Rightarrow> if bs = [] then Inl NoBackends else Inr bs)"

definition backendUsage :: "KeyProfile list \<Rightarrow> string \<Rightarrow> nat" where
  "backendUsage profs addr = length (filter (\<lambda>p. kp_Backend p = addr) profs)"

fun pickBackend :: "BackendInfo list \<Rightarrow> (string \<Rightarrow> nat) \<Rightarrow> string option" where
  "pickBackend [] usage = None"
| "pickBackend (b # bs) usage =
     (if usage (Address b) < maxSecretsPerBackend then Some (Address b) else pickBackend bs usage)"

text \<open>
  The helper that adds a backend is a script behind the service manager: \<open>provision\<close> tells
  whether it succeeded and what it left.
\<close>

definition chooseBackend ::
  "(deployment \<Rightarrow> bool \<times> deployment) \<Rightarrow> BackendInfo list \<Rightarrow> (string \<Rightarrow> nat) \<Rightarrow> deployment
     \<Rightarrow> (panel_error + string) \<times> BackendInfo list \<times> deployment" where
  "chooseBackend provision registry usage d =
     (case pickBackend registry usage of
        Some addr \<Rightarrow> (Inr addr, registry, d)
      | None \<Rightarrow>
          (case provision d of (ok, d) \<Rightarrow>
           if \<not> ok then (Inl ProvisioningFailed, registry, d)
           else case LoadBackends d of
             Inl e \<Rightarrow> (Inl e, registry, d)
           | Inr reloaded \<Rightarrow>
               (case pickBackend reloaded usage of
                  None \<Rightarrow> (Inl StillFull, reloaded, d)
                | Some addr \<Rightarrow> (Inr addr, reloaded, d))))"

subsection \<open>Keys\<close>

text \<open>\<open>nameRE\<close>, \<open>secretRE\<close> and \<open>validCarrier\<close>.\<close>

definition nameRE :: "string \<Rightarrow> bool" where
  "nameRE s \<longleftrightarrow> s \<noteq> [] \<and> length s \<le> 64 \<and> alnum (hd s) \<and>
     list_all (\<lambda>c. alnum c \<or> c = CHR ''_'' \<or> c = CHR ''.'' \<or> c = CHR ''-'') (tl s)"

definition hex_digit :: "char \<Rightarrow> bool" where
  "hex_digit c \<longleftrightarrow> is_digit c \<or> 97 \<le> (of_char c :: nat) \<and> (of_char c :: nat) \<le> 102"

definition secretRE :: "string \<Rightarrow> bool" where
  "secretRE s \<longleftrightarrow>
     list_all hex_digit s \<and> (length s = 32 \<or> length s = 34 \<and> take 2 s = ''dd'')"

definition validCarrier :: "string \<Rightarrow> bool" where
  "validCarrier mode \<longleftrightarrow>
     mode \<in> {'''', ''https'', ''https-lanes'', ''websocket'', ''websocket-lanes''}"

definition NewSecret :: "deployment \<Rightarrow> string option \<times> deployment" where
  "NewSecret d =
     (case randoms d of
        [] \<Rightarrow> (None, d)
      | r # rest \<Rightarrow> (map_option hex_string r, d\<lparr>randoms := rest\<rparr>))"

definition backendSecret :: "string \<Rightarrow> string" where
  "backendSecret secret = (if length secret = 34 \<and> HasPrefix secret ''dd'' then drop 2 secret else secret)"

definition LoadProfiles :: "deployment \<Rightarrow> (panel_error + KeyProfile list) \<times> deployment" where
  "LoadProfiles d =
     (case attempt d of (ok, d) \<Rightarrow>
      if \<not> ok then (Inl Unreadable, d)
      else case profiles_file d of Decodes (Some ps) _ \<Rightarrow> (Inr ps, d) | _ \<Rightarrow> (Inl Unreadable, d))"

text \<open>The file \<open>LoadProfiles\<close> reads back as the same list.\<close>

definition marshalProfiles :: "KeyProfile list \<Rightarrow> profiles_content" where
  "marshalProfiles profs = Decodes (Some profs) (Some profs)"

definition LoadMeta :: "deployment \<Rightarrow> (string, KeyMeta) assoc" where
  "LoadMeta d = (case meta_file d of None \<Rightarrow> [] | Some metas \<Rightarrow> metas)"

definition SaveMeta :: "(string, KeyMeta) assoc \<Rightarrow> deployment \<Rightarrow> bool \<times> deployment" where
  "SaveMeta meta d =
     (case attempt d of (ok, d) \<Rightarrow>
      if ok then writeFileAtomic False (meta_file_update (\<lambda>_. Some meta)) d else (False, d))"

definition maxProfiles :: "deployment \<Rightarrow> int" where
  "maxProfiles d =
     (case relay_max_profiles d of None \<Rightarrow> 32 | Some n \<Rightarrow> if n \<le> 0 then 32 else n)"

subsection \<open>The secrets of a backend\<close>

definition header_line :: string where
  "header_line = ''# Written by tproxy-keys. Do not edit by hand.''"

definition plain_key :: string where
  "plain_key = ''MTPROXY_SECRET_ARGS=''"

definition spread_key :: string where
  "spread_key = ''MTPROXY_BACKEND_SECRET_ARGS=''"

definition newline :: string where
  "newline = [CHR 0x0A]"

text \<open>A line the panel owns, or an empty one.\<close>

definition owned_line :: "string \<Rightarrow> bool" where
  "owned_line line \<longleftrightarrow>
     line = [] \<or> line = header_line \<or> HasPrefix line plain_key \<or> HasPrefix line spread_key"

definition upsertSecretArgs :: "string \<Rightarrow> string \<Rightarrow> string" where
  "upsertSecretArgs existing joinedArgs =
     (let kept = filter (\<lambda>line. \<not> owned_line line) (Split (CHR 0x0A) existing)
      in joined newline (kept @ [header_line, plain_key @ joinedArgs, spread_key @ joinedArgs]) @ newline)"

definition secret_args :: "KeyProfile list \<Rightarrow> string \<Rightarrow> string" where
  "secret_args profs addr =
     joined '' '' (map (\<lambda>p. ''-S '' @ backendSecret (kp_Secret p)) (filter (\<lambda>p. kp_Backend p = addr) profs))"

definition put_env :: "string \<Rightarrow> string \<Rightarrow> deployment \<Rightarrow> deployment" where
  "put_env path content d = d\<lparr>env_files := (env_files d)(path := Some content)\<rparr>"

text \<open>
  The file of one backend is read twice, first to keep its foreign lines, then to see whether
  it changes; a failure of the second reading counts as an empty file.
\<close>

definition sync_backend ::
  "KeyProfile list \<Rightarrow> BackendInfo \<Rightarrow> deployment \<Rightarrow> (panel_error + bool) \<times> deployment" where
  "sync_backend profs b d =
     (case attempt d of (ok, d) \<Rightarrow>
      if \<not> ok then (Inl SystemError, d)
      else
        let existing = (case env_files d (EnvFile b) of None \<Rightarrow> [] | Some s \<Rightarrow> s);
            content = upsertSecretArgs existing (secret_args profs (Address b))
        in (case attempt d of (ok, d) \<Rightarrow>
            let previous = (if ok then existing else []) in
            if previous = content then (Inr False, d)
            else (case writeFileAtomic True (put_env (EnvFile b) content) d of (ok, d) \<Rightarrow>
              if ok then (Inr True, d) else (Inl SystemError, d))))"

fun sync_loop ::
  "KeyProfile list \<Rightarrow> BackendInfo list \<Rightarrow> string list \<Rightarrow> deployment
     \<Rightarrow> (panel_error + string list) \<times> deployment" where
  "sync_loop profs [] changed d = (Inr changed, d)"
| "sync_loop profs (b # bs) changed d =
     (case sync_backend profs b d of
        (Inl e, d) \<Rightarrow> (Inl e, d)
      | (Inr c, d) \<Rightarrow> sync_loop profs bs (if c then changed @ [Unit b] else changed) d)"

definition syncBackendSecrets ::
  "BackendInfo list \<Rightarrow> KeyProfile list \<Rightarrow> deployment \<Rightarrow> (panel_error + string list) \<times> deployment" where
  "syncBackendSecrets registry profs d = sync_loop profs registry [] d"

subsection \<open>Restarting\<close>

definition restart_unit :: "string \<Rightarrow> deployment \<Rightarrow> bool \<times> deployment" where
  "restart_unit unit d =
     (case attempt d of (ok, d) \<Rightarrow> if ok then (True, d\<lparr>restarts := restarts d @ [unit]\<rparr>) else (False, d))"

fun restart_units :: "string list \<Rightarrow> deployment \<Rightarrow> panel_error option \<times> deployment" where
  "restart_units [] d = (None, d)"
| "restart_units (unit # units) d =
     (case restart_unit unit d of (ok, d) \<Rightarrow> if ok then restart_units units d else (Some (UnitFailed unit), d))"

definition relay_unit :: string where
  "relay_unit = ''tproxy-server.service''"

text \<open>The relay either reports ready within the deadline or it does not.\<close>

definition restartStack :: "string list \<Rightarrow> deployment \<Rightarrow> panel_error option \<times> deployment" where
  "restartStack units d =
     (case restart_units units d of
        (Some e, d) \<Rightarrow> (Some e, d)
      | (None, d) \<Rightarrow>
          (case restart_unit relay_unit d of (ok, d) \<Rightarrow>
           if \<not> ok then (Some RelayFailed, d)
           else case attempt d of (ready, d) \<Rightarrow> (if ready then None else Some NotReady, d)))"

subsection \<open>Applying a set of keys\<close>

text \<open>The checks of \<open>Apply\<close>, over the keys seen so far.\<close>

fun check_keys ::
  "string set \<Rightarrow> string set \<Rightarrow> string set \<Rightarrow> (string \<Rightarrow> nat) \<Rightarrow> KeyProfile list \<Rightarrow> panel_error option" where
  "check_keys registered seenName seenSecret perBackend [] = None"
| "check_keys registered seenName seenSecret perBackend (p # ps) =
     (if \<not> nameRE (kp_Name p) then Some (BadName (kp_Name p))
      else if \<not> secretRE (kp_Secret p) then Some (BadSecret (kp_Name p))
      else if \<not> validCarrier (kp_CarrierMode p) then Some (BadCarrier (kp_Name p))
      else if kp_Name p \<in> seenName then Some (NameTwice (kp_Name p))
      else if kp_Secret p \<in> seenSecret then Some (SecretTwice (kp_Name p))
      else if kp_Backend p \<notin> registered then Some (UnknownBackend (kp_Name p))
      else
        let n = Suc (perBackend (kp_Backend p)) in
        if n > maxSecretsPerBackend then Some (OverSecrets (kp_Backend p))
        else check_keys registered (insert (kp_Name p) seenName) (insert (kp_Secret p) seenSecret)
               (perBackend(kp_Backend p := n)) ps)"

definition put_profiles :: "profiles_content \<Rightarrow> deployment \<Rightarrow> deployment" where
  "put_profiles content d = d\<lparr>profiles_file := content\<rparr>"

text \<open>\<open>restore\<close> ignores whether the file could be written.\<close>

definition restore :: "profiles_content \<Rightarrow> deployment \<Rightarrow> deployment" where
  "restore previous d = snd (writeFileAtomic True (put_profiles previous) d)"

text \<open>The roll-back: the old file, its secrets if it decodes, and another restart.\<close>

definition roll_back ::
  "panel_error \<Rightarrow> BackendInfo list \<Rightarrow> profiles_content \<Rightarrow> string list \<Rightarrow> deployment
     \<Rightarrow> panel_error \<times> deployment" where
  "roll_back err registry previous changedUnits d =
     (let d = restore previous d in
      case (case previous of
              Decodes _ (Some old) \<Rightarrow>
                (case syncBackendSecrets registry old d of
                   (Inr units, d) \<Rightarrow> (units, d) | (Inl _, d) \<Rightarrow> (changedUnits, d))
            | _ \<Rightarrow> (changedUnits, d)) of (units, d) \<Rightarrow>
      (case restartStack units d of
         (Some second, d) \<Rightarrow> (RollbackFailed err second, d)
       | (None, d) \<Rightarrow> (RolledBack err, d)))"

text \<open>
  \<open>check\<close> is the verdict of the relay's own \<open>-check\<close> on the candidate file. The steps before it
  write the candidate to a temporary file that is removed again.
\<close>

definition install ::
  "(KeyProfile list \<Rightarrow> bool) \<Rightarrow> BackendInfo list \<Rightarrow> KeyProfile list \<Rightarrow> deployment
     \<Rightarrow> panel_error option \<times> deployment" where
  "install check registry profs d =
     (case attempt d of (ok, d) \<Rightarrow>
      if \<not> ok \<or> profiles_file d = Absent then (Some Unreadable, d)
      else
        let previous = profiles_file d in
        case attempts 3 d of (ok, d) \<Rightarrow>
        if \<not> ok then (Some SystemError, d)
        else if \<not> check profs then (Some RelayRejected, d)
        else case writeFileAtomic True (put_profiles (marshalProfiles profs)) d of (ok, d) \<Rightarrow>
        if \<not> ok then (Some SystemError, d)
        else case syncBackendSecrets registry profs d of
          (Inl err, d) \<Rightarrow> (Some err, restore previous d)
        | (Inr changedUnits, d) \<Rightarrow>
            (case restartStack changedUnits d of
               (None, d) \<Rightarrow> (None, d)
             | (Some err, d) \<Rightarrow>
                 (case roll_back err registry previous changedUnits d of (e, d) \<Rightarrow> (Some e, d))))"

definition Apply ::
  "(KeyProfile list \<Rightarrow> bool) \<Rightarrow> KeyProfile list \<Rightarrow> deployment \<Rightarrow> panel_error option \<times> deployment" where
  "Apply check profs d =
     (if profs = [] then (Some NoKeyRemains, d)
      else if len profs > maxProfiles d then (Some (OverMaxProfiles (maxProfiles d)), d)
      else case LoadBackends d of
        Inl e \<Rightarrow> (Some e, d)
      | Inr registry \<Rightarrow>
          (case check_keys (set (map Address registry)) {} {} (\<lambda>_. 0) profs of
             Some e \<Rightarrow> (Some e, d)
           | None \<Rightarrow> install check registry profs d))"

subsection \<open>The commands\<close>

record NewKeyRequest =
  rq_Name :: string
  rq_Label :: string
  rq_Group :: string
  rq_Mode :: string

fun check_requests :: "string set \<Rightarrow> NewKeyRequest list \<Rightarrow> panel_error option" where
  "check_requests taken [] = None"
| "check_requests taken (r # rs) =
     (let name = TrimSpace (rq_Name r) in
      if \<not> nameRE name then Some (BadName name)
      else if name \<in> taken then Some (KeyExists name)
      else if \<not> validCarrier (rq_Mode r) then Some (BadCarrier name)
      else check_requests (insert name taken) rs)"

fun assign_keys ::
  "(deployment \<Rightarrow> bool \<times> deployment) \<Rightarrow> BackendInfo list \<Rightarrow> (string \<Rightarrow> nat) \<Rightarrow> KeyProfile list
     \<Rightarrow> NewKeyRequest list \<Rightarrow> deployment \<Rightarrow> (panel_error + KeyProfile list) \<times> deployment" where
  "assign_keys provision registry usage added [] d = (Inr added, d)"
| "assign_keys provision registry usage added (r # rs) d =
     (case chooseBackend provision registry usage d of
        (Inl e, registry, d) \<Rightarrow> (Inl e, d)
      | (Inr addr, registry, d) \<Rightarrow>
          (case NewSecret d of
             (None, d) \<Rightarrow> (Inl RandomError, d)
           | (Some secret, d) \<Rightarrow>
               assign_keys provision registry (usage(addr := Suc (usage addr)))
                 (added @ [\<lparr>kp_Name = TrimSpace (rq_Name r), kp_Secret = secret, kp_Backend = addr,
                            kp_CarrierMode = rq_Mode r, kp_Limits = []\<rparr>]) rs d))"

definition add_meta ::
  "string \<Rightarrow> (NewKeyRequest \<times> KeyProfile) \<Rightarrow> (string, KeyMeta) assoc \<Rightarrow> (string, KeyMeta) assoc" where
  "add_meta now rp metas = AList.update (kp_Name (snd rp))
     \<lparr>km_Label = TrimSpace (rq_Label (fst rp)), km_Group = TrimSpace (rq_Group (fst rp)), km_Note = [],
      km_Created = now\<rparr> metas"

definition AddKeys ::
  "(deployment \<Rightarrow> bool \<times> deployment) \<Rightarrow> (KeyProfile list \<Rightarrow> bool) \<Rightarrow> string \<Rightarrow> NewKeyRequest list
     \<Rightarrow> deployment \<Rightarrow> (panel_error + KeyProfile list) \<times> deployment" where
  "AddKeys provision check now requests d =
     (if requests = [] then (Inl NoKeysRequested, d)
      else case LoadProfiles d of
        (Inl e, d) \<Rightarrow> (Inl e, d)
      | (Inr profs, d) \<Rightarrow>
      case LoadBackends d of
        Inl e \<Rightarrow> (Inl e, d)
      | Inr registry \<Rightarrow>
      if len profs + len requests > maxProfiles d then (Inl (OverMaxProfiles (maxProfiles d)), d)
      else case check_requests (set (map kp_Name profs)) requests of
        Some e \<Rightarrow> (Inl e, d)
      | None \<Rightarrow>
      (case assign_keys provision registry (backendUsage profs) [] requests d of
         (Inl e, d) \<Rightarrow> (Inl e, d)
       | (Inr added, d) \<Rightarrow>
           (case Apply check (profs @ added) d of
              (Some e, d) \<Rightarrow> (Inl e, d)
            | (None, d) \<Rightarrow> (Inr added, snd (SaveMeta (fold (add_meta now) (zip requests added) (LoadMeta d)) d)))))"

definition UpdateKeyMeta :: "string \<Rightarrow> string \<Rightarrow> string \<Rightarrow> string \<Rightarrow> deployment \<Rightarrow> panel_error option \<times> deployment" where
  "UpdateKeyMeta now name label grp d =
     (case LoadProfiles d of
        (Inl e, d) \<Rightarrow> (Some e, d)
      | (Inr profs, d) \<Rightarrow>
          if name \<notin> set (map kp_Name profs) then (Some (NoSuchKey name), d)
          else
            let metas = LoadMeta d;
                entry = (case map_of metas name of
                  None \<Rightarrow> \<lparr>km_Label = [], km_Group = [], km_Note = [], km_Created = []\<rparr> | Some e \<Rightarrow> e);
                entry = entry\<lparr>km_Label := TrimSpace label, km_Group := TrimSpace grp,
                  km_Created := (if km_Created entry = [] then now else km_Created entry)\<rparr>
            in (case SaveMeta (AList.update name entry metas) d of (ok, d) \<Rightarrow>
                (if ok then None else Some SystemError, d)))"

definition RevokeKey ::
  "(KeyProfile list \<Rightarrow> bool) \<Rightarrow> string \<Rightarrow> deployment \<Rightarrow> panel_error option \<times> deployment" where
  "RevokeKey check name d =
     (case LoadProfiles d of
        (Inl e, d) \<Rightarrow> (Some e, d)
      | (Inr profs, d) \<Rightarrow>
          let kept = filter (\<lambda>p. kp_Name p \<noteq> name) profs in
          if name \<notin> set (map kp_Name profs) then (Some (NoSuchKey name), d)
          else if kept = [] then (Some LastKey, d)
          else (case Apply check kept d of
            (Some e, d) \<Rightarrow> (Some e, d)
          | (None, d) \<Rightarrow> (None, snd (SaveMeta (AList.delete name (LoadMeta d)) d))))"

fun set_secret :: "string \<Rightarrow> string \<Rightarrow> KeyProfile list \<Rightarrow> KeyProfile list option" where
  "set_secret name secret [] = None"
| "set_secret name secret (p # ps) =
     (if kp_Name p = name then Some (p\<lparr>kp_Secret := secret\<rparr> # ps)
      else map_option ((#) p) (set_secret name secret ps))"

definition RotateKey ::
  "(KeyProfile list \<Rightarrow> bool) \<Rightarrow> string \<Rightarrow> deployment \<Rightarrow> (panel_error + KeyProfile) \<times> deployment" where
  "RotateKey check name d =
     (case LoadProfiles d of
        (Inl e, d) \<Rightarrow> (Inl e, d)
      | (Inr profs, d) \<Rightarrow>
      case NewSecret d of
        (None, d) \<Rightarrow> (Inl RandomError, d)
      | (Some secret, d) \<Rightarrow>
      case set_secret name secret profs of
        None \<Rightarrow> (Inl (NoSuchKey name), d)
      | Some profs \<Rightarrow>
          (case Apply check profs d of
             (Some e, d) \<Rightarrow> (Inl e, d)
           | (None, d) \<Rightarrow>
               (case find (\<lambda>p. kp_Name p = name) profs of
                  Some p \<Rightarrow> (Inr p, d)
                | None \<Rightarrow> (Inr \<lparr>kp_Name = [], kp_Secret = [], kp_Backend = [], kp_CarrierMode = [], kp_Limits = []\<rparr>, d))))"

definition Sync :: "deployment \<Rightarrow> panel_error option \<times> deployment" where
  "Sync d =
     (case LoadProfiles d of
        (Inl e, d) \<Rightarrow> (Some e, d)
      | (Inr profs, d) \<Rightarrow>
      case LoadBackends d of
        Inl e \<Rightarrow> (Some e, d)
      | Inr registry \<Rightarrow>
          (case syncBackendSecrets registry profs d of
             (Inl e, d) \<Rightarrow> (Some e, d)
           | (Inr _, d) \<Rightarrow> restartStack (map Unit registry) d))"

end
