(* ===== verification/Keys_Props.thy ===== *)
theory Keys_Props
  imports Keys
begin

text \<open>
  What holds of the key store: the files of the backends keep what is not the panel's, a set of
  keys that is applied is live as a whole, a single fault never leaves another profiles file
  than the old one or the new one, and the commands change what they name.
\<close>

subsection \<open>The file of a backend\<close>

lemma owned_written: "owned_line header_line" "owned_line (plain_key @ a)" "owned_line (spread_key @ a)" "owned_line []"
  by (simp_all add: owned_line_def)

lemma newline_free: "CHR 0x0A \<notin> set header_line" "CHR 0x0A \<notin> set plain_key" "CHR 0x0A \<notin> set spread_key"
  by (simp_all add: header_line_def plain_key_def spread_key_def)

lemma joined_snoc: "segs \<noteq> [] \<Longrightarrow> joined sep segs @ sep = joined sep (segs @ [[]])"
  by (induction sep segs rule: joined.induct) auto

lemma upsert_lines:
  assumes "CHR 0x0A \<notin> set a"
  shows "Split (CHR 0x0A) (upsertSecretArgs existing a) =
     filter (\<lambda>line. \<not> owned_line line) (Split (CHR 0x0A) existing) @
       [header_line, plain_key @ a, spread_key @ a, []]"
proof -
  let ?kept = "filter (\<lambda>line. \<not> owned_line line) (Split (CHR 0x0A) existing)"
  have "upsertSecretArgs existing a = joined newline (?kept @ [header_line, plain_key @ a, spread_key @ a, []])"
    by (simp add: upsertSecretArgs_def joined_snoc)
  moreover have "Split (CHR 0x0A) (joined [CHR 0x0A] (?kept @ [header_line, plain_key @ a, spread_key @ a, []])) =
      ?kept @ [header_line, plain_key @ a, spread_key @ a, []]"
    by (rule Split_joined) (use assms newline_free in \<open>auto dest: Split_no_sep\<close>)
  ultimately show ?thesis by (simp add: newline_def)
qed

lemma upsert_again:
  assumes "CHR 0x0A \<notin> set a"
  shows "upsertSecretArgs (upsertSecretArgs existing a) b = upsertSecretArgs existing b"
proof -
  have "filter (\<lambda>line. \<not> owned_line line) (Split (CHR 0x0A) (upsertSecretArgs existing a)) =
      filter (\<lambda>line. \<not> owned_line line) (Split (CHR 0x0A) existing)"
    unfolding upsert_lines [OF assms] by (simp add: owned_written)
  then show ?thesis by (simp add: upsertSecretArgs_def [of _ b])
qed



subsection \<open>What the steps leave alone\<close>

text \<open>The same machine but for the outcomes still to come.\<close>

definition same_machine :: "deployment \<Rightarrow> deployment \<Rightarrow> bool" where
  "same_machine d d' \<longleftrightarrow> d' = d\<lparr>outcomes := outcomes d'\<rparr>"

lemma same_machine_fields:
  assumes "same_machine d d'"
  shows "profiles_file d' = profiles_file d" "env_files d' = env_files d" "restarts d' = restarts d"
    "backends_file d' = backends_file d" "relay_max_profiles d' = relay_max_profiles d"
    "meta_file d' = meta_file d" "randoms d' = randoms d"
  using assms unfolding same_machine_def by (metis deployment.select_convs deployment.surjective deployment.update_convs)+

lemma same_machine_refl: "same_machine d d"
  by (simp add: same_machine_def)

lemma same_machine_trans: "same_machine d d' \<Longrightarrow> same_machine d' d'' \<Longrightarrow> same_machine d d''"
  unfolding same_machine_def by (metis deployment.surjective deployment.update_convs(7))

text \<open>At most one fault is still to come, or none.\<close>

definition one_fault :: "deployment \<Rightarrow> bool" where
  "one_fault d \<longleftrightarrow> outcomes d = [] \<or> (\<exists>k. outcomes d = replicate k True @ [False])"

text \<open>
  What every step keeps: after a success one fault can be left where one was, after a failure
  none is left.
\<close>

definition faults_left :: "deployment \<Rightarrow> bool \<Rightarrow> deployment \<Rightarrow> bool" where
  "faults_left d ok d' \<longleftrightarrow>
     (one_fault d \<longrightarrow> one_fault d' \<and> (\<not> ok \<longrightarrow> outcomes d' = [])) \<and> (outcomes d = [] \<longrightarrow> ok \<and> outcomes d' = [])"

lemma faults_left_trans:
  "faults_left d True d' \<Longrightarrow> faults_left d' ok d'' \<Longrightarrow> faults_left d ok d''"
  by (auto simp: faults_left_def)

lemma faults_left_ignored: "faults_left d ok d' \<Longrightarrow> faults_left d' True d'' \<Longrightarrow> faults_left d True d''"
  by (auto simp: faults_left_def)

lemma faults_left_put: "faults_left d ok d' \<Longrightarrow> outcomes d'' = outcomes d' \<Longrightarrow> faults_left d ok d''"
  by (auto simp: faults_left_def one_fault_def)

lemma attempt_step:
  assumes "attempt d = (ok, d')"
  shows "same_machine d d'" and "faults_left d ok d'"
proof -
  show "same_machine d d'" using assms by (auto simp: attempt_def same_machine_def split: list.splits)
  show "faults_left d ok d'"
  proof (cases "outcomes d")
    case Nil
    then show ?thesis using assms by (auto simp: attempt_def faults_left_def)
  next
    case (Cons x rest)
    have "rest = [] \<or> (\<exists>j. rest = replicate j True @ [False])" "\<not> x \<longrightarrow> rest = []"
      if "x # rest = replicate k True @ [False]" for k
      using that by (cases k; auto)+
    then show ?thesis using assms Cons by (auto simp: attempt_def faults_left_def one_fault_def)
  qed
qed

lemma attempts_step:
  "attempts n d = (ok, d') \<Longrightarrow> same_machine d d' \<and> faults_left d ok d'"
proof (induction n arbitrary: d)
  case 0
  then show ?case by (auto simp: same_machine_refl faults_left_def)
next
  case (Suc n)
  obtain ok1 d1 where a: "attempt d = (ok1, d1)" by fastforce
  note s = attempt_step [OF a]
  show ?case
  proof (cases ok1)
    case True
    then have "attempts n d1 = (ok, d')" using Suc.prems a by simp
    note ih = Suc.IH [OF this]
    have "faults_left d True d1" using s True by simp
    then show ?thesis using ih s(1) by (blast intro: same_machine_trans faults_left_trans)
  qed (use Suc.prems a s in auto)
qed

text \<open>An atomic write either replaces the file or leaves everything as it was.\<close>

lemma writeFileAtomic_step:
  assumes "writeFileAtomic grouped put d = (ok, d')" and "\<And>x. outcomes (put x) = outcomes x"
  shows "\<exists>x. same_machine d x \<and> d' = (if ok then put x else x) \<and> faults_left d ok d'"
proof -
  obtain ok1 d1 where 1: "attempts 3 d = (ok1, d1)" by fastforce
  note s1 = attempts_step [OF 1]
  show ?thesis
  proof (cases ok1)
    case False
    then show ?thesis using assms(1) 1 s1 by (auto simp: writeFileAtomic_def)
  next
    case True
    obtain ok2 d2 where 2: "(if grouped then
        (case attempt d1 of (known, d) \<Rightarrow> if known then attempt d else (True, d)) else (True, d1)) = (ok2, d2)"
      by fastforce
    have s2: "same_machine d1 d2 \<and> faults_left d1 ok2 d2"
    proof (cases grouped)
      case True
      obtain k d3 where k: "attempt d1 = (k, d3)" by fastforce
      note sk = attempt_step [OF k]
      show ?thesis
      proof (cases k)
        case kn: True
        then have "attempt d3 = (ok2, d2)" using 2 k True by simp
        note s3 = attempt_step [OF this]
        have "faults_left d1 True d3" using sk kn by simp
        then show ?thesis using s3 sk(1) by (blast intro: same_machine_trans faults_left_trans)
      next
        case False
        then have "d2 = d3" "ok2" using 2 k True by auto
        then show ?thesis using sk by (auto simp: faults_left_def)
      qed
    qed (use 2 in \<open>auto simp: same_machine_refl faults_left_def\<close>)
    have s12: "same_machine d d2 \<and> faults_left d ok2 d2"
      using s1 s2 True by (auto intro: same_machine_trans faults_left_trans)
    show ?thesis
    proof (cases ok2)
      case False
      then show ?thesis using assms(1) 1 2 True s12 by (auto simp: writeFileAtomic_def)
    next
      case o: True
      obtain ok3 d3 where 3: "attempts 3 d2 = (ok3, d3)" by fastforce
      note s3 = attempts_step [OF 3]
      have "ok = ok3" "d' = (if ok3 then put d3 else d3)"
        using assms(1) 1 2 3 True o by (auto simp: writeFileAtomic_def split: if_split_asm)
      moreover have "same_machine d d3" "faults_left d ok3 d3"
        using s12 s3 o by (auto intro: same_machine_trans faults_left_trans)
      ultimately show ?thesis
        using assms(2) faults_left_put by (intro exI [of _ d3]) (auto split: if_splits)
    qed
  qed
qed

subsection \<open>Synchronising and restarting\<close>

text \<open>What the file of a backend is to hold.\<close>

definition written :: "KeyProfile list \<Rightarrow> (string \<Rightarrow> string option) \<Rightarrow> BackendInfo \<Rightarrow> string" where
  "written profs env b =
     upsertSecretArgs (case env (EnvFile b) of None \<Rightarrow> [] | Some s \<Rightarrow> s) (secret_args profs (Address b))"

lemma written_not_empty: "written profs env b \<noteq> []"
  by (simp add: written_def upsertSecretArgs_def newline_def Let_def)

text \<open>Equal but for the environment files and the outcomes.\<close>

definition same_but_env :: "deployment \<Rightarrow> deployment \<Rightarrow> bool" where
  "same_but_env d d' \<longleftrightarrow> d' = d\<lparr>env_files := env_files d', outcomes := outcomes d'\<rparr>"

lemma same_but_env_fields:
  assumes "same_but_env d d'"
  shows "profiles_file d' = profiles_file d" "restarts d' = restarts d" "backends_file d' = backends_file d"
    "relay_max_profiles d' = relay_max_profiles d" "meta_file d' = meta_file d"
  using assms unfolding same_but_env_def by (metis deployment.select_convs deployment.surjective deployment.update_convs)+

lemma same_but_env_trans: "same_but_env d d' \<Longrightarrow> same_but_env d' d'' \<Longrightarrow> same_but_env d d''"
  by (cases d; cases d'; cases d'') (simp add: same_but_env_def)

lemma same_machine_but_env: "same_machine d d' \<Longrightarrow> same_but_env d d'"
  by (cases d; cases d') (simp add: same_machine_def same_but_env_def)

lemma same_but_env_put: "same_machine d x \<Longrightarrow> same_but_env d (put_env p c x)"
  by (cases d; cases x) (simp add: same_machine_def same_but_env_def put_env_def)

lemma sync_backend_step:
  assumes "sync_backend profs b d = (r, d')"
  shows "same_but_env d d' \<and> faults_left d (\<exists>c. r = Inr c) d' \<and>
     (\<forall>e. r = Inl e \<longrightarrow> env_files d' = env_files d) \<and>
     (\<forall>c. r = Inr c \<longrightarrow> env_files d' = (env_files d)(EnvFile b := Some (written profs (env_files d) b)) \<and>
        (c \<or> env_files d' = env_files d))"
proof -
  obtain ok1 d1 where 1: "attempt d = (ok1, d1)" by fastforce
  note s1 = attempt_step [OF 1] note f1 = same_machine_fields [OF s1(1)]
  show ?thesis
  proof (cases ok1)
    case False
    then have "r = Inl SystemError" "d' = d1" using assms 1 by (auto simp: sync_backend_def)
    then show ?thesis using s1 f1 False same_machine_but_env by auto
  next
    case True
    obtain ok2 d2 where 2: "attempt d1 = (ok2, d2)" by fastforce
    note s2 = attempt_step [OF 2]
    have s: "same_machine d d2" using s1(1) s2(1) by (rule same_machine_trans)
    have f: "env_files d2 = env_files d" using same_machine_fields [OF s] by simp
    let ?w = "written profs (env_files d) b"
    let ?old = "case env_files d (EnvFile b) of None \<Rightarrow> [] | Some s \<Rightarrow> s"
    have fl: "faults_left d True d2"
      using s1(2) s2(2) True by (auto simp: faults_left_def)
    have u: "sync_backend profs b d =
        (if (if ok2 then ?old else []) = ?w then (Inr False, d2)
         else (case writeFileAtomic True (put_env (EnvFile b) ?w) d2 of (ok, d) \<Rightarrow>
           if ok then (Inr True, d) else (Inl SystemError, d)))"
      by (simp add: sync_backend_def 1 2 True f1 written_def Let_def cong: if_cong)
    show ?thesis
    proof (cases "(if ok2 then ?old else []) = ?w")
      case eq: True
      then have "ok2" "env_files d (EnvFile b) = Some ?w"
        using written_not_empty [of profs "env_files d" b] by (auto split: if_splits option.splits)
      moreover have "r = Inr False" "d' = d2"
        using assms unfolding u if_P [OF eq] by auto
      moreover have "Ex Not" by auto
      ultimately show ?thesis using fl f s same_machine_but_env by (auto simp: fun_upd_idem)
    next
      case ne: False
      obtain ok3 d3 where 3: "writeFileAtomic True (put_env (EnvFile b) ?w) d2 = (ok3, d3)" by fastforce
      have o: "outcomes (put_env p c x) = outcomes x" for p c x by (simp add: put_env_def)
      obtain x where x: "same_machine d2 x" "d3 = (if ok3 then put_env (EnvFile b) ?w x else x)" "faults_left d2 ok3 d3"
        using writeFileAtomic_step [OF 3 o] by blast
      have dx: "same_machine d x" using s x(1) by (rule same_machine_trans)
      have r: "r = (if ok3 then Inr True else Inl SystemError)" "d' = d3"
        using assms unfolding u if_not_P [OF ne] 3 by (auto split: if_splits)
      have "Ex (\<lambda>c. c)" by auto
      moreover have "faults_left d ok3 d3" using fl x(3) by (rule faults_left_trans)
      ultimately show ?thesis
        using r x(2) dx same_machine_fields(2) [OF dx] same_machine_but_env [OF dx] same_but_env_put [OF dx]
        by (auto simp: put_env_def)
    qed
  qed
qed

lemma written_cong: "env (EnvFile b) = env' (EnvFile b) \<Longrightarrow> written profs env b = written profs env' b"
  by (simp add: written_def)

lemma sync_loop_step:
  "sync_loop profs bs changed d = (r, d') \<Longrightarrow> same_but_env d d' \<and> faults_left d (\<exists>c. r = Inr c) d'"
proof (induction bs arbitrary: changed d)
  case Nil
  then show ?case by (auto simp: same_machine_but_env same_machine_refl faults_left_def)
next
  case (Cons b bs)
  obtain r1 d1 where 1: "sync_backend profs b d = (r1, d1)" by fastforce
  note s = sync_backend_step [OF 1]
  show ?case
  proof (cases r1)
    case (Inl e)
    then show ?thesis using Cons.prems 1 s by auto
  next
    case (Inr c)
    then have "sync_loop profs bs (if c then changed @ [Unit b] else changed) d1 = (r, d')" using Cons.prems 1 by simp
    from Cons.IH [OF this] show ?thesis
      using s Inr by (auto intro: same_but_env_trans faults_left_trans)
  qed
qed

lemma sync_loop_synced:
  "sync_loop profs bs changed d = (Inr ch, d') \<Longrightarrow> distinct (map EnvFile bs) \<Longrightarrow>
     (\<forall>b \<in> set bs. env_files d' (EnvFile b) = Some (written profs (env_files d) b)) \<and>
     (\<forall>path. path \<notin> EnvFile ` set bs \<longrightarrow> env_files d' path = env_files d path) \<and>
     (\<exists>more. ch = changed @ more \<and> set more \<subseteq> Unit ` set bs \<and>
        (\<forall>b \<in> set bs. env_files d' (EnvFile b) \<noteq> env_files d (EnvFile b) \<longrightarrow> Unit b \<in> set more))"
proof (induction bs arbitrary: changed d)
  case (Cons b bs)
  obtain r1 d1 where 1: "sync_backend profs b d = (r1, d1)" by fastforce
  with Cons.prems(1) obtain c where r: "r1 = Inr c" by (cases r1) auto
  note s = sync_backend_step [OF 1 [unfolded r]]
  have "sync_loop profs bs (if c then changed @ [Unit b] else changed) d1 = (Inr ch, d')"
    using Cons.prems(1) 1 r by simp
  note ih = Cons.IH [OF this]
  have nb: "EnvFile b \<notin> EnvFile ` set bs" using Cons.prems(2) by simp
  have w: "written profs (env_files d1) b' = written profs (env_files d) b'" if "b' \<in> set bs" for b'
  proof (rule written_cong)
    have "EnvFile b' \<noteq> EnvFile b" using nb that by (metis imageI)
    then show "env_files d1 (EnvFile b') = env_files d (EnvFile b')" using s by auto
  qed
  have e: "env_files d1 = (env_files d)(EnvFile b := Some (written profs (env_files d) b))"
    "c \<or> env_files d1 = env_files d" using s by auto
  have eb: "env_files d' (EnvFile b) = env_files d1 (EnvFile b)" using ih Cons.prems(2) nb by simp
  have e': "env_files d1 (EnvFile b') = env_files d (EnvFile b')" if "b' \<in> set bs" for b'
    using e(1) nb that by (metis fun_upd_other imageI)
  obtain more where m: "ch = (if c then changed @ [Unit b] else changed) @ more" "set more \<subseteq> Unit ` set bs"
    "\<forall>b \<in> set bs. env_files d' (EnvFile b) \<noteq> env_files d1 (EnvFile b) \<longrightarrow> Unit b \<in> set more"
    using ih Cons.prems(2) by auto
  have ih1: "env_files d' (EnvFile b') = Some (written profs (env_files d1) b')" if "b' \<in> set bs" for b'
    using ih Cons.prems(2) that by simp
  have 1: "env_files d' (EnvFile b') = Some (written profs (env_files d) b')" if "b' \<in> set (b # bs)" for b'
  proof (cases "b' = b")
    case True
    then show ?thesis using eb e(1) by simp
  next
    case False
    then show ?thesis using that ih1 w by simp
  qed
  have 2: "env_files d' path = env_files d path" if "path \<notin> EnvFile ` set (b # bs)" for path
    using that ih Cons.prems(2) e(1) by simp
  have 3: "Unit b' \<in> set ((if c then [Unit b] else []) @ more)"
    if "b' \<in> set (b # bs)" "env_files d' (EnvFile b') \<noteq> env_files d (EnvFile b')" for b'
    using that m(3) e(2) e' eb by (cases "b' = b") auto
  show ?case
    using 1 2 3 m(1,2) by (intro conjI ballI allI impI exI [of _ "(if c then [Unit b] else []) @ more"]) auto
qed auto

lemma restart_units_step:
  "restart_units units d = (r, d') \<Longrightarrow>
     profiles_file d' = profiles_file d \<and> env_files d' = env_files d \<and> faults_left d (r = None) d' \<and>
     (r = None \<longrightarrow> restarts d' = restarts d @ units)"
proof (induction units arbitrary: d)
  case Nil
  then show ?case by (auto simp: faults_left_def)
next
  case (Cons unit units)
  obtain ok d1 where 1: "attempt d = (ok, d1)" by fastforce
  note s = attempt_step [OF 1] note f = same_machine_fields [OF s(1)]
  show ?case
  proof (cases ok)
    case False
    then show ?thesis using Cons.prems 1 s f by (auto simp: restart_unit_def)
  next
    case True
    let ?d = "d1\<lparr>restarts := restarts d1 @ [unit]\<rparr>"
    have "restart_units units ?d = (r, d')" using Cons.prems 1 True by (simp add: restart_unit_def)
    moreover have "faults_left d True ?d" using s(2) True by (auto intro: faults_left_put)
    ultimately show ?thesis using Cons.IH [of ?d] f by (auto intro: faults_left_trans)
  qed
qed

lemma restartStack_step:
  assumes "restartStack units d = (r, d')"
  shows "profiles_file d' = profiles_file d \<and> env_files d' = env_files d \<and> faults_left d (r = None) d' \<and>
     (r = None \<longrightarrow> restarts d' = restarts d @ units @ [relay_unit])"
proof -
  obtain r1 d1 where 1: "restart_units units d = (r1, d1)" by fastforce
  note s1 = restart_units_step [OF 1]
  show ?thesis
  proof (cases r1)
    case (Some e)
    then show ?thesis using assms 1 s1 by (auto simp: restartStack_def)
  next
    case None
    obtain ok2 d2 where 2: "attempt d1 = (ok2, d2)" by fastforce
    note s2 = attempt_step [OF 2] note f2 = same_machine_fields [OF s2(1)]
    have fl: "faults_left d ok2 d2" using s1 s2(2) None by (auto intro: faults_left_trans)
    show ?thesis
    proof (cases ok2)
      case False
      then show ?thesis using assms 1 2 None s1 f2 fl by (auto simp: restartStack_def restart_unit_def)
    next
      case True
      let ?d = "d2\<lparr>restarts := restarts d2 @ [relay_unit]\<rparr>"
      obtain ok3 d3 where 3: "attempt ?d = (ok3, d3)" by fastforce
      note s3 = attempt_step [OF 3] note f3 = same_machine_fields [OF s3(1)]
      have r: "r = (if ok3 then None else Some NotReady)" "d' = d3"
        using assms 1 2 3 None True by (auto simp: restartStack_def restart_unit_def)
      have "faults_left d True ?d" using fl True by (auto intro: faults_left_put)
      then have "faults_left d ok3 d3" using s3(2) by (rule faults_left_trans)
      then show ?thesis using r s1 f2 f3 None by (cases ok3) simp_all
    qed
  qed
qed

subsection \<open>Applying a set of keys\<close>

text \<open>The sets of keys \<open>Apply\<close> admits for the given addresses of backends.\<close>

definition valid_key :: "string set \<Rightarrow> KeyProfile \<Rightarrow> bool" where
  "valid_key registered p \<longleftrightarrow>
     nameRE (kp_Name p) \<and> secretRE (kp_Secret p) \<and> validCarrier (kp_CarrierMode p) \<and> kp_Backend p \<in> registered"

definition valid_keys :: "string set \<Rightarrow> KeyProfile list \<Rightarrow> bool" where
  "valid_keys registered profs \<longleftrightarrow>
     list_all (valid_key registered) profs \<and> distinct (map kp_Name profs) \<and> distinct (map kp_Secret profs) \<and>
     (\<forall>addr. backendUsage profs addr \<le> maxSecretsPerBackend)"

lemma backendUsage_simps [simp]:
  "backendUsage [] addr = 0"
  "backendUsage (p # ps) addr = (if kp_Backend p = addr then Suc (backendUsage ps addr) else backendUsage ps addr)"
  by (simp_all add: backendUsage_def)

lemma backendUsage_absent: "addr \<notin> kp_Backend ` set ps \<Longrightarrow> backendUsage ps addr = 0"
  by (induction ps) auto

lemma backendUsage_append: "backendUsage (ps @ qs) addr = backendUsage ps addr + backendUsage qs addr"
  by (simp add: backendUsage_def)

lemma check_keys_None:
  "check_keys registered names secrets usage ps = None \<longleftrightarrow>
     list_all (valid_key registered) ps \<and> distinct (map kp_Name ps) \<and> distinct (map kp_Secret ps) \<and>
     set (map kp_Name ps) \<inter> names = {} \<and> set (map kp_Secret ps) \<inter> secrets = {} \<and>
     (\<forall>addr \<in> kp_Backend ` set ps. usage addr + backendUsage ps addr \<le> maxSecretsPerBackend)"
proof (induction ps arbitrary: names secrets usage)
  case (Cons p ps)
  let ?a = "kp_Backend p"
  have u: "(\<forall>addr \<in> kp_Backend ` set (p # ps). usage addr + backendUsage (p # ps) addr \<le> maxSecretsPerBackend) \<longleftrightarrow>
      Suc (usage ?a) \<le> maxSecretsPerBackend \<and>
      (\<forall>addr \<in> kp_Backend ` set ps. (usage(?a := Suc (usage ?a))) addr + backendUsage ps addr \<le> maxSecretsPerBackend)"
    (is "?L \<longleftrightarrow> ?R")
  proof
    assume l: ?L
    have each: "usage addr + backendUsage (p # ps) addr \<le> maxSecretsPerBackend" if "addr = ?a \<or> addr \<in> kp_Backend ` set ps" for addr
      using bspec [OF l, of addr] that by simp
    have "(usage(?a := Suc (usage ?a))) addr + backendUsage ps addr \<le> maxSecretsPerBackend"
      if "addr \<in> kp_Backend ` set ps" for addr using each [of addr] that by (cases "addr = ?a") simp_all
    moreover have "Suc (usage ?a) \<le> maxSecretsPerBackend" using each [of ?a] by simp
    ultimately show ?R by blast
  next
    assume r: ?R
    show ?L
    proof
      fix addr assume "addr \<in> kp_Backend ` set (p # ps)"
      then consider "addr \<in> kp_Backend ` set ps" | "addr = ?a" "?a \<notin> kp_Backend ` set ps" by auto
      then show "usage addr + backendUsage (p # ps) addr \<le> maxSecretsPerBackend"
      proof cases
        case 1
        then show ?thesis using bspec [OF conjunct2 [OF r] 1] by (cases "addr = ?a") simp_all
      next
        case 2
        then show ?thesis using conjunct1 [OF r] backendUsage_absent [OF 2(2)] by simp
      qed
    qed
  qed
  have e: "check_keys registered names secrets usage (p # ps) = None \<longleftrightarrow>
      valid_key registered p \<and> kp_Name p \<notin> names \<and> kp_Secret p \<notin> secrets \<and> Suc (usage ?a) \<le> maxSecretsPerBackend \<and>
      check_keys registered (insert (kp_Name p) names) (insert (kp_Secret p) secrets)
        (usage(?a := Suc (usage ?a))) ps = None"
    by (auto simp: valid_key_def Let_def)
  show ?case unfolding e u Cons.IH by auto
qed simp

lemma check_keys_valid: "check_keys registered {} {} (\<lambda>_. 0) profs = None \<longleftrightarrow> valid_keys registered profs"
proof -
  have "(\<forall>addr \<in> kp_Backend ` set profs. backendUsage profs addr \<le> maxSecretsPerBackend) \<longleftrightarrow>
      (\<forall>addr. backendUsage profs addr \<le> maxSecretsPerBackend)"
    using backendUsage_absent [of _ profs] by (metis zero_le)
  then show ?thesis by (auto simp: check_keys_None valid_keys_def)
qed

text \<open>How far \<open>install\<close> gets: a fault before the file is replaced, during the synchronisation, or after it.\<close>

lemma install_cases:
  assumes "install check registry profs d = (r, d')"
  obtains (early) "r \<noteq> None" "\<forall>f g. r \<noteq> Some (RolledBack f) \<and> r \<noteq> Some (RollbackFailed f g)"
      "same_machine d d'"
  | (synced) x dx err where "same_machine d x" "faults_left d True x" "check profs" "profiles_file d \<noteq> Absent"
      "syncBackendSecrets registry profs (put_profiles (marshalProfiles profs) x) = (Inl err, dx)"
      "r = Some err" "d' = restore (profiles_file d) dx"
  | (live) x dx units where "same_machine d x" "faults_left d True x" "check profs" "profiles_file d \<noteq> Absent"
      "syncBackendSecrets registry profs (put_profiles (marshalProfiles profs) x) = (Inr units, dx)"
      "restartStack units dx = (None, d')" "r = None"
  | (failed) x dx units dy err e where "same_machine d x" "faults_left d True x" "check profs" "profiles_file d \<noteq> Absent"
      "syncBackendSecrets registry profs (put_profiles (marshalProfiles profs) x) = (Inr units, dx)"
      "restartStack units dx = (Some err, dy)" "roll_back err registry (profiles_file d) units dy = (e, d')" "r = Some e"
proof -
  obtain ok1 d1 where 1: "attempt d = (ok1, d1)" by fastforce
  note s1 = attempt_step [OF 1]
  have p1: "profiles_file d1 = profiles_file d" using same_machine_fields(1) [OF s1(1)] .
  show thesis
  proof (cases "\<not> ok1 \<or> profiles_file d = Absent")
    case True
    then show thesis using early assms 1 s1 p1 by (auto simp: install_def)
  next
    case go: False
    obtain ok2 d2 where 2: "attempts 3 d1 = (ok2, d2)" by fastforce
    note s2 = attempts_step [OF 2]
    have m2: "same_machine d d2" using s1(1) s2 by (blast intro: same_machine_trans)
    show thesis
    proof (cases "ok2 \<and> check profs")
      case False
      then show thesis using early assms 1 2 go m2 p1 by (auto simp: install_def Let_def split: if_splits)
    next
      case go2: True
      obtain ok3 d3 where 3: "writeFileAtomic True (put_profiles (marshalProfiles profs)) d2 = (ok3, d3)" by fastforce
      have o: "outcomes (put_profiles c x) = outcomes x" for c x by (simp add: put_profiles_def)
      obtain x where x: "same_machine d2 x" "d3 = (if ok3 then put_profiles (marshalProfiles profs) x else x)"
        "faults_left d2 ok3 d3" using writeFileAtomic_step [OF 3 o] by blast
      have mx: "same_machine d x" using m2 x(1) by (rule same_machine_trans)
      show thesis
      proof (cases ok3)
        case False
        then show thesis using early assms 1 2 3 go go2 x(2) mx p1 by (auto simp: install_def Let_def)
      next
        case True
        have f2: "faults_left d True d2" using s1(2) s2 go go2 by (auto intro: faults_left_trans)
        then have "faults_left d True d3" using x(3) True by (auto intro: faults_left_trans)
        then have fx: "faults_left d True x" using x(2) True o by (auto intro: faults_left_put)
        have rest: "(case syncBackendSecrets registry profs (put_profiles (marshalProfiles profs) x) of
            (Inl err, dx) \<Rightarrow> (Some err, restore (profiles_file d) dx)
          | (Inr units, dx) \<Rightarrow> (case restartStack units dx of
               (None, dy) \<Rightarrow> (None, dy)
             | (Some err, dy) \<Rightarrow>
                 (case roll_back err registry (profiles_file d) units dy of (e, dz) \<Rightarrow> (Some e, dz)))) = (r, d')"
          using assms 1 2 3 go go2 True x(2) p1 by (simp add: install_def Let_def)
        show thesis
          using rest synced [OF mx fx] live [OF mx fx] failed [OF mx fx] go go2
          by (auto split: prod.splits sum.splits option.splits)
      qed
    qed
  qed
qed

text \<open>The arguments of valid keys fit on a line, so that writing again replaces them.\<close>

lemma secret_args_line:
  assumes "list_all (valid_key registered) profs"
  shows "CHR 0x0A \<notin> set (secret_args profs addr)"
proof -
  have one: "CHR 0x0A \<notin> set (backendSecret (kp_Secret p))" if "p \<in> set profs" for p
  proof -
    have "list_all hex_digit (kp_Secret p)"
      using assms that by (auto simp: list_all_iff valid_key_def secretRE_def)
    then have "CHR 0x0A \<notin> set (kp_Secret p)" by (auto simp: list_all_iff hex_digit_def)
    then show ?thesis by (auto simp: backendSecret_def dest: in_set_dropD)
  qed
  have "set (joined '' '' xs) \<subseteq> insert (CHR '' '') (\<Union> (set ` set xs))" for xs
    by (induction "'' ''" xs rule: joined.induct) auto
  from subsetD [OF this] show ?thesis using one by (fastforce simp: secret_args_def)
qed

lemma written_again:
  assumes "valid_keys registered profs"
  shows "upsertSecretArgs (written profs env b) a = upsertSecretArgs (case env (EnvFile b) of None \<Rightarrow> [] | Some s \<Rightarrow> s) a"
proof -
  have "CHR 0x0A \<notin> set (secret_args profs (Address b))"
    by (rule secret_args_line [of registered]) (use assms in \<open>simp add: valid_keys_def\<close>)
  from upsert_again [OF this] show ?thesis by (simp add: written_def)
qed

lemma sync_loop_error: "sync_loop profs bs changed d = (Inl e, d') \<Longrightarrow> e = SystemError"
proof (induction bs arbitrary: changed d)
  case (Cons b bs)
  have "e1 = SystemError" if "sync_backend profs b d = (Inl e1, d1)" for e1 d1
    using that by (auto simp: sync_backend_def Let_def split: prod.splits if_splits)
  with Cons show ?case by (auto split: prod.splits sum.splits)
qed simp

lemma Apply_install:
  assumes "Apply check profs d = (r, d')"
  obtains (refused) e where "r = Some e" "d' = d" "\<forall>f g. e \<noteq> RolledBack f \<and> e \<noteq> RollbackFailed f g"
  | (installed) registry where "LoadBackends d = Inr registry" "valid_keys (set (map Address registry)) profs"
      "install check registry profs d = (r, d')"
proof -
  have c: "e \<noteq> RolledBack f \<and> e \<noteq> RollbackFailed f g"
    if "check_keys R N S U ps = Some e" for R N S U ps e f g
    using that by (induction ps arbitrary: N S U) (auto simp: Let_def split: if_splits)
  have b: "e \<noteq> RolledBack f \<and> e \<noteq> RollbackFailed f g" if "LoadBackends d = Inl e" for e f g
    using that by (auto simp: LoadBackends_def split: option.splits if_splits)
  show thesis
  proof (cases "profs = [] \<or> len profs > maxProfiles d")
    case True
    then show thesis using refused assms by (auto simp: Apply_def split: if_split_asm)
  next
    case go: False
    show thesis
    proof (cases "LoadBackends d")
      case (Inl e)
      then show thesis using refused assms go b by (auto simp: Apply_def)
    next
      case (Inr registry)
      show thesis
      proof (cases "check_keys (set (map Address registry)) {} {} (\<lambda>_. 0) profs")
        case None
        then have "valid_keys (set (map Address registry)) profs" by (simp add: check_keys_valid)
        then show thesis using installed [OF Inr] assms go Inr None by (simp add: Apply_def)
      next
        case (Some e)
        then show thesis using refused [of e] assms go Inr c [OF Some] by (simp add: Apply_def)
      qed
    qed
  qed
qed

lemma Apply_live:
  assumes "Apply check profs d = (None, d')" and "LoadBackends d = Inr registry"
    and "distinct (map EnvFile registry)"
  shows "valid_keys (set (map Address registry)) profs \<and> check profs \<and>
     profiles_file d' = marshalProfiles profs \<and>
     (\<forall>b \<in> set registry. env_files d' (EnvFile b) = Some (written profs (env_files d) b)) \<and>
     (\<forall>path. path \<notin> EnvFile ` set registry \<longrightarrow> env_files d' path = env_files d path) \<and>
     (\<exists>units. restarts d' = restarts d @ units @ [relay_unit] \<and>
        (\<forall>b \<in> set registry. env_files d' (EnvFile b) \<noteq> env_files d (EnvFile b) \<longrightarrow> Unit b \<in> set units))"
  using assms(1)
proof (cases rule: Apply_install)
  case (installed registry')
  then have v: "valid_keys (set (map Address registry)) profs" and i: "install check registry profs d = (None, d')"
    using assms(2) by auto
  from i show ?thesis
  proof (cases rule: install_cases)
    case (live x dx units)
    have f: "env_files (put_profiles c x) = env_files d" "restarts (put_profiles c x) = restarts d"
      "profiles_file (put_profiles c x) = c" for c
      using same_machine_fields [OF live(1)] by (simp_all add: put_profiles_def)
    note sy = sync_loop_synced [OF live(5) [unfolded syncBackendSecrets_def] assms(3), unfolded f]
    note st = sync_loop_step [OF live(5) [unfolded syncBackendSecrets_def]]
    note b = same_but_env_fields [OF conjunct1 [OF st], unfolded f]
    note r = restartStack_step [OF live(6)]
    show ?thesis using v live(3) sy b r by auto
  qed simp_all
qed simp

text \<open>
  C16: a set of keys that is applied is live as a whole. When \<open>Apply\<close> succeeds, whatever went
  wrong on the way, the keys are valid, with different names and secrets and at most 16 on every
  backend, the relay's own check accepted them, the profiles file holds exactly these keys, the
  file of every registered backend holds exactly its secrets beside its foreign lines, no other
  file has changed, and every unit whose file changed has been restarted, with the relay last.
\<close>
theorem applied_keys_live:
  assumes "Apply check profs d = (None, d')" and "LoadBackends d = Inr registry"
    and "distinct (map EnvFile registry)"
  shows "valid_keys (set (map Address registry)) profs \<and> check profs \<and>
     profiles_file d' = marshalProfiles profs \<and>
     (\<forall>b \<in> set registry. env_files d' (EnvFile b) = Some (written profs (env_files d) b)) \<and>
     (\<forall>path. path \<notin> EnvFile ` set registry \<longrightarrow> env_files d' path = env_files d path) \<and>
     (\<exists>units. restarts d' = restarts d @ units @ [relay_unit] \<and>
        (\<forall>b \<in> set registry. env_files d' (EnvFile b) \<noteq> env_files d (EnvFile b) \<longrightarrow> Unit b \<in> set units))"
  by (rule Apply_live [OF assms])

text \<open>
  C17: a single fault does not leave a set of keys nobody chose. When one operation of the system
  fails during \<open>Apply\<close>, wherever it is, and all others succeed, then a failed \<open>Apply\<close> leaves the
  profiles file as it was, the roll-back does not fail, and if it came to a roll-back, the file
  of every backend holds the secrets of the old keys beside its foreign lines.
\<close>
theorem failed_apply_restores:
  assumes "Apply check profs d = (Some e, d')" and "one_fault d"
    and "LoadBackends d = Inr registry" and "distinct (map EnvFile registry)"
    and "profiles_file d = Decodes strict (Some old)"
  shows "profiles_file d' = profiles_file d \<and> (\<forall>f g. e \<noteq> RollbackFailed f g) \<and>
     (\<forall>f b. e = RolledBack f \<longrightarrow> b \<in> set registry \<longrightarrow>
        env_files d' (EnvFile b) = Some (written old (env_files d) b))"
  using assms(1)
proof (cases rule: Apply_install)
  case (installed registry')
  then have v: "valid_keys (set (map Address registry)) profs" and i: "install check registry profs d = (Some e, d')"
    using assms(3) by auto
  have rest: "profiles_file (restore c y) = c" "outcomes (restore c y) = []" "env_files (restore c y) = env_files y"
    if "outcomes y = []" for c y
  proof -
    have o: "outcomes (put_profiles c z) = outcomes z" for z by (simp add: put_profiles_def)
    obtain ok z where w: "writeFileAtomic True (put_profiles c) y = (ok, z)" by fastforce
    from writeFileAtomic_step [OF w o] that show "profiles_file (restore c y) = c" "outcomes (restore c y) = []"
      "env_files (restore c y) = env_files y"
      by (auto simp: restore_def w faults_left_def put_profiles_def dest: same_machine_fields(2))
  qed
  from i show ?thesis
  proof (cases rule: install_cases)
    case early
    then show ?thesis using same_machine_fields(1) by auto
  next
    case (synced x dx err)
    note st = sync_loop_step [OF synced(5) [unfolded syncBackendSecrets_def]]
    have "one_fault (put_profiles (marshalProfiles profs) x)"
      using synced(2) assms(2) faults_left_put [of d True x "put_profiles (marshalProfiles profs) x"]
      by (auto simp: faults_left_def put_profiles_def)
    then have "outcomes dx = []" using st by (auto simp: faults_left_def)
    moreover have "err = SystemError"
      using synced(5) by (simp add: syncBackendSecrets_def) (rule sync_loop_error)
    ultimately show ?thesis using synced(6,7) rest by auto
  next
    case (failed x dx units dy err e')
    have f: "env_files (put_profiles c x) = env_files d" "outcomes (put_profiles c x) = outcomes x" for c
      using same_machine_fields [OF failed(1)] by (simp_all add: put_profiles_def)
    note st = sync_loop_step [OF failed(5) [unfolded syncBackendSecrets_def]]
    note r = restartStack_step [OF failed(6)]
    have "one_fault x" using failed(2) assms(2) by (simp add: faults_left_def)
    then have "one_fault (put_profiles (marshalProfiles profs) x)" using f(2) by (simp add: one_fault_def)
    then have "one_fault dx" using st by (auto simp: faults_left_def)
    then have y: "outcomes dy = []" using r by (auto simp: faults_left_def)
    let ?z = "restore (profiles_file d) dy"
    note z = rest [OF y, of "profiles_file d"]
    obtain s2 d2 where s2: "syncBackendSecrets registry old ?z = (s2, d2)" by fastforce
    note st2 = sync_loop_step [OF s2 [unfolded syncBackendSecrets_def]]
    from st2 z(2) obtain units2 where u2: "s2 = Inr units2" and o2: "outcomes d2 = []" by (auto simp: faults_left_def)
    obtain r3 d3 where r3: "restartStack units2 d2 = (r3, d3)" by fastforce
    note st3 = restartStack_step [OF r3]
    have n3: "r3 = None" using st3 o2 by (auto simp: faults_left_def)
    have res: "e = RolledBack err" "d' = d3"
      using failed(7,8) s2 u2 r3 n3 by (simp_all add: roll_back_def Let_def assms(5))
    have p: "profiles_file d' = profiles_file d"
      using res(2) st3 same_but_env_fields(1) [OF conjunct1 [OF st2]] z(1) by simp
    have "env_files d' (EnvFile b) = Some (written old (env_files d) b)" if b: "b \<in> set registry" for b
    proof -
      have e1: "env_files dx (EnvFile b) = Some (written profs (env_files d) b)"
        using sync_loop_synced [OF failed(5) [unfolded syncBackendSecrets_def] assms(4), unfolded f] b by blast
      have "env_files d3 (EnvFile b) = Some (written old (env_files ?z) b)"
        using st3 sync_loop_synced [OF s2 [unfolded syncBackendSecrets_def u2] assms(4)] b by simp
      also have "written old (env_files ?z) b = written old (env_files d) b"
        using e1 r z(3) written_again [OF v] by (simp add: written_def)
      finally show ?thesis using res(2) by simp
    qed
    then show ?thesis using p res(1) by auto
  qed simp_all
qed simp

subsection \<open>Without faults\<close>

lemma calm_steps:
  assumes "outcomes d = []"
  shows "attempt d = (True, d)" and "attempts n d = (True, d)" and "writeFileAtomic grouped put d = (True, put d)"
proof -
  show a: "attempt d = (True, d)" using assms by (simp add: attempt_def)
  have n: "attempts n d = (True, d)" for n by (induction n) (simp_all add: a)
  then show "attempts n d = (True, d)" .
  show "writeFileAtomic grouped put d = (True, put d)" by (simp add: writeFileAtomic_def n a)
qed

lemma calm_Apply:
  assumes "outcomes d = []" and "profs \<noteq> []" and "len profs \<le> maxProfiles d" and "LoadBackends d = Inr registry"
    and "valid_keys (set (map Address registry)) profs" and "check profs" and "profiles_file d \<noteq> Absent"
  shows "\<exists>d'. Apply check profs d = (None, d') \<and> outcomes d' = []"
proof -
  let ?x = "put_profiles (marshalProfiles profs) d"
  have x: "outcomes ?x = []" using assms(1) by (simp add: put_profiles_def)
  obtain r d1 where s: "syncBackendSecrets registry profs ?x = (r, d1)" by fastforce
  from sync_loop_step [OF s [unfolded syncBackendSecrets_def]] x
  obtain units where r: "r = Inr units" and d1: "outcomes d1 = []" by (auto simp: faults_left_def)
  obtain r2 d2 where t: "restartStack units d1 = (r2, d2)" by fastforce
  from restartStack_step [OF t] d1 have r2: "r2 = None" "outcomes d2 = []" by (auto simp: faults_left_def)
  have "install check registry profs d = (None, d2)"
    using assms(6,7) s r t r2 by (simp add: install_def calm_steps [OF assms(1)] Let_def)
  then have "Apply check profs d = (None, d2)"
    using assms by (simp add: Apply_def check_keys_valid [THEN iffD2])
  then show ?thesis using r2 by blast
qed

definition first_backend :: BackendInfo where
  "first_backend = \<lparr>Address = ''127.0.0.1:5'', Unit = ''m0'', EnvFile = ''e0''\<rparr>"

definition second_backend :: BackendInfo where
  "second_backend = \<lparr>Address = ''127.0.0.1:80'', Unit = ''m1'', EnvFile = ''e1''\<rparr>"

definition old_key :: KeyProfile where
  "old_key = \<lparr>kp_Name = ''a'', kp_Secret = replicate 32 CHR ''0'', kp_Backend = ''127.0.0.1:5'',
     kp_CarrierMode = [], kp_Limits = []\<rparr>"

definition new_key :: KeyProfile where
  "new_key = \<lparr>kp_Name = ''b'', kp_Secret = replicate 32 CHR ''1'', kp_Backend = ''127.0.0.1:5'',
     kp_CarrierMode = [], kp_Limits = []\<rparr>"

definition panel_machine :: "bool list \<Rightarrow> deployment" where
  "panel_machine faults = \<lparr>profiles_file = marshalProfiles [old_key], meta_file = None, env_files = (\<lambda>_. None),
     backends_file = Some (Some [first_backend, second_backend]), relay_max_profiles = None, restarts = [],
     outcomes = faults, randoms = [Some (replicate 16 0x22)]\<rparr>"

lemma panel_fields [simp]:
  "profiles_file (panel_machine f) = marshalProfiles [old_key]" "outcomes (panel_machine f) = f"
  "LoadBackends (panel_machine f) = Inr [first_backend, second_backend]" "maxProfiles (panel_machine f) = 32"
  by (simp_all add: panel_machine_def LoadBackends_def maxProfiles_def)

lemma backend_fields:
  "distinct (map EnvFile [first_backend, second_backend])"
  "set (map Address [first_backend, second_backend]) = {''127.0.0.1:5'', ''127.0.0.1:80''}"
  by (simp_all add: first_backend_def second_backend_def)

lemma key_valid: "valid_keys {''127.0.0.1:5'', ''127.0.0.1:80''} [old_key, new_key]"
  "valid_keys {''127.0.0.1:5'', ''127.0.0.1:80''} [new_key]"
  by (simp_all add: valid_keys_def valid_key_def old_key_def new_key_def nameRE_def alnum_def secretRE_def hex_digit_def
      validCarrier_def list_all_iff maxSecretsPerBackend_def)

theorem applied_keys_live_witness:
  "\<exists>d'. Apply (\<lambda>_. True) [old_key, new_key] (panel_machine []) = (None, d') \<and>
     profiles_file d' = marshalProfiles [old_key, new_key]"
proof -
  obtain d' where a: "Apply (\<lambda>_. True) [old_key, new_key] (panel_machine []) = (None, d')"
    using calm_Apply [of "panel_machine []" "[old_key, new_key]" _ "\<lambda>_. True", OF _ _ _ panel_fields(3),
        unfolded backend_fields(2)] key_valid
    by (auto simp: marshalProfiles_def)
  from applied_keys_live [OF a panel_fields(3) backend_fields(1)] show ?thesis using a by blast
qed

lemma restart_fails:
  "fst (Apply (\<lambda>_. True) [new_key] (panel_machine (replicate 32 True @ [False]))) = Some (RolledBack (UnitFailed ''m0''))"
  by code_simp

theorem failed_apply_restores_witness:
  "\<exists>d'. Apply (\<lambda>_. True) [new_key] (panel_machine (replicate 32 True @ [False])) = (Some (RolledBack (UnitFailed ''m0'')), d') \<and>
     profiles_file d' = marshalProfiles [old_key]"
proof -
  obtain d' where a: "Apply (\<lambda>_. True) [new_key] (panel_machine (replicate 32 True @ [False])) =
      (Some (RolledBack (UnitFailed ''m0'')), d')"
    using restart_fails by (metis prod.collapse)
  have "one_fault (panel_machine (replicate 32 True @ [False]))" by (auto simp: one_fault_def simp del: replicate.simps)
  from failed_apply_restores [OF a this panel_fields(3) backend_fields(1)]
  show ?thesis using a by (auto simp: marshalProfiles_def)
qed

subsection \<open>Where a failed application leaves something behind\<close>


text \<open>
  A roll-back can report success without having happened. When a restart fails and then the
  old profiles file cannot be written back, which \<open>restore\<close> ignores, \<open>Apply\<close> restarts the relay
  with the new file and still reports that the previous set of keys was restored.
\<close>
theorem roll_back_reported_not_done:
  "\<exists>d'. Apply (\<lambda>_. True) [new_key] (panel_machine (replicate 32 True @ [False, False])) =
       (Some (RolledBack (UnitFailed ''m0'')), d') \<and>
     profiles_file d' = marshalProfiles [new_key] \<and> relay_unit \<in> set (restarts d')"
proof -
  let ?r = "Apply (\<lambda>_. True) [new_key] (panel_machine (replicate 32 True @ [False, False]))"
  have "fst ?r = Some (RolledBack (UnitFailed ''m0''))" "profiles_file (snd ?r) = marshalProfiles [new_key]"
    "relay_unit \<in> set (restarts (snd ?r))"
    by code_simp+
  then show ?thesis by (metis prod.collapse)
qed

end
