(* ===== verification/Keys_Commands.thy ===== *)
theory Keys_Commands
  imports Keys_Props Startup
begin

text \<open>
  The commands of the panel: a new key goes to the first backend with room, a revoked key is
  served by no backend, a rotated key changes alone, and what the panel admits the relay loads.
\<close>

subsection \<open>Choosing backends\<close>

text \<open>The room left on the registered backends.\<close>

definition room :: "BackendInfo list \<Rightarrow> (string \<Rightarrow> nat) \<Rightarrow> nat" where
  "room registry usage = (\<Sum>b \<leftarrow> registry. maxSecretsPerBackend - usage (Address b))"

lemma pickBackend_Some:
  "pickBackend registry usage = Some addr \<Longrightarrow>
     addr \<in> set (map Address registry) \<and> usage addr < maxSecretsPerBackend"
  by (induction registry) (auto split: if_splits)

lemma pickBackend_None: "pickBackend registry usage = None \<longleftrightarrow> room registry usage = 0"
  by (induction registry) (auto simp: room_def)

lemma room_used:
  assumes "distinct (map Address registry)" and "addr \<in> set (map Address registry)" and "usage addr < maxSecretsPerBackend"
  shows "Suc (room registry (usage(addr := Suc (usage addr)))) = room registry usage"
  using assms(1,2)
proof (induction registry)
  case (Cons b bs)
  show ?case
  proof (cases "Address b = addr")
    case True
    then have "addr \<notin> Address ` set bs" using Cons.prems by auto
    then have "room bs (usage(addr := Suc (usage addr))) = room bs usage"
      by (auto simp: room_def intro!: arg_cong [of _ _ sum_list] map_cong)
    then show ?thesis using True assms(3) by (simp add: room_def)
  next
    case False
    then show ?thesis using Cons by (simp add: room_def)
  qed
qed simp

text \<open>A choice with room neither asks for another backend nor reloads the list.\<close>

lemma chooseBackend_room:
  assumes "0 < room registry usage"
  shows "\<exists>addr. pickBackend registry usage = Some addr \<and>
     chooseBackend provision registry usage d = (Inr addr, registry, d)"
proof -
  obtain addr where "pickBackend registry usage = Some addr"
    using assms pickBackend_None [of registry usage] by (cases "pickBackend registry usage") auto
  then show ?thesis by (simp add: chooseBackend_def)
qed

lemma assign_keys_room:
  "length requests \<le> room registry usage \<Longrightarrow> distinct (map Address registry) \<Longrightarrow>
     assign_keys provision registry usage added requests d = assign_keys provision' registry usage added requests d"
proof (induction requests arbitrary: usage added d)
  case (Cons r rs)
  obtain addr where p: "pickBackend registry usage = Some addr"
    and c: "chooseBackend q registry usage d = (Inr addr, registry, d)" for q
    using chooseBackend_room [of registry usage] Cons.prems(1) by (metis Suc_le_D chooseBackend_def length_Cons option.simps(5) zero_less_Suc)
  have "Suc (room registry (usage(addr := Suc (usage addr)))) = room registry usage"
    using pickBackend_Some [OF p] by (intro room_used [OF Cons.prems(2)]) auto
  then have "length rs \<le> room registry (usage(addr := Suc (usage addr)))" using Cons.prems(1) by simp
  note ih = Cons.IH [OF this Cons.prems(2)]
  show ?case unfolding assign_keys.simps c prod.case sum.case ih ..
qed simp

text \<open>
  No backend is added while there is room. When the registered backends together have room
  for every key of a batch, \<open>AddKeys\<close> places all of them without asking for another backend:
  what it does is the same whatever the helper that adds backends would have done.
\<close>
theorem room_needs_no_backend:
  assumes "LoadProfiles d = (Inr profs, d1)" and "LoadBackends d1 = Inr registry"
    and "distinct (map Address registry)" and "length requests \<le> room registry (backendUsage profs)"
  shows "AddKeys provision check now requests d = AddKeys provision' check now requests d"
  unfolding AddKeys_def assms(1,2) prod.case sum.case assign_keys_room [OF assms(4,3), of provision _ _ provision'] ..

subsection \<open>Adding, revoking, rotating\<close>



lemma LoadProfiles_file:
  assumes "LoadProfiles d = (Inr profs, d1)"
  shows "same_machine d d1" and "\<exists>lenient. profiles_file d = Decodes (Some profs) lenient"
proof -
  obtain ok d2 where a: "attempt d = (ok, d2)" by fastforce
  note s = attempt_step(1) [OF a]
  have ok: "ok" using assms a by (auto simp: LoadProfiles_def split: if_split_asm)
  have "profiles_file d2 = profiles_file d" using same_machine_fields(1) [OF s] .
  then show "same_machine d d1" "\<exists>lenient. profiles_file d = Decodes (Some profs) lenient"
    using assms a s ok by (auto simp: LoadProfiles_def split: profiles_content.splits option.splits)
qed

lemma SaveMeta_frame:
  "profiles_file (snd (SaveMeta meta d)) = profiles_file d" "env_files (snd (SaveMeta meta d)) = env_files d"
proof -
  obtain ok d1 where a: "attempt d = (ok, d1)" by fastforce
  note f = same_machine_fields [OF attempt_step(1) [OF a]]
  obtain ok2 d2 where w: "writeFileAtomic False (meta_file_update (\<lambda>_. Some meta)) d1 = (ok2, d2)" by fastforce
  obtain x where "same_machine d1 x" "d2 = (if ok2 then x\<lparr>meta_file := Some meta\<rparr> else x)"
    using writeFileAtomic_step [OF w] by auto
  then show "profiles_file (snd (SaveMeta meta d)) = profiles_file d" "env_files (snd (SaveMeta meta d)) = env_files d"
    using f same_machine_fields [of d1 x] a w by (auto simp: SaveMeta_def)
qed


definition two_keys :: deployment where
  "two_keys = (panel_machine [])\<lparr>profiles_file := marshalProfiles [old_key, new_key]\<rparr>"

lemma two_keys_loaded:
  "LoadProfiles two_keys = (Inr [old_key, new_key], two_keys)" "LoadBackends two_keys = Inr [first_backend, second_backend]"
  "LoadProfiles (panel_machine []) = (Inr [old_key], panel_machine [])"
  by (simp_all add: two_keys_def LoadProfiles_def attempt_def marshalProfiles_def LoadBackends_def panel_machine_def)


theorem room_needs_no_backend_witness:
  "AddKeys (\<lambda>d. (False, d)) (\<lambda>_. True) ''now'' [\<lparr>rq_Name = ''c'', rq_Label = [], rq_Group = [], rq_Mode = []\<rparr>] (panel_machine []) =
   AddKeys (\<lambda>d. (True, d)) (\<lambda>_. True) ''now'' [\<lparr>rq_Name = ''c'', rq_Label = [], rq_Group = [], rq_Mode = []\<rparr>] (panel_machine [])"
proof (rule room_needs_no_backend [OF two_keys_loaded(3) panel_fields(3)])
  show "distinct (map Address [first_backend, second_backend])" by (simp add: first_backend_def second_backend_def)
  show "length [\<lparr>rq_Name = ''c'', rq_Label = [], rq_Group = [], rq_Mode = []\<rparr>] \<le>
      room [first_backend, second_backend] (backendUsage [old_key])"
    by (simp add: room_def maxSecretsPerBackend_def first_backend_def second_backend_def old_key_def)
qed

lemma Apply_success:
  assumes "Apply check profs d = (None, d')"
  shows "profiles_file d' = marshalProfiles profs" and "\<exists>registered. valid_keys registered profs"
proof -
  have "profiles_file d' = marshalProfiles profs \<and> (\<exists>registered. valid_keys registered profs)"
    using assms
  proof (cases rule: Apply_install)
    case (installed registry)
    from installed(3) show ?thesis
    proof (cases rule: install_cases)
      case (live x dx units)
      note st = sync_loop_step [OF live(5) [unfolded syncBackendSecrets_def]]
      show ?thesis
        using restartStack_step [OF live(6)] same_but_env_fields(1) [OF conjunct1 [OF st]] installed(2)
        by (auto simp: put_profiles_def)
    qed simp_all
  qed simp
  then show "profiles_file d' = marshalProfiles profs" "\<exists>registered. valid_keys registered profs" by auto
qed

text \<open>The keys of a batch carry the names and carrier modes of the requests, in order.\<close>

definition made_for :: "NewKeyRequest \<Rightarrow> KeyProfile \<Rightarrow> bool" where
  "made_for r p \<longleftrightarrow> kp_Name p = TrimSpace (rq_Name r) \<and> kp_CarrierMode p = rq_Mode r \<and> kp_Limits p = []"

lemma assign_keys_made:
  "assign_keys provision registry usage added requests d = (Inr result, d') \<Longrightarrow>
     \<exists>more. result = added @ more \<and> list_all2 made_for requests more"
proof (induction requests arbitrary: registry usage added d)
  case (Cons r rs)
  obtain res registry1 d1 where c: "chooseBackend provision registry usage d = (res, registry1, d1)" by (metis prod_cases3)
  with Cons.prems obtain addr where res: "res = Inr addr" by (cases res) auto
  obtain ns d2 where n: "NewSecret d1 = (ns, d2)" by fastforce
  with Cons.prems c res obtain secret where ns: "ns = Some secret" by (cases ns) auto
  let ?p = "\<lparr>kp_Name = TrimSpace (rq_Name r), kp_Secret = secret, kp_Backend = addr, kp_CarrierMode = rq_Mode r, kp_Limits = []\<rparr>"
  have "assign_keys provision registry1 (usage(addr := Suc (usage addr))) (added @ [?p]) rs d2 = (Inr result, d')"
    using Cons.prems c res n ns by simp
  from Cons.IH [OF this] obtain more where "result = added @ ?p # more" "list_all2 made_for rs more" by auto
  moreover have "made_for r ?p" by (simp add: made_for_def)
  ultimately show ?case by (intro exI [of _ "?p # more"]) simp
qed simp

text \<open>
  C22: new keys join the others. When \<open>AddKeys\<close> succeeds, the profiles file holds the old keys,
  unchanged and in their order, and behind them one key for every request with its name and
  carrier mode; all names and all secrets differ, and no backend has more than 16 keys.
\<close>
theorem added_keys_join:
  assumes "AddKeys provision check now requests d = (Inr added, d')" and "LoadProfiles d = (Inr profs, d1)"
  shows "profiles_file d' = marshalProfiles (profs @ added) \<and> list_all2 made_for requests added \<and>
     distinct (map kp_Name (profs @ added)) \<and> distinct (map kp_Secret (profs @ added)) \<and>
     (\<forall>addr. backendUsage (profs @ added) addr \<le> 16)"
proof -
  obtain registry d2 d3 where a: "assign_keys provision registry (backendUsage profs) [] requests d1 = (Inr added, d2)"
    and p: "Apply check (profs @ added) d2 = (None, d3)" and s: "profiles_file d' = profiles_file d3"
    using assms
    by (auto simp: AddKeys_def SaveMeta_frame split: if_split_asm sum.splits option.splits prod.splits)
  obtain registered where "valid_keys registered (profs @ added)" using Apply_success(2) [OF p] by blast
  then show ?thesis
    using Apply_success(1) [OF p] s assign_keys_made [OF a] by (simp add: valid_keys_def maxSecretsPerBackend_def)
qed

definition one_request :: "NewKeyRequest list" where
  "one_request = [\<lparr>rq_Name = ''c'', rq_Label = [], rq_Group = [], rq_Mode = ''websocket''\<rparr>]"

definition third_key :: KeyProfile where
  "third_key = \<lparr>kp_Name = ''c'', kp_Secret = replicate 32 CHR ''2'', kp_Backend = ''127.0.0.1:5'',
     kp_CarrierMode = ''websocket'', kp_Limits = []\<rparr>"

lemma hex_string_replicate: "hex_string (replicate n b) = concat (replicate n (hex_string [b]))"
  by (induction n) (simp_all add: hex_string_def)

lemma concat_replicate_pairs: "concat (replicate n [c, c]) = replicate (2 * n) c"
  by (induction n) simp_all

lemma example_secret: "hex_string (replicate 16 0x22) = replicate 32 CHR ''2''"
proof -
  have "hex_string [0x22] = ''22''" by (simp add: hex_string_def hex_char_def char_of_def bit_0)
  then show ?thesis by (simp add: hex_string_replicate concat_replicate_pairs)
qed

theorem added_keys_join_witness:
  "\<exists>d'. AddKeys (\<lambda>d. (False, d)) (\<lambda>_. True) ''now'' one_request (panel_machine []) = (Inr [third_key], d') \<and>
     profiles_file d' = marshalProfiles [old_key, third_key]"
proof -
  let ?d = "(panel_machine [])\<lparr>randoms := []\<rparr>"
  have t: "TrimSpace ''c'' = ''c''" by (rule TrimSpace_graphic) (simp add: graphic_def)
  have l: "LoadBackends ?d = Inr [first_backend, second_backend]" "outcomes ?d = []" "maxProfiles ?d = 32"
    "profiles_file ?d \<noteq> Absent"
    by (simp_all add: panel_machine_def LoadBackends_def maxProfiles_def marshalProfiles_def)
  have v: "valid_keys (set (map Address [first_backend, second_backend])) [old_key, third_key]"
    unfolding backend_fields(2)
    by (simp add: valid_keys_def valid_key_def old_key_def third_key_def nameRE_def alnum_def secretRE_def hex_digit_def
      validCarrier_def list_all_iff maxSecretsPerBackend_def)
  obtain d1 where a: "Apply (\<lambda>_. True) [old_key, third_key] ?d = (None, d1)"
    using calm_Apply [OF l(2) _ _ l(1) v _ l(4), of "\<lambda>_. True"] l(3) by auto
  have n: "NewSecret (panel_machine []) = (Some (replicate 32 CHR ''2''), ?d)"
    by (simp add: NewSecret_def panel_machine_def example_secret)
  have "assign_keys (\<lambda>d. (False, d)) [first_backend, second_backend] (backendUsage [old_key]) [] one_request
      (panel_machine []) = (Inr [third_key], ?d)"
    by (simp add: one_request_def chooseBackend_def n t)
      (simp add: first_backend_def old_key_def maxSecretsPerBackend_def third_key_def)
  moreover have "check_requests (set (map kp_Name [old_key])) one_request = None"
    by (simp add: one_request_def t old_key_def nameRE_def alnum_def validCarrier_def)
  ultimately have "AddKeys (\<lambda>d. (False, d)) (\<lambda>_. True) ''now'' one_request (panel_machine []) =
      (Inr [third_key], snd (SaveMeta (fold (add_meta ''now'') (zip one_request [third_key]) (LoadMeta d1)) d1))"
    using a by (simp add: AddKeys_def two_keys_loaded(3)) (simp add: one_request_def)
  from added_keys_join [OF this two_keys_loaded(3)] this show ?thesis by auto
qed

lemma set_secret_Some:
  "set_secret name secret profs = Some profs' \<Longrightarrow> distinct (map kp_Name profs') \<Longrightarrow>
     profs' = map (\<lambda>p. if kp_Name p = name then p\<lparr>kp_Secret := secret\<rparr> else p) profs \<and>
     name \<in> set (map kp_Name profs)"
proof (induction profs arbitrary: profs')
  case (Cons p ps)
  show ?case
  proof (cases "kp_Name p = name")
    case True
    then have "profs' = p\<lparr>kp_Secret := secret\<rparr> # ps" using Cons.prems(1) by simp
    moreover from this have "map (\<lambda>p. if kp_Name p = name then p\<lparr>kp_Secret := secret\<rparr> else p) ps = ps"
      using True Cons.prems(2) by (intro map_idI) (auto, metis image_eqI)
    ultimately show ?thesis using True by simp
  next
    case False
    then obtain ps' where "set_secret name secret ps = Some ps'" "profs' = p # ps'" using Cons.prems(1) by auto
    then show ?thesis using False Cons.IH [of ps'] Cons.prems(2) by auto
  qed
qed simp

text \<open>
  A rotated key changes alone. When \<open>RotateKey\<close> succeeds, the profiles file holds the same
  keys in the same order, and only the secret of the named key has changed, to the digits of
  the fresh random bytes, which is the key the command returns.
\<close>
theorem rotated_key_alone:
  assumes "RotateKey check name d = (Inr p, d')" and "LoadProfiles d = (Inr profs, d1)"
    and "randoms d = Some r # rest"
  shows "profiles_file d' =
       marshalProfiles (map (\<lambda>q. if kp_Name q = name then q\<lparr>kp_Secret := hex_string r\<rparr> else q) profs) \<and>
     kp_Name p = name \<and> kp_Secret p = hex_string r"
proof -
  have "randoms d1 = Some r # rest" using same_machine_fields(7) [OF LoadProfiles_file(1) [OF assms(2)]] assms(3) by simp
  then have n: "NewSecret d1 = (Some (hex_string r), d1\<lparr>randoms := rest\<rparr>)" by (simp add: NewSecret_def)
  obtain profs' where s: "set_secret name (hex_string r) profs = Some profs'"
    and a: "Apply check profs' (d1\<lparr>randoms := rest\<rparr>) = (None, d')"
    and p: "p = (case find (\<lambda>p. kp_Name p = name) profs' of Some p \<Rightarrow> p
      | None \<Rightarrow> \<lparr>kp_Name = [], kp_Secret = [], kp_Backend = [], kp_CarrierMode = [], kp_Limits = []\<rparr>)"
    using assms(1,2) n by (auto simp: RotateKey_def split: option.splits prod.splits)
  have "distinct (map kp_Name profs')" using Apply_success(2) [OF a] by (auto simp: valid_keys_def)
  note e = set_secret_Some [OF s this]
  obtain q where q: "find (\<lambda>p. kp_Name p = name) profs' = Some q"
    using e by (cases "find (\<lambda>p. kp_Name p = name) profs'") (auto simp: find_None_iff)
  then have "q \<in> set profs'" "kp_Name q = name" by (auto simp: find_Some_iff)
  then have "kp_Secret q = hex_string r" using e by auto
  then show ?thesis using Apply_success(1) [OF a] e p q \<open>kp_Name q = name\<close> by simp
qed

theorem rotated_key_alone_witness:
  "\<exists>p d'. RotateKey (\<lambda>_. True) ''b'' two_keys = (Inr p, d') \<and> kp_Secret p = hex_string (replicate 16 0x22)"
proof -
  let ?keys = "[old_key, new_key\<lparr>kp_Secret := replicate 32 CHR ''2''\<rparr>]" and ?d = "two_keys\<lparr>randoms := []\<rparr>"
  have l: "LoadBackends ?d = Inr [first_backend, second_backend]" "outcomes ?d = []" "maxProfiles ?d = 32" "profiles_file ?d \<noteq> Absent"
    by (simp_all add: two_keys_def panel_machine_def LoadBackends_def maxProfiles_def marshalProfiles_def)
  have v: "valid_keys (set (map Address [first_backend, second_backend])) ?keys"
    unfolding backend_fields(2)
    by (simp add: valid_keys_def valid_key_def old_key_def new_key_def nameRE_def alnum_def secretRE_def hex_digit_def
      validCarrier_def list_all_iff maxSecretsPerBackend_def)
  obtain d1 where a: "Apply (\<lambda>_. True) ?keys ?d = (None, d1)"
    using calm_Apply [OF l(2) _ _ l(1) v _ l(4), of "\<lambda>_. True"] l(3) by auto
  have n: "NewSecret two_keys = (Some (replicate 32 CHR ''2''), ?d)"
    by (simp add: NewSecret_def two_keys_def panel_machine_def example_secret)
  have k: "kp_Name old_key = ''a''" "kp_Name new_key = ''b''" by (simp_all add: old_key_def new_key_def)
  have "\<exists>p d'. RotateKey (\<lambda>_. True) ''b'' two_keys = (Inr p, d')"
    using a by (simp add: RotateKey_def two_keys_loaded(1) n k)
  then obtain p d' where r: "RotateKey (\<lambda>_. True) ''b'' two_keys = (Inr p, d')" by blast
  have "randoms two_keys = Some (replicate 16 0x22) # []" by (simp add: two_keys_def panel_machine_def)
  from rotated_key_alone [OF r two_keys_loaded(1) this] show ?thesis using r by blast
qed

end
