(* ===== verification/Views.thy ===== *)
theory Views
  imports Keys_Commands "HOL-Library.Multiset" "HOL-Library.Char_ord" "HOL-Library.List_Lexorder" "HOL-Library.Product_Lexorder"
begin

text \<open>
  What the panel shows of its keys (\<open>keys-panel/store.go\<close>): the link of a client, the list of keys
  by group and age, and the groups in use. Strings are compared byte by byte, as in Go.
\<close>

subsection \<open>A view of a key\<close>

record KeyView =
  kv_Profile :: KeyProfile
  kv_Meta :: KeyMeta
  kv_Link :: string
  kv_CreatedShort :: string

definition ClientLink :: "string \<Rightarrow> string \<Rightarrow> string" where
  "ClientLink host secret =
     (if host = [] then [] else ''https://t.me/webproxy?server='' @ host @ ''&secret='' @ secret)"

text \<open>
  \<open>PublicHostname\<close>: the value of the relay's configuration, if that can be read and decoded.
\<close>

definition PublicHostname_of :: "string option \<Rightarrow> string" where
  "PublicHostname_of config = (case config of None \<Rightarrow> [] | Some host \<Rightarrow> host)"

text \<open>
  \<open>stamp\<close> parses a time of RFC 3339 and prints its date, hours and minutes; both are the work
  of the library.
\<close>

definition shortTime :: "(string \<Rightarrow> string option) \<Rightarrow> string \<Rightarrow> string" where
  "shortTime stamp v =
     (if v = [] then [] else case stamp v of None \<Rightarrow> v | Some t \<Rightarrow> t @ '' UTC'')"

definition no_meta :: KeyMeta where
  "no_meta = \<lparr>km_Label = [], km_Group = [], km_Note = [], km_Created = []\<rparr>"

definition meta_of :: "(string, KeyMeta) assoc \<Rightarrow> string \<Rightarrow> KeyMeta" where
  "meta_of metas name = (case map_of metas name of None \<Rightarrow> no_meta | Some m \<Rightarrow> m)"

definition key_view ::
  "(string \<Rightarrow> string option) \<Rightarrow> string \<Rightarrow> (string, KeyMeta) assoc \<Rightarrow> KeyProfile \<Rightarrow> KeyView" where
  "key_view stamp host metas p =
     (let entry = meta_of metas (kp_Name p) in
      \<lparr>kv_Profile = p, kv_Meta = entry, kv_Link = ClientLink host (kp_Secret p),
       kv_CreatedShort = shortTime stamp (km_Created entry)\<rparr>)"

subsection \<open>The order of the list\<close>

text \<open>\<open>sort.SliceStable\<close> by an order: equal elements keep their order.\<close>

fun insert_stable :: "('a \<Rightarrow> 'a \<Rightarrow> bool) \<Rightarrow> 'a \<Rightarrow> 'a list \<Rightarrow> 'a list" where
  "insert_stable lt x [] = [x]"
| "insert_stable lt x (y # ys) = (if lt y x then y # insert_stable lt x ys else x # y # ys)"

definition SliceStable :: "('a \<Rightarrow> 'a \<Rightarrow> bool) \<Rightarrow> 'a list \<Rightarrow> 'a list" where
  "SliceStable lt xs = foldr (insert_stable lt) xs []"

definition view_before :: "KeyView \<Rightarrow> KeyView \<Rightarrow> bool" where
  "view_before v w =
     (if km_Group (kv_Meta v) \<noteq> km_Group (kv_Meta w) then km_Group (kv_Meta v) < km_Group (kv_Meta w)
      else km_Created (kv_Meta v) < km_Created (kv_Meta w))"

definition Keys_views ::
  "(string \<Rightarrow> string option) \<Rightarrow> string option \<Rightarrow> deployment
     \<Rightarrow> (panel_error + KeyView list \<times> string) \<times> deployment" where
  "Keys_views stamp config d =
     (case LoadProfiles d of
        (Inl e, d) \<Rightarrow> (Inl e, d)
      | (Inr profs, d) \<Rightarrow>
          let host = PublicHostname_of config in
          (Inr (SliceStable view_before (map (key_view stamp host (LoadMeta d)) profs), host), d))"

text \<open>The loop of \<open>DistinctGroups\<close> over the entries, with the groups it has seen.\<close>

fun new_groups :: "string set \<Rightarrow> (string, KeyMeta) assoc \<Rightarrow> string list" where
  "new_groups seen [] = []"
| "new_groups seen ((_, entry) # rest) =
     (if km_Group entry = [] \<or> km_Group entry \<in> seen then new_groups seen rest
      else km_Group entry # new_groups (insert (km_Group entry) seen) rest)"

definition DistinctGroups :: "deployment \<Rightarrow> string list" where
  "DistinctGroups d = sort (new_groups {} (LoadMeta d))"

subsection \<open>The list is in order\<close>

text \<open>Sorting by an order that compares keys is the library's sorting by these keys.\<close>

lemma insert_stable_key:
  "(\<And>x y. lt x y \<longleftrightarrow> f x < f y) \<Longrightarrow> insert_stable lt x xs = insort_key f x xs"
  by (induction xs) (auto simp: not_less)

lemma SliceStable_key:
  assumes "\<And>x y. lt x y \<longleftrightarrow> (f x :: 'k :: linorder) < f y"
  shows "SliceStable lt xs = sort_key f xs"
  unfolding SliceStable_def by (induction xs) (simp_all add: insert_stable_key [OF assms])

definition view_rank :: "KeyView \<Rightarrow> string \<times> string" where
  "view_rank v = (km_Group (kv_Meta v), km_Created (kv_Meta v))"

lemma view_before_rank: "view_before v w \<longleftrightarrow> view_rank v < view_rank w"
  by (auto simp: view_before_def view_rank_def less_prod_def')

lemma sorted_views: "SliceStable view_before views = sort_key view_rank views"
  by (rule SliceStable_key) (rule view_before_rank)

lemma sort_key_eq: "(\<And>x. x \<in> set xs \<Longrightarrow> f x = g x) \<Longrightarrow> sort_key f xs = sort_key g xs"
proof (induction xs)
  case (Cons x xs)
  have "insort_key f x ys = insort_key g x ys" if "\<forall>y \<in> insert x (set ys). f y = g y" for ys
    using that by (induction ys) auto
  then show ?case using Cons by simp
qed simp

text \<open>The rank of a key as the meta file has it.\<close>

definition key_rank :: "(string, KeyMeta) assoc \<Rightarrow> KeyProfile \<Rightarrow> string \<times> string" where
  "key_rank metas p = (km_Group (meta_of metas (kp_Name p)), km_Created (meta_of metas (kp_Name p)))"

lemma view_fields [simp]:
  "kv_Profile (key_view stamp host metas p) = p"
  "kv_Meta (key_view stamp host metas p) = meta_of metas (kp_Name p)"
  "kv_Link (key_view stamp host metas p) = ClientLink host (kp_Secret p)"
  "view_rank (key_view stamp host metas p) = key_rank metas p"
  by (simp_all add: key_view_def Let_def view_rank_def key_rank_def)

lemma Keys_views_loaded:
  assumes "Keys_views stamp config d = (Inr (views, host), d')"
  shows "\<exists>profs. LoadProfiles d = (Inr profs, d') \<and>
     views = sort_key view_rank (map (key_view stamp host (LoadMeta d')) profs)"
  using assms by (auto simp: Keys_views_def Let_def sorted_views split: sum.splits prod.splits)

text \<open>
  C26: the list of keys is complete and in order. It shows every key of the profiles file once
  with its own data and link; the keys of one group stand together, the groups in order, within
  a group the older keys first, and keys of the same group and time in the order of the file.
\<close>
theorem keys_listed_in_order:
  assumes "Keys_views stamp config d = (Inr (views, host), d')" and "LoadProfiles d = (Inr profs, d1)"
  shows "views = sort_key (\<lambda>v. key_rank (LoadMeta d1) (kv_Profile v)) (map (key_view stamp host (LoadMeta d1)) profs) \<and>
     mset (map kv_Profile views) = mset profs \<and>
     sorted (map (key_rank (LoadMeta d1)) (map kv_Profile views)) \<and>
     (\<forall>k. filter (\<lambda>p. key_rank (LoadMeta d1) p = k) (map kv_Profile views) =
          filter (\<lambda>p. key_rank (LoadMeta d1) p = k) profs)"
proof -
  let ?m = "LoadMeta d1"
  let ?r = "\<lambda>v. key_rank ?m (kv_Profile v)"
  let ?vs = "map (key_view stamp host ?m) profs"
  have v: "views = sort_key ?r ?vs"
  proof -
    have "views = sort_key view_rank ?vs"
      using Keys_views_loaded [OF assms(1)] assms(2) by auto
    also have "\<dots> = sort_key ?r ?vs"
      by (rule sort_key_eq) auto
    finally show ?thesis .
  qed
  have s: "mset (map kv_Profile views) = mset profs"
    unfolding v by (simp add: multiset.map_comp comp_def)
  have o: "sorted (map (key_rank ?m) (map kv_Profile views))"
    unfolding v map_map comp_def by (rule sorted_sort_key)
  have "filter (\<lambda>p. key_rank ?m p = k) (map kv_Profile views) = filter (\<lambda>p. key_rank ?m p = k) profs" for k
  proof -
    have "filter (\<lambda>p. key_rank ?m p = k) (map kv_Profile views) = map kv_Profile (filter (\<lambda>v. ?r v = k) views)"
      by (simp add: filter_map comp_def)
    also have "\<dots> = map kv_Profile (filter (\<lambda>v. ?r v = k) ?vs)" unfolding v by (simp add: sort_key_stable)
    finally show ?thesis by (simp add: filter_map comp_def)
  qed
  with v s o show ?thesis by blast
qed

lemma new_groups_set:
  "set (new_groups seen metas) = (km_Group ` snd ` set metas) - {[]} - seen \<and> distinct (new_groups seen metas)"
  by (induction seen metas rule: new_groups.induct) auto

text \<open>
  The groups offered are those in use, each once and in order.
\<close>
lemma DistinctGroups_exact:
  "set (DistinctGroups d) = (km_Group ` snd ` set (LoadMeta d)) - {[]} \<and> sorted (DistinctGroups d) \<and>
   distinct (DistinctGroups d)"
  by (simp add: DistinctGroups_def new_groups_set)

definition view_meta :: "(string, KeyMeta) assoc" where
  "view_meta = [(''a'', no_meta\<lparr>km_Group := ''z''\<rparr>)]"

theorem keys_listed_in_order_witness:
  "\<exists>views d'. Keys_views (\<lambda>_. None) (Some ''h'') (two_keys\<lparr>meta_file := Some view_meta\<rparr>) = (Inr (views, ''h''), d') \<and>
     map kv_Profile views = [new_key, old_key]"
proof -
  let ?d = "two_keys\<lparr>meta_file := Some view_meta\<rparr>"
  have l: "LoadProfiles ?d = (Inr [old_key, new_key], ?d)"
    by (simp add: two_keys_def LoadProfiles_def attempt_def marshalProfiles_def panel_machine_def)
  then obtain views where v: "Keys_views (\<lambda>_. None) (Some ''h'') ?d = (Inr (views, ''h''), ?d)"
    by (simp add: Keys_views_def Let_def PublicHostname_of_def)
  have "map kv_Profile views = [new_key, old_key]"
    unfolding conjunct1 [OF keys_listed_in_order [OF v l]]
    by (simp add: LoadMeta_def view_meta_def key_rank_def meta_of_def no_meta_def old_key_def new_key_def less_eq_prod_def)
  with v show ?thesis by (intro exI conjI)
qed

end
