(* ===== verification/Panel.thy ===== *)
theory Panel
  imports Views Keys_Commands
begin

text \<open>
  The web front of the key panel (\<open>keys-panel/web.go\<close>): the guard in front of every request, the
  sessions of those who know the token, and the handlers that change keys. A request is one
  step. The panel itself holds no lock while a handler works on the key store, so the steps of
  two handlers on the store can interleave; the last section shows what that does.
\<close>

subsection \<open>Sessions\<close>

text \<open>A message for the next page; \<open>Failure\<close> is shown as one.\<close>

datatype notice = Silence | Failure panel_error | Added string | Edited string | Revoked string | Rotated string

record web_session =
  ws_csrf :: string
  ws_flash :: notice
  ws_expires :: int

record panel =
  machine :: deployment
  web_sessions :: "(string, web_session) assoc"
  panel_token :: string
  panel_listen :: string
  panel_randoms :: "byte list option list"

text \<open>The parts of a request the panel reads, with cookie and form as the library parsed them.\<close>

record panel_request =
  pq_Method :: string
  pq_Host :: string
  pq_Origin :: string
  pq_Path :: string
  pq_EscapedPath :: string
  pq_Cookie :: "string option"
  pq_Form :: "string \<Rightarrow> string"

record index_page =
  ip_Keys :: "panel_error + KeyView list \<times> string"
  ip_CSRF :: string
  ip_Groups :: "string list"
  ip_Flash :: notice

text \<open>
  \<open>Root\<close> redirects to the start page, \<open>Entered\<close> sets the cookie and \<open>Left\<close> clears it. \<open>LoginPage\<close>
  says whether a wrong token was given, \<open>Stale\<close> refuses a form without the secret of its session.
\<close>

datatype panel_answer =
    Forbidden | Moved string | Root | Entered string | Left | LoginPage bool | IndexPage index_page
  | Stale | NotHere | StyleSheet | Script

text \<open>What the panel's surroundings contribute.\<close>

record panel_world =
  pw_provision :: "deployment \<Rightarrow> bool \<times> deployment"
  pw_check :: "KeyProfile list \<Rightarrow> bool"
  pw_time :: "int \<Rightarrow> string"
  pw_stamp :: "string \<Rightarrow> string option"
  pw_hostname :: "string option"

definition session_life :: int where
  "session_life = 12 * 3600 * 1000000000"

subsection \<open>The guard\<close>

definition allowed_host :: "string \<Rightarrow> string \<Rightarrow> bool" where
  "allowed_host listen host \<longleftrightarrow>
     (let port = (case SplitHostPort listen of None \<Rightarrow> [] | Some (_, port) \<Rightarrow> port) in
      host \<in> {''127.0.0.1:'' @ port, ''localhost:'' @ port, ''[::1]:'' @ port})"

definition guard_passes :: "string \<Rightarrow> panel_request \<Rightarrow> bool" where
  "guard_passes listen r \<longleftrightarrow> allowed_host listen (pq_Host r) \<and>
     (pq_Origin r = ''null'' \<or> pq_Origin r = [] \<or> pq_Origin r = ''http://'' @ pq_Host r)"

definition lookup_session :: "int \<Rightarrow> panel_request \<Rightarrow> panel \<Rightarrow> (string \<times> web_session) option \<times> panel" where
  "lookup_session now r p =
     (case pq_Cookie r of
        None \<Rightarrow> (None, p)
      | Some cookie \<Rightarrow>
          (case map_of (web_sessions p) cookie of
             None \<Rightarrow> (None, p)
           | Some s \<Rightarrow>
               if now > ws_expires s then (None, p\<lparr>web_sessions := AList.delete cookie (web_sessions p)\<rparr>)
               else (Some (cookie, s), p)))"

text \<open>The message goes to the session object, which may have left the table.\<close>

definition setFlash :: "string \<Rightarrow> notice \<Rightarrow> panel \<Rightarrow> panel" where
  "setFlash cookie message p =
     (case map_of (web_sessions p) cookie of
        None \<Rightarrow> p
      | Some s \<Rightarrow> p\<lparr>web_sessions := AList.update cookie (s\<lparr>ws_flash := message\<rparr>) (web_sessions p)\<rparr>)"

definition takeFlash :: "string \<Rightarrow> web_session \<Rightarrow> panel \<Rightarrow> notice \<times> panel" where
  "takeFlash cookie s p = (ws_flash s, setFlash cookie Silence p)"

definition randomHex :: "panel \<Rightarrow> string \<times> panel" where
  "randomHex p =
     (case panel_randoms p of
        [] \<Rightarrow> ([], p)
      | r # rest \<Rightarrow> (case r of None \<Rightarrow> [] | Some raw \<Rightarrow> hex_string raw, p\<lparr>panel_randoms := rest\<rparr>))"

subsection \<open>The handlers\<close>

definition handleLogin :: "int \<Rightarrow> panel_request \<Rightarrow> panel \<Rightarrow> panel_answer \<times> panel" where
  "handleLogin now r p =
     (if pq_Method r \<noteq> ''POST'' then (Root, p)
      else if TrimSpace (pq_Form r ''token'') \<noteq> panel_token p then (LoginPage True, p)
      else
        case randomHex p of (cookie, p) \<Rightarrow>
        case randomHex p of (csrf, p) \<Rightarrow>
        (Entered cookie, p\<lparr>web_sessions := AList.update cookie
           \<lparr>ws_csrf = csrf, ws_flash = Silence, ws_expires = now + session_life\<rparr> (web_sessions p)\<rparr>))"

definition handleLogout :: "int \<Rightarrow> panel_request \<Rightarrow> panel \<Rightarrow> panel_answer \<times> panel" where
  "handleLogout now r p =
     (case lookup_session now r p of
        (None, p) \<Rightarrow> (Left, p)
      | (Some (cookie, _), p) \<Rightarrow> (Left, p\<lparr>web_sessions := AList.delete cookie (web_sessions p)\<rparr>))"

definition handleIndex :: "panel_world \<Rightarrow> int \<Rightarrow> panel_request \<Rightarrow> panel \<Rightarrow> panel_answer \<times> panel" where
  "handleIndex w now r p =
     (if pq_Path r \<noteq> ''/'' then (NotHere, p)
      else case lookup_session now r p of
        (None, p) \<Rightarrow> (LoginPage False, p)
      | (Some (cookie, s), p) \<Rightarrow>
          (case Keys_views (pw_stamp w) (pw_hostname w) (machine p) of (shown, d) \<Rightarrow>
           case takeFlash cookie s (p\<lparr>machine := d\<rparr>) of (flash, p) \<Rightarrow>
           (IndexPage \<lparr>ip_Keys = shown, ip_CSRF = ws_csrf s, ip_Groups = DistinctGroups d, ip_Flash = flash\<rparr>, p)))"

text \<open>An action works on the store and says what to tell, or why it failed.\<close>

definition mutate ::
  "int \<Rightarrow> panel_request \<Rightarrow> (deployment \<Rightarrow> (panel_error + notice) \<times> deployment) \<Rightarrow> panel \<Rightarrow> panel_answer \<times> panel" where
  "mutate now r action p =
     (if pq_Method r \<noteq> ''POST'' then (Root, p)
      else case lookup_session now r p of
        (None, p) \<Rightarrow> (Root, p)
      | (Some (cookie, s), p) \<Rightarrow>
          if pq_Form r ''csrf'' \<noteq> ws_csrf s then (Stale, p)
          else case action (machine p) of (result, d) \<Rightarrow>
            (Root, setFlash cookie (case result of Inl e \<Rightarrow> Failure e | Inr message \<Rightarrow> message) (p\<lparr>machine := d\<rparr>)))"

definition add_action ::
  "panel_world \<Rightarrow> int \<Rightarrow> panel_request \<Rightarrow> deployment \<Rightarrow> (panel_error + notice) \<times> deployment" where
  "add_action w now r d =
     (case AddKeys (pw_provision w) (pw_check w) (pw_time w now)
          [\<lparr>rq_Name = TrimSpace (pq_Form r ''name''), rq_Label = TrimSpace (pq_Form r ''label''),
             rq_Group = TrimSpace (pq_Form r ''group''), rq_Mode = TrimSpace (pq_Form r ''mode'')\<rparr>] d of
        (Inl e, d) \<Rightarrow> (Inl e, d)
      | (Inr added, d) \<Rightarrow> (Inr (Added (kp_Name (hd added))), d))"

definition edit_action ::
  "panel_world \<Rightarrow> int \<Rightarrow> panel_request \<Rightarrow> deployment \<Rightarrow> (panel_error + notice) \<times> deployment" where
  "edit_action w now r d =
     (let name = TrimSpace (pq_Form r ''name'') in
      case UpdateKeyMeta (pw_time w now) name (TrimSpace (pq_Form r ''label'')) (TrimSpace (pq_Form r ''group'')) d of
        (Some e, d) \<Rightarrow> (Inl e, d)
      | (None, d) \<Rightarrow> (Inr (Edited name), d))"

definition revoke_action ::
  "panel_world \<Rightarrow> panel_request \<Rightarrow> deployment \<Rightarrow> (panel_error + notice) \<times> deployment" where
  "revoke_action w r d =
     (let name = TrimSpace (pq_Form r ''name'') in
      case RevokeKey (pw_check w) name d of
        (Some e, d) \<Rightarrow> (Inl e, d)
      | (None, d) \<Rightarrow> (Inr (Revoked name), d))"

definition rotate_action ::
  "panel_world \<Rightarrow> panel_request \<Rightarrow> deployment \<Rightarrow> (panel_error + notice) \<times> deployment" where
  "rotate_action w r d =
     (case RotateKey (pw_check w) (TrimSpace (pq_Form r ''name'')) d of
        (Inl e, d) \<Rightarrow> (Inl e, d)
      | (Inr p, d) \<Rightarrow> (Inr (Rotated (kp_Name p)), d))"

subsection \<open>Routing\<close>

text \<open>
  \<open>http.ServeMux\<close> redirects a path that is not clean, except for \<open>CONNECT\<close>, and compares the
  segments of the escaped path, each unescaped, with its patterns.
\<close>

definition cleanPath :: "string \<Rightarrow> string" where
  "cleanPath p =
     (if p = [] then ''/''
      else
        let p = (if hd p \<noteq> CHR ''/'' then CHR ''/'' # p else p); np = Clean p in
        if last p = CHR ''/'' \<and> np \<noteq> ''/'' then np @ ''/'' else np)"

definition path_is :: "string \<Rightarrow> string \<Rightarrow> bool" where
  "path_is path pattern \<longleftrightarrow> map decode_escapes (Split (CHR ''/'') path) = Split (CHR ''/'') pattern"

definition panel_routes :: "panel_world \<Rightarrow> int \<Rightarrow> panel_request \<Rightarrow> string \<Rightarrow> panel \<Rightarrow> panel_answer \<times> panel" where
  "panel_routes w now r path p =
     (if path_is path ''/login'' then handleLogin now r p
      else if path_is path ''/logout'' then handleLogout now r p
      else if path_is path ''/keys/add'' then mutate now r (add_action w now r) p
      else if path_is path ''/keys/edit'' then mutate now r (edit_action w now r) p
      else if path_is path ''/keys/revoke'' then mutate now r (revoke_action w r) p
      else if path_is path ''/keys/rotate'' then mutate now r (rotate_action w r) p
      else if path_is path ''/panel.css'' then (StyleSheet, p)
      else if path_is path ''/panel.js'' then (Script, p)
      else handleIndex w now r p)"

definition panel_step :: "panel_world \<Rightarrow> int \<Rightarrow> panel_request \<Rightarrow> panel \<Rightarrow> panel_answer \<times> panel" where
  "panel_step w now r p =
     (if \<not> guard_passes (panel_listen p) r then (Forbidden, p)
      else
        let escaped = pq_EscapedPath r;
            path = (if pq_Method r = ''CONNECT'' then escaped else cleanPath escaped) in
        if path \<noteq> escaped then (Moved path, p) else panel_routes w now r path p)"

subsection \<open>Starting\<close>

text \<open>
  \<open>ensureToken\<close> (\<open>main.go\<close>): the token of the file, or a new one of 24 random bytes when the file
  cannot be read or is blank. The content of the file is beside the machine.
\<close>

definition ensureToken ::
  "string option \<Rightarrow> deployment \<Rightarrow> (panel_error + string) \<times> string option \<times> deployment" where
  "ensureToken token_file d =
     (case attempt d of (ok, d) \<Rightarrow>
      let v = (if ok then (case token_file of None \<Rightarrow> [] | Some raw \<Rightarrow> TrimSpace raw) else []) in
      if v \<noteq> [] then (Inr v, token_file, d)
      else case NewSecret d of
        (None, d) \<Rightarrow> (Inl RandomError, token_file, d)
      | (Some token, d) \<Rightarrow>
          (case attempt d of (ok, d) \<Rightarrow>
           if \<not> ok then (Inl SystemError, token_file, d)
           else case writeFileAtomic False id d of (ok, d) \<Rightarrow>
             if ok then (Inr token, Some (token @ newline), d) else (Inl SystemError, token_file, d)))"

text \<open>The panel serves on a loopback address only.\<close>

definition cmdServe ::
  "string \<Rightarrow> string option \<Rightarrow> deployment \<Rightarrow> byte list option list \<Rightarrow> (panel \<times> string option) option" where
  "cmdServe listen token_file d rs =
     (case SplitHostPort listen of
        None \<Rightarrow> None
      | Some (host, _) \<Rightarrow>
          (case ParseIP host of
             None \<Rightarrow> None
           | Some addr \<Rightarrow>
               if \<not> IsLoopback addr then None
               else case ensureToken token_file d of
                 (Inl _, _, _) \<Rightarrow> None
               | (Inr token, token_file, d) \<Rightarrow>
                   Some (\<lparr>machine = d, web_sessions = [], panel_token = token, panel_listen = listen,
                     panel_randoms = rs\<rparr>, token_file)))"

text \<open>The requests in the order they are served.\<close>

fun panel_run :: "panel_world \<Rightarrow> (int \<times> panel_request) list \<Rightarrow> panel \<Rightarrow> panel" where
  "panel_run w [] p = p"
| "panel_run w ((now, r) # rqs) p = panel_run w rqs (snd (panel_step w now r p))"

end
