(* ===== verification/Panel_Props.thy ===== *)
theory Panel_Props
  imports Panel
begin

text \<open>
  Nobody changes a key without the token of the panel: not from another site, not with a stale
  form, not with a session that has expired. The token survives a restart. Two handlers that
  work at the same time can lose a key.
\<close>

subsection \<open>What one request can do\<close>

text \<open>A request that gets past the guard with the token.\<close>

definition logs_in :: "string \<Rightarrow> string \<Rightarrow> panel_request \<Rightarrow> bool" where
  "logs_in listen token r \<longleftrightarrow> guard_passes listen r \<and> pq_Method r = ''POST'' \<and> TrimSpace (pq_Form r ''token'') = token"

text \<open>A request of a session that has not expired, with the secret of its form.\<close>

definition authorized :: "int \<Rightarrow> panel_request \<Rightarrow> panel \<Rightarrow> bool" where
  "authorized now r p \<longleftrightarrow> pq_Method r = ''POST'' \<and>
     (\<exists>cookie s. pq_Cookie r = Some cookie \<and> map_of (web_sessions p) cookie = Some s \<and> now \<le> ws_expires s \<and>
        pq_Form r ''csrf'' = ws_csrf s)"

text \<open>
  The token and the address stay; every session after the step is one from before, up to its
  message, or fresh from a login.
\<close>

definition session_kept :: "panel \<Rightarrow> panel \<Rightarrow> bool" where
  "session_kept p p' \<longleftrightarrow> panel_token p' = panel_token p \<and> panel_listen p' = panel_listen p \<and>
     (\<forall>c s'. map_of (web_sessions p') c = Some s' \<longrightarrow>
        (\<exists>s. map_of (web_sessions p) c = Some s \<and> ws_expires s' = ws_expires s \<and> ws_csrf s' = ws_csrf s))"

lemma session_kept_refl [simp]: "session_kept p p"
  by (simp add: session_kept_def)

lemma session_kept_trans: "session_kept p q \<Longrightarrow> session_kept q r \<Longrightarrow> session_kept p r"
  unfolding session_kept_def by metis

lemma session_kept_machine [simp]: "session_kept p (p\<lparr>machine := d\<rparr>)"
  by (simp add: session_kept_def)

lemma session_kept_delete [simp]: "session_kept p (p\<lparr>web_sessions := AList.delete c (web_sessions p)\<rparr>)"
  by (auto simp: session_kept_def)

lemma session_kept_setFlash [simp]: "session_kept p (setFlash c m p)"
  by (auto simp: session_kept_def setFlash_def split: option.split)

lemma setFlash_machine [simp]: "machine (setFlash c m p) = machine p"
  by (simp add: setFlash_def split: option.split)

lemma lookup_session_step:
  assumes "lookup_session now r p = (who, p')"
  shows "session_kept p p'" and "machine p' = machine p"
    and "who = Some (c, s) \<Longrightarrow> p' = p \<and> pq_Cookie r = Some c \<and> map_of (web_sessions p) c = Some s \<and> now \<le> ws_expires s"
  using assms by (auto simp: lookup_session_def split: option.splits if_splits)

lemma mutate_step:
  assumes "mutate now r action p = (answer, p')"
  shows "session_kept p p'" and "machine p' \<noteq> machine p \<Longrightarrow> authorized now r p"
proof -
  obtain who q where l: "lookup_session now r p = (who, q)" by fastforce
  note s = lookup_session_step [OF l]
  have "session_kept p p' \<and> (machine p' \<noteq> machine p \<longrightarrow> authorized now r p)"
  proof (cases who)
    case None
    then show ?thesis using assms l s(1,2) by (auto simp: mutate_def split: if_splits)
  next
    case (Some f)
    obtain c se where f: "f = (c, se)" by fastforce
    obtain result d where a: "action (machine p) = (result, d)" by fastforce
    note t = s(3) [OF Some [unfolded f]]
    show ?thesis
      using assms l t a Some f session_kept_trans [OF session_kept_machine session_kept_setFlash]
      by (auto simp: mutate_def authorized_def split: if_splits)
  qed
  then show "session_kept p p'" "machine p' \<noteq> machine p \<Longrightarrow> authorized now r p" by auto
qed

lemma handleIndex_step:
  assumes "handleIndex w now r p = (answer, p')"
  shows "session_kept p p'" and "same_machine (machine p) (machine p')"
proof -
  obtain who q where l: "lookup_session now r p = (who, q)" by fastforce
  note s = lookup_session_step [OF l]
  obtain shown d where k: "Keys_views (pw_stamp w) (pw_hostname w) (machine q) = (shown, d)" by fastforce
  have m: "same_machine (machine q) d"
  proof -
    obtain res d1 where o: "LoadProfiles (machine q) = (res, d1)" by fastforce
    have "same_machine (machine q) d1"
      using o attempt_step(1) by (auto simp: LoadProfiles_def split: if_splits profiles_content.splits option.splits prod.splits)
    then show ?thesis using k o by (auto simp: Keys_views_def Let_def split: sum.splits)
  qed
  have "session_kept p p' \<and> same_machine (machine p) (machine p')"
  proof (cases who)
    case None
    then show ?thesis using assms l s(1,2) by (auto simp: handleIndex_def same_machine_refl split: if_splits)
  next
    case (Some f)
    obtain c se where f: "f = (c, se)" by fastforce
    show ?thesis
      using assms l s(3) [OF Some [unfolded f]] k m Some f session_kept_trans [OF session_kept_machine session_kept_setFlash]
      by (auto simp: handleIndex_def takeFlash_def same_machine_refl split: if_splits)
  qed
  then show "session_kept p p'" "same_machine (machine p) (machine p')" by auto
qed

lemma randomHex_frame:
  "randomHex p = (x, p') \<Longrightarrow> web_sessions p' = web_sessions p \<and> machine p' = machine p \<and>
     panel_token p' = panel_token p \<and> panel_listen p' = panel_listen p"
  by (auto simp: randomHex_def split: list.splits)

definition fresh_session :: "int \<Rightarrow> panel \<Rightarrow> panel \<Rightarrow> bool" where
  "fresh_session now p p' \<longleftrightarrow> panel_token p' = panel_token p \<and> panel_listen p' = panel_listen p \<and> machine p' = machine p \<and>
     (\<exists>c s. web_sessions p' = AList.update c s (web_sessions p) \<and> ws_expires s = now + session_life)"

lemma handleLogin_step:
  assumes "handleLogin now r p = (answer, p')"
  shows "p' = p \<or> pq_Method r = ''POST'' \<and> TrimSpace (pq_Form r ''token'') = panel_token p \<and> fresh_session now p p'"
proof -
  obtain x q where x: "randomHex p = (x, q)" by fastforce
  obtain y q2 where y: "randomHex q = (y, q2)" by fastforce
  show ?thesis
    using assms x y randomHex_frame [OF x] randomHex_frame [OF y]
    by (auto simp: handleLogin_def fresh_session_def split: if_splits intro!: exI)
qed

lemma panel_step_cases:
  assumes "panel_step w now r p = (answer, p')"
  shows "session_kept p p' \<and> (same_machine (machine p) (machine p') \<or> authorized now r p \<and> guard_passes (panel_listen p) r) \<or>
    logs_in (panel_listen p) (panel_token p) r \<and> fresh_session now p p'"
proof (cases "guard_passes (panel_listen p) r")
  case False
  then show ?thesis using assms by (simp add: panel_step_def same_machine_refl)
next
  case True
  have m: ?thesis if "mutate now r action p = (answer, p')" for action
    using mutate_step [OF that] True same_machine_refl by metis
  have o: "session_kept p p' \<and> same_machine (machine p) (machine p')" if "handleLogout now r p = (answer, p')"
  proof -
    obtain who q where l: "lookup_session now r p = (who, q)" by fastforce
    note s = lookup_session_step [OF l]
    show ?thesis using that l s(1,2) session_kept_trans [OF s(1) session_kept_delete]
      by (auto simp: handleLogout_def same_machine_refl split: option.splits)
  qed
  consider (kept) "p' = p" | (routed) path where "panel_routes w now r path p = (answer, p')"
    using assms by (auto simp: panel_step_def Let_def split: if_splits)
  then show ?thesis
  proof cases
    case routed
    then show ?thesis
      using m o handleIndex_step [of w now r p answer p'] handleLogin_step [of now r p answer p'] True
      unfolding panel_routes_def logs_in_def
      by (auto simp: same_machine_refl split: if_splits)
  qed (simp add: same_machine_refl)
qed

subsection \<open>What a sequence of requests can do\<close>

text \<open>Every session of the table comes from a login, and expires its life time later.\<close>

definition sessions_entered :: "(int \<times> panel_request) list \<Rightarrow> panel \<Rightarrow> bool" where
  "sessions_entered history p \<longleftrightarrow> (\<forall>c s. map_of (web_sessions p) c = Some s \<longrightarrow>
     (\<exists>(t, l) \<in> set history. logs_in (panel_listen p) (panel_token p) l \<and> ws_expires s = t + session_life))"

lemma sessions_entered_step:
  assumes "sessions_entered history p" and "panel_step w now r p = (answer, p')"
  shows "sessions_entered (history @ [(now, r)]) p' \<and> panel_token p' = panel_token p \<and> panel_listen p' = panel_listen p"
proof -
  consider "session_kept p p'" | "logs_in (panel_listen p) (panel_token p) r" "fresh_session now p p'"
    using panel_step_cases [OF assms(2)] by blast
  then show ?thesis
  proof cases
    case 1
    then show ?thesis using assms(1) unfolding session_kept_def sessions_entered_def by fastforce
  next
    case 2
    then show ?thesis using assms(1) unfolding fresh_session_def sessions_entered_def
      by (auto split: if_splits) fastforce+
  qed
qed

lemma panel_run_entered:
  "sessions_entered history p \<Longrightarrow>
     sessions_entered (history @ rqs) (panel_run w rqs p) \<and> panel_token (panel_run w rqs p) = panel_token p \<and>
     panel_listen (panel_run w rqs p) = panel_listen p"
proof (induction rqs arbitrary: history p)
  case (Cons x rqs)
  obtain now r where x: "x = (now, r)" by fastforce
  obtain a q where "panel_step w now r p = (a, q)" by fastforce
  then show ?case
    using sessions_entered_step [OF Cons.prems] Cons.IH [of "history @ [x]" q] x by auto
qed simp

text \<open>
  C7: nobody changes a key without the token. Whenever a request changes more of the machine than
  the outcomes it used up, in any sequence of requests to a panel that was started, it is a
  \<open>POST\<close> to the loopback name of the panel, not from a foreign origin, with the cookie of a session
  that has not expired and with the secret of that session in its form; and there was a login
  before it with the token of the panel, at most twelve hours ago.
\<close>
theorem changes_need_token:
  assumes "cmdServe listen token_file d rs = Some (p, token_file')"
    and "panel_step w now r (panel_run w rqs p) = (answer, p')"
    and "\<not> same_machine (machine (panel_run w rqs p)) (machine p')"
  shows "authorized now r (panel_run w rqs p) \<and> guard_passes listen r \<and>
     (\<exists>(t, l) \<in> set rqs. logs_in listen (panel_token p) l \<and> now \<le> t + session_life)"
proof -
  have p: "web_sessions p = []" "panel_listen p = listen"
    using assms(1) by (auto simp: cmdServe_def split: option.splits prod.splits if_splits sum.splits)
  have e: "sessions_entered rqs (panel_run w rqs p)" "panel_token (panel_run w rqs p) = panel_token p"
    "panel_listen (panel_run w rqs p) = listen"
    using panel_run_entered [of "[]" p rqs w] p by (auto simp: sessions_entered_def)
  have a: "authorized now r (panel_run w rqs p)" "guard_passes listen r"
    using panel_step_cases [OF assms(2)] assms(3) e(3) by (auto simp: fresh_session_def same_machine_refl)
  then obtain c s where "map_of (web_sessions (panel_run w rqs p)) c = Some s" "now \<le> ws_expires s"
    by (auto simp: authorized_def)
  then show ?thesis using a e unfolding sessions_entered_def by fastforce
qed

definition example_world :: panel_world where
  "example_world = \<lparr>pw_provision = (\<lambda>d. (False, d)), pw_check = (\<lambda>_. True), pw_time = (\<lambda>_. ''now''),
     pw_stamp = (\<lambda>_. None), pw_hostname = None\<rparr>"

definition form_request :: "string \<Rightarrow> string option \<Rightarrow> (string \<Rightarrow> string) \<Rightarrow> panel_request" where
  "form_request path cookie form = \<lparr>pq_Method = ''POST'', pq_Host = ''localhost:9000'', pq_Origin = [],
     pq_Path = path, pq_EscapedPath = path, pq_Cookie = cookie, pq_Form = form\<rparr>"

definition login_request :: panel_request where
  "login_request = form_request ''/login'' None (\<lambda>field. if field = ''token'' then ''t'' else [])"

definition edit_request :: panel_request where
  "edit_request = form_request ''/keys/edit'' (Some ''01'')
     (\<lambda>field. if field = ''csrf'' then ''02'' else if field = ''name'' then ''a'' else [])"

definition started_panel :: panel where
  "started_panel = \<lparr>machine = two_keys, web_sessions = [], panel_token = ''t'', panel_listen = ''127.0.0.1:9000'',
     panel_randoms = [Some [1], Some [2]]\<rparr>"

lemma one_letter: "TrimSpace ''t'' = ''t''" "TrimSpace ''a'' = ''a''" "TrimSpace [] = []"
  by (rule TrimSpace_graphic, simp add: graphic_def)+

lemma panel_starts: "cmdServe ''127.0.0.1:9000'' (Some ''t'') two_keys [Some [1], Some [2]] = Some (started_panel, Some ''t'')"
proof -
  have "SplitHostPort ''127.0.0.1:9000'' = Some (''127.0.0.1'', ''9000'')" by code_simp
  moreover have "outcomes two_keys = []" by (simp add: two_keys_def panel_machine_def)
  ultimately show ?thesis
    by (simp add: cmdServe_def ensureToken_def calm_steps one_letter started_panel_def loopback_parsed Let_def)
qed

lemma example_guard: "guard_passes ''127.0.0.1:9000'' (form_request path cookie form)"
proof -
  have "SplitHostPort ''127.0.0.1:9000'' = Some (''127.0.0.1'', ''9000'')" by code_simp
  then show ?thesis by (simp add: guard_passes_def allowed_host_def form_request_def)
qed

lemma example_paths:
  "cleanPath ''/login'' = ''/login''" "path_is ''/login'' ''/login''"
  "cleanPath ''/keys/edit'' = ''/keys/edit''" "path_is ''/keys/edit'' ''/keys/edit''"
  "\<not> path_is ''/keys/edit'' ''/login''" "\<not> path_is ''/keys/edit'' ''/logout''" "\<not> path_is ''/keys/edit'' ''/keys/add''"
  by code_simp+

lemma example_login:
  "panel_run example_world [(0, login_request)] started_panel =
     started_panel\<lparr>web_sessions := [(''01'', \<lparr>ws_csrf = ''02'', ws_flash = Silence, ws_expires = session_life\<rparr>)],
       panel_randoms := []\<rparr>"
proof -
  have h: "hex_string [1] = ''01''" "hex_string [2] = ''02''" by code_simp+
  show ?thesis
    using example_guard [of "''/login''" None "\<lambda>field. if field = ''token'' then ''t'' else []"]
    by (simp add: panel_step_def login_request_def started_panel_def form_request_def example_paths
      panel_routes_def handleLogin_def one_letter randomHex_def h)
qed

theorem changes_need_token_witness:
  "\<exists>p answer p'. cmdServe ''127.0.0.1:9000'' (Some ''t'') two_keys [Some [1], Some [2]] = Some (p, Some ''t'') \<and>
     panel_step example_world 1 edit_request (panel_run example_world [(0, login_request)] p) = (answer, p') \<and>
     meta_file (machine p') \<noteq> None \<and> authorized 1 edit_request (panel_run example_world [(0, login_request)] p)"
proof -
  let ?q = "panel_run example_world [(0, login_request)] started_panel"
  let ?metas = "[(''a'', \<lparr>km_Label = [], km_Group = [], km_Note = [], km_Created = ''now''\<rparr>)]"
  have o: "outcomes two_keys = []" "meta_file two_keys = None" by (simp_all add: two_keys_def panel_machine_def)
  have "UpdateKeyMeta ''now'' ''a'' [] [] two_keys = (None, two_keys\<lparr>meta_file := Some ?metas\<rparr>)"
    by (simp add: UpdateKeyMeta_def two_keys_loaded(1) SaveMeta_def calm_steps [OF o(1)] LoadMeta_def o(2) one_letter)
      (simp add: old_key_def new_key_def)
  then have e: "edit_action example_world 1 edit_request two_keys = (Inr (Edited ''a''), two_keys\<lparr>meta_file := Some ?metas\<rparr>)"
    by (simp add: edit_action_def edit_request_def form_request_def one_letter example_world_def Let_def)
  obtain answer p' where s: "panel_step example_world 1 edit_request ?q = (answer, p')"
    and m: "machine p' = two_keys\<lparr>meta_file := Some ?metas\<rparr>"
  proof -
    have "machine (snd (panel_step example_world 1 edit_request ?q)) = two_keys\<lparr>meta_file := Some ?metas\<rparr>"
      using e example_guard [of "''/keys/edit''" "Some ''01''"]
      unfolding example_login
      by (simp add: panel_step_def edit_request_def started_panel_def form_request_def example_paths
        panel_routes_def mutate_def lookup_session_def session_life_def)
    then show ?thesis using that by (metis prod.collapse)
  qed
  have "machine ?q = two_keys" unfolding example_login by (simp add: started_panel_def)
  then have "\<not> same_machine (machine ?q) (machine p')"
    using same_machine_fields(6) [of two_keys "machine p'"] m o(2) by auto
  from changes_need_token [OF panel_starts s this] s m panel_starts show ?thesis by auto
qed

subsection \<open>The token of the panel\<close>

lemma trim_front_stops: "find (\<lambda>w. w \<noteq> [] \<and> HasPrefix (trim_front ws s) w) ws = None"
proof (induction ws s rule: trim_front.induct)
  case (1 ws s)
  then show ?case
    by (cases "find (\<lambda>w. w \<noteq> [] \<and> HasPrefix s w) ws") (simp_all add: trim_front.simps [of ws s])
qed

lemma trim_front_stopped: "find (\<lambda>w. w \<noteq> [] \<and> HasPrefix s w) ws = None \<Longrightarrow> trim_front ws s = s"
  by (simp add: trim_front.simps)

lemma trim_front_suffix: "\<exists>p. s = p @ trim_front ws s"
proof (induction ws s rule: trim_front.induct)
  case (1 ws s)
  show ?case
  proof (cases "find (\<lambda>w. w \<noteq> [] \<and> HasPrefix s w) ws")
    case None
    then show ?thesis by (simp add: trim_front.simps)
  next
    case (Some w)
    then obtain p where "drop (length w) s = p @ trim_front ws (drop (length w) s)" using "1.IH" by blast
    then have "s = (take (length w) s @ p) @ trim_front ws s"
      using Some by (simp add: trim_front.simps [of ws s])
    then show ?thesis by blast
  qed
qed

lemma TrimSpace_idem: "TrimSpace (TrimSpace s) = TrimSpace s"
proof -
  let ?u = "trim_front spaces s" and ?ws = "map rev spaces"
  let ?t = "TrimSpace s"
  obtain p where p: "rev ?u = p @ rev ?t" using trim_front_suffix [of "rev ?u" ?ws] by (auto simp: TrimSpace_def)
  then have u: "?u = ?t @ rev p" by (metis rev_append rev_rev_ident)
  have "\<not> HasPrefix ?t w" if "w \<in> set spaces" "w \<noteq> []" for w
    using trim_front_stops [of spaces s] that u by (auto simp: find_None_iff HasPrefix_iff)
  then have f: "trim_front spaces ?t = ?t" by (intro trim_front_stopped) (auto simp: find_None_iff)
  have "trim_front ?ws (rev ?t) = rev ?t"
    by (rule trim_front_stopped) (use trim_front_stops [of ?ws "rev ?u"] in \<open>simp add: TrimSpace_def\<close>)
  then show ?thesis using f by (simp add: TrimSpace_def [of ?t])
qed

lemma TrimSpace_newline:
  assumes "s \<noteq> []" and "graphic (hd s)" and "graphic (last s)"
  shows "TrimSpace (s @ newline) = s"
proof -
  have "trim_front spaces (s @ newline) = s @ newline"
    by (rule trim_front_graphic) (use assms spaces_ends in auto)
  moreover have "trim_front (map rev spaces) (CHR 0x0A # rev s) = trim_front (map rev spaces) (rev s)"
  proof -
    have "\<exists>ws. map rev spaces = [CHR 0x09] # [CHR 0x0A] # ws" by (simp add: spaces_def char_of_def bit_0)
    then obtain ws where w: "map rev spaces = [CHR 0x09] # [CHR 0x0A] # ws" by (elim exE)
    have "find (\<lambda>w. w \<noteq> [] \<and> HasPrefix (CHR 0x0A # rev s) w) (map rev spaces) = Some [CHR 0x0A]"
      unfolding w by (simp add: HasPrefix_def)
    then show ?thesis by (subst trim_front.simps) simp
  qed
  moreover have "trim_front (map rev spaces) (rev s) = rev s"
    by (rule trim_front_graphic) (use assms spaces_ends in \<open>auto simp: hd_rev\<close>)
  ultimately show ?thesis by (simp add: TrimSpace_def newline_def)
qed

lemma hex_string_graphic: "c \<in> set (hex_string bs) \<Longrightarrow> graphic c"
proof -
  have "graphic (hex_char n)" if "n < 16" for n
    using that by (simp add: graphic_def hex_char_def)
  moreover have "unat b < 256" for b :: byte by (rule order_less_le_trans [OF unsigned_less]) simp
  ultimately show "c \<in> set (hex_string bs) \<Longrightarrow> graphic c"
    by (auto simp: hex_string_def less_mult_imp_div_less)
qed

text \<open>
  The token of the panel lasts. A token that \<open>ensureToken\<close> returns is the one a login with it
  must give, spaces around it notwithstanding, and is not blank; and from the file it leaves
  every later start that can read the file gets the same token and writes nothing.
\<close>
theorem token_lasts:
  assumes "ensureToken token_file d = (Inr token, token_file', d')" and "Some [] \<notin> set (randoms d)"
  shows "token \<noteq> [] \<and> TrimSpace token = token \<and>
     (attempt e = (True, e') \<longrightarrow> ensureToken token_file' e = (Inr token, token_file', e'))"
proof -
  obtain ok d1 where a: "attempt d = (ok, d1)" by fastforce
  let ?v = "if ok then (case token_file of None \<Rightarrow> [] | Some raw \<Rightarrow> TrimSpace raw) else []"
  show ?thesis
  proof (cases "?v = []")
    case False
    then obtain raw where "token_file = Some raw" "token = TrimSpace raw" "token_file' = token_file"
      using assms(1) a by (auto simp: ensureToken_def Let_def split: if_splits option.splits)
    then show ?thesis using False by (auto simp: ensureToken_def Let_def TrimSpace_idem split: if_splits)
  next
    case True
    have r: "randoms d1 = randoms d" using same_machine_fields(7) [OF attempt_step(1) [OF a]] .
    obtain bs rest where n: "randoms d1 = Some bs # rest" and t: "token = hex_string bs" "token_file' = Some (token @ newline)"
      using assms(1) a True
      by (auto simp: ensureToken_def Let_def NewSecret_def split: if_splits option.splits prod.splits list.splits)
    then have "bs \<noteq> []" using assms(2) r by auto
    then have ne: "token \<noteq> []" using t by (cases bs) (simp_all add: hex_string_def)
    have g: "graphic (hd token)" "graphic (last token)"
      using hex_string_graphic ne t(1) hd_in_set last_in_set by blast+
    show ?thesis
      using ne g t TrimSpace_newline [OF ne g] TrimSpace_graphic [of token]
      by (simp add: ensureToken_def Let_def)
  qed
qed

theorem token_lasts_witness:
  "\<exists>token token_file d'. ensureToken None two_keys = (Inr token, token_file, d') \<and> token \<noteq> [] \<and>
     ensureToken token_file two_keys = (Inr token, token_file, two_keys)"
proof -
  have o: "outcomes two_keys = []" "randoms two_keys = [Some (replicate 16 0x22)]"
    by (simp_all add: two_keys_def panel_machine_def)
  obtain token token_file d' where e: "ensureToken None two_keys = (Inr token, token_file, d')"
    by (simp add: ensureToken_def calm_steps o NewSecret_def Let_def)
  have "Some [] \<notin> set (randoms two_keys)" by (simp add: o)
  from token_lasts [OF e this, of two_keys two_keys] e show ?thesis by (auto simp: calm_steps o)
qed

subsection \<open>Two handlers at once\<close>

text \<open>What \<open>AddKeys\<close> does once it has loaded the keys.\<close>

definition add_loaded ::
  "(deployment \<Rightarrow> bool \<times> deployment) \<Rightarrow> (KeyProfile list \<Rightarrow> bool) \<Rightarrow> string \<Rightarrow> NewKeyRequest list
     \<Rightarrow> KeyProfile list \<Rightarrow> deployment \<Rightarrow> (panel_error + KeyProfile list) \<times> deployment" where
  "add_loaded provision check now requests profs d =
     (case LoadBackends d of
        Inl e \<Rightarrow> (Inl e, d)
      | Inr registry \<Rightarrow>
      if len profs + len requests > maxProfiles d then (Inl (OverMaxProfiles (maxProfiles d)), d)
      else case check_requests (set (map kp_Name profs)) requests of
        Some e \<Rightarrow> (Inl e, d)
      | None \<Rightarrow>
      (case assign_keys provision registry (backendUsage profs) [] requests d of
         (Inl e, d) \<Rightarrow> (Inl e, d)
       | (Inr added, d) \<Rightarrow>
           (case Apply check (profs @ added) d of
              (Some e, d) \<Rightarrow> (Inl e, d)
            | (None, d) \<Rightarrow> (Inr added, snd (SaveMeta (fold (add_meta now) (zip requests added) (LoadMeta d)) d)))))"

lemma AddKeys_loaded:
  "requests \<noteq> [] \<Longrightarrow> LoadProfiles d = (Inr profs, d1) \<Longrightarrow>
     AddKeys provision check now requests d = add_loaded provision check now requests profs d1"
  by (simp add: AddKeys_def add_loaded_def)

lemma add_loaded_file:
  assumes "add_loaded provision check now requests profs d = (Inr added, d')"
  shows "profiles_file d' = marshalProfiles (profs @ added)" and "list_all2 made_for requests added"
proof -
  obtain registry d2 d3 where a: "assign_keys provision registry (backendUsage profs) [] requests d = (Inr added, d2)"
    and p: "Apply check (profs @ added) d2 = (None, d3)" and s: "profiles_file d' = profiles_file d3"
    using assms
    by (auto simp: add_loaded_def SaveMeta_frame split: if_split_asm sum.splits option.splits prod.splits)
  show "profiles_file d' = marshalProfiles (profs @ added)" using Apply_success(1) [OF p] s by simp
  show "list_all2 made_for requests added" using assign_keys_made [OF a] by simp
qed

text \<open>
  C40: two requests at once can lose a key. The panel serves requests concurrently and no lock
  covers the key store. When two requests to add a key load the profiles file before either of
  them writes it, and the first then ends before the second goes on, both report success, but the
  profiles file holds only the key of the second: the key the first one reported is gone.
\<close>
theorem concurrent_adds_lose_key:
  assumes "LoadProfiles d = (Inr profs, d1)" and "LoadProfiles d1 = (Inr profs', d2)"
    and "add_loaded provision check now [q] profs d2 = (Inr [k], d3)"
    and "add_loaded provision check now [q'] profs' d3 = (Inr [k'], d4)"
    and "TrimSpace (rq_Name q) \<noteq> TrimSpace (rq_Name q')"
  shows "profiles_file d4 = marshalProfiles (profs @ [k']) \<and> k \<notin> set (profs @ [k'])"
proof -
  have "profs' = profs"
    using LoadProfiles_file [OF assms(1)] LoadProfiles_file [OF assms(2)] same_machine_fields(1) by auto
  moreover have "kp_Name k = TrimSpace (rq_Name q)" "kp_Name k' = TrimSpace (rq_Name q')"
    using add_loaded_file(2) [OF assms(3)] add_loaded_file(2) [OF assms(4)] by (auto simp: made_for_def)
  moreover have "TrimSpace (rq_Name q) \<notin> set (map kp_Name profs)"
    using assms(3) by (auto simp: add_loaded_def Let_def split: if_split_asm sum.splits option.splits)
  ultimately show ?thesis using add_loaded_file(1) [OF assms(4)] assms(5) by force
qed

text \<open>No step of \<open>Apply\<close> touches the list of backends, the relay's limit or the random bytes.\<close>

definition kept :: "deployment \<Rightarrow> deployment \<Rightarrow> bool" where
  "kept d d' \<longleftrightarrow> backends_file d' = backends_file d \<and> relay_max_profiles d' = relay_max_profiles d \<and> randoms d' = randoms d"

lemma kept_refl [simp]: "kept d d"
  by (simp add: kept_def)

lemma kept_trans: "kept d d' \<Longrightarrow> kept d' d'' \<Longrightarrow> kept d d''"
  by (simp add: kept_def)

lemma kept_same: "same_machine d d' \<Longrightarrow> kept d d'"
  using same_machine_fields by (simp add: kept_def)

lemma kept_attempt: "attempt d = (ok, d') \<Longrightarrow> kept d d'"
  using kept_same attempt_step(1) by blast

lemma kept_write:
  assumes "writeFileAtomic grouped put d = (ok, d')" and "\<And>x. kept x (put x)" and "\<And>x. outcomes (put x) = outcomes x"
  shows "kept d d'"
proof -
  obtain x where "same_machine d x" "d' = (if ok then put x else x)" using writeFileAtomic_step [OF assms(1)] assms(3) by auto
  then show ?thesis using kept_same kept_trans assms(2) by (metis (full_types))
qed

lemma kept_sync: "sync_loop profs bs changed d = (r, d') \<Longrightarrow> kept d d'"
proof (induction bs arbitrary: changed d)
  case (Cons b bs)
  obtain r1 d1 where 1: "sync_backend profs b d = (r1, d1)" by fastforce
  have "kept d d1"
  proof -
    have w: "kept x y" if "writeFileAtomic True (put_env p c) x = (ok, y)" for x y p c ok
      using that by (rule kept_write) (simp_all add: kept_def put_env_def)
    show ?thesis
      using 1 by (auto simp: sync_backend_def Let_def split: prod.splits if_splits dest!: kept_attempt w intro: kept_trans)
  qed
  then show ?case using Cons.prems 1 Cons.IH kept_trans by (cases r1) fastforce+
qed simp

lemma kept_restart_unit: "restart_unit unit d = (ok, d') \<Longrightarrow> kept d d'"
proof -
  obtain b x where a: "attempt d = (b, x)" by fastforce
  show "restart_unit unit d = (ok, d') \<Longrightarrow> kept d d'"
    using kept_attempt [OF a] a by (auto simp: restart_unit_def kept_def split: if_splits)
qed

lemma kept_restart_units: "restart_units units d = (r, d') \<Longrightarrow> kept d d'"
  by (induction units arbitrary: d) (auto split: prod.splits if_splits dest!: kept_restart_unit intro: kept_trans)

lemma kept_restartStack: "restartStack units d = (r, d') \<Longrightarrow> kept d d'"
  by (auto simp: restartStack_def split: prod.splits option.splits if_splits
      dest!: kept_restart_units kept_restart_unit kept_attempt intro: kept_trans)

lemma kept_put: "kept x (put_profiles c x)"
  by (simp add: kept_def put_profiles_def)

lemma kept_calm_add:
  assumes "outcomes d = []" and "LoadBackends d = Inr registry" and "len profs + 1 \<le> maxProfiles d"
    and "check_requests (set (map kp_Name profs)) [q] = None" and "pickBackend registry (backendUsage profs) = Some addr"
    and "randoms d = Some r # rest" and "profiles_file d \<noteq> Absent"
    and "k = \<lparr>kp_Name = TrimSpace (rq_Name q), kp_Secret = hex_string r, kp_Backend = addr,
       kp_CarrierMode = rq_Mode q, kp_Limits = []\<rparr>"
    and "valid_keys (set (map Address registry)) (profs @ [k])"
  shows "\<exists>d'. add_loaded provision (\<lambda>_. True) now [q] profs d = (Inr [k], d') \<and> outcomes d' = [] \<and>
     kept (d\<lparr>randoms := rest\<rparr>) d' \<and> profiles_file d' \<noteq> Absent"
proof -
  let ?d = "d\<lparr>randoms := rest\<rparr>"
  have o: "outcomes ?d = []" using assms(1) by simp
  have a: "assign_keys provision registry (backendUsage profs) [] [q] d = (Inr [k], ?d)"
    using assms(5,6,8) by (simp add: chooseBackend_def NewSecret_def)
  let ?x = "put_profiles (marshalProfiles (profs @ [k])) ?d"
  have x: "outcomes ?x = []" using o by (simp add: put_profiles_def)
  obtain s d1 where s: "syncBackendSecrets registry (profs @ [k]) ?x = (s, d1)" by fastforce
  from sync_loop_step [OF s [unfolded syncBackendSecrets_def]] x
  obtain units where u: "s = Inr units" and d1: "outcomes d1 = []" by (auto simp: faults_left_def)
  obtain t d2 where t: "restartStack units d1 = (t, d2)" by fastforce
  from restartStack_step [OF t] d1 have r2: "t = None" "outcomes d2 = []" by (auto simp: faults_left_def)
  have i: "install (\<lambda>_. True) registry (profs @ [k]) ?d = (None, d2)"
    using assms(7) s u t r2 by (simp add: install_def calm_steps [OF o] Let_def)
  have p: "Apply (\<lambda>_. True) (profs @ [k]) ?d = (None, d2)"
    using i assms(2,3,9) check_keys_valid [of "set (map Address registry)" "profs @ [k]"]
    by (simp add: Apply_def LoadBackends_def maxProfiles_def)
  have kd: "kept ?d d2"
    using kept_trans [OF kept_put kept_trans [OF kept_sync [OF s [unfolded syncBackendSecrets_def]] kept_restartStack [OF t]]] .
  let ?m = "fold (add_meta now) (zip [q] [k]) (LoadMeta d2)"
  have sm: "SaveMeta ?m d2 = (True, d2\<lparr>meta_file := Some ?m\<rparr>)"
    using r2(2) by (simp add: SaveMeta_def calm_steps)
  have "add_loaded provision (\<lambda>_. True) now [q] profs d = (Inr [k], d2\<lparr>meta_file := Some ?m\<rparr>)"
    using assms(2,3,4) a p sm by (simp add: add_loaded_def)
  moreover have "profiles_file d2 \<noteq> Absent"
    using Apply_success(1) [OF p] by (simp add: marshalProfiles_def)
  ultimately show ?thesis using kd r2(2) by (simp add: kept_def)
qed

definition add_request :: "string \<Rightarrow> NewKeyRequest" where
  "add_request name = \<lparr>rq_Name = name, rq_Label = [], rq_Group = [], rq_Mode = []\<rparr>"

definition made_key :: "string \<Rightarrow> byte \<Rightarrow> KeyProfile" where
  "made_key name b = \<lparr>kp_Name = name, kp_Secret = hex_string (replicate 16 b), kp_Backend = ''127.0.0.1:5'',
     kp_CarrierMode = [], kp_Limits = []\<rparr>"

theorem concurrent_adds_lose_key_witness:
  "\<exists>d3 d4. add_loaded (\<lambda>d. (False, d)) (\<lambda>_. True) ''now'' [add_request ''t''] [old_key]
         ((panel_machine [])\<lparr>randoms := [Some (replicate 16 0x22), Some (replicate 16 0x33)]\<rparr>) = (Inr [made_key ''t'' 0x22], d3) \<and>
     add_loaded (\<lambda>d. (False, d)) (\<lambda>_. True) ''now'' [add_request ''c''] [old_key] d3 = (Inr [made_key ''c'' 0x33], d4) \<and>
     profiles_file d4 = marshalProfiles [old_key, made_key ''c'' 0x33]"
proof -
  let ?d = "(panel_machine [])\<lparr>randoms := [Some (replicate 16 0x22), Some (replicate 16 0x33)]\<rparr>"
  let ?r = "[first_backend, second_backend]"
  have n: "TrimSpace ''c'' = ''c''" by (rule TrimSpace_graphic) (simp add: graphic_def)
  have l: "LoadBackends ?d = Inr ?r" "outcomes ?d = []" "maxProfiles ?d = 32" "profiles_file ?d \<noteq> Absent"
    "LoadProfiles ?d = (Inr [old_key], ?d)"
    by (simp_all add: panel_machine_def LoadBackends_def maxProfiles_def marshalProfiles_def LoadProfiles_def attempt_def)
  have "hex_string [0x33] = ''33''" by (simp add: hex_string_def hex_char_def char_of_def bit_0)
  then have h: "hex_string (replicate 16 0x22) = replicate 32 CHR ''2''" "hex_string (replicate 16 0x33) = replicate 32 CHR ''3''"
    by (simp_all add: example_secret hex_string_replicate [of 16 "0x33"] concat_replicate_pairs)
  have q: "check_requests (set (map kp_Name [old_key])) [add_request ''t''] = None"
    "check_requests (set (map kp_Name [old_key])) [add_request ''c''] = None"
    by (simp_all add: add_request_def one_letter n old_key_def nameRE_def alnum_def validCarrier_def)
  have b: "pickBackend ?r (backendUsage [old_key]) = Some ''127.0.0.1:5''"
    by (simp add: first_backend_def old_key_def maxSecretsPerBackend_def)
  have v: "valid_keys (set (map Address ?r)) ([old_key] @ [made_key ''t'' 0x22])"
    "valid_keys (set (map Address ?r)) ([old_key] @ [made_key ''c'' 0x33])"
    unfolding backend_fields(2)
    by (simp_all add: valid_keys_def valid_key_def old_key_def made_key_def h nameRE_def alnum_def secretRE_def hex_digit_def
      validCarrier_def list_all_iff maxSecretsPerBackend_def)
  obtain d3 where d3: "add_loaded (\<lambda>d. (False, d)) (\<lambda>_. True) ''now'' [add_request ''t''] [old_key] ?d = (Inr [made_key ''t'' 0x22], d3)"
    and o3: "outcomes d3 = []" "kept (?d\<lparr>randoms := [Some (replicate 16 0x33)]\<rparr>) d3" "profiles_file d3 \<noteq> Absent"
    using kept_calm_add [OF l(2,1) _ q(1) b _ l(4) _ v(1), of "replicate 16 0x22" "[Some (replicate 16 0x33)]" "\<lambda>d. (False, d)" "''now''"] l(3)
    by (auto simp: made_key_def add_request_def one_letter)
  have k3: "LoadBackends d3 = Inr ?r" "maxProfiles d3 = 32" "randoms d3 = Some (replicate 16 0x33) # []"
    using o3(2) l(1,3) by (simp_all add: kept_def LoadBackends_def maxProfiles_def)
  obtain d4 where d4: "add_loaded (\<lambda>d. (False, d)) (\<lambda>_. True) ''now'' [add_request ''c''] [old_key] d3 = (Inr [made_key ''c'' 0x33], d4)"
    using kept_calm_add [OF o3(1) k3(1) _ q(2) b k3(3) o3(3) _ v(2), of "\<lambda>d. (False, d)" "''now''"] k3(2)
    by (auto simp: made_key_def add_request_def n)
  have ne: "TrimSpace (rq_Name (add_request ''t'')) \<noteq> TrimSpace (rq_Name (add_request ''c''))"
    by (simp add: add_request_def one_letter n)
  from concurrent_adds_lose_key [OF l(5) l(5) d3 d4 ne] d3 d4 show ?thesis by auto
qed

end
