(* ===== verification/Commands.thy ===== *)
theory Commands
  imports Panel_Props
begin

text \<open>
  The commands of \<open>tproxy-keys\<close> (\<open>keys-panel/main.go\<close>) on the key store. A command gets its flags as
  they were parsed and returns what it prints, or why it fails.
\<close>

datatype command_error = MissingFlag | FileUnreadable | EmptyName nat | NoRows | NoKeyNamed string | Store panel_error

subsection \<open>Importing\<close>

text \<open>\<open>strings.TrimRight\<close> of carriage returns.\<close>

definition trim_returns :: "string \<Rightarrow> string" where
  "trim_returns s = rev (dropWhile (\<lambda>c. c = CHR 0x0D) (rev s))"

definition column :: "string list \<Rightarrow> nat \<Rightarrow> string" where
  "column columns n = (if length columns > n then TrimSpace (columns ! n) else [])"

definition row_request :: "string \<Rightarrow> NewKeyRequest" where
  "row_request line =
     (let columns = Split (CHR 0x09) line in
      \<lparr>rq_Name = column columns 0, rq_Label = column columns 1, rq_Group = column columns 2, rq_Mode = column columns 3\<rparr>)"

fun import_rows :: "nat \<Rightarrow> NewKeyRequest list \<Rightarrow> string list \<Rightarrow> command_error + NewKeyRequest list" where
  "import_rows lineNumber requests [] = Inr requests"
| "import_rows lineNumber requests (line # rest) =
     (let line = trim_returns line in
      if TrimSpace line = [] \<or> HasPrefix (TrimSpace line) ''#'' then import_rows (Suc lineNumber) requests rest
      else if rq_Name (row_request line) = [] then Inl (EmptyName (Suc lineNumber))
      else import_rows (Suc lineNumber) (requests @ [row_request line]) rest)"

definition cmdImport ::
  "(deployment \<Rightarrow> bool \<times> deployment) \<Rightarrow> (KeyProfile list \<Rightarrow> bool) \<Rightarrow> string \<Rightarrow> string option \<Rightarrow> string \<Rightarrow> string option
     \<Rightarrow> deployment \<Rightarrow> (command_error + (string \<times> string \<times> string) list) \<times> deployment" where
  "cmdImport provision check now config path contents d =
     (if path = [] then (Inl MissingFlag, d)
      else case contents of
        None \<Rightarrow> (Inl FileUnreadable, d)
      | Some text \<Rightarrow>
      (case import_rows 0 [] (Split (CHR 0x0A) text) of
         Inl e \<Rightarrow> (Inl e, d)
       | Inr requests \<Rightarrow>
           if requests = [] then (Inl NoRows, d)
           else (case AddKeys provision check now requests d of
             (Inl e, d) \<Rightarrow> (Inl (Store e), d)
           | (Inr added, d) \<Rightarrow>
               (Inr (map (\<lambda>p. (kp_Name p, kp_Secret p, ClientLink (PublicHostname_of config) (kp_Secret p))) added), d))))"

subsection \<open>The other commands\<close>

text \<open>A key with the host name and its link.\<close>

definition show_key :: "string option \<Rightarrow> KeyProfile \<Rightarrow> string \<times> string \<times> string" where
  "show_key config p =
     (let host = PublicHostname_of config in (host, kp_Secret p, ClientLink host (kp_Secret p)))"

definition cmdAdd ::
  "(deployment \<Rightarrow> bool \<times> deployment) \<Rightarrow> (KeyProfile list \<Rightarrow> bool) \<Rightarrow> string \<Rightarrow> string option \<Rightarrow> NewKeyRequest
     \<Rightarrow> deployment \<Rightarrow> (command_error + string \<times> string \<times> string \<times> string) \<times> deployment" where
  "cmdAdd provision check now config request d =
     (if rq_Name request = [] then (Inl MissingFlag, d)
      else case AddKeys provision check now [request] d of
        (Inl e, d) \<Rightarrow> (Inl (Store e), d)
      | (Inr added, d) \<Rightarrow> (Inr (kp_Name (hd added), show_key config (hd added)), d))"

text \<open>A flag that was not given is \<open>None\<close> and leaves its field alone.\<close>

definition cmdEdit ::
  "(string \<Rightarrow> string option) \<Rightarrow> string option \<Rightarrow> string \<Rightarrow> string \<Rightarrow> string option \<Rightarrow> string option
     \<Rightarrow> deployment \<Rightarrow> (command_error + unit) \<times> deployment" where
  "cmdEdit stamp config now name label grp d =
     (if name = [] then (Inl MissingFlag, d)
      else case Keys_views stamp config d of
        (Inl e, d) \<Rightarrow> (Inl (Store e), d)
      | (Inr (views, _), d) \<Rightarrow>
          (case find (\<lambda>v. kp_Name (kv_Profile v) = name) views of
             None \<Rightarrow> (Inl (NoKeyNamed name), d)
           | Some v \<Rightarrow>
               (case UpdateKeyMeta now name
                   (case label of None \<Rightarrow> km_Label (kv_Meta v) | Some l \<Rightarrow> l)
                   (case grp of None \<Rightarrow> km_Group (kv_Meta v) | Some g \<Rightarrow> g) d of
                  (Some e, d) \<Rightarrow> (Inl (Store e), d)
                | (None, d) \<Rightarrow> (Inr (), d))))"

definition cmdRevoke :: "(KeyProfile list \<Rightarrow> bool) \<Rightarrow> string \<Rightarrow> deployment \<Rightarrow> (command_error + unit) \<times> deployment" where
  "cmdRevoke check name d =
     (if name = [] then (Inl MissingFlag, d)
      else case RevokeKey check name d of (Some e, d) \<Rightarrow> (Inl (Store e), d) | (None, d) \<Rightarrow> (Inr (), d))"

definition cmdRotate ::
  "(KeyProfile list \<Rightarrow> bool) \<Rightarrow> string option \<Rightarrow> string \<Rightarrow> deployment
     \<Rightarrow> (command_error + string \<times> string \<times> string \<times> string) \<times> deployment" where
  "cmdRotate check config name d =
     (if name = [] then (Inl MissingFlag, d)
      else case RotateKey check name d of
        (Inl e, d) \<Rightarrow> (Inl (Store e), d)
      | (Inr p, d) \<Rightarrow> (Inr (kp_Name p, show_key config p), d))"

definition cmdLink ::
  "(string \<Rightarrow> string option) \<Rightarrow> string option \<Rightarrow> string \<Rightarrow> deployment
     \<Rightarrow> (command_error + string \<times> string \<times> string) \<times> deployment" where
  "cmdLink stamp config name d =
     (case Keys_views stamp config d of
        (Inl e, d) \<Rightarrow> (Inl (Store e), d)
      | (Inr (views, host), d) \<Rightarrow>
          (case find (\<lambda>v. kp_Name (kv_Profile v) = name) views of
             None \<Rightarrow> (Inl (NoKeyNamed name), d)
           | Some v \<Rightarrow> (Inr (host, kp_Secret (kv_Profile v), kv_Link v), d)))"

text \<open>The rows of \<open>list\<close>, with a dash for what is not set.\<close>

definition or_dash :: "string \<Rightarrow> string" where
  "or_dash s = (if s = [] then ''-'' else s)"

definition list_row :: "KeyView \<Rightarrow> string list" where
  "list_row v =
     [kp_Name (kv_Profile v), or_dash (km_Label (kv_Meta v)), or_dash (km_Group (kv_Meta v)),
      if kp_CarrierMode (kv_Profile v) = [] then ''https'' else kp_CarrierMode (kv_Profile v),
      kp_Secret (kv_Profile v), or_dash (km_Created (kv_Meta v))]"

definition cmdList ::
  "(string \<Rightarrow> string option) \<Rightarrow> string option \<Rightarrow> deployment \<Rightarrow> (command_error + string list list \<times> string) \<times> deployment" where
  "cmdList stamp config d =
     (case Keys_views stamp config d of
        (Inl e, d) \<Rightarrow> (Inl (Store e), d)
      | (Inr (views, host), d) \<Rightarrow> (Inr (map list_row views, host), d))"

text \<open>How full every backend is, and whether all of them are.\<close>

definition cmdBackends ::
  "deployment \<Rightarrow> (command_error + (string \<times> string \<times> nat \<times> int) list \<times> bool) \<times> deployment" where
  "cmdBackends d =
     (case LoadBackends d of
        Inl e \<Rightarrow> (Inl (Store e), d)
      | Inr registry \<Rightarrow>
          (case LoadProfiles d of
             (Inl e, d) \<Rightarrow> (Inl (Store e), d)
           | (Inr profs, d) \<Rightarrow>
               let usage = backendUsage profs in
               (Inr (map (\<lambda>b. (Address b, Unit b, usage (Address b),
                        int maxSecretsPerBackend - int (usage (Address b)))) registry,
                  \<not> list_ex (\<lambda>b. usage (Address b) < maxSecretsPerBackend) registry), d)))"

end
