(* ===== verification/Commands_Props.thy ===== *)
theory Commands_Props
  imports Commands
begin

text \<open>
  What the commands promise: a list of keys is imported as it was written, and an edit changes
  what it was told to change.
\<close>

subsection \<open>Importing what was exported\<close>

definition tsv_line :: "NewKeyRequest \<Rightarrow> string" where
  "tsv_line r = joined [CHR 0x09] [rq_Name r, rq_Label r, rq_Group r, rq_Mode r]"

text \<open>A field that a row can hold.\<close>

definition field_ok :: "string \<Rightarrow> bool" where
  "field_ok f \<longleftrightarrow> TrimSpace f = f \<and> CHR 0x09 \<notin> set f \<and> CHR 0x0A \<notin> set f"

definition row_ok :: "NewKeyRequest \<Rightarrow> bool" where
  "row_ok r \<longleftrightarrow> nameRE (rq_Name r) \<and> field_ok (rq_Label r) \<and> field_ok (rq_Group r) \<and> field_ok (rq_Mode r)"

lemma spaces_not_graphic: "w \<in> set spaces \<Longrightarrow> c \<in> set w \<Longrightarrow> \<not> graphic c"
  unfolding spaces_def set_map set_append image_Un
  by (elim UnE) (auto simp: graphic_def)

lemma trim_front_keeps:
  "\<forall>w \<in> set ws. c \<notin> set w \<Longrightarrow> c \<in> set s \<Longrightarrow> c \<in> set (trim_front ws s)"
proof (induction ws s rule: trim_front.induct)
  case (1 ws s)
  show ?case
  proof (cases "find (\<lambda>w. w \<noteq> [] \<and> HasPrefix s w) ws")
    case None
    then show ?thesis using 1 by (simp add: trim_front.simps)
  next
    case (Some w)
    then have w: "w \<in> set ws" "take (length w) s = w" by (auto simp: find_Some_iff HasPrefix_def)
    then have "s = w @ drop (length w) s" by (metis append_take_drop_id)
    then have "c \<in> set (drop (length w) s)" using "1.prems" w(1) by (metis UnE set_append)
    then show ?thesis using "1.IH" [OF Some "1.prems"(1)] Some by (simp add: trim_front.simps [of ws s])
  qed
qed

lemma TrimSpace_head:
  assumes "graphic c"
  shows "\<exists>rest. TrimSpace (c # s) = c # rest"
proof -
  have f: "trim_front spaces (c # s) = c # s"
    by (rule trim_front_graphic) (use assms spaces_ends in auto)
  have "c \<in> set (TrimSpace (c # s))"
    using trim_front_keeps [of "map rev spaces" c "rev (c # s)"] spaces_not_graphic assms
    by (auto simp: TrimSpace_def f)
  moreover obtain p where "rev (c # s) = p @ rev (TrimSpace (c # s))"
    using trim_front_suffix [of "rev (c # s)" "map rev spaces"] f by (auto simp: TrimSpace_def)
  then have "c # s = TrimSpace (c # s) @ rev p" by (metis rev_append rev_rev_ident)
  ultimately show ?thesis by (cases "TrimSpace (c # s)") auto
qed

lemma alnum_graphic: "alnum c \<Longrightarrow> graphic c"
  by (auto simp: alnum_def graphic_def)

lemma name_field:
  assumes "nameRE s"
  shows "s \<noteq> []" and "graphic (hd s)" and "hd s \<noteq> CHR ''#''" and "field_ok s"
proof -
  have "graphic CHR ''_''" "graphic CHR ''.''" "graphic CHR ''-''" by (simp_all add: graphic_def)
  then have g: "\<forall>c \<in> set s. graphic c"
    using assms by (cases s) (auto simp: nameRE_def list_all_iff alnum_graphic)
  show "s \<noteq> []" "hd s \<noteq> CHR ''#''" using assms by (auto simp: nameRE_def alnum_def)
  then show "graphic (hd s)" using g by simp
  have "TrimSpace s = s" using g \<open>s \<noteq> []\<close> by (intro TrimSpace_graphic) simp
  then show "field_ok s" using g by (auto simp: field_ok_def graphic_def)
qed

lemma trimmed_last: "TrimSpace s = s \<Longrightarrow> s \<noteq> [] \<Longrightarrow> last s \<noteq> CHR 0x0D"
proof
  assume t: "TrimSpace s = s" and "s \<noteq> []" and l: "last s = CHR 0x0D"
  then obtain u where u: "s = u @ [CHR 0x0D]" by (metis append_butlast_last_id)
  obtain a where a: "rev s = trim_front (map rev spaces) a" using t by (metis TrimSpace_def rev_rev_ident)
  have "[CHR 0x0D] \<in> set (map rev spaces)" by (simp add: spaces_def char_of_def bit_0)
  moreover have "\<forall>w \<in> set (map rev spaces). \<not> (w \<noteq> [] \<and> HasPrefix (rev s) w)"
    using trim_front_stops [of "map rev spaces" a] unfolding a [symmetric] find_None_iff by blast
  moreover have "HasPrefix (rev s) [CHR 0x0D]" by (simp add: u HasPrefix_def)
  ultimately show False by blast
qed

lemma row_line:
  assumes "row_ok r"
  shows "row_request (tsv_line r) = r" and "trim_returns (tsv_line r) = tsv_line r"
    and "CHR 0x0A \<notin> set (tsv_line r)"
    and "TrimSpace (tsv_line r) \<noteq> []" and "\<not> HasPrefix (TrimSpace (tsv_line r)) ''#''"
proof -
  let ?fields = "[rq_Name r, rq_Label r, rq_Group r, rq_Mode r]"
  have ok: "field_ok (rq_Name r)" "field_ok (rq_Label r)" "field_ok (rq_Group r)" "field_ok (rq_Mode r)"
    using assms name_field(4) by (auto simp: row_ok_def)
  have "Split (CHR 0x09) (tsv_line r) = ?fields"
    unfolding tsv_line_def by (rule Split_joined) (use ok in \<open>auto simp: field_ok_def\<close>)
  then show "row_request (tsv_line r) = r"
    using ok by (cases r) (simp add: row_request_def column_def field_ok_def)
  show "CHR 0x0A \<notin> set (tsv_line r)" using ok by (auto simp: tsv_line_def field_ok_def)
  have "last (tsv_line r) \<noteq> CHR 0x0D"
    using ok(4) trimmed_last [of "rq_Mode r"] by (auto simp: tsv_line_def field_ok_def last_append)
  moreover have "tsv_line r \<noteq> []" by (simp add: tsv_line_def)
  ultimately show "trim_returns (tsv_line r) = tsv_line r"
    by (cases "tsv_line r" rule: rev_cases) (simp_all add: trim_returns_def)
  note n = name_field [of "rq_Name r"]
  obtain c cs where c: "tsv_line r = c # cs" "c = hd (rq_Name r)"
    using n(1) assms by (cases "rq_Name r") (auto simp: row_ok_def tsv_line_def)
  then show "TrimSpace (tsv_line r) \<noteq> []" "\<not> HasPrefix (TrimSpace (tsv_line r)) ''#''"
    using TrimSpace_head [of c cs] n(2,3) assms by (auto simp: row_ok_def HasPrefix_def)
qed

lemma import_rows_lines:
  "\<forall>r \<in> set rs. row_ok r \<Longrightarrow> import_rows n requests (map tsv_line rs) = Inr (requests @ rs)"
proof (induction rs arbitrary: n requests)
  case (Cons r rs)
  then have r: "row_ok r" by simp
  have "rq_Name r \<noteq> []" using r name_field(1) by (simp add: row_ok_def)
  then show ?case using Cons row_line [OF r] by (simp add: Let_def)
qed simp

text \<open>
  C23: a list of keys is imported as it was written. When every name is valid and the other fields
  have no tabs, line ends or outer spaces, the rows written one per line and separated by tabs
  are read back as exactly these requests, in their order, comments and blank lines in between
  notwithstanding.
\<close>
theorem import_reads_rows:
  assumes "\<forall>r \<in> set rs. row_ok r" and "filter (\<lambda>line. line \<noteq> [] \<and> hd line \<noteq> CHR ''#'') ls = map tsv_line rs"
    and "\<forall>line \<in> set ls. CHR 0x0A \<notin> set line" and "ls \<noteq> []"
  shows "import_rows 0 [] (Split (CHR 0x0A) (joined newline ls)) = Inr rs"
proof -
  have skip: "import_rows n requests ls = Inr (requests @ rs)" for n requests
    using assms(1,2)
  proof (induction ls arbitrary: rs n requests)
    case (Cons line ls)
    show ?case
    proof (cases "line \<noteq> [] \<and> hd line \<noteq> CHR ''#''")
      case True
      then obtain r rs' where rs: "rs = r # rs'" "line = tsv_line r" "filter (\<lambda>line. line \<noteq> [] \<and> hd line \<noteq> CHR ''#'') ls = map tsv_line rs'"
        using Cons.prems(2) by (cases rs) auto
      have r: "row_ok r" "\<forall>r \<in> set rs'. row_ok r" using Cons.prems(1) rs(1) by auto
      have "rq_Name r \<noteq> []" using r name_field(1) by (simp add: row_ok_def)
      then show ?thesis using Cons.IH [OF r(2) rs(3)] row_line [OF r(1)] rs(1,2) by (simp add: Let_def)
    next
      case False
      then have f: "filter (\<lambda>line. line \<noteq> [] \<and> hd line \<noteq> CHR ''#'') ls = map tsv_line rs" using Cons.prems(2) by auto
      have "TrimSpace (trim_returns line) = [] \<or> HasPrefix (TrimSpace (trim_returns line)) ''#''"
      proof (cases line)
        case Nil
        then show ?thesis using TrimSpace_graphic [of "[]"] by (simp add: trim_returns_def)
      next
        case (Cons c cs)
        then have c: "c = CHR ''#''" using False by simp
        obtain cs' where t: "trim_returns (CHR ''#'' # cs) = CHR ''#'' # cs'"
          by (rule that [of "rev (dropWhile (\<lambda>c. c = CHR 0x0D) (rev cs))"]) (auto simp: trim_returns_def dropWhile_append)
        have "graphic CHR ''#''" by (simp add: graphic_def)
        then show ?thesis using TrimSpace_head [of "CHR ''#''" cs'] Cons c t by (auto simp: HasPrefix_def)
      qed
      then show ?thesis using Cons.IH [OF Cons.prems(1) f] by (simp add: Let_def)
    qed
  qed simp
  have "Split (CHR 0x0A) (joined newline ls) = ls"
    unfolding newline_def by (rule Split_joined) (use assms(3,4) in auto)
  then show ?thesis using skip [of 0 "[]"] by simp
qed

subsection \<open>Editing\<close>




theorem import_reads_rows_witness:
  "import_rows 0 [] (Split (CHR 0x0A) (joined newline [''# keys'', tsv_line (add_request ''a''), []])) = Inr [add_request ''a'']"
proof (rule import_reads_rows)
  have "row_ok (add_request ''a'')"
    by (simp add: row_ok_def add_request_def nameRE_def alnum_def field_ok_def one_letter)
  then show "\<forall>r \<in> set [add_request ''a'']. row_ok r" by simp
qed (auto simp: tsv_line_def add_request_def)


end
