(* ===== verification/Command_Line.thy ===== *)
theory Command_Line
  imports Commands_Props
begin

text \<open>
  The program \<open>tproxy-keys\<close> as it is called (\<open>keys-panel/main.go\<close>): its flags, the commands that
  only report, and \<open>main\<close>, which runs one command. Flags are parsed as Go's \<open>flag\<close> does when all of
  them are strings. Written one after the other they are read back, and a command that reports
  changes nothing.
\<close>

subsection \<open>Flags\<close>

datatype flag_result = FlagHelp | FlagError | Flags "(string, string) assoc"

text \<open>A flag is written with one dash or two; its value follows an equals sign or is the next argument.\<close>

definition flag_text :: "string \<Rightarrow> string" where
  "flag_text s = (if s ! 1 = CHR ''-'' then drop 2 s else drop 1 s)"

fun parse_flags :: "string list \<Rightarrow> (string, string) assoc \<Rightarrow> string list \<Rightarrow> flag_result" where
  "parse_flags known given [] = Flags given"
| "parse_flags known given (s # rest) =
     (if length s < 2 \<or> hd s \<noteq> CHR ''-'' \<or> s = ''--'' then Flags given
      else let body = flag_text s in
        if hd body = CHR ''-'' \<or> hd body = CHR ''='' then FlagError
        else
          let name = hd body # takeWhile (\<lambda>c. c \<noteq> CHR ''='') (tl body);
              tail = dropWhile (\<lambda>c. c \<noteq> CHR ''='') (tl body) in
          if name \<notin> set known then (if name = ''help'' \<or> name = ''h'' then FlagHelp else FlagError)
          else if tail \<noteq> [] then parse_flags known (AList.update name (tl tail) given) rest
          else case rest of
            [] \<Rightarrow> FlagError
          | v # rest \<Rightarrow> parse_flags known (AList.update name v given) rest)"

definition flag_or :: "(string, string) assoc \<Rightarrow> string \<Rightarrow> string \<Rightarrow> string" where
  "flag_or given name default_value = (case map_of given name of None \<Rightarrow> default_value | Some v \<Rightarrow> v)"

subsection \<open>Commands that report\<close>

text \<open>
  \<open>readyState\<close> from the status and the first bytes of the answer, at most 64, or \<open>None\<close> when there
  was none; \<open>unitActive\<close> from what the service manager printed.
\<close>

definition readyState :: "(nat \<times> string) option \<Rightarrow> string option" where
  "readyState answer =
     (case answer of
        None \<Rightarrow> None
      | Some (status, bytes) \<Rightarrow> Some (if status \<noteq> 200 then TrimSpace (take 64 bytes) else ''ready''))"

definition unitActive :: "(string \<Rightarrow> string) \<Rightarrow> string \<Rightarrow> bool" where
  "unitActive is_active service \<longleftrightarrow> TrimSpace (is_active service) = ''active''"

record status_report =
  sr_Error :: "panel_error option"
  sr_Hostname :: string
  sr_Keys :: nat
  sr_Ready :: string
  sr_Units :: "(string \<times> bool) list"

definition status_units :: "string list" where
  "status_units = [''caddy.service'', ''mtproxy.service'', ''tproxy-server.service'', ''tproxy-keys.service'']"

definition cmdStatus ::
  "(string \<Rightarrow> string option) \<Rightarrow> string option \<Rightarrow> (nat \<times> string) option \<Rightarrow> (string \<Rightarrow> string) \<Rightarrow> deployment
     \<Rightarrow> status_report \<times> deployment" where
  "cmdStatus stamp config answer is_active d =
     (case Keys_views stamp config d of (res, d) \<Rightarrow>
      let (failure, views, host) = (case res of Inl e \<Rightarrow> (Some e, [], []) | Inr (views, host) \<Rightarrow> (None, views, host)) in
      (\<lparr>sr_Error = failure, sr_Hostname = host, sr_Keys = length views,
        sr_Ready = (case readyState answer of None \<Rightarrow> ''unreachable'' | Some state \<Rightarrow> state),
        sr_Units = map (\<lambda>u. (u, unitActive is_active u)) status_units\<rparr>, d))"

definition cmdToken ::
  "string option \<Rightarrow> deployment \<Rightarrow> (command_error + string) \<times> string option \<times> deployment" where
  "cmdToken token_file d =
     (case ensureToken token_file d of
        (Inl e, rest) \<Rightarrow> (Inl (Store e), rest)
      | (Inr token, rest) \<Rightarrow> (Inr token, rest))"

subsection \<open>The program\<close>

text \<open>
  What the surroundings contribute to a call; \<open>cl_read\<close> reads a file. The file of the token is
  beside the machine, as in \<open>ensureToken\<close>.
\<close>

record call_world =
  cl_root :: bool
  cl_provision :: "deployment \<Rightarrow> bool \<times> deployment"
  cl_check :: "KeyProfile list \<Rightarrow> bool"
  cl_now :: string
  cl_stamp :: "string \<Rightarrow> string option"
  cl_hostname :: "string option"
  cl_read :: "string \<Rightarrow> string option"
  cl_ready :: "(nat \<times> string) option"
  cl_is_active :: "string \<Rightarrow> string"
  cl_randoms :: "byte list option list"

text \<open>What a call prints.\<close>

datatype printed =
    UsageText | KeyTable "string list list" string | KeyShown string "string \<times> string \<times> string"
  | LinkShown "string \<times> string \<times> string" | ImportTable "(string \<times> string \<times> string) list"
  | EditedKey string | RevokedKey string | StatusShown status_report
  | BackendTable "(string \<times> string \<times> nat \<times> int) list" bool | Synced | TokenShown string

text \<open>
  A call ends with status 0 and its output, fails with a message and status 1, exits with a
  status, or goes on to serve the panel.
\<close>

datatype ending = Prints printed | Fails command_error | Exits nat | Serves panel

definition with_flags ::
  "string list \<Rightarrow> string list \<Rightarrow> ((string, string) assoc \<Rightarrow> deployment \<Rightarrow> ending \<times> deployment)
     \<Rightarrow> deployment \<Rightarrow> ending \<times> deployment" where
  "with_flags known arguments run d =
     (case parse_flags known [] arguments of
        FlagHelp \<Rightarrow> (Exits 0, d)
      | FlagError \<Rightarrow> (Exits 2, d)
      | Flags given \<Rightarrow> run given d)"

definition ended :: "('a \<Rightarrow> printed) \<Rightarrow> (command_error + 'a) \<times> deployment \<Rightarrow> ending \<times> deployment" where
  "ended show res = (case res of (Inl e, d) \<Rightarrow> (Fails e, d) | (Inr v, d) \<Rightarrow> (Prints (show v), d))"

definition run_flag_command :: "call_world \<Rightarrow> string \<Rightarrow> string list \<Rightarrow> deployment \<Rightarrow> ending \<times> deployment" where
  "run_flag_command w command arguments d =
     (if command = ''add'' then with_flags [''name'', ''label'', ''group'', ''mode''] arguments (\<lambda>given d.
         ended (\<lambda>(name, shown). KeyShown name shown)
           (cmdAdd (cl_provision w) (cl_check w) (cl_now w) (cl_hostname w)
             \<lparr>rq_Name = flag_or given ''name'' [], rq_Label = flag_or given ''label'' [],
              rq_Group = flag_or given ''group'' [], rq_Mode = flag_or given ''mode'' []\<rparr> d)) d
      else if command = ''import'' then with_flags [''file''] arguments (\<lambda>given d.
         let path = flag_or given ''file'' [] in
         ended ImportTable (cmdImport (cl_provision w) (cl_check w) (cl_now w) (cl_hostname w) path (cl_read w path) d)) d
      else if command = ''edit'' then with_flags [''name'', ''label'', ''group''] arguments (\<lambda>given d.
         let name = flag_or given ''name'' [] in
         ended (\<lambda>_. EditedKey name)
           (cmdEdit (cl_stamp w) (cl_hostname w) (cl_now w) name (map_of given ''label'') (map_of given ''group'') d)) d
      else if command = ''revoke'' then with_flags [''name''] arguments (\<lambda>given d.
         let name = flag_or given ''name'' [] in ended (\<lambda>_. RevokedKey name) (cmdRevoke (cl_check w) name d)) d
      else if command = ''rotate'' then with_flags [''name''] arguments (\<lambda>given d.
         ended (\<lambda>(name, shown). KeyShown name shown)
           (cmdRotate (cl_check w) (cl_hostname w) (flag_or given ''name'' []) d)) d
      else with_flags [''name''] arguments (\<lambda>given d.
         ended LinkShown (cmdLink (cl_stamp w) (cl_hostname w) (flag_or given ''name'' []) d)) d)"

definition run_plain_command :: "call_world \<Rightarrow> string \<Rightarrow> deployment \<Rightarrow> ending \<times> deployment" where
  "run_plain_command w command d =
     (if command = ''list'' then ended (\<lambda>(rows, host). KeyTable rows host) (cmdList (cl_stamp w) (cl_hostname w) d)
      else if command = ''status'' then
        (case cmdStatus (cl_stamp w) (cl_hostname w) (cl_ready w) (cl_is_active w) d of (shown, d) \<Rightarrow> (Prints (StatusShown shown), d))
      else if command = ''backends'' then ended (\<lambda>(rows, full). BackendTable rows full) (cmdBackends d)
      else (case Sync d of (Some e, d) \<Rightarrow> (Fails (Store e), d) | (None, d) \<Rightarrow> (Prints Synced, d)))"

text \<open>
  \<open>serve\<close> and \<open>token\<close> can write the file of the token. A call of \<open>serve\<close> that fails exits with
  status 1; what it tried on the way is not followed.
\<close>

definition run_serve :: "call_world \<Rightarrow> string list \<Rightarrow> string option \<Rightarrow> deployment \<Rightarrow> ending \<times> string option \<times> deployment" where
  "run_serve w arguments token_file d =
     (case parse_flags [''listen''] [] arguments of
        FlagHelp \<Rightarrow> (Exits 0, token_file, d)
      | FlagError \<Rightarrow> (Exits 2, token_file, d)
      | Flags given \<Rightarrow>
          (case cmdServe (flag_or given ''listen'' ''127.0.0.1:9000'') token_file d (cl_randoms w) of
             None \<Rightarrow> (Exits 1, token_file, d)
           | Some (p, token_file) \<Rightarrow> (Serves p, token_file, machine p)))"

definition main_keys :: "call_world \<Rightarrow> string list \<Rightarrow> string option \<Rightarrow> deployment \<Rightarrow> ending \<times> string option \<times> deployment" where
  "main_keys w args token_file d =
     (case args of
        program # command # arguments \<Rightarrow>
          if \<not> cl_root w then (Exits 1, token_file, d)
          else if command \<in> {''add'', ''import'', ''edit'', ''revoke'', ''rotate'', ''link''} then
            (case run_flag_command w command arguments d of (e, d) \<Rightarrow> (e, token_file, d))
          else if command \<in> {''list'', ''status'', ''backends'', ''sync''} then
            (case run_plain_command w command d of (e, d) \<Rightarrow> (e, token_file, d))
          else if command = ''serve'' then run_serve w arguments token_file d
          else if command = ''token'' then
            (case cmdToken token_file d of
               (Inl e, rest) \<Rightarrow> (Fails e, rest)
             | (Inr token, rest) \<Rightarrow> (Prints (TokenShown token), rest))
          else if command \<in> {''-h'', ''--help'', ''help''} then (Prints UsageText, token_file, d)
          else (Exits 2, token_file, d)
      | _ \<Rightarrow> (Exits 2, token_file, d))"

subsection \<open>What a call is told and what it leaves\<close>

text \<open>A name that can be written as a flag.\<close>

definition flag_name :: "string \<Rightarrow> bool" where
  "flag_name name \<longleftrightarrow> name \<noteq> [] \<and> hd name \<noteq> CHR ''-'' \<and> CHR ''='' \<notin> set name"

lemma flag_parsed:
  assumes "flag_name name" "name \<in> set known"
  shows "parse_flags known given ((CHR ''-'' # name) # v # rest) = parse_flags known (AList.update name v given) rest"
    and "parse_flags known given ((CHR ''-'' # name @ CHR ''='' # v) # rest) = parse_flags known (AList.update name v given) rest"
proof -
  obtain c cs where n: "name = c # cs" "c \<noteq> CHR ''-''" "c \<noteq> CHR ''=''" "CHR ''='' \<notin> set cs"
    using assms(1) by (cases name) (auto simp: flag_name_def)
  have t: "takeWhile (\<lambda>c. c \<noteq> CHR ''='') cs = cs" "dropWhile (\<lambda>c. c \<noteq> CHR ''='') cs = []"
    "takeWhile (\<lambda>c. c \<noteq> CHR ''='') (cs @ CHR ''='' # v) = cs" "dropWhile (\<lambda>c. c \<noteq> CHR ''='') (cs @ CHR ''='' # v) = CHR ''='' # v"
    using n(4) by (auto simp: takeWhile_append dropWhile_append takeWhile_eq_all_conv dropWhile_eq_Nil_conv)
  show "parse_flags known given ((CHR ''-'' # name) # v # rest) = parse_flags known (AList.update name v given) rest"
    "parse_flags known given ((CHR ''-'' # name @ CHR ''='' # v) # rest) = parse_flags known (AList.update name v given) rest"
    using n(1-3) assms(2) by (simp_all add: flag_text_def Let_def t)
qed

text \<open>One argument with an equals sign, or two.\<close>

fun flag_args :: "bool \<times> string \<times> string \<Rightarrow> string list" where
  "flag_args (joined_form, name, v) = (if joined_form then [CHR ''-'' # name @ CHR ''='' # v] else [CHR ''-'' # name, v])"

text \<open>Flags written in either form, with values of any text, are read back.\<close>

lemma flags_read_back:
  "list_all (\<lambda>(_, name, _). flag_name name \<and> name \<in> set known) fs \<Longrightarrow>
     parse_flags known given (concat (map flag_args fs)) = Flags (fold (\<lambda>(_, name, v). AList.update name v) fs given)"
proof (induction fs arbitrary: given)
  case (Cons f fs)
  obtain b name v where f: "f = (b, name, v)" by (cases f) auto
  then show ?case using Cons flag_parsed [of name known] by (cases b) auto
qed simp

lemma LoadProfiles_same: "LoadProfiles d = (res, d') \<Longrightarrow> same_machine d d'"
  by (auto simp: LoadProfiles_def split: prod.splits if_splits profiles_content.splits option.splits dest: attempt_step(1))

lemma Keys_views_same: "Keys_views stamp config d = (res, d') \<Longrightarrow> same_machine d d'"
  by (auto simp: Keys_views_def Let_def split: prod.splits sum.splits dest: LoadProfiles_same)

text \<open>
  The commands that report, and the calls that run no command, leave every file and service
  as it was.
\<close>

lemma reports_change_nothing:
  assumes "main_keys w (program # command # arguments) token_file d = (e, token_file', d')"
    and "command \<notin> {''add'', ''import'', ''edit'', ''revoke'', ''rotate'', ''sync'', ''serve'', ''token''} \<or> \<not> cl_root w"
  shows "same_machine d d' \<and> token_file' = token_file"
proof -
  have "same_machine d d1" if "run_flag_command w ''link'' arguments d = (x, d1)" for x d1
    using that by (auto simp: run_flag_command_def with_flags_def ended_def cmdLink_def same_machine_refl
      split: flag_result.splits prod.splits sum.splits option.splits dest: Keys_views_same)
  moreover have "same_machine d d1" if "run_plain_command w command d = (x, d1)" "command \<noteq> ''sync''"
      "command \<in> {''list'', ''status'', ''backends'', ''sync''}" for x d1
    using that by (auto simp: run_plain_command_def ended_def cmdList_def cmdStatus_def cmdBackends_def Let_def same_machine_refl
      split: prod.splits sum.splits dest: Keys_views_same LoadProfiles_same)
  ultimately show ?thesis
    using assms by (auto simp: main_keys_def same_machine_refl split: if_splits prod.splits)
qed

end
