(* ===== verification/Spec2Isabelle.thy ===== *)
theory Spec2Isabelle
  imports Uplink_Props Backend_Props Manager_Props Server_Props Socket Boot Command_Line
begin

text \<open>
  A verification development for the relay \<open>tproxy-server\<close>, which carries many TCP streams
  between browsers and MTProxy backends over HTTP polls and web sockets.

  \<^bold>\<open>The program.\<close> A client gets a bootstrap token, exchanges it for a session, sends batches of
  frames uplink and polls for batches downlink. \<open>internal/frame/frame.go\<close> encodes and parses the
  frames. \<open>internal/session/session.go\<close> keeps a session: its streams, the queue of frames for the
  client, the bytes that wait for a backend, the batch a poll has not yet acknowledged, and a
  ring of the ids of closed streams. A session runs either one multiplexed carrier, with a queue
  of its own, or one lane per carrier. A goroutine per backend dials, and then a writer and a reader
  move bytes between the connection and the session. \<open>internal/session/manager.go\<close> owns the
  bootstraps, the sessions and every global count: pending bytes and items, live streams, dials in
  flight, rate limits. A session reaches the manager through callbacks only. \<open>token.go\<close> makes and
  classifies tokens, \<open>internal/config/config.go\<close> holds the limits. \<open>internal/server/server.go\<close> is
  the HTTP front: it hides the relay behind a public site, and only a request that carries a token
  or a capability (\<open>secrets.go\<close>) reaches the handlers. A browser that carries its capability first gets a page with
  a bootstrap token in it (\<open>internal/bridge/page.go\<close>), and \<open>cmd/tproxy-server/main.go\<close> puts the relay
  together from its configuration. \<open>keys-panel\<close> is a program beside the relay: its store edits the
  profiles file and the files of the backends and restarts the services, and a command line
  (\<open>main.go\<close>) and a web front on the loopback interface (\<open>web.go\<close>) use that store.

  \<^bold>\<open>How the model follows it.\<close> A struct is a record with the fields of the code, a method a function
  with its name that takes and returns the state. A Go \<open>int\<close> is an \<open>int\<close> (the theorems bound the
  values), an unsigned integer a word of its width, so that it wraps. A method that can panic
  returns an option, \<open>None\<close> being the panic; an error of the code is a value of a sum type. What
  happens with the lock held is one step; a goroutine or a handler that waits gives up the lock
  between two steps, and each step takes the state it finds. An object another goroutine keeps a
  pointer to has a number of its own: a backend, a lane, a session and a waiting poll.

    \<^item> \<open>Prelude\<close>: integers and lists, association lists, options with postconditions.
    \<^item> \<open>Frame\<close>: \<open>Encode\<close>, \<open>ParseAll\<close>, \<open>ParseHello\<close>, \<open>WindowPayload\<close> and \<open>ValidateClientShape\<close>
      of \<open>frame.go\<close>. The parser accepts exactly the encodings of batches within its bounds.
    \<^item> \<open>Config\<close>: the limits and time-outs, their defaults and checks, the limits of a profile, the
      base path.
    \<^item> \<open>Budget\<close>: the parts of the pending budget kept free for control frames and for the uplink,
      and \<open>ValidateBudget\<close>.
    \<^item> \<open>Callbacks\<close>: the callbacks of a session as a record over any owner state, and the locale
      \<open>session_owner\<close> with the laws a session needs of them. The lemmas about sessions are proved in
      this locale; \<open>Ledger\<close> interprets it with the manager's own callbacks.
    \<^item> \<open>Lane\<close>, \<open>Queue\<close>: a queue of frames for the client with coalescing of data and of window
      credit, and its abstraction: the bytes and ends queued for each stream and the credit queued
      for it. Queueing appends to this view, taking a batch splits it.
    \<^item> \<open>Session\<close>, \<open>Session_Inv\<close>, \<open>Session_Ops\<close>, \<open>Stream_Count\<close>: the session, its invariant
      \<open>session_ok\<close> (the pending counters are sums over queues, unacknowledged batches and unwritten
      bytes; window and unwritten bytes add up to the initial window; the tombstones form a ring
      without repetition) and the operations the handlers share: reserving, queueing, releasing a
      lane, remembering a closed stream, closing.
    \<^item> \<open>Uplink\<close>, \<open>Uplink_Inv\<close>, \<open>Uplink_Handlers\<close>, \<open>Uplink_Lanes\<close>, \<open>Uplink_Props\<close>: \<open>ProcessUp\<close> and
      \<open>ProcessUpLane\<close>, from the parser to the recorded digest. Validation on the snapshot predicts
      the application exactly, with the one exception the properties state.
    \<^item> \<open>Downlink\<close>, \<open>Downlink_Inv\<close>, \<open>Downlink_Props\<close>: \<open>Poll\<close> and \<open>PollLane\<close> up to the point where they
      wait, and each way the wait ends (cancelled, replaced, session closed, deadline, signal).
    \<^item> \<open>Backend\<close>, \<open>Backend_Inv\<close>, \<open>Backend_Props\<close>: what a backend's writer, its reader and its end do
      to the session. Their loops are machines whose inputs are the answers of the connection; the
      loop over one chunk is also written as a function, which ends because every round leaves
      fewer bytes.
    \<^item> \<open>Base64\<close>, \<open>Sha256\<close>, \<open>Token\<close>: \<open>token.go\<close> over the standard library's base64, SHA-256 and HMAC,
      all executable.
    \<^item> \<open>Float64\<close>, \<open>Ledger\<close>: the counters of the manager with \<open>changePendingBudget\<close>, \<open>acquireStream\<close> and
      the deferred callbacks, and the token buckets in rounded floating point.
    \<^item> \<open>Manager\<close>, \<open>Manager_Inv\<close>, \<open>Manager_Ops\<close>, \<open>Manager_Props\<close>: bootstraps, \<open>Create\<close>, the table of
      sessions, clean-up, shutdown, the end of a session, and the invariant \<open>manager_ok\<close>: every count
      is the sum it stands for.
    \<^item> \<open>Relay\<close>, \<open>Relay_Inv\<close>, \<open>Relay_Props\<close>: all of it as one step relation, with the goroutines of
      the backends. Requests, polls, backend steps, clean-ups and shutdowns happen in any order;
      the reachable states keep every invariant above, no event panics, the counters are exact and
      within the limits, and the relay can always come to rest.
    \<^item> \<open>Text\<close>, \<open>Net\<close>: what the server uses of Go's strings, numbers and addresses, and its parsers
      of header values, with one accepted spelling for every number and credential.
    \<^item> \<open>Secrets\<close>: a request, and the scan of its metadata for secrets, equal to the search for a
      window of 43 characters.
    \<^item> \<open>Server\<close>, \<open>Server_Inv\<close>, \<open>Server_Props\<close>: \<open>serveHTTP\<close> and the handlers over the manager. Every
      request is answered and leads to a reachable state of the relay; secrets do not leave it;
      without a secret there is nothing to see.
    \<^item> \<open>Socket\<close>: the reader and the writer of a web socket as machines over the session, in step
      with its sequence numbers and cursors.
    \<^item> \<open>Paths\<close>, \<open>Site\<close>: Go's operations on slash-separated paths, the public site with its files and
      routes (\<open>site.go\<close>), and the admin pages. The site shows the files of its directory and nothing
      else; the metrics are the counters the relay theorems speak about.
    \<^item> \<open>Startup\<close>: the rest of \<open>config.go\<close>, up to \<open>Load\<close>: host names, addresses, secrets, capabilities
      and the profiles file. What \<open>Load\<close> accepts meets the hypotheses of the relay theorems.
    \<^item> \<open>Keys\<close>, \<open>Keys_Props\<close>, \<open>Keys_Commands\<close>: the key store of the panel (\<open>keys-panel/store.go\<close>). The
      machine it runs on is a state, and every operation of the system takes its outcome from a
      list, so that a fault can happen at every step: what \<open>Apply\<close> installs, what it restores, and
      what the commands that add, revoke and rotate keys do.
    \<^item> \<open>Views\<close>: the views of the keys with their bookkeeping and their links, in their order.
    \<^item> \<open>Panel\<close>, \<open>Panel_Props\<close>: \<open>web.go\<close>: the sessions in memory, the guard with its four checks, the
      handlers, and \<open>panel_run\<close>, any sequence of requests to a panel that was started. Nobody changes
      a key without the token; two requests that overlap can lose one.
    \<^item> \<open>Commands\<close>, \<open>Commands_Props\<close>: the commands of \<open>keys-panel/main.go\<close> once their flags are parsed:
      what an import reads, what an edit touches.
    \<^item> \<open>Command_Line\<close>: the rest of \<open>keys-panel/main.go\<close>: flags, the status report, and \<open>main\<close>, which runs
      one command. Flags are read back as they were written; a command that reports changes nothing.
    \<^item> \<open>Bridge\<close>: \<open>Render\<close> of \<open>page.go\<close>: which sources the policy of the page allows, what is filled
      into the document, and the answer of the server that carries it.
    \<^item> \<open>Boot\<close>: the file of the token key, \<open>New\<close> and \<open>main\<close> up to its listeners. A relay that starts
      meets the hypotheses of the server theorems.

  \<^bold>\<open>Bounds.\<close> No function runs on fuel. The parser ends because each frame shortens the input, the
  loops over lists are structural, and the loop of a writer has a measure. A wait is a value
  (\<open>Parked\<close>, \<open>Waiting\<close>), never a loop. The clock is an argument and only moves forward.

  \<^bold>\<open>Assumptions.\<close> An event of the relay is possible (\<open>enabled\<close>) when the code can get to it: a
  connection reads at most what it was asked for, new random tokens do not collide, and, for
  \<open>ProcessUp\<close> alone, the batch evicts no tombstone it mentions, since such a batch can panic
  (\<open>ProcessUp_evicted_tombstone_panics\<close>). The order in which Go runs through a map is the order of
  an association list; no property depends on it.

  A request is what Go's library parsed; \<open>mime.ParseMediaType\<close>, the sub-protocols and the upgrade of
  a web socket (a third-party package) and the random bytes are arguments (\<open>surroundings\<close>).

  \<^bold>\<open>Not modelled.\<close> The document of the bridge page with its script is an argument, and so are the
  pages of the panel (\<open>ui.go\<close>): both are text for a browser. The layout of tables, the messages
  of errors and the flags of the relay are left out, and of the relay's \<open>main\<close> its listeners,
  signals and time-outs. Files are what they decode to: the text of JSON is not
  modelled, nor are the reverse proxy to another public site and the range requests of the
  library. Timers and the memory model of Go are outside the model: a step under the lock is
  atomic, and that every access is under the lock is read off the code.
\<close>

end
